(* ===== verification/Prelude.thy ===== *)
theory Prelude
  imports Main "HOL-Library.Word" "HOL-Library.Char_ord"
begin

text \<open>
  Vocabulary shared by every theory of the development: the types that stand for Go's strings,
  UUIDs and instants, Go's error values with \<open>errors.Is\<close> and \<open>fmt.Errorf\<close>'s \<open>%w\<close>, the shape of an
  operation on the state of the program, the collections of lemmas the components share, and the
  generic facts about lists and maps they use.

  A Go string or byte slice is a sequence of bytes, so it is a \<^typ>\<open>string\<close> here (a list of
  \<^typ>\<open>char\<close>, and a \<^typ>\<open>char\<close> of HOL is a byte). A \<open>uuid.UUID\<close> is 16 bytes compared bytewise,
  most significant byte first, which is the unsigned order of a 128-bit word. A \<open>time.Time\<close> is
  the instant it denotes, in nanoseconds since the Unix epoch.
\<close>

subsection \<open>Types\<close>

type_synonym uuid = "128 word"
type_synonym instant = int
type_synonym duration = int

text \<open>
  The sentinel errors of the program (\<open>errors.New\<close> values that callers compare with \<open>errors.Is\<close>),
  and the two sentinels of the libraries it branches on (\<open>pgx.ErrNoRows\<close>, \<open>redis.Nil\<close>). The
  packages \<open>codes\<close> and \<open>users\<close> both call one of theirs \<open>ErrNotFound\<close>.
\<close>

datatype sentinel =
    CodesErrNotFound | ErrSlugTaken
  | ErrDynamicUnsupported | ErrDynamicURLRequired | ErrNotDynamic
  | ErrSlugGenerationFailed | ErrInvalidCursor | ErrUnsafeDestination
  | UsersErrNotFound | ErrEmailTaken
  | ErrAlreadyUpgraded | ErrInvalidCredentials | ErrInvalidToken
  | ErrInvalidHash | ErrIncompatibleVersion
  | ErrUnsupportedType | ErrMissingURL
  | PgErrNoRows | RedisNil | ErrServerClosed

text \<open>
  An error value: a sentinel, a \<open>pgconn.PgError\<close> with its SQLSTATE code, any other error with its
  message, or an error wrapped by \<open>fmt.Errorf\<close> with the \<open>%w\<close> verb.
\<close>

datatype err =
    Sentinel sentinel
  | PgError string
  | Err string
  | Wrap string err

text \<open>\<open>errors.Is\<close> and \<open>errors.As\<close> follow the chain of wrapped errors.\<close>

fun errors_is :: "err \<Rightarrow> sentinel \<Rightarrow> bool" where
  "errors_is (Sentinel s) t = (s = t)"
| "errors_is (PgError _) t = False"
| "errors_is (Err _) t = False"
| "errors_is (Wrap _ e) t = errors_is e t"

fun errors_as_pg :: "err \<Rightarrow> string option" where
  "errors_as_pg (Sentinel _) = None"
| "errors_as_pg (PgError code) = Some code"
| "errors_as_pg (Err _) = None"
| "errors_as_pg (Wrap _ e) = errors_as_pg e"

text \<open>
  An operation of the program on a state \<open>'w\<close>: it returns a value or an error (\<^const>\<open>Inl\<close>), and
  the state after it. Operations whose only result is an \<open>error\<close> return an option.
\<close>

type_synonym ('w, 'a) act = "'w \<Rightarrow> (err + 'a) \<times> 'w"
type_synonym 'w eact = "'w \<Rightarrow> err option \<times> 'w"

subsection \<open>Shared collections of lemmas\<close>

named_theorems frame_simps \<open>what an operation leaves unchanged\<close>
named_theorems inv_intros \<open>operations preserve the invariants of the store\<close>
named_theorems go_defs \<open>unfolding of the small library functions\<close>

subsection \<open>Lists\<close>

lemma distinct_map_filterI [intro]:
  "distinct (map f xs) \<Longrightarrow> distinct (map f (filter P xs))"
  by (rule distinct_map_filter)

lemma filter_key_unique:
  assumes "distinct (map f xs)" "x \<in> set xs"
  shows "filter (\<lambda>y. f y = f x) xs = [x]"
  using assms
proof (induction xs)
  case Nil
  then show ?case by simp
next
  case (Cons a xs)
  show ?case
  proof (cases "x = a")
    case True
    with Cons.prems(1) have "\<forall>y \<in> set xs. f y \<noteq> f a"
      by (auto simp: image_iff)
    with True show ?thesis by (simp add: filter_empty_conv)
  next
    case False
    with Cons.prems have "x \<in> set xs" and "f a \<noteq> f x"
      by (auto simp: image_iff)
    with Cons show ?thesis by simp
  qed
qed

lemma distinct_map_eqD:
  "distinct (map f xs) \<Longrightarrow> x \<in> set xs \<Longrightarrow> y \<in> set xs \<Longrightarrow> f x = f y \<Longrightarrow> x = y"
  by (metis distinct_map inj_onD)

lemma map_if_key_id:
  "(\<And>x. f (if P x then g x else x) = f x) \<Longrightarrow>
   map f (map (\<lambda>x. if P x then g x else x) xs) = map f xs"
  by (induction xs) simp_all

lemma sum_list_count_eq:
  assumes "set ks = f ` set xs" "distinct ks"
  shows "sum_list (map (\<lambda>k. length (filter (\<lambda>x. f x = k) xs)) ks) = length xs"
  using assms
proof (induction xs arbitrary: ks rule: length_induct)
  case (1 xs)
  show ?case
  proof (cases ks)
    case Nil
    with 1(2) show ?thesis by simp
  next
    case (Cons k ks')
    let ?ys = "filter (\<lambda>x. f x \<noteq> k) xs"
    have "k \<in> f ` set xs" using Cons 1(2) by (metis list.set_intros(1))
    then obtain x where x: "x \<in> set xs" "f x = k" by blast
    then have short: "length ?ys < length xs"
      by (intro length_filter_less) auto
    have "set ks' = f ` set ?ys" using Cons 1(2,3) by auto
    moreover have "distinct ks'" using Cons 1(3) by simp
    ultimately have IH:
      "sum_list (map (\<lambda>j. length (filter (\<lambda>x. f x = j) ?ys)) ks') = length ?ys"
      using 1(1) short by blast
    have same: "length (filter (\<lambda>x. f x = j) ?ys) = length (filter (\<lambda>x. f x = j) xs)"
      if "j \<in> set ks'" for j
      using that Cons 1(3) by (auto intro!: arg_cong [where f = length] filter_cong)
    have "sum_list (map (\<lambda>j. length (filter (\<lambda>x. f x = j) xs)) ks') = length ?ys"
      using IH same by (metis (no_types, lifting) map_eq_conv)
    then show ?thesis
      using Cons sum_length_filter_compl [of "\<lambda>x. f x = k" xs] by simp
  qed
qed

subsection \<open>Maps\<close>

lemma map_le_upd_None [intro]: "m(k := None) \<subseteq>\<^sub>m m"
  by (auto simp: map_le_def)

lemma map_leI: "(\<And>k v. m k = Some v \<Longrightarrow> m' k = Some v) \<Longrightarrow> m \<subseteq>\<^sub>m m'"
  by (force simp: map_le_def)

lemma map_leD: "m \<subseteq>\<^sub>m m' \<Longrightarrow> m k = Some v \<Longrightarrow> m' k = Some v"
  by (metis domI map_le_def)

subsection \<open>Tables\<close>

text \<open>
  A table is a list of rows with a key; \<open>lookup\<close> finds the row of a key. Where keys are distinct,
  the operations of SQL on the list are updates of the map \<open>lookup key rows\<close>.
\<close>

definition lookup :: "('a \<Rightarrow> 'k) \<Rightarrow> 'a list \<Rightarrow> 'k \<Rightarrow> 'a option" where
  "lookup f xs k = List.find (\<lambda>x. f x = k) xs"

lemma lookup_Nil [simp]: "lookup f [] k = None"
  by (simp add: lookup_def)

lemma lookup_Cons: "lookup f (x # xs) k = (if f x = k then Some x else lookup f xs k)"
  by (simp add: lookup_def)

lemma lookup_NoneI: "k \<notin> f ` set xs \<Longrightarrow> lookup f xs k = None"
  by (induction xs) (auto simp: lookup_Cons)

lemma lookup_None_iff: "lookup f xs k = None \<longleftrightarrow> k \<notin> f ` set xs"
  by (induction xs) (auto simp: lookup_Cons)

lemma lookup_SomeD: "lookup f xs k = Some x \<Longrightarrow> x \<in> set xs \<and> f x = k"
  by (induction xs) (auto simp: lookup_Cons split: if_splits)

lemma lookup_key: "lookup f xs k = Some x \<Longrightarrow> f x = k"
  and lookup_mem: "lookup f xs k = Some x \<Longrightarrow> x \<in> set xs"
  using lookup_SomeD by fast+

lemma lookup_SomeI: "distinct (map f xs) \<Longrightarrow> x \<in> set xs \<Longrightarrow> lookup f xs (f x) = Some x"
  by (induction xs) (auto simp: lookup_Cons image_iff)

lemma lookup_Some_iff:
  "distinct (map f xs) \<Longrightarrow> lookup f xs k = Some x \<longleftrightarrow> x \<in> set xs \<and> f x = k"
  using lookup_SomeI lookup_SomeD by metis

lemma lookup_filter_key:
  "distinct (map f xs) \<Longrightarrow>
   filter (\<lambda>x. f x = k) xs = (case lookup f xs k of None \<Rightarrow> [] | Some x \<Rightarrow> [x])"
  by (induction xs) (auto simp: lookup_Cons lookup_NoneI filter_empty_conv image_iff
      intro: lookup_NoneI split: option.split)

lemma lookup_snoc:
  "f x \<notin> f ` set xs \<Longrightarrow> lookup f (xs @ [x]) = (lookup f xs)(f x \<mapsto> x)"
  by (induction xs) (auto simp: lookup_Cons fun_eq_iff)

lemma lookup_map:
  "(\<And>x. f (g x) = f x) \<Longrightarrow> lookup f (map g xs) k = map_option g (lookup f xs k)"
  by (induction xs) (auto simp: lookup_Cons)

lemma lookup_filter:
  "distinct (map f xs) \<Longrightarrow>
   lookup f (filter P xs) k =
     (case lookup f xs k of None \<Rightarrow> None | Some x \<Rightarrow> if P x then Some x else None)"
  by (induction xs) (auto simp: lookup_Cons lookup_NoneI image_iff intro!: lookup_NoneI
      split: option.split)

end
