(* ===== verification/GoJson.thy ===== *)
theory GoJson
  imports GoStrings
begin

text \<open>
  The part of Go's \<open>encoding/json\<close> the program uses: the grammar its scanner accepts (RFC 8259 on
  bytes, at most 10000 nested brackets), how a string literal is decoded (\<open>unquote\<close>: escapes,
  UTF-16 surrogates, bytes that are not UTF-8 replaced by U+FFFD), how the members of an object
  find the fields of a struct (exact name, else the name under case folding; the last one wins;
  \<open>null\<close> leaves a string unchanged), and how \<open>Marshal\<close> writes a string (HTML characters, control
  characters and U+2028, U+2029 escaped).

  The parser is recursive over fuel, since its recursion follows the nesting of the text, and
  running out of fuel is a result of its own (\<open>PFuel\<close>); \<open>parse_value_fuel\<close> shows that the fuel
  \<open>json_fuel\<close> gives, twice the length of the text and two, is never used up.
\<close>

subsection \<open>UTF-8\<close>

definition cont_byte :: "nat \<Rightarrow> bool" where
  "cont_byte b \<longleftrightarrow> 128 \<le> b \<and> b \<le> 191"

text \<open>The byte at a position, 0 (not a continuation byte) beyond the end.\<close>

definition byte_at :: "string \<Rightarrow> nat \<Rightarrow> nat" where
  "byte_at s i = (if i < length s then byte (s ! i) else 0)"

text \<open>
  The length of the UTF-8 sequence a string starts with, 0 where it starts with none
  (\<open>utf8.DecodeRune\<close> then returns the replacement character and width 1): the first byte gives
  the length and restricts the second, every further byte is a continuation byte.
\<close>

definition lead_len :: "nat \<Rightarrow> nat" where
  "lead_len a =
     (if a < 128 then 1 else if 194 \<le> a \<and> a \<le> 223 then 2
      else if 224 \<le> a \<and> a \<le> 239 then 3 else if 240 \<le> a \<and> a \<le> 244 then 4 else 0)"

definition second_ok :: "nat \<Rightarrow> nat \<Rightarrow> bool" where
  "second_ok a b \<longleftrightarrow>
     (a = 224 \<longrightarrow> 160 \<le> b) \<and> (a = 237 \<longrightarrow> b \<le> 159) \<and>
     (a = 240 \<longrightarrow> 144 \<le> b) \<and> (a = 244 \<longrightarrow> b \<le> 143)"

definition utf8_len :: "string \<Rightarrow> nat" where
  "utf8_len s =
     (let n = lead_len (byte_at s 0) in
      if s \<noteq> [] \<and> list_all (\<lambda>i. cont_byte (byte_at s i)) [1..<n] \<and>
         second_ok (byte_at s 0) (byte_at s 1)
      then n else 0)"

lemma cont_byte_at: "cont_byte (byte_at s i) \<Longrightarrow> i < length s"
  by (simp add: cont_byte_def byte_at_def split: if_splits)

lemma byte_at_append: "i < length s \<Longrightarrow> byte_at (s @ t) i = byte_at s i"
  by (simp add: byte_at_def nth_append)

lemma byte_at_take: "i < n \<Longrightarrow> byte_at (take n s) i = byte_at s i"
  by (simp add: byte_at_def)

lemma utf8_len_le: "utf8_len s \<le> length s"
proof (cases "utf8_len s \<le> 1")
  case True
  then show ?thesis by (cases s) (auto simp: utf8_len_def)
next
  case False
  let ?n = "utf8_len s"
  from False have "cont_byte (byte_at s (?n - 1))"
    by (auto simp: utf8_len_def Let_def list_all_iff split: if_splits)
  then show ?thesis using cont_byte_at by fastforce
qed

lemma second_ok_ascii: "lead_len a \<le> 1 \<Longrightarrow> a < 256 \<Longrightarrow> second_ok a b"
  by (auto simp: lead_len_def second_ok_def split: if_splits)

lemma byte_at_less: "byte_at s i < 256"
  by (simp add: byte_at_def)

lemma utf8_len_take:
  assumes n: "utf8_len s = n" and pos: "0 < n"
  shows "utf8_len (take n s @ t) = n"
proof -
  have le: "n \<le> length s" using n utf8_len_le by blast
  have at: "byte_at (take n s @ t) i = byte_at s i" if "i < n" for i
    using that le by (simp add: byte_at_append byte_at_take)
  have lead: "lead_len (byte_at s 0) = n" and ne: "s \<noteq> []"
    and cont: "list_all (\<lambda>i. cont_byte (byte_at s i)) [1..<n]"
    and snd: "second_ok (byte_at s 0) (byte_at s 1)"
    using n pos by (auto simp: utf8_len_def Let_def split: if_splits)
  have "list_all (\<lambda>i. cont_byte (byte_at (take n s @ t) i)) [1..<n]"
    using cont at by (auto simp: list_all_iff)
  moreover have "second_ok (byte_at s 0) (byte_at (take n s @ t) 1)"
    using snd at [of 1] second_ok_ascii [of "byte_at s 0"] lead byte_at_less
    by (cases "n \<le> 1") auto
  moreover have "take n s @ t \<noteq> []" using ne pos by simp
  ultimately show ?thesis using lead at [OF pos] by (simp add: utf8_len_def)
qed

function utf8_valid :: "string \<Rightarrow> bool" where
  "utf8_valid s =
     (if s = [] then True
      else if utf8_len s = 0 then False
      else utf8_valid (drop (utf8_len s) s))"
  by pat_completeness auto
termination
  by (relation "measure length") (simp_all add: diff_less)

declare utf8_valid.simps [simp del]

text \<open>The UTF-8 encoding of a code point (\<open>utf8.EncodeRune\<close>).\<close>

definition utf8_enc :: "nat \<Rightarrow> string" where
  "utf8_enc r =
     (if r < 128 then [char_of r]
      else if r < 2048 then [char_of (192 + r div 64), char_of (128 + r mod 64)]
      else if r < 65536 then
        [char_of (224 + r div 4096), char_of (128 + r div 64 mod 64), char_of (128 + r mod 64)]
      else
        [char_of (240 + r div 262144), char_of (128 + r div 4096 mod 64),
         char_of (128 + r div 64 mod 64), char_of (128 + r mod 64)])"

definition replacement :: string where
  "replacement = [CHR 0xEF, CHR 0xBF, CHR 0xBD]"

subsection \<open>Hexadecimal digits\<close>

definition hex_val :: "char \<Rightarrow> nat option" where
  "hex_val c =
     (if 48 \<le> byte c \<and> byte c \<le> 57 then Some (byte c - 48)
      else if 97 \<le> byte c \<and> byte c \<le> 102 then Some (byte c - 87)
      else if 65 \<le> byte c \<and> byte c \<le> 70 then Some (byte c - 55)
      else None)"

definition is_hex :: "char \<Rightarrow> bool" where
  "is_hex c \<longleftrightarrow> hex_val c \<noteq> None"

definition hex_digit :: "nat \<Rightarrow> char" where
  "hex_digit n = (if n < 10 then char_of (48 + n) else char_of (87 + n))"

lemma hex_val_digit [simp]: "n < 16 \<Longrightarrow> hex_val (hex_digit n) = Some n"
  by (auto simp: hex_val_def hex_digit_def)

lemma is_hex_digit [simp]: "n < 16 \<Longrightarrow> is_hex (hex_digit n)"
  by (simp add: is_hex_def)

definition hex4 :: "string \<Rightarrow> nat option" where
  "hex4 s =
     (case map hex_val (take 4 s) of
        [Some a, Some b, Some c, Some d] \<Rightarrow> Some (((a * 16 + b) * 16 + c) * 16 + d)
      | _ \<Rightarrow> None)"

subsection \<open>String literals\<close>

text \<open>
  The text of a string literal after its opening quote, as the scanner checks it: the literal
  without its quotes, and what follows.
\<close>

definition scan_esc :: "string \<Rightarrow> nat" where
  \<comment> \<open>how long an escape goes on after its backslash, 0 for an invalid one\<close>
  "scan_esc s =
     (case s of
        [] \<Rightarrow> 0
      | e # s1 \<Rightarrow>
          if e = CHR ''u'' then (if hex4 s1 \<noteq> None then 5 else 0)
          else if List.member [CHR ''b'', CHR ''f'', CHR ''n'', CHR ''r'', CHR ''t'',
                               CHR 0x5C, CHR ''/'', CHR 0x22] e then 1 else 0)"

function scan_str :: "string \<Rightarrow> (string \<times> string) option" where
  "scan_str s =
     (case s of
        [] \<Rightarrow> None
      | c # t \<Rightarrow>
          if c = CHR 0x22 then Some ([], t)
          else if c = CHR 0x5C then
            (if scan_esc t = 0 then None
             else map_option (apfst ((@) (c # take (scan_esc t) t))) (scan_str (drop (scan_esc t) t)))
          else if byte c < 32 then None
          else map_option (apfst ((#) c)) (scan_str t))"
  by pat_completeness auto
termination
  by (relation "measure length") auto

declare scan_str.simps [simp del]

definition esc_char :: "char \<Rightarrow> char" where
  "esc_char e =
     (if e = CHR ''b'' then CHR 0x08 else if e = CHR ''f'' then CHR 0x0C
      else if e = CHR ''n'' then CHR 0x0A else if e = CHR ''r'' then CHR 0x0D
      else if e = CHR ''t'' then CHR 0x09 else e)"

text \<open>
  The code point of a \<open>\u\<close> escape whose hexadecimal digits start the string, and how many bytes
  the escape goes on for: a high surrogate followed by an escaped low surrogate is one code
  point, any other surrogate is the replacement character.
\<close>

definition u_escape :: "string \<Rightarrow> string \<times> nat" where
  "u_escape s =
     (case hex4 s of
        None \<Rightarrow> (replacement, 4)
      | Some r \<Rightarrow>
          if 55296 \<le> r \<and> r < 57344 then
            (let t = drop 4 s in
             if r < 56320 \<and> take 2 t = [CHR 0x5C, CHR ''u''] then
               (case hex4 (drop 2 t) of
                  Some r2 \<Rightarrow>
                    if 56320 \<le> r2 \<and> r2 < 57344
                    then (utf8_enc ((r - 55296) * 1024 + (r2 - 56320) + 65536), 10)
                    else (replacement, 4)
                | None \<Rightarrow> (replacement, 4))
             else (replacement, 4))
          else (utf8_enc r, 4))"

function unquote :: "string \<Rightarrow> string" where
  "unquote s =
     (case s of
        [] \<Rightarrow> []
      | c # s1 \<Rightarrow>
          if c = CHR 0x5C then
            (case s1 of
               [] \<Rightarrow> []
             | e # s2 \<Rightarrow>
                 if e = CHR ''u''
                 then fst (u_escape s2) @ unquote (drop (snd (u_escape s2)) s2)
                 else esc_char e # unquote s2)
          else if utf8_len s = 0 then replacement @ unquote s1
          else take (utf8_len s) s @ unquote (drop (utf8_len s) s))"
  by pat_completeness auto
termination
  by (relation "measure length") (auto intro!: diff_less)

declare unquote.simps [simp del]

subsection \<open>Values\<close>

text \<open>
  A parsed value. A member of an object keeps the raw text of its value too, which is what a
  \<open>json.RawMessage\<close> field receives.
\<close>

datatype json =
    JNull | JBool bool | JNum string | JStr string
  | JArr "json list"
  | JObj "(string \<times> string \<times> json) list"

type_synonym members = "(string \<times> string \<times> json) list"

datatype 'a pres = POk 'a string | PFail | PFuel

definition is_ws :: "char \<Rightarrow> bool" where
  "is_ws c \<longleftrightarrow> c = CHR 0x20 \<or> c = CHR 0x09 \<or> c = CHR 0x0A \<or> c = CHR 0x0D"

definition skip_ws :: "string \<Rightarrow> string" where
  "skip_ws s = dropWhile is_ws s"

definition scan_digits :: "string \<Rightarrow> (string \<times> string) option" where
  "scan_digits s =
     (let ds = takeWhile is_digit s in if ds = [] then None else Some (ds, dropWhile is_digit s))"

definition scan_int :: "string \<Rightarrow> (string \<times> string) option" where
  "scan_int s =
     (case s of
        c # t \<Rightarrow> if c = CHR ''0'' then Some ([c], t) else scan_digits s
      | [] \<Rightarrow> None)"

definition scan_frac :: "string \<Rightarrow> (string \<times> string) option" where
  "scan_frac s =
     (case s of
        c # t \<Rightarrow> if c = CHR ''.'' then map_option (apfst ((#) c)) (scan_digits t) else Some ([], s)
      | [] \<Rightarrow> Some ([], s))"

definition scan_exp :: "string \<Rightarrow> (string \<times> string) option" where
  "scan_exp s =
     (case s of
        c # t \<Rightarrow>
          if c = CHR ''e'' \<or> c = CHR ''E'' then
            (case t of
               g # u \<Rightarrow>
                 if g = CHR ''+'' \<or> g = CHR ''-''
                 then map_option (apfst (\<lambda>ds. c # g # ds)) (scan_digits u)
                 else map_option (apfst ((#) c)) (scan_digits t)
             | [] \<Rightarrow> None)
          else Some ([], s)
      | [] \<Rightarrow> Some ([], s))"

definition scan_num :: "string \<Rightarrow> (string \<times> string) option" where
  "scan_num s =
     (let (sg, s1) = (case s of c # t \<Rightarrow> if c = CHR ''-'' then ([c], t) else ([], s) | [] \<Rightarrow> ([], s))
      in case scan_int s1 of
           None \<Rightarrow> None
         | Some (i, s2) \<Rightarrow>
             (case scan_frac s2 of
                None \<Rightarrow> None
              | Some (f, s3) \<Rightarrow>
                  (case scan_exp s3 of
                     None \<Rightarrow> None
                   | Some (x, s4) \<Rightarrow> Some (sg @ i @ f @ x, s4))))"

definition scan_scalar :: "string \<Rightarrow> json pres" where
  "scan_scalar s =
     (if has_prefix s ''null'' then POk JNull (drop 4 s)
      else if has_prefix s ''true'' then POk (JBool True) (drop 4 s)
      else if has_prefix s ''false'' then POk (JBool False) (drop 5 s)
      else (case scan_num s of None \<Rightarrow> PFail | Some (n, r) \<Rightarrow> POk (JNum n) r))"

text \<open>
  A value, the elements of an array and the members of an object; \<open>d\<close> is how many more brackets
  may be opened (\<open>maxNestingDepth\<close> is 10000).
\<close>

fun parse_value :: "nat \<Rightarrow> nat \<Rightarrow> string \<Rightarrow> json pres"
and parse_elems :: "nat \<Rightarrow> nat \<Rightarrow> string \<Rightarrow> json list pres"
and parse_members :: "nat \<Rightarrow> nat \<Rightarrow> string \<Rightarrow> members pres" where
  "parse_value 0 d s = PFuel"
| "parse_value (Suc f) d s =
     (case skip_ws s of
        [] \<Rightarrow> PFail
      | c # t \<Rightarrow>
          if c = CHR 0x22 then
            (case scan_str t of None \<Rightarrow> PFail | Some (raw, r) \<Rightarrow> POk (JStr (unquote raw)) r)
          else if c = CHR ''['' then
            (if d = 0 then PFail
             else (case skip_ws t of
                 [] \<Rightarrow> PFail
               | e # r \<Rightarrow>
                   if e = CHR '']'' then POk (JArr []) r
                   else (case parse_elems f (d - 1) t of
                           POk vs r \<Rightarrow> POk (JArr vs) r | PFail \<Rightarrow> PFail | PFuel \<Rightarrow> PFuel)))
          else if c = CHR 0x7B then
            (if d = 0 then PFail
             else (case skip_ws t of
                 [] \<Rightarrow> PFail
               | e # r \<Rightarrow>
                   if e = CHR 0x7D then POk (JObj []) r
                   else (case parse_members f (d - 1) t of
                           POk ms r \<Rightarrow> POk (JObj ms) r | PFail \<Rightarrow> PFail | PFuel \<Rightarrow> PFuel)))
          else scan_scalar (c # t))"
| "parse_elems 0 d s = PFuel"
| "parse_elems (Suc f) d s =
     (case parse_value f d s of
        PFail \<Rightarrow> PFail | PFuel \<Rightarrow> PFuel
      | POk v r \<Rightarrow>
          (case skip_ws r of
             [] \<Rightarrow> PFail
           | c # t \<Rightarrow>
               if c = CHR '']'' then POk [v] t
               else if c = CHR '','' then
                 (case parse_elems f d t of
                    POk vs r' \<Rightarrow> POk (v # vs) r' | PFail \<Rightarrow> PFail | PFuel \<Rightarrow> PFuel)
               else PFail))"
| "parse_members 0 d s = PFuel"
| "parse_members (Suc f) d s =
     (case skip_ws s of
        [] \<Rightarrow> PFail
      | q # t \<Rightarrow>
          if q \<noteq> CHR 0x22 then PFail
          else (case scan_str t of
              None \<Rightarrow> PFail
            | Some (k, r) \<Rightarrow>
                (case skip_ws r of
                   [] \<Rightarrow> PFail
                 | col # t2 \<Rightarrow>
                     if col \<noteq> CHR '':'' then PFail
                     else (case parse_value f d t2 of
                         PFail \<Rightarrow> PFail | PFuel \<Rightarrow> PFuel
                       | POk v r2 \<Rightarrow>
                           let v0 = skip_ws t2;
                               m = (unquote k, take (length v0 - length r2) v0, v)
                           in (case skip_ws r2 of
                                 [] \<Rightarrow> PFail
                               | e # t3 \<Rightarrow>
                                   if e = CHR 0x7D then POk [m] t3
                                   else if e = CHR '','' then
                                     (case parse_members f d t3 of
                                        POk ms r3 \<Rightarrow> POk (m # ms) r3
                                      | PFail \<Rightarrow> PFail | PFuel \<Rightarrow> PFuel)
                                   else PFail)))))"

definition json_fuel :: "string \<Rightarrow> nat" where
  "json_fuel s = 2 * length s + 2"

text \<open>
  \<open>json.Decoder.Decode\<close> reads the first value of a stream and leaves what follows;
  \<open>json.Unmarshal\<close> accepts nothing but white space after it.
\<close>

definition json_decode :: "string \<Rightarrow> json option" where
  "json_decode s =
     (case parse_value (json_fuel s) 10000 s of POk v r \<Rightarrow> Some v | PFail \<Rightarrow> None | PFuel \<Rightarrow> None)"

definition json_unmarshal :: "string \<Rightarrow> json option" where
  "json_unmarshal s =
     (case parse_value (json_fuel s) 10000 s of
        POk v r \<Rightarrow> if skip_ws r = [] then Some v else None
      | PFail \<Rightarrow> None | PFuel \<Rightarrow> None)"


subsection \<open>The parser consumes its input and never runs out of fuel\<close>

lemma skip_ws_le: "length (skip_ws s) \<le> length s"
  by (simp add: skip_ws_def length_dropWhile_le)

lemma skip_ws_Cons: "skip_ws s = c # t \<Longrightarrow> length t < length s"
  using skip_ws_le [of s] by simp

lemma scan_str_split: "scan_str s = Some (raw, r) \<Longrightarrow> s = raw @ CHR 0x22 # r"
proof (induction s arbitrary: raw r rule: scan_str.induct)
  case (1 s)
  show ?case
  proof (cases s)
    case Nil
    with "1.prems" show ?thesis by (simp add: scan_str.simps [of "[]"])
  next
    case (Cons c t)
    consider "c = CHR 0x22" | "c = CHR 0x5C" | "c \<noteq> CHR 0x22" "c \<noteq> CHR 0x5C" by blast
    then show ?thesis
    proof cases
      case 1
      with "1.prems" Cons show ?thesis by (simp add: scan_str.simps [of "CHR 0x22 # t"])
    next
      case 2
      let ?n = "scan_esc t"
      from "1.prems" Cons 2 obtain raw' where raw': "?n \<noteq> 0" "scan_str (drop ?n t) = Some (raw', r)"
        "raw = c # take ?n t @ raw'"
        by (auto simp: scan_str.simps [of "CHR 0x5C # t"] split: if_splits)
      from "1.IH"(1) [OF Cons _ 2 raw'(1,2)] 2 have "drop ?n t = raw' @ CHR 0x22 # r" by simp
      then have "t = take ?n t @ raw' @ CHR 0x22 # r" by (metis append_take_drop_id)
      with raw'(3) Cons show ?thesis by simp
    next
      case 3
      from "1.prems" Cons 3 obtain raw' where raw': "\<not> byte c < 32" "scan_str t = Some (raw', r)"
        "raw = c # raw'"
        by (auto simp: scan_str.simps [of "c # t"] split: if_splits)
      from "1.IH"(2) [OF Cons 3 raw'(1,2)] raw'(3) Cons show ?thesis by simp
    qed
  qed
qed

lemma scan_digits_len: "scan_digits s = Some (ds, r) \<Longrightarrow> length r < length s"
proof -
  assume "scan_digits s = Some (ds, r)"
  then have "ds \<noteq> []" "ds @ r = s" by (auto simp: scan_digits_def Let_def split: if_splits)
  then show ?thesis by (metis length_append length_greater_0_conv less_add_same_cancel2)
qed

lemma scan_int_len: "scan_int s = Some (ds, r) \<Longrightarrow> length r < length s"
  by (auto simp: scan_int_def split: list.splits if_splits dest: scan_digits_len)

lemma scan_frac_len: "scan_frac s = Some (ds, r) \<Longrightarrow> length r \<le> length s"
  by (auto simp: scan_frac_def split: list.splits if_splits dest: scan_digits_len)

lemma scan_exp_len: "scan_exp s = Some (ds, r) \<Longrightarrow> length r \<le> length s"
  by (auto simp: scan_exp_def split: list.splits if_splits dest: scan_digits_len)

lemma scan_num_len: "scan_num s = Some (n, r) \<Longrightarrow> length r < length s"
  by (auto simp: scan_num_def Let_def split: list.splits if_splits option.splits
      dest!: scan_int_len scan_frac_len scan_exp_len)

lemma scan_scalar_len: "s \<noteq> [] \<Longrightarrow> scan_scalar s = POk v r \<Longrightarrow> length r < length s"
  by (auto simp: scan_scalar_def has_prefix_def split: if_splits option.splits dest: scan_num_len)

lemma scan_scalar_no_fuel: "scan_scalar s \<noteq> PFuel"
  by (auto simp: scan_scalar_def split: option.splits)

lemma scan_str_len: "scan_str s = Some (raw, r) \<Longrightarrow> length r < length s"
  by (drule scan_str_split) simp

text \<open>
  Facts about the three mutually recursive functions are proved by induction on the fuel, for all
  three at once.
\<close>

lemma parse_len:
  "(\<forall>d s v r. parse_value f d s = POk v r \<longrightarrow> length r < length s) \<and>
   (\<forall>d s vs r. parse_elems f d s = POk vs r \<longrightarrow> length r < length s) \<and>
   (\<forall>d s ms r. parse_members f d s = POk ms r \<longrightarrow> length r < length s)"
proof (induction f)
  case 0
  then show ?case by simp
next
  case (Suc f)
  then have V: "\<And>d s v r. parse_value f d s = POk v r \<Longrightarrow> length r < length s"
    and E: "\<And>d s vs r. parse_elems f d s = POk vs r \<Longrightarrow> length r < length s"
    and M: "\<And>d s ms r. parse_members f d s = POk ms r \<Longrightarrow> length r < length s"
    by blast+
  have "length r < length s" if v: "parse_value (Suc f) d s = POk v r" for d s v r
  proof (cases "skip_ws s")
    case Nil
    with v show ?thesis by simp
  next
    case (Cons c t)
    have t: "length t < length s" using skip_ws_Cons [OF Cons] .
    have "length r < Suc (length t)"
      using v Cons
      by (auto split: list.splits if_splits option.splits pres.splits
          dest!: E M scan_str_len dest: scan_scalar_len [rotated] skip_ws_Cons)
    with t show ?thesis by simp
  qed
  moreover have "length r < length s" if e: "parse_elems (Suc f) d s = POk vs r" for d s vs r
    using e by (auto split: list.splits if_splits pres.splits dest!: V E skip_ws_Cons)
  moreover have "length r < length s" if m: "parse_members (Suc f) d s = POk ms r" for d s ms r
    using m by (auto simp: Let_def split: list.splits if_splits option.splits pres.splits
        dest!: V M scan_str_len skip_ws_Cons)
  ultimately show ?case by blast
qed

lemma parse_no_fuel:
  "(\<forall>d s. 2 * length s < f \<longrightarrow> parse_value f d s \<noteq> PFuel) \<and>
   (\<forall>d s. 2 * length s + 1 < f \<longrightarrow> parse_elems f d s \<noteq> PFuel) \<and>
   (\<forall>d s. 2 * length s + 1 < f \<longrightarrow> parse_members f d s \<noteq> PFuel)"
proof (induction f)
  case 0
  then show ?case by simp
next
  case (Suc f)
  then have V: "\<And>d s. 2 * length s < f \<Longrightarrow> parse_value f d s \<noteq> PFuel"
    and E: "\<And>d s. 2 * length s + 1 < f \<Longrightarrow> parse_elems f d s \<noteq> PFuel"
    and M: "\<And>d s. 2 * length s + 1 < f \<Longrightarrow> parse_members f d s \<noteq> PFuel"
    by blast+
  have VL: "\<And>d s v r. parse_value f d s = POk v r \<Longrightarrow> length r < length s"
    using parse_len [of f] by blast
  have "parse_value (Suc f) d s \<noteq> PFuel" if "2 * length s < Suc f" for d s
  proof (cases "skip_ws s")
    case Nil
    then show ?thesis by simp
  next
    case (Cons c t)
    have "2 * length t + 1 < f" using skip_ws_Cons [OF Cons] that by simp
    with Cons show ?thesis
      using E [of t] M [of t] scan_scalar_no_fuel
      by (auto split: list.splits if_splits option.splits pres.splits)
  qed
  moreover have "parse_elems (Suc f) d s \<noteq> PFuel" if n: "2 * length s + 1 < Suc f" for d s
  proof
    assume "parse_elems (Suc f) d s = PFuel"
    moreover have "parse_value f d s \<noteq> PFuel" using V n by simp
    ultimately obtain v r c t where "parse_value f d s = POk v r" "skip_ws r = c # t"
      "parse_elems f d t = PFuel"
      by (auto split: list.splits if_splits pres.splits)
    then show False using E [of t] VL [of d s v r] skip_ws_Cons [of r c t] n by auto
  qed
  moreover have "parse_members (Suc f) d s \<noteq> PFuel" if n: "2 * length s + 1 < Suc f" for d s
  proof
    assume m: "parse_members (Suc f) d s = PFuel"
    then obtain q t k r col t2 where t: "skip_ws s = q # t" "scan_str t = Some (k, r)"
      "skip_ws r = col # t2"
      by (auto split: list.splits if_splits option.splits)
    then have l2: "length t2 < length s" 
      using skip_ws_Cons [of s q t] scan_str_len [of t k r] skip_ws_Cons [of r col t2] by simp
    then have "parse_value f d t2 \<noteq> PFuel" using V n by simp
    with m t obtain v r2 e t3 where "parse_value f d t2 = POk v r2" "skip_ws r2 = e # t3"
      "parse_members f d t3 = PFuel"
      by (auto simp: Let_def split: list.splits if_splits pres.splits)
    then show False
      using M [of t3] VL [of d t2 v r2] skip_ws_Cons [of r2 e t3] l2 n by auto
  qed
  ultimately show ?case by blast
qed

lemma parse_value_fuel: "parse_value (json_fuel s) d s \<noteq> PFuel"
  using parse_no_fuel [of "json_fuel s"] by (simp add: json_fuel_def)


subsection \<open>Structs\<close>

text \<open>
  \<open>foldName\<close>: letters are compared without case; besides ASCII, the Kelvin sign folds to K and the
  long s to S. A key finds the field of its exact name, else the first field of its folded name.
\<close>

fun fold_name :: "string \<Rightarrow> string" where
  "fold_name [] = []"
| "fold_name (a # s) =
     (if byte a < 128 then
        (if 97 \<le> byte a \<and> byte a \<le> 122 then char_of (byte a - 32) else a) # fold_name s
      else (case s of
          b # t \<Rightarrow>
            if a = CHR 0xC5 \<and> b = CHR 0xBF then CHR ''S'' # fold_name t
            else (case t of
                c # u \<Rightarrow>
                  if a = CHR 0xE2 \<and> b = CHR 0x84 \<and> c = CHR 0xAA then CHR ''K'' # fold_name u
                  else a # fold_name s
              | [] \<Rightarrow> a # fold_name s)
        | [] \<Rightarrow> [a]))"

definition field_for :: "string list \<Rightarrow> string \<Rightarrow> string option" where
  "field_for names k =
     (if k \<in> set names then Some k else find (\<lambda>n. fold_name n = fold_name k) names)"

text \<open>The members of an object that a struct with the given field names receives, in order.\<close>

definition struct_members :: "string list \<Rightarrow> members \<Rightarrow> (string \<times> string \<times> json) list" where
  "struct_members names ms =
     List.map_filter (\<lambda>(k, raw, v). map_option (\<lambda>n. (n, raw, v)) (field_for names k)) ms"

text \<open>
  The value a field has after the members are stored one by one, from its value before;
  \<^const>\<open>None\<close> where a member has the wrong kind (\<open>UnmarshalTypeError\<close>).
\<close>

fun string_field :: "string \<Rightarrow> members \<Rightarrow> string \<Rightarrow> string option" where
  "string_field n [] acc = Some acc"
| "string_field n ((k, raw, v) # ms) acc =
     (if k = n then
        (case v of JStr x \<Rightarrow> string_field n ms x | JNull \<Rightarrow> string_field n ms acc | _ \<Rightarrow> None)
      else string_field n ms acc)"

fun string_ptr_field :: "string \<Rightarrow> members \<Rightarrow> string option \<Rightarrow> string option option" where
  "string_ptr_field n [] acc = Some acc"
| "string_ptr_field n ((k, raw, v) # ms) acc =
     (if k = n then
        (case v of
           JStr x \<Rightarrow> string_ptr_field n ms (Some x)
         | JNull \<Rightarrow> string_ptr_field n ms None
         | _ \<Rightarrow> None)
      else string_ptr_field n ms acc)"

fun bool_field :: "string \<Rightarrow> members \<Rightarrow> bool \<Rightarrow> bool option" where
  "bool_field n [] acc = Some acc"
| "bool_field n ((k, raw, v) # ms) acc =
     (if k = n then
        (case v of JBool x \<Rightarrow> bool_field n ms x | JNull \<Rightarrow> bool_field n ms acc | _ \<Rightarrow> None)
      else bool_field n ms acc)"

fun raw_field :: "string \<Rightarrow> members \<Rightarrow> string \<Rightarrow> string" where
  "raw_field n [] acc = acc"
| "raw_field n ((k, raw, v) # ms) acc = raw_field n ms (if k = n then raw else acc)"

text \<open>
  The members of the object a struct is decoded from: \<open>null\<close> stores nothing, another kind of
  value is an \<open>UnmarshalTypeError\<close>.
\<close>

definition struct_of :: "string list \<Rightarrow> json \<Rightarrow> members option" where
  "struct_of names v =
     (case v of JObj ms \<Rightarrow> Some (struct_members names ms) | JNull \<Rightarrow> Some [] | _ \<Rightarrow> None)"

text \<open>\<open>json.Unmarshal\<close> into a struct whose only field is the string \<open>url\<close>.\<close>

definition unmarshal_url :: "string \<Rightarrow> string option" where
  "unmarshal_url s =
     Option.bind (json_unmarshal s) (\<lambda>v.
     Option.bind (struct_of [''url''] v) (\<lambda>ms. string_field ''url'' ms []))"

subsection \<open>Writing strings\<close>

definition html_safe :: "char \<Rightarrow> bool" where
  "html_safe c \<longleftrightarrow> 32 \<le> byte c \<and> byte c < 128 \<and>
     c \<noteq> CHR 0x22 \<and> c \<noteq> CHR 0x5C \<and> c \<noteq> CHR ''<'' \<and> c \<noteq> CHR ''>'' \<and> c \<noteq> CHR ''&''"

definition esc_ascii :: "char \<Rightarrow> string" where
  "esc_ascii c =
     (if c = CHR 0x22 \<or> c = CHR 0x5C then [CHR 0x5C, c]
      else if c = CHR 0x08 then [CHR 0x5C, CHR ''b'']
      else if c = CHR 0x0C then [CHR 0x5C, CHR ''f'']
      else if c = CHR 0x0A then [CHR 0x5C, CHR ''n'']
      else if c = CHR 0x0D then [CHR 0x5C, CHR ''r'']
      else if c = CHR 0x09 then [CHR 0x5C, CHR ''t'']
      else [CHR 0x5C, CHR ''u'', CHR ''0'', CHR ''0'',
            hex_digit (byte c div 16), hex_digit (byte c mod 16)])"

function quote_body :: "string \<Rightarrow> string" where
  "quote_body s =
     (case s of
        [] \<Rightarrow> []
      | c # t \<Rightarrow>
          if byte c < 128 then (if html_safe c then [c] else esc_ascii c) @ quote_body t
          else if utf8_len s = 0 then CHR 0x5C # ''ufffd'' @ quote_body t
          else if take 3 s = [CHR 0xE2, CHR 0x80, CHR 0xA8]
          then CHR 0x5C # ''u2028'' @ quote_body (drop 3 s)
          else if take 3 s = [CHR 0xE2, CHR 0x80, CHR 0xA9]
          then CHR 0x5C # ''u2029'' @ quote_body (drop 3 s)
          else take (utf8_len s) s @ quote_body (drop (utf8_len s) s))"
  by pat_completeness auto
termination
  by (relation "measure length") (auto intro!: diff_less)

declare quote_body.simps [simp del]

definition json_quote :: "string \<Rightarrow> string" where
  "json_quote s = CHR 0x22 # quote_body s @ [CHR 0x22]"


subsection \<open>A written string is read back\<close>

definition plain_byte :: "char \<Rightarrow> bool" where
  "plain_byte c \<longleftrightarrow> 32 \<le> byte c \<and> c \<noteq> CHR 0x22 \<and> c \<noteq> CHR 0x5C"

lemma plain_if_high: "128 \<le> byte c \<Longrightarrow> plain_byte c"
  by (auto simp: plain_byte_def byte_def)

lemma scan_str_plain:
  "list_all plain_byte p \<Longrightarrow> scan_str (p @ t) = map_option (apfst ((@) p)) (scan_str t)"
proof (induction p)
  case Nil
  then show ?case by (simp add: apfst_def map_prod_def option.map_ident case_prod_beta)
next
  case (Cons c p)
  then have "scan_str ((c # p) @ t) = map_option (apfst ((#) c)) (scan_str (p @ t))"
    by (simp add: scan_str.simps [of "c # p @ t"] plain_byte_def)
  with Cons show ?case by (simp add: option.map_comp comp_def apfst_def map_prod_def case_prod_beta)
qed

lemma scan_str_esc:
  "scan_esc (p @ t) = length p \<Longrightarrow> p \<noteq> [] \<Longrightarrow>
   scan_str (CHR 0x5C # p @ t) = map_option (apfst ((@) (CHR 0x5C # p))) (scan_str t)"
  by (simp add: scan_str.simps [of "CHR 0x5C # p @ t"])

lemma scan_str_quote: "scan_str (CHR 0x22 # t) = Some ([], t)"
  by (simp add: scan_str.simps [of "CHR 0x22 # t"])

lemma utf8_high_bytes:
  assumes "utf8_len s = n" "0 < n" "s = c # t" "\<not> byte c < 128"
  shows "list_all (\<lambda>c. 128 \<le> byte c) (take n s)"
proof -
  have cont: "list_all (\<lambda>i. cont_byte (byte_at s i)) [1..<n]"
    using assms(1,2) by (auto simp: utf8_len_def Let_def split: if_splits)
  have "128 \<le> byte (s ! i)" if i: "i < n" "i < length s" for i
  proof (cases "i = 0")
    case True
    with assms(3,4) show ?thesis by simp
  next
    case False
    with cont i have "cont_byte (byte_at s i)" by (simp add: list_all_iff)
    with i show ?thesis by (simp add: cont_byte_def byte_at_def)
  qed
  then show ?thesis by (auto simp: list_all_iff in_set_conv_nth)
qed


lemma esc_ascii_shape:
  assumes "byte c < 128" "\<not> html_safe c"
  shows "\<exists>p. esc_ascii c = CHR 0x5C # p \<and> p \<noteq> [] \<and> (\<forall>t. scan_esc (p @ t) = length p) \<and>
             (\<forall>t. unquote (esc_ascii c @ t) = c # unquote t)"
proof (cases "c = CHR 0x22 \<or> c = CHR 0x5C \<or> c = CHR 0x08 \<or> c = CHR 0x0C \<or> c = CHR 0x0A \<or>
              c = CHR 0x0D \<or> c = CHR 0x09")
  case True
  then show ?thesis
    by (elim disjE) (simp_all add: esc_ascii_def scan_esc_def unquote.simps [of "CHR 0x5C # _"]
        esc_char_def)
next
  case False
  let ?p = "[CHR ''u'', CHR ''0'', CHR ''0'', hex_digit (byte c div 16), hex_digit (byte c mod 16)]"
  have e: "esc_ascii c = CHR 0x5C # ?p" using False by (simp add: esc_ascii_def)
  have "byte c div 16 < 16" using assms(1) by simp
  then have h: "hex4 (tl ?p @ t) = Some (byte c)" for t
    by (simp add: hex4_def hex_val_def [of "CHR ''0''"] byte_def [of "CHR ''0''"])
  have "scan_esc (?p @ t) = length ?p" for t
    using h [of t] by (simp add: scan_esc_def)
  moreover have "unquote (esc_ascii c @ t) = c # unquote t" for t
    using h [of t] assms(1)
    by (simp add: e unquote.simps [of "CHR 0x5C # _"] u_escape_def utf8_enc_def)
  ultimately show ?thesis using e by blast
qed

text \<open>What the scanner and the decoder make of one written piece.\<close>

definition good_piece :: "string \<Rightarrow> string \<Rightarrow> bool" where
  "good_piece p x \<longleftrightarrow>
     (\<forall>t. scan_str (p @ t) = map_option (apfst ((@) p)) (scan_str t)) \<and>
     (\<forall>t. unquote (p @ t) = x @ unquote t)"

lemma good_piece_ascii:
  assumes "byte c < 128"
  shows "good_piece (if html_safe c then [c] else esc_ascii c) [c]"
proof (cases "html_safe c")
  case True
  have "utf8_len (c # t) = 1" for t
    using assms by (simp add: utf8_len_def byte_at_def lead_len_def second_ok_def)
  with True show ?thesis
    using scan_str_plain [of "[c]"]
    by (auto simp: good_piece_def plain_byte_def html_safe_def unquote.simps [of "c # _"])
next
  case False
  then show ?thesis
    using esc_ascii_shape [OF assms False] scan_str_esc by (auto simp: good_piece_def)
qed

lemma unquote_rune:
  "c \<noteq> CHR 0x5C \<Longrightarrow> utf8_len (c # u) = n \<Longrightarrow> 0 < n \<Longrightarrow>
   unquote (c # u) = take n (c # u) @ unquote (drop n (c # u))"
  by (simp add: unquote.simps [of "c # u"])

lemma good_piece_runes:
  assumes "utf8_len s = n" "0 < n" "s = c # t" "\<not> byte c < 128"
  shows "good_piece (take n s) (take n s)"
proof -
  have "list_all plain_byte (take n s)"
    using utf8_high_bytes [OF assms] plain_if_high by (auto simp: list_all_iff)
  moreover have "unquote (take n s @ r) = take n s @ unquote r" for r
  proof -
    have l: "utf8_len (take n s @ r) = n" using utf8_len_take assms(1,2) by blast
    have "n \<le> length s" using assms(1) utf8_len_le by blast
    moreover obtain u where u: "take n s @ r = c # u" using assms(2,3) by (cases n) auto
    moreover have "c \<noteq> CHR 0x5C" using assms(4) by (auto simp: byte_def)
    ultimately have "unquote (take n s @ r) = take n (take n s @ r) @ unquote (drop n (take n s @ r))"
      using unquote_rune [of c u n] l assms(2) by simp
    with \<open>n \<le> length s\<close> show ?thesis by simp
  qed
  ultimately show ?thesis by (simp add: good_piece_def scan_str_plain)
qed

lemma good_piece_u2028:
  "good_piece (CHR 0x5C # ''u2028'') [CHR 0xE2, CHR 0x80, CHR 0xA8]"
  "good_piece (CHR 0x5C # ''u2029'') [CHR 0xE2, CHR 0x80, CHR 0xA9]"
  using scan_str_esc [of "''u2028''"] scan_str_esc [of "''u2029''"]
  by (simp_all add: good_piece_def scan_esc_def hex4_def hex_val_def byte_def
      unquote.simps [of "CHR 0x5C # _"] u_escape_def utf8_enc_def char_of_eq_iff)

lemma good_piece_append:
  "good_piece p x \<Longrightarrow> scan_str (q @ CHR 0x22 # r) = Some (q, r) \<Longrightarrow> unquote q = y \<Longrightarrow>
   scan_str ((p @ q) @ CHR 0x22 # r) = Some (p @ q, r) \<and> unquote (p @ q) = x @ y"
  by (simp add: good_piece_def)


lemma quote_body_high:
  assumes "s = c # t" "\<not> byte c < 128" "utf8_len s \<noteq> 0"
  shows "take 3 s = [CHR 0xE2, CHR 0x80, CHR 0xA8] \<Longrightarrow>
         quote_body s = (CHR 0x5C # ''u2028'') @ quote_body (drop 3 s)"
    and "take 3 s = [CHR 0xE2, CHR 0x80, CHR 0xA9] \<Longrightarrow>
         quote_body s = (CHR 0x5C # ''u2029'') @ quote_body (drop 3 s)"
    and "take 3 s \<noteq> [CHR 0xE2, CHR 0x80, CHR 0xA8] \<Longrightarrow> take 3 s \<noteq> [CHR 0xE2, CHR 0x80, CHR 0xA9] \<Longrightarrow>
         quote_body s = take (utf8_len s) s @ quote_body (drop (utf8_len s) s)"
proof -
  have "quote_body s =
     (if take 3 s = [CHR 0xE2, CHR 0x80, CHR 0xA8] then CHR 0x5C # ''u2028'' @ quote_body (drop 3 s)
      else if take 3 s = [CHR 0xE2, CHR 0x80, CHR 0xA9]
      then CHR 0x5C # ''u2029'' @ quote_body (drop 3 s)
      else take (utf8_len s) s @ quote_body (drop (utf8_len s) s))"
    by (subst quote_body.simps) (use assms in auto)
  then show "take 3 s = [CHR 0xE2, CHR 0x80, CHR 0xA8] \<Longrightarrow>
         quote_body s = (CHR 0x5C # ''u2028'') @ quote_body (drop 3 s)"
    and "take 3 s = [CHR 0xE2, CHR 0x80, CHR 0xA9] \<Longrightarrow>
         quote_body s = (CHR 0x5C # ''u2029'') @ quote_body (drop 3 s)"
    and "take 3 s \<noteq> [CHR 0xE2, CHR 0x80, CHR 0xA8] \<Longrightarrow> take 3 s \<noteq> [CHR 0xE2, CHR 0x80, CHR 0xA9] \<Longrightarrow>
         quote_body s = take (utf8_len s) s @ quote_body (drop (utf8_len s) s)"
    by simp_all
qed

theorem scan_quote_body:
  "utf8_valid s \<Longrightarrow>
   scan_str (quote_body s @ CHR 0x22 # r) = Some (quote_body s, r) \<and> unquote (quote_body s) = s"
proof (induction s rule: quote_body.induct)
  case (1 s)
  show ?case
  proof (cases s)
    case Nil
    then show ?thesis
      by (simp add: quote_body.simps [of "[]"] scan_str_quote unquote.simps [of "[]"])
  next
    case (Cons c t)
    let ?n = "utf8_len s"
    have n: "?n \<noteq> 0" and rest: "utf8_valid (drop ?n s)"
      using "1.prems" Cons by (auto simp: utf8_valid.simps [of "c # t"] split: if_splits)
    show ?thesis
    proof (cases "byte c < 128")
      case True
      then have "?n = 1"
        by (simp add: Cons utf8_len_def byte_at_def lead_len_def second_ok_def)
      then have t: "utf8_valid t" using rest Cons by simp
      have q: "quote_body s = (if html_safe c then [c] else esc_ascii c) @ quote_body t"
        by (simp add: Cons True quote_body.simps [of "c # t"])
      let ?p = "if html_safe c then [c] else esc_ascii c"
      have "scan_str ((?p @ quote_body t) @ CHR 0x22 # r) = Some (?p @ quote_body t, r) \<and>
            unquote (?p @ quote_body t) = [c] @ t"
        using "1.IH"(1) [OF Cons True t] by (intro good_piece_append good_piece_ascii True) auto
      with q Cons show ?thesis by simp
    next
      case False
      let ?s3 = "take 3 s"
      have r3: "?n = 3" if "?s3 = [CHR 0xE2, CHR 0x80, c3]" for c3
      proof -
        have "byte_at s 0 = 226" using that Cons by (auto simp: byte_at_def byte_def)
        then show ?thesis using n by (simp add: utf8_len_def lead_len_def Let_def split: if_splits)
      qed
      consider (a8) "?s3 = [CHR 0xE2, CHR 0x80, CHR 0xA8]"
        | (a9) "?s3 = [CHR 0xE2, CHR 0x80, CHR 0xA9]"
        | (other) "?s3 \<noteq> [CHR 0xE2, CHR 0x80, CHR 0xA8]" "?s3 \<noteq> [CHR 0xE2, CHR 0x80, CHR 0xA9]"
        by blast
      then show ?thesis
      proof cases
        case a8
        note q = quote_body_high(1) [OF Cons False n a8]
        have "utf8_valid (drop 3 s)" using rest r3 [OF a8] by simp
        then have "scan_str (quote_body s @ CHR 0x22 # r) = Some (quote_body s, r) \<and>
              unquote (quote_body s) = ?s3 @ drop 3 s"
          unfolding q a8 using "1.IH"(3) [OF Cons False n a8]
          by (intro good_piece_append good_piece_u2028) auto
        then show ?thesis by (metis append_take_drop_id)
      next
        case a9
        note q = quote_body_high(2) [OF Cons False n a9]
        have "utf8_valid (drop 3 s)" using rest r3 [OF a9] by simp
        then have "scan_str (quote_body s @ CHR 0x22 # r) = Some (quote_body s, r) \<and>
              unquote (quote_body s) = ?s3 @ drop 3 s"
          unfolding q a9 using "1.IH"(4) [OF Cons False n _ a9] a9
          by (intro good_piece_append good_piece_u2028) auto
        then show ?thesis by (metis append_take_drop_id)
      next
        case other
        note q = quote_body_high(3) [OF Cons False n other]
        have g: "good_piece (take ?n s) (take ?n s)"
          using good_piece_runes [OF refl _ Cons False] n by simp
        have "scan_str (quote_body s @ CHR 0x22 # r) = Some (quote_body s, r) \<and>
              unquote (quote_body s) = take ?n s @ drop ?n s"
          unfolding q using "1.IH"(5) [OF Cons False n other rest]
          by (intro good_piece_append g) auto
        then show ?thesis by simp
      qed
    qed
  qed
qed

lemma json_quote_read:
  "utf8_valid s \<Longrightarrow> parse_value (Suc f) d (json_quote s @ r) = POk (JStr s) r"
  using scan_quote_body [of s r] by (simp add: json_quote_def skip_ws_def is_ws_def)

end
