(* ===== verification/GoNet.thy ===== *)
theory GoNet
  imports GoJson
begin

text \<open>
  What the program uses of \<open>net/url\<close>, \<open>net\<close> and \<open>net/netip\<close>: \<open>url.Parse\<close> with \<open>URL.Hostname\<close>,
  \<open>net.ParseIP\<close> (whether a text is an address), and \<open>net.SplitHostPort\<close>. An error of these
  functions has no content here: the program only asks whether there is one.
\<close>

subsection \<open>Percent encoding\<close>

datatype encoding = EncPath | EncUserPassword | EncHost | EncZone | EncFragment

definition is_alnum :: "char \<Rightarrow> bool" where
  "is_alnum c \<longleftrightarrow> is_digit c \<or> 65 \<le> byte c \<and> byte c \<le> 90 \<or> 97 \<le> byte c \<and> byte c \<le> 122"

text \<open>\<open>shouldEscape\<close> for the two modes of the host, the only ones that ask.\<close>

definition should_escape_host :: "char \<Rightarrow> bool" where
  "should_escape_host c \<longleftrightarrow>
     \<not> (is_alnum c \<or> List.member (''!$&'' @ [CHR 0x27] @ ''()*+,;=:[]<>'' @ [CHR 0x22]) c \<or>
        List.member ''-_.~'' c)"

text \<open>
  \<open>unescape\<close>; \<^const>\<open>None\<close> is an error. A percent sign needs two hexadecimal digits. In a host only
  bytes above 127 may be encoded, and \<open>%25\<close>; in a zone a space and what needs no encoding too.
\<close>

definition pct_ok :: "encoding \<Rightarrow> char \<Rightarrow> char \<Rightarrow> bool" where
  "pct_ok mode a b =
     (case (hex_val a, hex_val b) of
        (Some x, Some y) \<Rightarrow>
          (case mode of
             EncHost \<Rightarrow> 8 \<le> x \<or> a = CHR ''2'' \<and> b = CHR ''5''
           | EncZone \<Rightarrow> a = CHR ''2'' \<and> b = CHR ''5'' \<or> x * 16 + y = 32 \<or>
               \<not> should_escape_host (char_of (x * 16 + y))
           | _ \<Rightarrow> True)
      | _ \<Rightarrow> False)"

definition plain_ok :: "encoding \<Rightarrow> char \<Rightarrow> bool" where
  "plain_ok mode c \<longleftrightarrow> \<not> ((mode = EncHost \<or> mode = EncZone) \<and> byte c < 128 \<and> should_escape_host c)"

fun unescape :: "encoding \<Rightarrow> string \<Rightarrow> string option" where
  "unescape mode [] = Some []"
| "unescape mode (c # s) =
     (if c = CHR ''%'' then
        (case s of
           a # b # t \<Rightarrow>
             if pct_ok mode a b
             then map_option ((#) (char_of (the (hex_val a) * 16 + the (hex_val b)))) (unescape mode t)
             else None
         | _ \<Rightarrow> None)
      else if plain_ok mode c then map_option ((#) c) (unescape mode s) else None)"

subsection \<open>URLs\<close>

record url =
  url_Scheme :: string
  url_Opaque :: string
  url_User :: "(string \<times> string option) option"
  url_Host :: string
  url_Path :: string
  url_RawQuery :: string

definition empty_url :: url where
  "empty_url = \<lparr>url_Scheme = [], url_Opaque = [], url_User = None, url_Host = [], url_Path = [], url_RawQuery = []\<rparr>"

text \<open>\<open>getScheme\<close>: the scheme and the rest; \<open>seen\<close> is what was read so far.\<close>

fun scheme_from :: "string \<Rightarrow> string \<Rightarrow> string \<Rightarrow> (string \<times> string) option" where
  "scheme_from raw seen [] = Some ([], raw)"
| "scheme_from raw seen (c # s) =
     (if 65 \<le> byte c \<and> byte c \<le> 90 \<or> 97 \<le> byte c \<and> byte c \<le> 122 then scheme_from raw (seen @ [c]) s
      else if is_digit c \<or> c = CHR ''+'' \<or> c = CHR ''-'' \<or> c = CHR ''.'' then
        (if seen = [] then Some ([], raw) else scheme_from raw (seen @ [c]) s)
      else if c = CHR '':'' then (if seen = [] then None else Some (seen, s))
      else Some ([], raw))"

definition getScheme :: "string \<Rightarrow> (string \<times> string) option" where
  "getScheme raw = scheme_from raw [] raw"

text \<open>A port is a colon and digits, or nothing.\<close>

definition validOptionalPort :: "string \<Rightarrow> bool" where
  "validOptionalPort p = (case p of [] \<Rightarrow> True | c # ds \<Rightarrow> c = CHR '':'' \<and> list_all is_digit ds)"

definition validUserinfo :: "string \<Rightarrow> bool" where
  "validUserinfo s =
     list_all (\<lambda>c. is_alnum c \<or> List.member (''-._:~!$&'' @ [CHR 0x27] @ ''()*+,;=%@'') c) s"

text \<open>\<open>parseHost\<close>: an address in brackets with an optional zone, or a name, with an optional port.\<close>

definition parseHost :: "string \<Rightarrow> string option" where
  "parseHost h =
     (if has_prefix h ''['' then
        (case last_index_byte h (CHR '']'') of
           None \<Rightarrow> None
         | Some i \<Rightarrow>
             if \<not> validOptionalPort (drop (Suc i) h) then None
             else (case index_of (take i h) ''%25'' of
                 None \<Rightarrow> unescape EncHost h
               | Some z \<Rightarrow>
                   (case (unescape EncHost (take z h), unescape EncZone (drop z (take i h)), unescape EncHost (drop i h)) of
                      (Some a, Some b, Some c) \<Rightarrow> Some (a @ b @ c)
                    | _ \<Rightarrow> None)))
      else (case last_index_byte h (CHR '':'') of
          Some i \<Rightarrow> if validOptionalPort (drop i h) then unescape EncHost h else None
        | None \<Rightarrow> unescape EncHost h))"

definition parseUserinfo :: "string \<Rightarrow> (string \<times> string option) option" where
  "parseUserinfo s =
     (if \<not> validUserinfo s then None
      else (case cut s (CHR '':'') of
          (name, pw, found) \<Rightarrow>
            if found then
              (case (unescape EncUserPassword name, unescape EncUserPassword pw) of
                 (Some n, Some p) \<Rightarrow> Some (n, Some p)
               | _ \<Rightarrow> None)
            else map_option (\<lambda>n. (n, None)) (unescape EncUserPassword s)))"

definition parseAuthority :: "string \<Rightarrow> ((string \<times> string option) option \<times> string) option" where
  "parseAuthority a =
     (case last_index_byte a (CHR ''@'') of
        None \<Rightarrow> map_option (Pair None) (parseHost a)
      | Some i \<Rightarrow>
          (case parseHost (drop (Suc i) a) of
             None \<Rightarrow> None
           | Some h \<Rightarrow> map_option (\<lambda>u. (Some u, h)) (parseUserinfo (take i a))))"

definition has_ctl_byte :: "string \<Rightarrow> bool" where
  "has_ctl_byte s = list_ex (\<lambda>c. byte c < 32 \<or> byte c = 127) s"

text \<open>
  \<open>parse\<close> after the scheme and the query are split off: an opaque URL, an authority with a path, or
  a path.
\<close>

definition parse_rest :: "string \<Rightarrow> string \<Rightarrow> string \<Rightarrow> url option" where
  "parse_rest scheme query rest =
     (let u = empty_url\<lparr>url_Scheme := scheme, url_RawQuery := query\<rparr> in
      if \<not> has_prefix rest ''/'' \<and> scheme \<noteq> [] then Some (u\<lparr>url_Opaque := rest\<rparr>)
      else if \<not> has_prefix rest ''/'' \<and> contains (fst (cut rest (CHR ''/''))) '':'' then None
      else if (scheme \<noteq> [] \<or> \<not> has_prefix rest ''///'') \<and> has_prefix rest ''//'' then
        (let a = takeWhile (\<lambda>c. c \<noteq> CHR ''/'') (drop 2 rest); p = dropWhile (\<lambda>c. c \<noteq> CHR ''/'') (drop 2 rest) in
         case parseAuthority a of
           None \<Rightarrow> None
         | Some (us, h) \<Rightarrow>
             map_option (\<lambda>p. u\<lparr>url_User := us, url_Host := h, url_Path := p\<rparr>) (unescape EncPath p))
      else map_option (\<lambda>p. u\<lparr>url_Path := p\<rparr>) (unescape EncPath rest))"

definition parse_nofrag :: "string \<Rightarrow> url option" where
  "parse_nofrag raw =
     (if has_ctl_byte raw then None
      else if raw = ''*'' then Some (empty_url\<lparr>url_Path := ''*''\<rparr>)
      else (case getScheme raw of
          None \<Rightarrow> None
        | Some (scheme, rest) \<Rightarrow>
            (case cut rest (CHR ''?'') of (path, query, _) \<Rightarrow>
               parse_rest (map ascii_lower scheme) query path)))"

definition url_Parse :: "string \<Rightarrow> url option" where
  "url_Parse raw =
     (case cut raw (CHR ''#'') of
        (u, frag, _) \<Rightarrow>
          (case parse_nofrag u of
             None \<Rightarrow> None
           | Some x \<Rightarrow> if unescape EncFragment frag = None then None else Some x))"

text \<open>\<open>URL.Hostname\<close>: the host without its port and without the brackets of an address.\<close>

definition url_Hostname :: "url \<Rightarrow> string" where
  "url_Hostname u =
     (let h = (case last_index_byte (url_Host u) (CHR '':'') of
                 Some i \<Rightarrow> if validOptionalPort (drop i (url_Host u)) then take i (url_Host u) else url_Host u
               | None \<Rightarrow> url_Host u)
      in if has_prefix h ''['' \<and> has_suffix h '']'' then butlast (tl h) else h)"

subsection \<open>Addresses\<close>

definition octet_ok :: "string \<Rightarrow> bool" where
  "octet_ok p \<longleftrightarrow>
     p \<noteq> [] \<and> list_all is_digit p \<and> (hd p \<noteq> CHR ''0'' \<or> length p = 1) \<and> digits_val p \<le> 255"

definition is_ipv4 :: "string \<Rightarrow> bool" where
  "is_ipv4 s \<longleftrightarrow> length (split_on (CHR ''.'') s) = 4 \<and> list_all octet_ok (split_on (CHR ''.'') s)"

text \<open>
  The groups of an IPv6 address after \<open>n\<close> of them; the flag says whether a \<open>::\<close> was seen. It stands
  for at least one group.
\<close>

definition ipv6_end :: "nat \<Rightarrow> bool \<Rightarrow> bool" where
  "ipv6_end n ell = (if n < 8 then ell else \<not> ell)"

function ipv6_groups :: "nat \<Rightarrow> bool \<Rightarrow> string \<Rightarrow> bool" where
  "ipv6_groups n ell s =
     (if n \<ge> 8 then s = [] \<and> ipv6_end n ell
      else
        (let h = takeWhile is_hex s in
         if h = [] \<or> length h > 4 then False
         else (case dropWhile is_hex s of
             [] \<Rightarrow> ipv6_end (n + 1) ell
           | c # t \<Rightarrow>
               if c = CHR ''.'' then (ell \<or> n = 6) \<and> n + 2 \<le> 8 \<and> is_ipv4 s \<and> ipv6_end (n + 2) ell
               else if c \<noteq> CHR '':'' then False
               else (case t of
                   [] \<Rightarrow> False
                 | d # r \<Rightarrow>
                     if d = CHR '':'' then \<not> ell \<and> (if r = [] then ipv6_end (n + 1) True else ipv6_groups (n + 1) True r)
                     else ipv6_groups (n + 1) ell t))))"
  by pat_completeness auto
termination
  by (relation "measure (\<lambda>(n, ell, s). 8 - n)") auto

declare ipv6_groups.simps [simp del]

definition is_ipv6 :: "string \<Rightarrow> bool" where
  "is_ipv6 s =
     (if has_prefix s ''::'' then drop 2 s = [] \<or> ipv6_groups 0 True (drop 2 s) else ipv6_groups 0 False s)"

text \<open>\<open>net.ParseIP(s) != nil\<close>: the first dot or colon decides; an address with a zone is none.\<close>

definition is_ip :: "string \<Rightarrow> bool" where
  "is_ip s =
     (case dropWhile (\<lambda>c. c \<noteq> CHR ''.'' \<and> c \<noteq> CHR '':'' \<and> c \<noteq> CHR ''%'') s of
        [] \<Rightarrow> False
      | c # _ \<Rightarrow>
          if c = CHR ''.'' then is_ipv4 s
          else if c = CHR '':'' then CHR ''%'' \<notin> set s \<and> is_ipv6 s
          else False)"

text \<open>\<open>net.SplitHostPort\<close>: the host and the port, or an error.\<close>

definition SplitHostPort :: "string \<Rightarrow> (string \<times> string) option" where
  "SplitHostPort hp =
     (case last_index_byte hp (CHR '':'') of
        None \<Rightarrow> None
      | Some i \<Rightarrow>
          if has_prefix hp ''['' then
            (case index_byte hp (CHR '']'') of
               None \<Rightarrow> None
             | Some e \<Rightarrow>
                 if Suc e \<noteq> i then None
                 else if CHR ''['' \<in> set (drop 1 hp) \<or> CHR '']'' \<in> set (drop (Suc e) hp) then None
                 else Some (take (e - 1) (drop 1 hp), drop (Suc i) hp))
          else if CHR '':'' \<in> set (take i hp) \<or> CHR ''['' \<in> set hp \<or> CHR '']'' \<in> set hp then None
          else Some (take i hp, drop (Suc i) hp))"

subsection \<open>Plain URLs\<close>

text \<open>
  A web URL with a plain host: lower-case letters, digits, hyphens and dots. \<open>plain_path\<close> is a path
  that needs no decoding.
\<close>

definition host_char :: "char \<Rightarrow> bool" where
  "host_char c \<longleftrightarrow> is_digit c \<or> 97 \<le> byte c \<and> byte c \<le> 122 \<or> c = CHR ''-'' \<or> c = CHR ''.''"

definition plain_host :: "string \<Rightarrow> bool" where
  "plain_host h \<longleftrightarrow> h \<noteq> [] \<and> list_all host_char h"

definition plain_path :: "string \<Rightarrow> bool" where
  "plain_path p \<longleftrightarrow>
     (p = [] \<or> hd p = CHR ''/'') \<and>
     list_all (\<lambda>c. 32 \<le> byte c \<and> byte c \<noteq> 127 \<and> c \<noteq> CHR ''#'' \<and> c \<noteq> CHR ''%'' \<and> c \<noteq> CHR ''?'') p"

lemma host_char_not:
  "host_char c \<Longrightarrow> c \<noteq> CHR '':'' \<and> c \<noteq> CHR ''/'' \<and> c \<noteq> CHR ''@'' \<and> c \<noteq> CHR ''['' \<and> c \<noteq> CHR '']'' \<and>
     c \<noteq> CHR ''%'' \<and> c \<noteq> CHR ''#'' \<and> c \<noteq> CHR ''?''"
  by (auto simp: host_char_def is_digit_def byte_def)

lemma host_char_absent: "list_all host_char h \<Longrightarrow> \<not> host_char c \<Longrightarrow> c \<notin> set h"
  by (auto simp: list_all_iff)

lemma plain_path_absent:
  "plain_path p \<Longrightarrow> CHR ''#'' \<notin> set p \<and> CHR ''?'' \<notin> set p \<and> CHR ''%'' \<notin> set p"
  by (induction p) (auto simp: plain_path_def list_all_iff)

lemma host_char_special [simp]:
  "\<not> host_char (CHR '':'')" "\<not> host_char (CHR ''/'')" "\<not> host_char (CHR ''@'')" "\<not> host_char (CHR ''['')"
  "\<not> host_char (CHR '']'')" "\<not> host_char (CHR ''%'')" "\<not> host_char (CHR ''#'')" "\<not> host_char (CHR ''?'')"
  by (simp_all add: host_char_def is_digit_def byte_def)

lemma host_char_ctl: "host_char c \<Longrightarrow> 32 \<le> byte c \<and> byte c < 127"
  by (auto simp: host_char_def is_digit_def byte_def)

lemma plain_host_ctl: "list_all host_char h \<Longrightarrow> \<not> has_ctl_byte h"
  unfolding has_ctl_byte_def by (induction h) (auto dest: host_char_ctl)

lemma plain_path_ctl: "plain_path p \<Longrightarrow> \<not> has_ctl_byte p"
  unfolding has_ctl_byte_def plain_path_def by (simp add: list_all_iff list_ex_iff) force

lemma host_char_plain: "host_char c \<Longrightarrow> plain_ok EncHost c"
  by (auto simp: host_char_def plain_ok_def should_escape_host_def is_alnum_def byte_def)

lemma last_index_byte_None: "c \<notin> set s \<Longrightarrow> last_index_byte s c = None"
  by (induction s) auto

lemma unescape_plain: "list_all (\<lambda>c. c \<noteq> CHR ''%'' \<and> plain_ok mode c) s \<Longrightarrow> unescape mode s = Some s"
  by (induction s) auto

lemma parseHost_plain: "plain_host h \<Longrightarrow> parseHost h = Some h"
proof -
  assume h: "plain_host h"
  then have "\<not> has_prefix h ''[''" "CHR '':'' \<notin> set h"
    by (cases h; auto simp: plain_host_def has_prefix_def list_all_iff dest: host_char_not)+
  moreover have "unescape EncHost h = Some h"
    using h by (intro unescape_plain) (auto simp: plain_host_def list_all_iff dest: host_char_not host_char_plain)
  ultimately show "parseHost h = Some h" by (simp add: parseHost_def last_index_byte_None)
qed

lemma parseAuthority_plain: "plain_host h \<Longrightarrow> parseAuthority h = Some (None, h)"
proof -
  assume h: "plain_host h"
  then have "CHR ''@'' \<notin> set h" by (auto simp: plain_host_def list_all_iff dest: host_char_not)
  then show ?thesis using parseHost_plain [OF h] by (simp add: parseAuthority_def last_index_byte_None)
qed

lemma cut_absent: "c \<notin> set s \<Longrightarrow> cut s c = (s, [], False)"
  using index_byte_None [of s c] by (simp add: cut_def)

lemma url_Parse_plain:
  assumes "plain_host h" "plain_path p" "scheme = ''http'' \<or> scheme = ''https''"
  shows "url_Parse (scheme @ ''://'' @ h @ p) =
    Some (empty_url\<lparr>url_Scheme := scheme, url_Host := h, url_Path := p\<rparr>)"
proof -
  let ?raw = "scheme @ ''://'' @ h @ p"
  have p: "list_all (\<lambda>c. c \<noteq> CHR ''%'' \<and> plain_ok EncPath c) p"
    using assms(2) by (auto simp: plain_path_def list_all_iff plain_ok_def)
  have h: "list_all host_char h" using assms(1) by (simp add: plain_host_def)
  have "CHR ''#'' \<notin> set scheme" using assms(3) by auto
  then have "CHR ''#'' \<notin> set ?raw" "CHR ''?'' \<notin> set (''//'' @ h @ p)"
    using host_char_absent [OF h] plain_path_absent [OF assms(2)] by simp_all
  moreover have "\<not> has_ctl_byte scheme" using assms(3) by (auto simp: has_ctl_byte_def byte_def)
  then have "\<not> has_ctl_byte ?raw"
    using plain_host_ctl [OF h] plain_path_ctl [OF assms(2)] by (simp add: has_ctl_byte_def byte_def)
  moreover have "getScheme ?raw = Some (scheme, ''//'' @ h @ p)"
    using assms(3) by (auto simp: getScheme_def byte_def is_digit_def)
  moreover have "map ascii_lower scheme = scheme" using assms(3) by (auto simp: ascii_lower_def byte_def)
  moreover have "takeWhile (\<lambda>c. c \<noteq> CHR ''/'') (h @ p) = h" "dropWhile (\<lambda>c. c \<noteq> CHR ''/'') (h @ p) = p"
  proof -
    have "\<forall>c \<in> set h. c \<noteq> CHR ''/''" using h by (auto simp: list_all_iff dest: host_char_not)
    then show "takeWhile (\<lambda>c. c \<noteq> CHR ''/'') (h @ p) = h" "dropWhile (\<lambda>c. c \<noteq> CHR ''/'') (h @ p) = p"
      using assms(2) by (cases p; simp add: plain_path_def takeWhile_append2 dropWhile_append2)+
  qed
  moreover have "?raw \<noteq> ''*''" "scheme \<noteq> []" using assms(3) by auto
  ultimately show ?thesis
    using parseAuthority_plain [OF assms(1)] unescape_plain [OF p]
    by (simp add: url_Parse_def parse_nofrag_def cut_absent parse_rest_def has_prefix_def empty_url_def)
qed

lemma url_Hostname_plain: "plain_host (url_Host u) \<Longrightarrow> url_Hostname u = url_Host u"
proof -
  assume h: "plain_host (url_Host u)"
  then have "\<not> has_prefix (url_Host u) ''[''" "CHR '':'' \<notin> set (url_Host u)"
    by (cases "url_Host u"; auto simp: plain_host_def has_prefix_def list_all_iff dest: host_char_not)+
  then show ?thesis by (simp add: url_Hostname_def last_index_byte_None Let_def)
qed

subsection \<open>Web URLs\<close>

text \<open>
  The general form of a web URL: a scheme in any case, user information, a name in any case with a
  port, a path, a query and a fragment. \<open>web_url_ok\<close> says which parts \<open>url.Parse\<close> takes.
\<close>

record url_parts =
  up_scheme :: string
  up_user :: "string option"
  up_host :: string
  up_port :: string
  up_path :: string
  up_query :: "string option"
  up_fragment :: "string option"

definition web_url :: "url_parts \<Rightarrow> string" where
  "web_url p = up_scheme p @ ''://'' @ (case up_user p of None \<Rightarrow> [] | Some s \<Rightarrow> s @ ''@'') @ up_host p @ up_port p @
     up_path p @ (case up_query p of None \<Rightarrow> [] | Some s \<Rightarrow> CHR ''?'' # s) @
     (case up_fragment p of None \<Rightarrow> [] | Some s \<Rightarrow> CHR ''#'' # s)"

definition web_url_ok :: "url_parts \<Rightarrow> bool" where
  "web_url_ok p \<longleftrightarrow>
     map ascii_lower (up_scheme p) \<in> {''http'', ''https''} \<and>
     (case up_user p of None \<Rightarrow> True | Some s \<Rightarrow> parseUserinfo s \<noteq> None) \<and>
     plain_host (map ascii_lower (up_host p)) \<and> validOptionalPort (up_port p) \<and>
     (up_path p = [] \<or> hd (up_path p) = CHR ''/'') \<and> CHR ''?'' \<notin> set (up_path p) \<and> CHR ''#'' \<notin> set (up_path p) \<and>
     \<not> has_ctl_byte (up_path p) \<and> unescape EncPath (up_path p) \<noteq> None \<and>
     (case up_query p of None \<Rightarrow> True | Some s \<Rightarrow> CHR ''#'' \<notin> set s \<and> \<not> has_ctl_byte s) \<and>
     (case up_fragment p of None \<Rightarrow> True | Some s \<Rightarrow> unescape EncFragment s \<noteq> None)"

definition letter :: "char \<Rightarrow> bool" where
  "letter c \<longleftrightarrow> 65 \<le> byte c \<and> byte c \<le> 90 \<or> 97 \<le> byte c \<and> byte c \<le> 122"

lemma byte_ascii_lower: "byte (ascii_lower c) = (if 65 \<le> byte c \<and> byte c \<le> 90 then byte c + 32 else byte c)"
  by (simp add: ascii_lower_def)

lemma host_char_upper: "host_char (ascii_lower c) \<longleftrightarrow> host_char c \<or> letter c"
proof (cases "65 \<le> byte c \<and> byte c \<le> 90")
  case True
  then show ?thesis by (simp add: host_char_def byte_ascii_lower letter_def)
next
  case False
  then have "ascii_lower c = c" by (auto simp: ascii_lower_def)
  with False show ?thesis by (auto simp: host_char_def letter_def)
qed

lemma letter_not:
  "letter c \<Longrightarrow> c \<noteq> CHR '':'' \<and> c \<noteq> CHR ''/'' \<and> c \<noteq> CHR ''@'' \<and> c \<noteq> CHR ''['' \<and> c \<noteq> CHR '']'' \<and>
     c \<noteq> CHR ''%'' \<and> c \<noteq> CHR ''#'' \<and> c \<noteq> CHR ''?''"
  by (auto simp: letter_def byte_def)

lemma any_case_host_char:
  assumes "host_char (ascii_lower c)"
  shows "c \<noteq> CHR '':'' \<and> c \<noteq> CHR ''/'' \<and> c \<noteq> CHR ''@'' \<and> c \<noteq> CHR ''['' \<and> c \<noteq> CHR ''%'' \<and> c \<noteq> CHR ''#'' \<and> c \<noteq> CHR ''?'' \<and>
    32 \<le> byte c \<and> byte c < 127 \<and> plain_ok EncHost c"
proof -
  have "plain_ok EncHost c" if "letter c"
    using that by (auto simp: plain_ok_def should_escape_host_def is_alnum_def letter_def)
  with assms host_char_not [of c] host_char_ctl [of c] host_char_plain [of c] letter_not [of c]
  show ?thesis unfolding host_char_upper by (auto simp: letter_def)
qed

lemma scheme_from_letters:
  "list_all letter s \<Longrightarrow> seen @ s \<noteq> [] \<Longrightarrow> scheme_from raw seen (s @ CHR '':'' # t) = Some (seen @ s, t)"
proof (induction s arbitrary: seen)
  case Nil
  then show ?case by (simp add: byte_def is_digit_def)
next
  case (Cons c s)
  then show ?case using Cons.IH [of "seen @ [c]"] by (simp add: letter_def)
qed

lemma web_scheme_letters:
  assumes "map ascii_lower s \<in> {''http'', ''https''}" shows "list_all letter s \<and> s \<noteq> []"
proof -
  have "letter c" if "c \<in> set s" for c
  proof -
    have "ascii_lower c \<in> set (map ascii_lower s)" using that by auto
    then have "ascii_lower c \<in> {CHR ''h'', CHR ''t'', CHR ''p'', CHR ''s''}" using assms by auto
    then have "97 \<le> byte (ascii_lower c)" "byte (ascii_lower c) \<le> 122" by (auto simp: byte_def)
    then show ?thesis by (auto simp: byte_ascii_lower letter_def split: if_splits)
  qed
  with assms show ?thesis by (auto simp: list_all_iff)
qed

lemma last_index_byte_append: "c \<notin> set t \<Longrightarrow> last_index_byte (s @ c # t) c = Some (length s)"
  by (induction s) (simp_all add: last_index_byte_None)

lemma parse_host_port:
  assumes h: "plain_host (map ascii_lower h)" and p: "validOptionalPort p"
  shows "parseHost (h @ p) = Some (h @ p)" "url_Hostname (u\<lparr>url_Host := h @ p\<rparr>) = h" "CHR ''@'' \<notin> set (h @ p)"
    "CHR ''/'' \<notin> set (h @ p)" "CHR ''#'' \<notin> set (h @ p)" "CHR ''?'' \<notin> set (h @ p)" "\<not> has_ctl_byte (h @ p)"
proof -
  have hc: "host_char (ascii_lower c)" if "c \<in> set h" for c using h that by (auto simp: plain_host_def list_all_iff)
  note chars = hc [THEN any_case_host_char]
  have h0: "h \<noteq> []" "CHR '':'' \<notin> set h" "\<not> has_prefix h ''[''" "\<not> has_prefix (h @ p) ''[''"
    using h chars by (cases h; force simp: plain_host_def has_prefix_def)+
  have ports: "p = [] \<or> (\<exists>ds. p = CHR '':'' # ds \<and> list_all is_digit ds)"
    using p by (auto simp: validOptionalPort_def split: list.splits)
  have digit: "c \<noteq> CHR '':'' \<and> c \<noteq> CHR ''@'' \<and> c \<noteq> CHR ''/'' \<and> c \<noteq> CHR ''%'' \<and> c \<noteq> CHR ''#'' \<and> c \<noteq> CHR ''?'' \<and>
      32 \<le> byte c \<and> byte c < 127 \<and> plain_ok EncHost c" if "is_digit c" for c
    using that by (auto simp: is_digit_def byte_def plain_ok_def should_escape_host_def is_alnum_def)
  have colon: "plain_ok EncHost (CHR '':'')" by code_simp
  have all: "c \<noteq> CHR ''@'' \<and> c \<noteq> CHR ''/'' \<and> c \<noteq> CHR ''%'' \<and> c \<noteq> CHR ''#'' \<and> c \<noteq> CHR ''?'' \<and> 32 \<le> byte c \<and> byte c < 127 \<and>
      plain_ok EncHost c" if "c \<in> set (h @ p)" for c
    using that ports chars [of c] digit [of c] colon by (auto simp: list_all_iff byte_def)
  then show "CHR ''@'' \<notin> set (h @ p)" "CHR ''/'' \<notin> set (h @ p)" "CHR ''#'' \<notin> set (h @ p)" "CHR ''?'' \<notin> set (h @ p)"
    by blast+
  show "\<not> has_ctl_byte (h @ p)" unfolding has_ctl_byte_def list_ex_iff using all by force
  have un: "unescape EncHost (h @ p) = Some (h @ p)" by (rule unescape_plain) (use all in \<open>auto simp: list_all_iff\<close>)
  have last: "p = [] \<and> last_index_byte (h @ p) (CHR '':'') = None \<or> p \<noteq> [] \<and> last_index_byte (h @ p) (CHR '':'') = Some (length h)"
  proof (cases "p = []")
    case False
    with ports obtain ds where ds: "p = CHR '':'' # ds" "list_all is_digit ds" by blast
    then have "CHR '':'' \<notin> set ds" using digit by (auto simp: list_all_iff)
    with ds last_index_byte_append [of "CHR '':''" ds h] show ?thesis by simp
  qed (simp add: last_index_byte_None h0)
  show "parseHost (h @ p) = Some (h @ p)" using last un h0(4) p by (auto simp: parseHost_def)
  show "url_Hostname (u\<lparr>url_Host := h @ p\<rparr>) = h" using last h0(3) p by (auto simp: url_Hostname_def Let_def)
qed

lemma userinfo_chars:
  assumes "parseUserinfo s \<noteq> None"
  shows "CHR ''/'' \<notin> set s \<and> CHR ''#'' \<notin> set s \<and> CHR ''?'' \<notin> set s \<and> \<not> has_ctl_byte s"
proof -
  have v: "validUserinfo s" using assms by (auto simp: parseUserinfo_def split: if_splits)
  let ?more = "''-._:~!$&'' @ [CHR 0x27] @ ''()*+,;=%@''"
  have ok: "32 \<le> byte c \<and> byte c < 127 \<and> c \<notin> {CHR ''/'', CHR ''#'', CHR ''?''}" if "c \<in> set s" for c
  proof -
    from v that have "is_alnum c \<or> c \<in> set ?more"
      by (auto simp: validUserinfo_def list_all_iff)
    then show ?thesis
    proof
      assume "is_alnum c"
      then show ?thesis by (auto simp: is_alnum_def is_digit_def byte_def)
    next
      assume "c \<in> set ?more"
      then show ?thesis by (auto simp: byte_def)
    qed
  qed
  then have "\<not> has_ctl_byte s" unfolding has_ctl_byte_def list_ex_iff by force
  with ok show ?thesis by blast
qed

lemma web_url_okD:
  assumes "web_url_ok p"
  shows "map ascii_lower (up_scheme p) \<in> {''http'', ''https''}"
    "plain_host (map ascii_lower (up_host p))" "validOptionalPort (up_port p)"
    "up_path p = [] \<or> hd (up_path p) = CHR ''/''" "CHR ''?'' \<notin> set (up_path p)" "CHR ''#'' \<notin> set (up_path p)"
    "\<not> has_ctl_byte (up_path p)" "unescape EncPath (up_path p) \<noteq> None"
    "\<And>s. up_query p = Some s \<Longrightarrow> CHR ''#'' \<notin> set s \<and> \<not> has_ctl_byte s"
    "\<And>s. up_fragment p = Some s \<Longrightarrow> unescape EncFragment s \<noteq> None"
    "\<And>s. up_user p = Some s \<Longrightarrow> parseUserinfo s \<noteq> None"
  using assms unfolding web_url_ok_def by (elim conjE, (assumption | simp only: option.case))+

definition authority_of :: "url_parts \<Rightarrow> string" where
  "authority_of p = (case up_user p of None \<Rightarrow> [] | Some s \<Rightarrow> s @ ''@'') @ up_host p @ up_port p"

lemma parse_authority:
  assumes "web_url_ok p"
  shows "\<exists>us. parseAuthority (authority_of p) = Some (us, up_host p @ up_port p) \<and> (us = None \<longleftrightarrow> up_user p = None)"
    "CHR ''/'' \<notin> set (authority_of p)" "CHR ''#'' \<notin> set (authority_of p)" "CHR ''?'' \<notin> set (authority_of p)"
    "\<not> has_ctl_byte (authority_of p)"
proof -
  note h = web_url_okD(2,3) [OF assms] and us = web_url_okD(11) [OF assms]
  note host = parse_host_port [OF h]
  show "\<exists>us. parseAuthority (authority_of p) = Some (us, up_host p @ up_port p) \<and> (us = None \<longleftrightarrow> up_user p = None)"
  proof (cases "up_user p")
    case None
    then show ?thesis using host(1,3) by (simp add: authority_of_def parseAuthority_def last_index_byte_None)
  next
    case (Some s)
    then show ?thesis using us host(1) last_index_byte_append [OF host(3), of s]
      by (auto simp: authority_of_def parseAuthority_def)
  qed
  show "CHR ''/'' \<notin> set (authority_of p)" "CHR ''#'' \<notin> set (authority_of p)" "CHR ''?'' \<notin> set (authority_of p)"
    using host userinfo_chars [OF us] by (auto simp: authority_of_def split: option.split)
  show "\<not> has_ctl_byte (authority_of p)"
    using host(7) userinfo_chars [OF us] by (auto simp: authority_of_def has_ctl_byte_def byte_def split: option.split)
qed

lemma url_Parse_web:
  assumes ok: "web_url_ok p"
  obtains u where "url_Parse (web_url p) = Some u" "url_Scheme u = map ascii_lower (up_scheme p)"
    "url_Hostname u = up_host p" "url_User u = None \<longleftrightarrow> up_user p = None"
proof -
  let ?path = "up_path p" and ?sch = "up_scheme p" and ?a = "authority_of p"
  let ?q = "case up_query p of None \<Rightarrow> [] | Some s \<Rightarrow> CHR ''?'' # s"
  let ?raw = "?sch @ ''://'' @ ?a @ ?path @ ?q"
  note parts_ok = web_url_okD [OF ok]
  note sch = parts_ok(1) and h = parts_ok(2,3) and path = parts_ok(4-8) and query = parts_ok(9) and frag = parts_ok(10)
  note auth = parse_authority [OF ok] and letters = web_scheme_letters [OF sch]
  obtain us where us: "parseAuthority ?a = Some (us, up_host p @ up_port p)" "us = None \<longleftrightarrow> up_user p = None"
    using auth(1) by (elim exE conjE)
  obtain x where x: "unescape EncPath ?path = Some x" using path(5) by (rule not_None_eq [THEN iffD1, THEN exE])
  obtain q where q: "(?q = [] \<and> q = [] \<or> ?q = CHR ''?'' # q) \<and> CHR ''#'' \<notin> set ?q \<and> \<not> has_ctl_byte ?q"
    using query by (cases "up_query p") (auto simp: has_ctl_byte_def byte_def)
  have l: "c \<noteq> CHR ''#'' \<and> c \<noteq> CHR ''?'' \<and> 32 \<le> byte c \<and> byte c < 127" if "c \<in> set ?sch" for c
    using letters that letter_not [of c] by (auto simp: list_all_iff letter_def)
  then have lctl: "\<not> has_ctl_byte ?sch" "CHR ''#'' \<notin> set ?sch" unfolding has_ctl_byte_def list_ex_iff by force+
  have nohash: "CHR ''#'' \<notin> set ?raw" using q path(3) auth(3) lctl(2) by simp
  have noctl: "\<not> has_ctl_byte ?raw" using q path(4) auth(5) lctl(1) by (simp add: has_ctl_byte_def byte_def)
  have scheme: "getScheme ?raw = Some (?sch, ''//'' @ ?a @ ?path @ ?q)"
    using scheme_from_letters [of ?sch "[]" ?raw "''//'' @ ?a @ ?path @ ?q"] letters by (simp add: getScheme_def)
  have cutq: "\<exists>b. cut (''//'' @ ?a @ ?path @ ?q) (CHR ''?'') = (''//'' @ ?a @ ?path, q, b)"
  proof -
    have no: "CHR ''?'' \<notin> set (''//'' @ ?a @ ?path)" using auth(4) path(2) by simp
    from q consider "?q = []" "q = []" | "?q = CHR ''?'' # q" by blast
    then show ?thesis
    proof cases
      case 1
      then show ?thesis using cut_absent [OF no] by (intro exI [of _ False]) simp
    next
      case 2
      then show ?thesis using cut_append [OF no, of q] by (intro exI [of _ True]) simp
    qed
  qed
  have parts: "takeWhile (\<lambda>c. c \<noteq> CHR ''/'') (?a @ ?path) = ?a" "dropWhile (\<lambda>c. c \<noteq> CHR ''/'') (?a @ ?path) = ?path"
  proof -
    have "\<forall>c \<in> set ?a. c \<noteq> CHR ''/''" using auth(2) by blast
    then show "takeWhile (\<lambda>c. c \<noteq> CHR ''/'') (?a @ ?path) = ?a" "dropWhile (\<lambda>c. c \<noteq> CHR ''/'') (?a @ ?path) = ?path"
      using path(1) by (cases ?path; simp add: takeWhile_append2 dropWhile_append2)+
  qed
  let ?u = "empty_url\<lparr>url_Scheme := map ascii_lower ?sch, url_RawQuery := q, url_User := us,
    url_Host := up_host p @ up_port p, url_Path := x\<rparr>"
  have rest: "parse_rest (map ascii_lower ?sch) q (''//'' @ ?a @ ?path) = Some ?u"
    using letters us(1) x parts by (simp add: parse_rest_def has_prefix_def Let_def)
  have "?raw \<noteq> ''*''" using letters by (cases ?sch) (auto simp: letter_def byte_def)
  with noctl scheme cutq rest have nofrag: "parse_nofrag ?raw = Some ?u" by (auto simp: parse_nofrag_def)
  have raw: "web_url p = ?raw @ (case up_fragment p of None \<Rightarrow> [] | Some s \<Rightarrow> CHR ''#'' # s)"
    by (simp add: web_url_def authority_of_def)
  have "url_Parse (web_url p) = Some ?u"
  proof (cases "up_fragment p")
    case None
    then show ?thesis using nofrag raw cut_absent [OF nohash] by (simp add: url_Parse_def)
  next
    case (Some s)
    then show ?thesis using nofrag raw cut_append [OF nohash, of s] frag [OF Some] by (simp add: url_Parse_def)
  qed
  moreover have "url_Hostname ?u = up_host p"
    using parse_host_port(2) [OF h, of "empty_url\<lparr>url_Scheme := map ascii_lower ?sch, url_RawQuery := q, url_User := us,
      url_Path := x\<rparr>"] by (simp add: empty_url_def)
  moreover have "url_Scheme ?u = map ascii_lower ?sch" "url_User ?u = us" by (simp_all add: empty_url_def)
  ultimately show thesis using us(2) that by metis
qed

end
