(* ===== verification/GoJsonEncode.thy ===== *)
theory GoJsonEncode
  imports GoJson
begin

text \<open>
  \<open>json.Marshal\<close> and \<open>json.Encoder\<close>: the values that the program writes, their text, and the
  round trip through the parser of \<open>GoJson\<close>. A struct is an object of its tagged fields in their
  order; a \<open>json.RawMessage\<close> is checked and written without its white space.
\<close>

subsection \<open>Values and their text\<close>

datatype jout =
    ONull | OBool bool | OInt int | OStr string | ORaw string
  | OArr "jout list"
  | OObj "(string \<times> jout) list"

text \<open>
  \<open>compact\<close> with HTML escaping: inside a string literal \<open><\<close>, \<open>>\<close>, \<open>&\<close> and the two line separators
  are escaped, outside of it white space is dropped. The flag says whether the position is inside
  a string literal.
\<close>

function compact_from :: "bool \<Rightarrow> string \<Rightarrow> string" where
  "compact_from q s =
     (case s of
        [] \<Rightarrow> []
      | c # t \<Rightarrow>
          if c = CHR ''<'' \<or> c = CHR ''>'' \<or> c = CHR ''&'' then esc_ascii c @ compact_from q t
          else if take 3 s = [CHR 0xE2, CHR 0x80, CHR 0xA8] then CHR 0x5C # ''u2028'' @ compact_from q (drop 3 s)
          else if take 3 s = [CHR 0xE2, CHR 0x80, CHR 0xA9] then CHR 0x5C # ''u2029'' @ compact_from q (drop 3 s)
          else if q \<and> c = CHR 0x5C then c # take 1 t @ compact_from q (drop 1 t)
          else if c = CHR 0x22 then c # compact_from (\<not> q) t
          else if \<not> q \<and> is_ws c then compact_from q t
          else c # compact_from q t)"
  by pat_completeness auto
termination
  by (relation "measure (\<lambda>(q, s). length s)") auto

declare compact_from.simps [simp del]

definition json_compact :: "string \<Rightarrow> string option" where
  "json_compact s =
     (if s = [] then Some ''null''
      else case json_unmarshal s of None \<Rightarrow> None | Some _ \<Rightarrow> Some (compact_from False s))"

fun join_with :: "string \<Rightarrow> string list \<Rightarrow> string" where
  "join_with sep [] = []"
| "join_with sep [x] = x"
| "join_with sep (x # y # xs) = x @ sep @ join_with sep (y # xs)"

definition opt_cons :: "'a option \<Rightarrow> 'a list option \<Rightarrow> 'a list option" where
  "opt_cons x xs = (case (x, xs) of (Some y, Some ys) \<Rightarrow> Some (y # ys) | _ \<Rightarrow> None)"

fun json_encode :: "jout \<Rightarrow> string option" where
  "json_encode ONull = Some ''null''"
| "json_encode (OBool b) = Some (if b then ''true'' else ''false'')"
| "json_encode (OInt i) = Some (itoa i)"
| "json_encode (OStr s) = Some (json_quote s)"
| "json_encode (ORaw s) = json_compact s"
| "json_encode (OArr vs) =
     map_option (\<lambda>ts. ''['' @ join_with '','' ts @ '']'')
       (foldr opt_cons (map json_encode vs) (Some []))"
| "json_encode (OObj ms) =
     map_option (\<lambda>ts. CHR 0x7B # join_with '','' ts @ [CHR 0x7D])
       (foldr opt_cons (map (\<lambda>m. map_option (\<lambda>t. json_quote (fst m) @ '':'' @ t) (json_encode (snd m))) ms)
         (Some []))"

text \<open>\<open>Encoder.Encode\<close> ends the value with a newline.\<close>

definition json_encode_line :: "jout \<Rightarrow> string option" where
  "json_encode_line v = map_option (\<lambda>t. t @ [CHR 0x0A]) (json_encode v)"

subsection \<open>More fuel does not change a result\<close>

definition fuel_le :: "'a pres \<Rightarrow> 'a pres \<Rightarrow> bool" where
  "fuel_le p q \<longleftrightarrow> p = PFuel \<or> p = q"

lemma fuel_le_POk: "fuel_le (POk v r) q \<longleftrightarrow> q = POk v r"
  by (auto simp: fuel_le_def)

lemma fuel_le_case:
  assumes "fuel_le p p'" "\<And>v r. fuel_le (g v r) (g' v r)"
  shows "fuel_le (case p of POk v r \<Rightarrow> g v r | PFail \<Rightarrow> PFail | PFuel \<Rightarrow> PFuel)
                 (case p' of POk v r \<Rightarrow> g' v r | PFail \<Rightarrow> PFail | PFuel \<Rightarrow> PFuel)"
proof (cases p)
  case (POk v r)
  with assms(1) have "p' = POk v r" by (simp add: fuel_le_POk)
  with POk assms(2) show ?thesis by simp
qed (use assms(1) in \<open>auto simp: fuel_le_def\<close>)

lemma fuel_le_refl: "fuel_le p p"
  by (simp add: fuel_le_def)

lemma fuel_le_if: "fuel_le a a' \<Longrightarrow> fuel_le b b' \<Longrightarrow> fuel_le (if c then a else b) (if c then a' else b')"
  by simp

lemma fuel_le_list:
  "fuel_le a a' \<Longrightarrow> (\<And>x xs. fuel_le (g x xs) (g' x xs)) \<Longrightarrow>
   fuel_le (case l of [] \<Rightarrow> a | x # xs \<Rightarrow> g x xs) (case l of [] \<Rightarrow> a' | x # xs \<Rightarrow> g' x xs)"
  by (cases l) simp_all

lemma fuel_le_option:
  "fuel_le a a' \<Longrightarrow> (\<And>x. fuel_le (g x) (g' x)) \<Longrightarrow>
   fuel_le (case l of None \<Rightarrow> a | Some x \<Rightarrow> g x) (case l of None \<Rightarrow> a' | Some x \<Rightarrow> g' x)"
  by (cases l) simp_all

lemma fuel_le_prod: "(\<And>x y. fuel_le (g x y) (g' x y)) \<Longrightarrow> fuel_le (case l of (x, y) \<Rightarrow> g x y) (case l of (x, y) \<Rightarrow> g' x y)"
  by (cases l) simp

lemmas fuel_les = fuel_le_case fuel_le_if fuel_le_list fuel_le_option fuel_le_prod

lemma parse_mono_Suc:
  "(\<forall>d s. fuel_le (parse_value f d s) (parse_value (Suc f) d s)) \<and>
   (\<forall>d s. fuel_le (parse_elems f d s) (parse_elems (Suc f) d s)) \<and>
   (\<forall>d s. fuel_le (parse_members f d s) (parse_members (Suc f) d s))"
proof (induction f)
  case 0
  then show ?case by (simp add: fuel_le_def)
next
  case (Suc f)
  then have IH: "\<And>d s. fuel_le (parse_value f d s) (parse_value (Suc f) d s)"
    "\<And>d s. fuel_le (parse_elems f d s) (parse_elems (Suc f) d s)"
    "\<And>d s. fuel_le (parse_members f d s) (parse_members (Suc f) d s)"
    by blast+
  have "fuel_le (parse_value (Suc f) d s) (parse_value (Suc (Suc f)) d s)" for d s
    unfolding parse_value.simps(2) [of "Suc f" d s] parse_value.simps(2) [of f d s]
    by (intro fuel_les fuel_le_refl IH)
  moreover have "fuel_le (parse_elems (Suc f) d s) (parse_elems (Suc (Suc f)) d s)" for d s
    unfolding parse_elems.simps(2) [of "Suc f" d s] parse_elems.simps(2) [of f d s]
    by (intro fuel_les fuel_le_refl IH)
  moreover have "fuel_le (parse_members (Suc f) d s) (parse_members (Suc (Suc f)) d s)" for d s
    unfolding parse_members.simps(2) [of "Suc f" d s] parse_members.simps(2) [of f d s] Let_def
    by (intro fuel_les fuel_le_refl IH)
  ultimately show ?case by blast
qed

lemma parse_value_mono:
  assumes "parse_value f d s = POk v r" "f \<le> f'" shows "parse_value f' d s = POk v r"
  using assms(2,1) by (induction f' rule: dec_induct) (use parse_mono_Suc fuel_le_POk in metis)+

lemma parse_elems_mono:
  assumes "parse_elems f d s = POk v r" "f \<le> f'" shows "parse_elems f' d s = POk v r"
  using assms(2,1) by (induction f' rule: dec_induct) (use parse_mono_Suc fuel_le_POk in metis)+

lemma parse_members_mono:
  assumes "parse_members f d s = POk v r" "f \<le> f'" shows "parse_members f' d s = POk v r"
  using assms(2,1) by (induction f' rule: dec_induct) (use parse_mono_Suc fuel_le_POk in metis)+

subsection \<open>Reading what was written\<close>

text \<open>
  The parsed form of a value, and the values that the text determines: no raw message, and only
  UTF-8 in the strings and field names.
\<close>

fun json_of :: "jout \<Rightarrow> json" where
  "json_of ONull = JNull"
| "json_of (OBool b) = JBool b"
| "json_of (OInt i) = JNum (itoa i)"
| "json_of (OStr s) = JStr s"
| "json_of (ORaw s) = JNull"
| "json_of (OArr vs) = JArr (map json_of vs)"
| "json_of (OObj ms) = JObj (map (\<lambda>m. (fst m, the (json_encode (snd m)), json_of (snd m))) ms)"

fun text_value :: "jout \<Rightarrow> bool" where
  "text_value ONull = True"
| "text_value (OBool b) = True"
| "text_value (OInt i) = True"
| "text_value (OStr s) = utf8_valid s"
| "text_value (ORaw s) = False"
| "text_value (OArr vs) = (\<forall>v \<in> set vs. text_value v)"
| "text_value (OObj ms) = (\<forall>m \<in> set ms. utf8_valid (fst m) \<and> text_value (snd m))"

fun json_depth :: "jout \<Rightarrow> nat" where
  "json_depth (OArr vs) = Suc (Max (insert 0 (set (map json_depth vs))))"
| "json_depth (OObj ms) = Suc (Max (insert 0 (set (map (\<lambda>m. json_depth (snd m)) ms))))"
| "json_depth _ = 0"

text \<open>A value is followed by something that does not continue a number.\<close>

definition stops :: "string \<Rightarrow> bool" where
  "stops r \<longleftrightarrow> (case r of [] \<Rightarrow> True
     | c # _ \<Rightarrow> \<not> is_digit c \<and> c \<noteq> CHR ''.'' \<and> c \<noteq> CHR ''e'' \<and> c \<noteq> CHR ''E'')"

lemma stops_simps [simp]:
  "stops []" "stops (CHR '','' # r)" "stops (CHR '']'' # r)" "stops (CHR 0x7D # r)"
  by (simp_all add: stops_def is_digit_def byte_def)

lemma takeWhile_dec:
  assumes "stops r"
  shows "takeWhile is_digit (dec_nat n @ r) = dec_nat n \<and> dropWhile is_digit (dec_nat n @ r) = r"
proof (cases r)
  case Nil
  then show ?thesis using dec_nat_set by (auto simp: takeWhile_eq_all_conv dropWhile_eq_Nil_conv)
next
  case (Cons c t)
  with assms have "\<not> is_digit c" by (simp add: stops_def)
  with Cons takeWhile_digits [OF dec_nat_digits] show ?thesis by simp
qed

lemma digit_zero: "digit 0 = CHR ''0''"
  by code_simp

lemma dec_nat_hd: "dec_nat n = c # t \<Longrightarrow> c = CHR ''0'' \<longleftrightarrow> n = 0"
proof (induction n arbitrary: c t rule: dec_nat.induct)
  case (1 n)
  show ?case
  proof (cases "n < 10")
    case True
    with "1.prems" have "c = digit n" by (simp add: dec_nat.simps [of n])
    then show ?thesis using True digit_inject [of n 0] by (simp add: digit_zero)
  next
    case False
    then have "dec_nat n = dec_nat (n div 10) @ [digit (n mod 10)]" by (simp add: dec_nat.simps [of n])
    moreover obtain c' t' where ct: "dec_nat (n div 10) = c' # t'"
      using dec_nat_nonempty by (metis neq_Nil_conv)
    ultimately have "c = c'" using "1.prems" by simp
    with 1 ct False show ?thesis by (simp add: div_eq_0_iff)
  qed
qed

lemma scan_int_dec: "stops r \<Longrightarrow> scan_int (dec_nat n @ r) = Some (dec_nat n, r)"
proof -
  assume r: "stops r"
  obtain c t where ct: "dec_nat n = c # t" using dec_nat_nonempty by (metis neq_Nil_conv)
  show ?thesis
  proof (cases "n = 0")
    case True
    then have "dec_nat n = [CHR ''0'']" by (simp add: dec_nat.simps digit_zero)
    then show ?thesis by (simp add: scan_int_def)
  next
    case False
    then have "scan_int (dec_nat n @ r) = scan_digits (dec_nat n @ r)"
      using dec_nat_hd [OF ct] ct by (simp add: scan_int_def)
    then show ?thesis using takeWhile_dec [OF r] by (simp add: scan_digits_def)
  qed
qed

lemma scan_tail_stops: "stops r \<Longrightarrow> scan_frac r = Some ([], r) \<and> scan_exp r = Some ([], r)"
  by (cases r) (simp_all add: stops_def scan_frac_def scan_exp_def)

lemma dec_nat_hd_digit: "dec_nat n = c # t \<Longrightarrow> is_digit c"
  by (metis dec_nat_set list.set_intros(1))

lemma scan_num_itoa: "stops r \<Longrightarrow> scan_num (itoa i @ r) = Some (itoa i, r)"
proof -
  assume r: "stops r"
  show ?thesis
  proof (cases "i < 0")
    case True
    then show ?thesis
      using scan_int_dec [OF r] scan_tail_stops [OF r] by (simp add: scan_num_def itoa_def)
  next
    case False
    obtain c t where ct: "dec_nat (nat i) = c # t" using dec_nat_nonempty by (metis neq_Nil_conv)
    have "c \<noteq> CHR ''-''" using dec_nat_hd_digit [OF ct] by (auto simp: is_digit_def byte_def)
    with False ct scan_int_dec [OF r, of "nat i"] scan_tail_stops [OF r] show ?thesis
      by (simp add: scan_num_def itoa_def)
  qed
qed

lemma itoa_head: "itoa i = c # t \<Longrightarrow> c = CHR ''-'' \<or> is_digit c"
  by (auto simp: itoa_def dec_nat_hd_digit split: if_splits)

lemma itoa_nonempty: "itoa i \<noteq> []"
  by (simp add: itoa_def)

lemma read_number:
  assumes "stops r" shows "parse_value (Suc f) d (itoa i @ r) = POk (JNum (itoa i)) r"
proof -
  obtain c t where ct: "itoa i = c # t" using itoa_nonempty by (metis neq_Nil_conv)
  have c: "c = CHR ''-'' \<or> is_digit c" by (rule itoa_head [OF ct])
  then have "\<not> is_ws c" "c \<noteq> CHR 0x22" "c \<noteq> CHR ''[''" "c \<noteq> CHR 0x7B" "c \<noteq> CHR ''n''" "c \<noteq> CHR ''t''" "c \<noteq> CHR ''f''"
    by (auto simp: is_ws_def is_digit_def byte_def)
  moreover have "scan_num (c # t @ r) = Some (itoa i, r)" using scan_num_itoa [OF assms, of i] ct by simp
  ultimately show ?thesis using ct by (simp add: skip_ws_def scan_scalar_def has_prefix_def)
qed

lemma opt_cons_Some: "opt_cons x xs = Some ys \<longleftrightarrow> (\<exists>y zs. x = Some y \<and> xs = Some zs \<and> ys = y # zs)"
  by (auto simp: opt_cons_def split: option.split)

lemma foldr_opt_cons:
  "foldr opt_cons os (Some []) = Some ts \<longleftrightarrow> os = map Some ts"
  by (induction os arbitrary: ts) (auto simp: opt_cons_Some Cons_eq_map_conv)

text \<open>
  What a written value looks like: it starts with no white space, and inside an array or object
  the parser reads each element by induction.
\<close>

definition reads :: "nat \<Rightarrow> string \<Rightarrow> json \<Rightarrow> bool" where
  "reads d t v \<longleftrightarrow> (\<exists>f. \<forall>r. stops r \<longrightarrow> parse_value f d (t @ r) = POk v r) \<and> (\<exists>c u. t = c # u \<and> \<not> is_ws c \<and> c \<noteq> CHR '']'')"

lemma reads_mono: "reads d t v \<Longrightarrow> \<exists>f. \<forall>f' \<ge> f. \<forall>r. stops r \<longrightarrow> parse_value f' d (t @ r) = POk v r"
  unfolding reads_def using parse_value_mono by blast

lemma reads_elems:
  assumes "list_all2 (reads d) ts vs" "ts \<noteq> []"
  shows "\<exists>f. \<forall>f' \<ge> f. \<forall>r. parse_elems f' d (join_with '','' ts @ CHR '']'' # r) = POk vs r"
  using assms
proof (induction ts vs rule: list_all2_induct)
  case Nil
  then show ?case by simp
next
  case (Cons t ts v vs)
  from reads_mono [OF Cons.hyps(1)] obtain f where
    f: "\<And>f' r. f \<le> f' \<Longrightarrow> stops r \<Longrightarrow> parse_value f' d (t @ r) = POk v r" by blast
  show ?case
  proof (cases ts)
    case Nil
    with Cons.hyps have "vs = []" by simp
    have "parse_elems f' d (join_with '','' (t # ts) @ CHR '']'' # r) = POk (v # vs) r" if "Suc f \<le> f'" for f' r
    proof -
      from that obtain g where g: "f' = Suc g" "f \<le> g" by (cases f') auto
      show ?thesis using f [OF g(2), of "CHR '']'' # r"] Nil \<open>vs = []\<close> by (simp add: g(1) skip_ws_def is_ws_def)
    qed
    then show ?thesis by blast
  next
    case (Cons u us)
    then obtain f2 where f2: "\<And>f' r. f2 \<le> f' \<Longrightarrow> parse_elems f' d (join_with '','' ts @ CHR '']'' # r) = POk vs r"
      using Cons.IH by blast
    have "parse_elems f' d (join_with '','' (t # ts) @ CHR '']'' # r) = POk (v # vs) r" if "Suc (max f f2) \<le> f'" for f' r
    proof -
      from that obtain g where g: "f' = Suc g" "f \<le> g" "f2 \<le> g" by (cases f') auto
      show ?thesis
        using f [OF g(2), of "CHR '','' # join_with '','' ts @ CHR '']'' # r"] f2 [OF g(3)] Cons
        by (simp add: g(1) skip_ws_def is_ws_def)
    qed
    then show ?thesis by blast
  qed
qed

definition member_text :: "string \<times> string \<times> json \<Rightarrow> string" where
  "member_text m = (case m of (k, t, v) \<Rightarrow> json_quote k @ '':'' @ t)"

lemma json_quote_scan:
  "utf8_valid k \<Longrightarrow> \<exists>body. json_quote k = CHR 0x22 # body \<and> (\<forall>r. scan_str (body @ r) = Some (quote_body k, r)) \<and> unquote (quote_body k) = k"
  using scan_quote_body [of k] by (simp add: json_quote_def)

lemma read_member:
  assumes "utf8_valid k" "reads d t v"
  obtains f where
    "\<And>f' x. f \<le> f' \<Longrightarrow> parse_members (Suc f') d (member_text (k, t, v) @ CHR 0x7D # x) = POk [(k, t, v)] x"
    "\<And>f' x ms r. f \<le> f' \<Longrightarrow> parse_members f' d x = POk ms r \<Longrightarrow>
       parse_members (Suc f') d (member_text (k, t, v) @ CHR '','' # x) = POk ((k, t, v) # ms) r"
proof -
  from reads_mono [OF assms(2)] obtain f where
    f: "\<And>f' r. f \<le> f' \<Longrightarrow> stops r \<Longrightarrow> parse_value f' d (t @ r) = POk v r" by blast
  obtain c u where cu: "t = c # u" "\<not> is_ws c" using assms(2) by (auto simp: reads_def)
  obtain body where b: "json_quote k = CHR 0x22 # body" "\<And>r. scan_str (body @ r) = Some (quote_body k, r)"
    "unquote (quote_body k) = k" using json_quote_scan [OF assms(1)] by blast
  have ws: "skip_ws (CHR 0x22 # x) = CHR 0x22 # x" "skip_ws (CHR '':'' # x) = CHR '':'' # x"
    "skip_ws (CHR 0x7D # x) = CHR 0x7D # x" "skip_ws (CHR '','' # x) = CHR '','' # x" "skip_ws (t @ x) = t @ x" for x
    using cu by (simp_all add: skip_ws_def is_ws_def)
  have head: "member_text (k, t, v) @ r = CHR 0x22 # body @ CHR '':'' # t @ r" for r
    using b(1) by (simp add: member_text_def)
  have raw: "take (length (t @ r) - length r) (t @ r) = t" for r by simp
  show thesis
  proof (rule that)
    show "parse_members (Suc f') d (member_text (k, t, v) @ CHR 0x7D # x) = POk [(k, t, v)] x" if "f \<le> f'" for f' x
      unfolding head parse_members.simps(2) [of f' d] ws list.case
      using f [OF that, of "CHR 0x7D # x"] raw [of "CHR 0x7D # x"]
      by (simp add: b(2,3) Let_def ws del: parse_members.simps)
    show "parse_members (Suc f') d (member_text (k, t, v) @ CHR '','' # x) = POk ((k, t, v) # ms) r"
      if "f \<le> f'" "parse_members f' d x = POk ms r" for f' x ms r
      unfolding head parse_members.simps(2) [of f' d] ws list.case
      using f [OF that(1), of "CHR '','' # x"] raw [of "CHR '','' # x"] that(2)
      by (simp add: b(2,3) Let_def ws del: parse_members.simps)
  qed
qed

lemma reads_members:
  assumes "\<And>k t v. (k, t, v) \<in> set ms \<Longrightarrow> utf8_valid k \<and> reads d t v" "ms \<noteq> []"
  shows "\<exists>f. \<forall>f' \<ge> f. \<forall>r. parse_members f' d (join_with '','' (map member_text ms) @ CHR 0x7D # r) = POk ms r"
  using assms
proof (induction ms)
  case Nil
  then show ?case by simp
next
  case (Cons m ms)
  obtain k t v where m: "m = (k, t, v)" by (rule prod_cases3)
  from Cons.prems(1) [of k t v] m have "utf8_valid k" "reads d t v" by simp_all
  then obtain f where
    one: "\<And>f' x. f \<le> f' \<Longrightarrow> parse_members (Suc f') d (member_text (k, t, v) @ CHR 0x7D # x) = POk [(k, t, v)] x" and
    more: "\<And>f' x ms r. f \<le> f' \<Longrightarrow> parse_members f' d x = POk ms r \<Longrightarrow>
       parse_members (Suc f') d (member_text (k, t, v) @ CHR '','' # x) = POk ((k, t, v) # ms) r"
    by (rule read_member) blast
  show ?case
  proof (cases ms)
    case Nil
    have "parse_members f' d (join_with '','' (map member_text (m # ms)) @ CHR 0x7D # r) = POk (m # ms) r" if "Suc f \<le> f'" for f' r
      using one [of "f' - 1" r] that Nil m by (cases f') (simp_all del: parse_members.simps)
    then show ?thesis by blast
  next
    case (Cons m2 ms2)
    have "\<exists>f. \<forall>f' \<ge> f. \<forall>r. parse_members f' d (join_with '','' (map member_text ms) @ CHR 0x7D # r) = POk ms r"
    proof (rule Cons.IH)
      show "utf8_valid k \<and> reads d t v" if "(k, t, v) \<in> set ms" for k t v
        using Cons.prems(1) that by (meson list.set_intros(2))
      show "ms \<noteq> []" using Cons by simp
    qed
    then obtain f2 where f2: "\<And>f' r. f2 \<le> f' \<Longrightarrow> parse_members f' d (join_with '','' (map member_text ms) @ CHR 0x7D # r) = POk ms r"
      by blast
    have "parse_members f' d (join_with '','' (map member_text (m # ms)) @ CHR 0x7D # r) = POk (m # ms) r" if "Suc (max f f2) \<le> f'" for f' r
    proof -
      from that obtain g where g: "f' = Suc g" "f \<le> g" "f2 \<le> g" by (cases f') auto
      have "join_with '','' (map member_text (m # ms)) @ CHR 0x7D # r =
          member_text (k, t, v) @ CHR '','' # join_with '','' (map member_text ms) @ CHR 0x7D # r"
        using Cons m by simp
      with more [OF g(2) f2 [OF g(3)]] m g(1) show ?thesis by simp
    qed
    then show ?thesis by blast
  qed
qed

text \<open>Every value without raw messages is written, and the parser reads it back.\<close>

lemma json_head:
  "skip_ws (CHR 0x5B # x) = CHR 0x5B # x" "skip_ws (CHR 0x7B # x) = CHR 0x7B # x" "skip_ws (CHR 0x5D # x) = CHR 0x5D # x"
  "skip_ws (CHR 0x7D # x) = CHR 0x7D # x" "skip_ws (CHR 0x22 # x) = CHR 0x22 # x"
  by (simp_all add: skip_ws_def is_ws_def)

lemma readsI:
  "(\<And>r. stops r \<Longrightarrow> parse_value f d (t @ r) = POk v r) \<Longrightarrow> t = c # u \<Longrightarrow> \<not> is_ws c \<Longrightarrow> c \<noteq> CHR '']'' \<Longrightarrow> reads d t v"
  unfolding reads_def by blast

lemma reads_array:
  assumes "list_all2 (reads d) ts vs"
  shows "reads (Suc d) (''['' @ join_with '','' ts @ '']'') (JArr vs)"
proof (cases ts)
  case Nil
  with assms have "vs = []" by simp
  with Nil show ?thesis
    by (intro readsI [of "Suc 0" _ _ _ "CHR ''[''"]) (simp_all add: json_head is_ws_def)
next
  case (Cons t us)
  then obtain f where f: "\<And>f' r. f \<le> f' \<Longrightarrow> parse_elems f' d (join_with '','' ts @ CHR '']'' # r) = POk vs r"
    using reads_elems [OF assms] by blast
  from assms Cons obtain v ws where "reads d t v" by (auto simp: list_all2_Cons1)
  then obtain c u where cu: "t = c # u" "\<not> is_ws c" "c \<noteq> CHR '']''" by (auto simp: reads_def)
  then obtain w where w: "join_with '','' ts = c # w" using Cons by (cases us) simp_all
  then have "skip_ws (join_with '','' ts @ x) = c # w @ x" for x using cu(2) by (simp add: skip_ws_def)
  with f [of f] cu(3) show ?thesis
    by (intro readsI [of "Suc f" _ _ _ "CHR ''[''"]) (simp_all add: json_head is_ws_def)
qed

lemma reads_object:
  assumes "\<And>k t v. (k, t, v) \<in> set ms \<Longrightarrow> utf8_valid k \<and> reads d t v"
  shows "reads (Suc d) (CHR 0x7B # join_with '','' (map member_text ms) @ [CHR 0x7D]) (JObj ms)"
proof (cases ms)
  case Nil
  then show ?thesis
    by (intro readsI [of "Suc 0" _ _ _ "CHR 0x7B"]) (simp_all add: json_head is_ws_def)
next
  case (Cons m ns)
  then obtain f where f: "\<And>f' r. f \<le> f' \<Longrightarrow> parse_members f' d (join_with '','' (map member_text ms) @ CHR 0x7D # r) = POk ms r"
    using reads_members [of ms d] assms by blast
  obtain k t v where m: "m = (k, t, v)" by (rule prod_cases3)
  have "\<exists>w. join_with '','' (map member_text ms) = CHR 0x22 # w"
    using Cons m by (cases ns) (simp_all add: member_text_def json_quote_def)
  then obtain w where w: "join_with '','' (map member_text ms) = CHR 0x22 # w" by blast
  with f [of f] show ?thesis
    by (intro readsI [of "Suc f" _ _ _ "CHR 0x7B"]) (simp_all add: json_head is_ws_def)
qed

lemma depth_member:
  assumes "finite A" "Suc (Max (insert 0 A)) \<le> d" "x \<in> A" shows "x \<le> d - 1"
proof -
  have "x \<le> Max (insert 0 A)" by (rule Max_ge) (use assms in auto)
  with assms(2) show ?thesis by simp
qed

lemma json_encode_reads:
  "text_value v \<Longrightarrow> json_depth v \<le> d \<Longrightarrow> \<exists>t. json_encode v = Some t \<and> reads d t (json_of v)"
proof (induction v arbitrary: d)
  case ONull
  show ?case by (auto simp: has_prefix_def scan_scalar_def skip_ws_def is_ws_def intro!: readsI [of "Suc 0"])
next
  case (OBool b)
  show ?case by (auto simp: has_prefix_def scan_scalar_def skip_ws_def is_ws_def intro!: readsI [of "Suc 0"])
next
  case (OInt i)
  obtain c t where ct: "itoa i = c # t" using itoa_nonempty by (metis neq_Nil_conv)
  have "\<not> is_ws c" "c \<noteq> CHR '']''" using itoa_head [OF ct] by (auto simp: is_ws_def is_digit_def byte_def)
  with read_number ct have "reads d (itoa i) (JNum (itoa i))" by (intro readsI)
  then show ?case by simp
next
  case (OStr s)
  then show ?case using json_quote_read [of s 0] by (auto simp: json_quote_def is_ws_def intro!: readsI [of "Suc 0"] simp del: parse_value.simps)
next
  case (ORaw s)
  then show ?case by simp
next
  case (OArr vs)
  obtain e where d: "d = Suc e" using OArr.prems(2) by (cases d) simp_all
  have "\<exists>t. json_encode v = Some t \<and> reads e t (json_of v)" if "v \<in> set vs" for v
    using OArr.IH [OF that, of e] OArr.prems that depth_member [of "json_depth ` set vs" d "json_depth v"] d by simp
  then have "\<forall>v \<in> set vs. json_encode v = Some (the (json_encode v)) \<and> reads e (the (json_encode v)) (json_of v)"
    by force
  then have "foldr opt_cons (map json_encode vs) (Some []) = Some (map (\<lambda>v. the (json_encode v)) vs)"
    and "list_all2 (reads e) (map (\<lambda>v. the (json_encode v)) vs) (map json_of vs)"
    by (auto simp: list_all2_conv_all_nth foldr_opt_cons)
  with reads_array d show ?case by auto
next
  case (OObj ms)
  obtain e where d: "d = Suc e" using OObj.prems(2) by (cases d) simp_all
  let ?g = "\<lambda>m. (fst m, the (json_encode (snd m)), json_of (snd m))"
  have each: "json_encode (snd m) = Some (the (json_encode (snd m))) \<and>
      utf8_valid (fst m) \<and> reads e (the (json_encode (snd m))) (json_of (snd m))" if "m \<in> set ms" for m
  proof -
    have "json_depth (snd m) \<le> e"
      using depth_member [of "(\<lambda>m. json_depth (snd m)) ` set ms" d "json_depth (snd m)"] OObj.prems(2) that d by simp
    then show ?thesis
      using OObj.IH [of m "snd m" e] OObj.prems(1) that by (fastforce simp: snds.simps)
  qed
  then have "map (\<lambda>m. map_option (\<lambda>t. json_quote (fst m) @ '':'' @ t) (json_encode (snd m))) ms =
      map Some (map member_text (map ?g ms))"
    by (auto simp: member_text_def)
  moreover have "reads d (CHR 0x7B # join_with '','' (map member_text (map ?g ms)) @ [CHR 0x7D]) (JObj (map ?g ms))"
    unfolding d using each by (intro reads_object) auto
  ultimately show ?case by (auto simp: foldr_opt_cons simp del: map_map)
qed

text \<open>The fuel of the decoder is enough for a text that some fuel reads.\<close>

lemma json_parse_written:
  assumes "reads 10000 t v" "stops r" shows "parse_value (json_fuel (t @ r)) 10000 (t @ r) = POk v r"
proof -
  let ?s = "t @ r"
  from assms obtain f where "parse_value f 10000 ?s = POk v r" unfolding reads_def by blast
  then have f: "parse_value (max f (json_fuel ?s)) 10000 ?s = POk v r"
    by (rule parse_value_mono) simp
  show ?thesis
  proof (cases "parse_value (json_fuel ?s) 10000 ?s")
    case (POk w q)
    with parse_value_mono [OF POk, of "max f (json_fuel ?s)"] f show ?thesis by simp
  next
    case PFail
    have mono: "fuel_le (parse_value (json_fuel ?s) 10000 ?s) (parse_value g 10000 ?s)" if "json_fuel ?s \<le> g" for g
      using that PFail
      by (induction g rule: dec_induct) (simp add: fuel_le_refl, metis fuel_le_def parse_mono_Suc pres.distinct(5))
    with PFail f show ?thesis by (metis fuel_le_def max.cobounded2 pres.distinct(1) pres.distinct(5))
  next
    case PFuel
    with parse_value_fuel [of ?s 10000] show ?thesis by simp
  qed
qed

theorem json_round_trip:
  assumes "text_value v" "json_depth v \<le> 10000"
  shows "\<exists>t. json_encode v = Some t \<and> json_unmarshal t = Some (json_of v)"
proof -
  obtain t where t: "json_encode v = Some t" "reads 10000 t (json_of v)"
    using json_encode_reads [OF assms] by blast
  from json_parse_written [OF t(2), of "[]"] have "parse_value (json_fuel t) 10000 t = POk (json_of v) []" by simp
  with t(1) show ?thesis by (simp add: json_unmarshal_def skip_ws_def)
qed

theorem json_line_round_trip:
  assumes "text_value v" "json_depth v \<le> 10000"
  shows "\<exists>t. json_encode_line v = Some t \<and> json_unmarshal t = Some (json_of v)"
proof -
  obtain t where t: "json_encode v = Some t" "reads 10000 t (json_of v)"
    using json_encode_reads [OF assms] by blast
  have "stops [CHR 0x0A]" by (simp add: stops_def is_digit_def byte_def)
  from json_parse_written [OF t(2) this] have "json_unmarshal (t @ [CHR 0x0A]) = Some (json_of v)"
    by (simp add: json_unmarshal_def skip_ws_def is_ws_def)
  with t(1) show ?thesis by (simp add: json_encode_line_def)
qed

end
