(* ===== verification/Uuid.thy ===== *)
theory Uuid
  imports GoJson
begin

text \<open>
  \<open>github.com/google/uuid\<close> is a library: \<open>UUID.String\<close> and \<open>uuid.Parse\<close> are a parameter of the
  components that use them, with the laws of the locale \<open>uuid_laws\<close> (parsing the text of a UUID
  gives it back; the text is hexadecimal digits and hyphens). \<open>canonical_uuid\<close>, the 8-4-4-4-12 form,
  has these laws.
\<close>

record uuid_lib =
  uuid_String :: "uuid \<Rightarrow> string"
  uuid_Parse :: "string \<Rightarrow> err + uuid"

definition uuid_char :: "char \<Rightarrow> bool" where
  "uuid_char c \<longleftrightarrow> is_hex c \<or> c = CHR ''-''"

locale uuid_laws =
  fixes U :: uuid_lib
  assumes parse_string: "uuid_Parse U (uuid_String U i) = Inr i"
    and string_chars: "list_all uuid_char (uuid_String U i)"
begin

lemma uuid_String_inject: "uuid_String U i = uuid_String U j \<longleftrightarrow> i = j"
  by (metis parse_string sum.inject(2))

end

subsection \<open>The canonical form\<close>

fun base16 :: "nat \<Rightarrow> nat \<Rightarrow> nat list" where
  "base16 0 n = []"
| "base16 (Suc k) n = base16 k (n div 16) @ [n mod 16]"

definition from16 :: "nat list \<Rightarrow> nat" where
  "from16 ds = foldl (\<lambda>a d. 16 * a + d) 0 ds"

definition hyphenate :: "string \<Rightarrow> string" where
  "hyphenate h = take 8 h @ ''-'' @ take 4 (drop 8 h) @ ''-'' @ take 4 (drop 12 h) @ ''-'' @
     take 4 (drop 16 h) @ ''-'' @ drop 20 h"

definition unhyphenate :: "string \<Rightarrow> string option" where
  "unhyphenate s =
     (if length s = 36 \<and> s ! 8 = CHR ''-'' \<and> s ! 13 = CHR ''-'' \<and> s ! 18 = CHR ''-'' \<and> s ! 23 = CHR ''-''
      then Some (take 8 s @ take 4 (drop 9 s) @ take 4 (drop 14 s) @ take 4 (drop 19 s) @ drop 24 s)
      else None)"

definition canonical_uuid :: uuid_lib where
  "canonical_uuid =
     \<lparr>uuid_String = (\<lambda>u. hyphenate (map hex_digit (base16 32 (unat u)))),
      uuid_Parse = (\<lambda>s. case unhyphenate s of
        None \<Rightarrow> Inl (Err ''invalid UUID format'')
      | Some h \<Rightarrow>
          if list_all is_hex h then Inr (word_of_nat (from16 (map (\<lambda>c. the (hex_val c)) h)))
          else Inl (Err ''invalid UUID format''))\<rparr>"

lemma length_base16 [simp]: "length (base16 k n) = k"
  by (induction k arbitrary: n) auto

lemma base16_less: "d \<in> set (base16 k n) \<Longrightarrow> d < 16"
  by (induction k arbitrary: n) auto

lemma from16_base16: "from16 (base16 k n) = n mod 16 ^ k"
proof (induction k arbitrary: n)
  case 0
  then show ?case by (simp add: from16_def)
next
  case (Suc k)
  then have "from16 (base16 (Suc k) n) = 16 * (n div 16 mod 16 ^ k) + n mod 16"
    by (simp add: from16_def)
  then show ?case by (simp add: mod_mult2_eq)
qed

lemma unhyphenate_hyphenate: "length h = 32 \<Longrightarrow> unhyphenate (hyphenate h) = Some h"
proof -
  assume h: "length h = 32"
  have "drop 16 h = take 4 (drop 16 h) @ drop 20 h" "drop 12 h = take 4 (drop 12 h) @ drop 16 h"
    "drop 8 h = take 4 (drop 8 h) @ drop 12 h"
    using append_take_drop_id [of 4 "drop 16 h"] append_take_drop_id [of 4 "drop 12 h"]
      append_take_drop_id [of 4 "drop 8 h"] by simp_all
  then have "h = take 8 h @ take 4 (drop 8 h) @ take 4 (drop 12 h) @ take 4 (drop 16 h) @ drop 20 h"
    using append_take_drop_id [of 8 h] by metis
  with h show ?thesis by (simp add: unhyphenate_def hyphenate_def nth_append)
qed

lemma set_hyphenate: "set (hyphenate h) \<subseteq> insert (CHR ''-'') (set h)"
  by (auto simp: hyphenate_def dest: in_set_takeD in_set_dropD)

interpretation canonical: uuid_laws canonical_uuid
proof
  fix i :: uuid
  let ?h = "map hex_digit (base16 32 (unat i))"
  have "list_all is_hex ?h" using base16_less by (auto simp: list_all_iff)
  moreover have "map (\<lambda>c. the (hex_val c)) ?h = base16 32 (unat i)"
    using base16_less by (auto intro!: map_idI)
  moreover have "unat i < 16 ^ 32" using unsigned_less [of i] by simp
  ultimately show "uuid_Parse canonical_uuid (uuid_String canonical_uuid i) = Inr i"
    by (simp add: canonical_uuid_def unhyphenate_hyphenate from16_base16)
  show "list_all uuid_char (uuid_String canonical_uuid i)"
    using set_hyphenate [of ?h] base16_less by (auto simp: canonical_uuid_def list_all_iff uuid_char_def)
qed

end
