(* ===== verification/GoTime.thy ===== *)
theory GoTime
  imports GoStrings
begin

text \<open>
  The part of Go's \<open>time\<close> package the program uses: the calendar date of an instant in UTC (by the
  cycles of 400, 100, 4 and 1 years the package counts with), the layout \<open>time.RFC3339Nano\<close> as
  \<open>Format\<close> writes it for a UTC time and as \<open>Parse\<close> accepts it, with the liberties the parser
  takes (an hour of one digit, a comma for the point, any number of fraction digits, offsets up
  to 24:60). \<open>time_Parse_Format\<close> is the round trip for the years 0 to 9999.
\<close>

subsection \<open>The calendar\<close>

text \<open>Days since 1970-01-01; the year starts in March inside the computation.\<close>

definition year_part :: "int \<Rightarrow> int \<times> int" where
  \<comment> \<open>day of a 400-year era to year of the era and day of that year\<close>
  "year_part doe =
     (let c = min (doe div 36524) 3; doc = doe - c * 36524;
          q = doc div 1461; doq = doc - q * 1461;
          a = min (doq div 365) 3; doy = doq - a * 365
      in (100 * c + 4 * q + a, doy))"

definition month_part :: "int \<Rightarrow> int \<times> int" where
  \<comment> \<open>day of a year to month (0 is March) and day of the month\<close>
  "month_part doy = (let mp = (5 * doy + 2) div 153 in (mp, doy - (153 * mp + 2) div 5 + 1))"

definition civil_of_days :: "int \<Rightarrow> int \<times> int \<times> int" where
  "civil_of_days z =
     (let z1 = z + 719468; era = z1 div 146097;
          (yoe, doy) = year_part (z1 mod 146097);
          (mp, d) = month_part doy;
          m = (if mp < 10 then mp + 3 else mp - 9)
      in (yoe + 400 * era + (if m \<le> 2 then 1 else 0), m, d))"

definition days_of_civil :: "int \<Rightarrow> int \<Rightarrow> int \<Rightarrow> int" where
  "days_of_civil y m d =
     (let y1 = y - (if m \<le> 2 then 1 else 0); era = y1 div 400; yoe = y1 mod 400;
          mp = (if m > 2 then m - 3 else m + 9);
          doy = (153 * mp + 2) div 5 + d - 1
      in era * 146097 + (yoe * 365 + yoe div 4 - yoe div 100 + doy) - 719468)"

definition is_leap :: "int \<Rightarrow> bool" where
  "is_leap y \<longleftrightarrow> y mod 4 = 0 \<and> (y mod 100 \<noteq> 0 \<or> y mod 400 = 0)"

definition days_in :: "int \<Rightarrow> int \<Rightarrow> int" where
  "days_in m y =
     (if m = 2 then (if is_leap y then 29 else 28)
      else if m = 4 \<or> m = 6 \<or> m = 9 \<or> m = 11 then 30 else 31)"

lemma year_part_bounds:
  assumes "0 \<le> doe" "doe < 146097" "year_part doe = (yoe, doy)"
  shows "0 \<le> yoe" "yoe < 400" "0 \<le> doy" "doy \<le> 365"
    "doe = yoe * 365 + yoe div 4 - yoe div 100 + doy"
    "doy = 365 \<Longrightarrow> is_leap (yoe + 1)"
proof -
  define c where "c = min (doe div 36524) 3"
  define doc where "doc = doe - c * 36524"
  define q where "q = doc div 1461"
  define doq where "doq = doc - q * 1461"
  define a where "a = min (doq div 365) 3"
  have eqs: "yoe = 100 * c + 4 * q + a" "doy = doq - a * 365"
    using assms(3) by (simp_all add: year_part_def Let_def c_def doc_def q_def doq_def a_def)
  have c: "0 \<le> c" "c \<le> 3" using assms(1) by (simp_all add: c_def)
  have doc: "0 \<le> doc" "doc \<le> 36524" "doc = 36524 \<Longrightarrow> c = 3"
    using assms(1,2) by (auto simp: doc_def c_def min_def)
  have q: "0 \<le> q" "q \<le> 24" using doc by (auto simp: q_def)
  have "doq = doc mod 1461" by (simp add: doq_def q_def minus_div_mult_eq_mod)
  then have doq: "0 \<le> doq" "doq \<le> 1460"
    using pos_mod_bound [of 1461 doc] pos_mod_sign [of 1461 doc] by linarith+
  have q24: "doq = 1460 \<Longrightarrow> q = 24 \<Longrightarrow> c = 3" using doc by (simp add: doq_def)
  have a: "0 \<le> a" "a \<le> 3" using doq by (auto simp: a_def)
  have doy: "0 \<le> doy" "doy \<le> 365" "doy = 365 \<Longrightarrow> doq = 1460 \<and> a = 3"
    using doq by (auto simp: eqs(2) a_def min_def)
  have d4: "yoe div 4 = 25 * c + q" using a by (intro int_div_pos_eq [of yoe 4 _ a]) (auto simp: eqs(1))
  have d100: "yoe div 100 = c"
    using a q by (intro int_div_pos_eq [of yoe 100 _ "4 * q + a"]) (auto simp: eqs(1))
  show "0 \<le> yoe" "yoe < 400" using c q a unfolding eqs(1) by auto
  show "0 \<le> doy" "doy \<le> 365" using doy by auto
  show "doe = yoe * 365 + yoe div 4 - yoe div 100 + doy"
    unfolding d4 d100 unfolding eqs doq_def doc_def by (simp add: algebra_simps)
  show "is_leap (yoe + 1)" if "doy = 365"
  proof -
    from doy(3) that have a3: "doq = 1460" "a = 3" by auto
    then have y: "yoe + 1 = 100 * c + 4 * (q + 1)" by (simp add: eqs(1))
    have m4: "(yoe + 1) mod 4 = 0" unfolding y by presburger
    show ?thesis
    proof (cases "q = 24")
      case True
      then have "yoe + 1 = 400" using q24 a3 y by simp
      then show ?thesis by (simp add: is_leap_def)
    next
      case False
      then have "0 < 4 * (q + 1)" "4 * (q + 1) < 100" using q by auto
      then have "(yoe + 1) mod 100 = 4 * (q + 1)" unfolding y by (simp add: mod_pos_pos_trivial)
      then have "(yoe + 1) mod 100 \<noteq> 0" using q by simp
      with m4 show ?thesis by (simp add: is_leap_def)
    qed
  qed
qed

lemma month_part_bounds:
  assumes "0 \<le> doy" "doy \<le> 365" "month_part doy = (mp, d)"
  shows "0 \<le> mp" "mp \<le> 11" "doy = (153 * mp + 2) div 5 + d - 1" "1 \<le> d"
    "d \<le> (153 * (mp + 1) + 2) div 5 - (153 * mp + 2) div 5" "mp = 11 \<Longrightarrow> d = doy - 336"
proof -
  have mp: "mp = (5 * doy + 2) div 153" and d: "d = doy - (153 * mp + 2) div 5 + 1"
    using assms(3) by (auto simp: month_part_def Let_def)
  show "0 \<le> mp" "mp \<le> 11" using assms(1,2) unfolding mp by auto
  show "doy = (153 * mp + 2) div 5 + d - 1" unfolding d by simp
  define x where "x = (153 * mp + 2) div 5"
  define x' where "x' = (153 * (mp + 1) + 2) div 5"
  have mp2: "153 * mp \<le> 5 * doy + 2" "5 * doy + 2 < 153 * mp + 153"
    using div_mult_mod_eq [of "5 * doy + 2" 153] pos_mod_bound [of 153 "5 * doy + 2"]
      pos_mod_sign [of 153 "5 * doy + 2"] unfolding mp by linarith+
  have x: "5 * x \<le> 153 * mp + 2" "153 * mp + 2 < 5 * x + 5"
    using div_mult_mod_eq [of "153 * mp + 2" 5] pos_mod_bound [of 5 "153 * mp + 2"]
      pos_mod_sign [of 5 "153 * mp + 2"] unfolding x_def by linarith+
  have x': "5 * x' \<le> 153 * mp + 155" "153 * mp + 155 < 5 * x' + 5"
    using div_mult_mod_eq [of "153 * mp + 155" 5] pos_mod_bound [of 5 "153 * mp + 155"]
      pos_mod_sign [of 5 "153 * mp + 155"] unfolding x'_def by (simp_all add: algebra_simps)
  have d': "d = doy - x + 1" unfolding d x_def by simp
  show "1 \<le> d" using mp2(1) x(1) unfolding d' by linarith
  show "d \<le> (153 * (mp + 1) + 2) div 5 - (153 * mp + 2) div 5"
    using mp2(2) x'(2) unfolding d' x_def [symmetric] x'_def [symmetric] by linarith
  show "mp = 11 \<Longrightarrow> d = doy - 336" unfolding d by simp
qed


lemma is_leap_add: "is_leap (a + 400 * e) \<longleftrightarrow> is_leap a"
proof -
  have "(a + 400 * e) mod 4 = a mod 4" using mod_mult_self2 [of a 4 "100 * e"] by simp
  moreover have "(a + 400 * e) mod 100 = a mod 100" using mod_mult_self2 [of a 100 "4 * e"] by simp
  ultimately show ?thesis by (simp add: is_leap_def)
qed

lemma civil_of_days_valid:
  assumes "civil_of_days z = (y, m, d)"
  shows "days_of_civil y m d = z" "1 \<le> m" "m \<le> 12" "1 \<le> d" "d \<le> days_in m y"
proof -
  define doe where "doe = (z + 719468) mod 146097"
  define era where "era = (z + 719468) div 146097"
  obtain yoe doy where yp: "year_part doe = (yoe, doy)" by fastforce
  obtain mp d0 where mpd: "month_part doy = (mp, d0)" by fastforce
  have doe: "0 \<le> doe" "doe < 146097" by (simp_all add: doe_def)
  note Y = year_part_bounds [OF doe yp]
  note M = month_part_bounds [OF Y(3,4) mpd]
  have res: "m = (if mp < 10 then mp + 3 else mp - 9)" "d = d0"
    "y = yoe + 400 * era + (if m \<le> 2 then 1 else 0)"
    using assms yp mpd by (auto simp: civil_of_days_def Let_def doe_def [symmetric] era_def [symmetric])
  show "1 \<le> m" "m \<le> 12" using M(1,2) unfolding res(1) by auto
  show "1 \<le> d" using M(4) res(2) by simp
  have y1: "y - (if m \<le> 2 then 1 else 0) = yoe + 400 * era" unfolding res(3) by simp
  have mp': "(if m > 2 then m - 3 else m + 9) = mp" using M(1,2) unfolding res(1) by auto
  have "(yoe + 400 * era) div 400 = era" using Y(1,2) by (intro int_div_pos_eq [of _ 400 _ yoe]) auto
  moreover have "(yoe + 400 * era) mod 400 = yoe" using Y(1,2) by (simp add: mod_pos_pos_trivial)
  moreover have "z = era * 146097 + doe - 719468"
    using div_mult_mod_eq [of "z + 719468" 146097] unfolding era_def doe_def by linarith
  ultimately show "days_of_civil y m d = z"
    using Y(5) M(3) res(2) by (simp add: days_of_civil_def Let_def y1 mp')
  have "mp \<in> {0, 1, 2, 3, 4, 5, 6, 7, 8, 9, 10, 11}" using M(1,2) by (simp, presburger)
  moreover have "mp = 11 \<Longrightarrow> d0 = 29 \<Longrightarrow> is_leap y"
  proof -
    assume "mp = 11" "d0 = 29"
    then have "is_leap (yoe + 1)" "m = 2" using M(6) Y(6) res(1) by auto
    moreover have "y = (yoe + 1) + 400 * era" using res(3) \<open>m = 2\<close> by simp
    ultimately show "is_leap y" by (simp add: is_leap_add)
  qed
  moreover have "mp = 11 \<Longrightarrow> d0 \<le> 29" using M(6) Y(4) by simp
  ultimately have cases: "mp = 11 \<and> m = 2 \<and> d0 \<le> 29 \<and> (d0 = 29 \<longrightarrow> is_leap y) \<or>
      mp \<in> {1, 3, 6, 8} \<and> m \<in> {4, 6, 9, 11} \<and> d0 \<le> 30 \<or>
      mp \<in> {0, 2, 4, 5, 7, 9, 10} \<and> m \<in> {1, 3, 5, 7, 8, 10, 12} \<and> d0 \<le> 31"
    using M(5) unfolding res(1) by (elim insertE) simp_all
  then show "d \<le> days_in m y" unfolding res(2) days_in_def by auto
qed

subsection \<open>Formatting\<close>

definition ns_per_day :: int where "ns_per_day = 86400 * 10 ^ 9"

text \<open>\<open>n\<close> as decimal digits, padded with zeros to a width; more digits where it needs them.\<close>

definition pad_dec :: "nat \<Rightarrow> nat \<Rightarrow> string" where
  "pad_dec w n = (let ds = dec_nat n in replicate (w - length ds) CHR ''0'' @ ds)"

definition year_str :: "int \<Rightarrow> string" where
  "year_str y = (if y < 0 then CHR ''-'' # pad_dec 4 (nat (- y)) else pad_dec 4 (nat y))"

definition frac_str :: "nat \<Rightarrow> string" where
  "frac_str ns = (if ns = 0 then [] else CHR ''.'' # trim_right_byte (pad_dec 9 ns) CHR ''0'')"

definition date_str :: "int \<Rightarrow> string" where
  "date_str z =
     (let (y, m, d) = civil_of_days z
      in year_str y @ CHR ''-'' # pad_dec 2 (nat m) @ CHR ''-'' # pad_dec 2 (nat d))"

text \<open>\<open>t.UTC().Format(time.RFC3339Nano)\<close>.\<close>

definition time_Format :: "instant \<Rightarrow> string" where
  "time_Format t =
     (let s = t mod ns_per_day; secs = s div 10 ^ 9
      in date_str (t div ns_per_day) @ CHR ''T'' #
         pad_dec 2 (nat (secs div 3600)) @ CHR '':'' #
         pad_dec 2 (nat (secs div 60 mod 60)) @ CHR '':'' #
         pad_dec 2 (nat (secs mod 60)) @ frac_str (nat (s mod 10 ^ 9)) @ [CHR ''Z''])"

subsection \<open>Parsing\<close>

text \<open>A fixed byte of the layout; \<open>getnum\<close> of one or two digits; the year's four digits.\<close>

definition eat :: "char \<Rightarrow> string \<Rightarrow> string option" where
  "eat c s = (case s of x # r \<Rightarrow> if x = c then Some r else None | [] \<Rightarrow> None)"

definition getnum :: "bool \<Rightarrow> string \<Rightarrow> (nat \<times> string) option" where
  "getnum fixed s =
     (case s of
        [] \<Rightarrow> None
      | a # r \<Rightarrow>
          if \<not> is_digit a then None
          else (case r of
              b # r2 \<Rightarrow>
                if is_digit b then Some (10 * (byte a - 48) + (byte b - 48), r2)
                else if fixed then None else Some (byte a - 48, r)
            | [] \<Rightarrow> if fixed then None else Some (byte a - 48, r)))"

definition get_year :: "string \<Rightarrow> (nat \<times> string) option" where
  "get_year s =
     (if 4 \<le> length s \<and> list_all is_digit (take 4 s)
      then Some (digits_val (take 4 s), drop 4 s) else None)"

text \<open>
  An optional fraction: a point or a comma and at least one digit; the first nine digits count.
\<close>

definition get_frac :: "string \<Rightarrow> nat \<times> string" where
  "get_frac s =
     (case s of
        c # r \<Rightarrow>
          let ds = takeWhile is_digit r in
          if (c = CHR ''.'' \<or> c = CHR '','') \<and> ds \<noteq> []
          then (digits_val (take 9 ds) * 10 ^ (9 - length (take 9 ds)), dropWhile is_digit r)
          else (0, s)
      | [] \<Rightarrow> (0, s))"

text \<open>The zone: \<open>Z\<close>, or a signed offset \<open>hh:mm\<close>, in seconds east of UTC.\<close>

definition get_zone :: "string \<Rightarrow> (int \<times> string) option" where
  "get_zone s =
     (case s of
        [] \<Rightarrow> None
      | c # r \<Rightarrow>
          if c = CHR ''Z'' then Some (0, r)
          else if c = CHR ''+'' \<or> c = CHR ''-'' then
            Option.bind (getnum True (take 2 r)) (\<lambda>(hh, _).
            Option.bind (eat CHR '':'' (drop 2 r)) (\<lambda>r2.
            Option.bind (getnum True (take 2 r2)) (\<lambda>(mm, _).
              if hh \<le> 24 \<and> mm \<le> 60
              then Some ((if c = CHR ''-'' then - 1 else 1) * int (hh * 3600 + mm * 60), drop 2 r2)
              else None)))
          else None)"

definition get_clock :: "string \<Rightarrow> (nat \<times> nat \<times> nat \<times> string) option" where
  "get_clock s =
     Option.bind (getnum False s) (\<lambda>(hh, s1).
     Option.bind (eat CHR '':'' s1) (\<lambda>s2.
     Option.bind (getnum True s2) (\<lambda>(mi, s3).
     Option.bind (eat CHR '':'' s3) (\<lambda>s4.
     Option.bind (getnum True s4) (\<lambda>(ss, s5).
       if hh < 24 \<and> mi < 60 \<and> ss < 60 then Some (hh, mi, ss, s5) else None)))))"

definition get_date :: "string \<Rightarrow> (int \<times> string) option" where
  \<comment> \<open>the number of the day\<close>
  "get_date s =
     Option.bind (get_year s) (\<lambda>(y, s1).
     Option.bind (eat CHR ''-'' s1) (\<lambda>s2.
     Option.bind (getnum True s2) (\<lambda>(m, s3).
     Option.bind (eat CHR ''-'' s3) (\<lambda>s4.
     Option.bind (getnum True s4) (\<lambda>(d, s5).
       if 1 \<le> m \<and> m \<le> 12 \<and> 1 \<le> d \<and> int d \<le> days_in (int m) (int y)
       then Some (days_of_civil (int y) (int m) (int d), s5) else None)))))"

text \<open>\<open>time.Parse(time.RFC3339Nano, s)\<close>.\<close>

definition time_Parse :: "string \<Rightarrow> instant option" where
  "time_Parse s =
     Option.bind (get_date s) (\<lambda>(z, s1).
     Option.bind (eat CHR ''T'' s1) (\<lambda>s2.
     Option.bind (get_clock s2) (\<lambda>(hh, mi, ss, s3).
     case get_frac s3 of (ns, s4) \<Rightarrow>
     Option.bind (get_zone s4) (\<lambda>(off, s5).
       if s5 = []
       then Some (z * ns_per_day + (int (hh * 3600 + mi * 60 + ss) - off) * 10 ^ 9 + int ns)
       else None))))"


subsection \<open>Parsing what was formatted\<close>

lemma length_dec_nat: "n < 10 ^ w \<Longrightarrow> 0 < w \<Longrightarrow> length (dec_nat n) \<le> w"
proof (induction n arbitrary: w rule: dec_nat.induct)
  case (1 n)
  show ?case
  proof (cases "n < 10")
    case True
    with "1.prems" show ?thesis by (simp add: dec_nat.simps [of n])
  next
    case False
    then have w: "1 < w" using "1.prems" by (cases w; cases "w - 1") auto
    then obtain v where v: "w = Suc v" "0 < v" by (cases w) auto
    then have "n div 10 < 10 ^ v" using "1.prems"(1) by (simp add: less_mult_imp_div_less mult.commute)
    with 1 False v show ?thesis by (simp add: dec_nat.simps [of n])
  qed
qed

lemma length_pad_dec: "n < 10 ^ w \<Longrightarrow> 0 < w \<Longrightarrow> length (pad_dec w n) = w"
  using length_dec_nat [of n w] by (simp add: pad_dec_def Let_def)

lemma is_digit_zero: "is_digit CHR ''0''"
  by (simp add: is_digit_def byte_def)

lemma pad_dec_digits: "list_all is_digit (pad_dec w n)"
  using dec_nat_digits is_digit_zero by (auto simp: pad_dec_def Let_def list_all_iff)

lemma digits_val_zeros: "digits_val (replicate k CHR ''0'' @ s) = digits_val s"
  by (induction k) (simp_all add: digits_val_def byte_def)

lemma digits_val_pad [simp]: "digits_val (pad_dec w n) = n"
  by (simp add: pad_dec_def Let_def digits_val_zeros)

lemma getnum_two:
  "length p = 2 \<Longrightarrow> list_all is_digit p \<Longrightarrow> getnum fixed (p @ r) = Some (digits_val p, r)"
  by (cases p; cases "tl p") (auto simp: getnum_def digits_val_def)

lemma getnum_pad: "n < 100 \<Longrightarrow> getnum fixed (pad_dec 2 n @ r) = Some (n, r)"
  using getnum_two [of "pad_dec 2 n" fixed r] length_pad_dec [of n 2] pad_dec_digits by simp

lemma get_year_pad: "n < 10000 \<Longrightarrow> get_year (pad_dec 4 n @ r) = Some (n, r)"
  using length_pad_dec [of n 4] pad_dec_digits [of 4 n] by (simp add: get_year_def)

lemma eat_Cons [simp]: "eat c (c # r) = Some r"
  by (simp add: eat_def)

lemma digits_val_append_zeros:
  "digits_val (t @ replicate k CHR ''0'') = digits_val t * 10 ^ k"
proof (induction k)
  case 0
  then show ?case by simp
next
  case (Suc k)
  have "t @ replicate (Suc k) CHR ''0'' = (t @ replicate k CHR ''0'') @ [CHR ''0'']"
    by (simp add: replicate_append_same)
  then show ?case by (simp only: digits_val_snoc Suc) (simp add: byte_def)
qed

lemma trim_right_byte_split:
  "\<exists>k. s = trim_right_byte s c @ replicate k c"
proof -
  have "takeWhile (\<lambda>x. x = c) (rev s) = replicate (length (takeWhile (\<lambda>x. x = c) (rev s))) c"
    by (metis (mono_tags, lifting) replicate_eqI set_takeWhileD)
  then have "rev s = replicate (length (takeWhile (\<lambda>x. x = c) (rev s))) c @ dropWhile (\<lambda>x. x = c) (rev s)"
    by (metis takeWhile_dropWhile_id)
  then have "s = rev (dropWhile (\<lambda>x. x = c) (rev s)) @ replicate (length (takeWhile (\<lambda>x. x = c) (rev s))) c"
    by (metis rev_append rev_replicate rev_rev_ident)
  then show ?thesis unfolding trim_right_byte_def by blast
qed

lemma get_frac_str:
  assumes "ns < 10 ^ 9"
  shows "get_frac (frac_str ns @ [CHR ''Z'']) = (ns, [CHR ''Z''])"
proof (cases "ns = 0")
  case True
  then show ?thesis by (simp add: frac_str_def get_frac_def)
next
  case False
  let ?t = "trim_right_byte (pad_dec 9 ns) CHR ''0''"
  obtain k where k: "pad_dec 9 ns = ?t @ replicate k CHR ''0''"
    using trim_right_byte_split by blast
  have len: "length ?t + k = 9"
    using length_pad_dec [OF assms] arg_cong [OF k, of length] by simp
  have val: "digits_val ?t * 10 ^ k = ns"
    using arg_cong [OF k, of digits_val] by (simp add: digits_val_append_zeros)
  have dig: "list_all is_digit ?t"
    using pad_dec_digits [of 9 ns] by (subst (asm) k) simp
  have "?t \<noteq> []" using val False by (auto simp: digits_val_def)
  moreover have "\<not> is_digit CHR ''Z''" by (simp add: is_digit_def byte_def)
  moreover have "9 - length ?t = k" using len by simp
  ultimately show ?thesis
    using False takeWhile_digits [OF dig, of "CHR ''Z''" "[]"] len val
    by (simp add: frac_str_def get_frac_def Let_def)
qed

lemma get_clock_pad:
  "hh < 24 \<Longrightarrow> mi < 60 \<Longrightarrow> ss < 60 \<Longrightarrow>
   get_clock (pad_dec 2 hh @ CHR '':'' # pad_dec 2 mi @ CHR '':'' # pad_dec 2 ss @ r) =
   Some (hh, mi, ss, r)"
  by (simp add: get_clock_def getnum_pad)

lemma get_date_str:
  assumes "civil_of_days z = (y, m, d)" "0 \<le> y" "y \<le> 9999"
  shows "get_date (date_str z @ r) = Some (z, r)"
proof -
  note V = civil_of_days_valid [OF assms(1)]
  have "d \<le> 31" using V(5) by (auto simp: days_in_def split: if_splits)
  then show ?thesis
    using V assms by (simp add: get_date_def date_str_def year_str_def get_year_pad getnum_pad
        Suc_le_eq nat_le_iff)
qed

text \<open>
  The instants whose UTC year is written with four digits.
\<close>

definition year4 :: "instant \<Rightarrow> bool" where
  "year4 t \<longleftrightarrow> (let y = fst (civil_of_days (t div ns_per_day)) in 0 \<le> y \<and> y \<le> 9999)"

lemma hms_sum:
  "0 \<le> u \<Longrightarrow> int (nat (u div 3600) * 3600 + nat (u div 60 mod 60) * 60 + nat (u mod 60)) = u"
proof -
  assume u: "0 \<le> u"
  have e: "x * 60 + y = w \<Longrightarrow> w * 60 + v = u \<Longrightarrow> x * 3600 + y * 60 + v = u" for x y w v :: int
    by linarith
  from e [OF div_mult_mod_eq div_mult_mod_eq]
  have sum: "u div 60 div 60 * 3600 + (u div 60 mod 60) * 60 + u mod 60 = u" .
  have d: "u div 3600 = u div 60 div 60" using zdiv_zmult2_eq [of 60 u 60] by simp
  have nn: "0 \<le> u div 60 div 60" "0 \<le> u div 60 mod 60" "0 \<le> u mod 60"
    using u by (simp_all add: pos_imp_zdiv_nonneg_iff)
  show ?thesis
    unfolding d by (simp only: of_nat_add of_nat_mult int_nat_eq nn if_True of_nat_numeral sum)
qed

theorem time_Parse_Format: "year4 t \<Longrightarrow> time_Parse (time_Format t) = Some t"
proof -
  assume y4: "year4 t"
  define z where "z = t div ns_per_day"
  define s where "s = t mod ns_per_day"
  define secs where "secs = s div 10 ^ 9"
  have s: "0 \<le> s" "s < ns_per_day" by (simp_all add: s_def ns_per_day_def)
  have "secs \<le> (86400 * 10 ^ 9 - 1) div 10 ^ 9"
    unfolding secs_def using s(2) by (intro zdiv_mono1) (simp_all add: ns_per_day_def)
  then have secs: "0 \<le> secs" "secs < 86400"
    using s(1) by (simp_all add: secs_def pos_imp_zdiv_nonneg_iff)
  obtain y m d where c: "civil_of_days z = (y, m, d)" by (metis prod_cases3)
  have date: "get_date (date_str z @ r) = Some (z, r)" for r
    using get_date_str [OF c] y4 c by (simp add: year4_def z_def)
  have "secs div 3600 \<le> 86399 div 3600" using secs(2) by (intro zdiv_mono1) simp_all
  then have hms: "nat (secs div 3600) < 24" "nat (secs div 60 mod 60) < 60" "nat (secs mod 60) < 60"
    by (simp_all add: nat_less_iff)
  have ns: "nat (s mod 10 ^ 9) < 10 ^ 9" by simp
  have "t = z * ns_per_day + s" unfolding z_def s_def by (rule div_mult_mod_eq [symmetric])
  moreover have "s = secs * 10 ^ 9 + s mod 10 ^ 9" unfolding secs_def by (rule div_mult_mod_eq [symmetric])
  ultimately have total: "z * ns_per_day + (int (nat (secs div 3600) * 3600 + nat (secs div 60 mod 60) * 60 +
      nat (secs mod 60)) - 0) * 10 ^ 9 + int (nat (s mod 10 ^ 9)) = t"
    unfolding hms_sum [OF secs(1)] by simp
  have clock: "get_clock (pad_dec 2 (nat (secs div 3600)) @ CHR '':'' #
      pad_dec 2 (nat (secs div 60 mod 60)) @ CHR '':'' # pad_dec 2 (nat (secs mod 60)) @ r) =
      Some (nat (secs div 3600), nat (secs div 60 mod 60), nat (secs mod 60), r)" for r
    using hms by (rule get_clock_pad)
  have fmt: "time_Format t = date_str z @ CHR ''T'' # pad_dec 2 (nat (secs div 3600)) @ CHR '':'' #
      pad_dec 2 (nat (secs div 60 mod 60)) @ CHR '':'' # pad_dec 2 (nat (secs mod 60)) @
      frac_str (nat (s mod 10 ^ 9)) @ [CHR ''Z'']"
    by (simp only: time_Format_def Let_def z_def s_def secs_def)
  have zone: "get_zone [CHR ''Z''] = Some (0, [])" by (simp add: get_zone_def)
  show ?thesis
    unfolding fmt time_Parse_def
    by (simp only: date clock get_frac_str [OF ns] eat_Cons bind.bind_lunit prod.case zone if_True
        simp_thms total)
qed

lemma time_Format_no_bar: "CHR ''|'' \<notin> set (time_Format t)"
proof -
  have nd: "CHR ''|'' \<notin> set (pad_dec w n)" for w n
    using pad_dec_digits [of w n] by (auto simp: list_all_iff is_digit_def byte_def)
  have "set (trim_right_byte s c) \<subseteq> set s" for s c
    by (auto simp: trim_right_byte_def dest: set_dropWhileD)
  then have "CHR ''|'' \<notin> set (frac_str n)" for n
    using nd by (simp add: frac_str_def) blast
  then show ?thesis
    using nd by (auto simp: time_Format_def Let_def date_str_def year_str_def split: prod.splits)
qed

end
