(* ===== verification/GoCrypto.thy ===== *)
theory GoCrypto
  imports GoStrings
begin

text \<open>
  The parts of Go's \<open>crypto/sha256\<close>, \<open>encoding/hex\<close> and \<open>encoding/base64\<close> that the program uses:
  SHA-256 of a byte string, its hexadecimal form, and the two unpadded base64 encodings (URL
  alphabet for cursors, standard alphabet for password hashes) with their decoders.
\<close>

unbundle bit_operations_syntax

subsection \<open>SHA-256\<close>

text \<open>
  The constants are the first 32 bits of the fractional parts of the square roots of the first eight
  primes and of the cube roots of the first 64: \<open>iroot k b a n\<close> finds the \<open>b\<close> low bits of the \<open>k\<close>-th root
  of \<open>n\<close>, from the highest down, with \<open>a\<close> what is found already.
\<close>

fun iroot :: "nat \<Rightarrow> nat \<Rightarrow> nat \<Rightarrow> nat \<Rightarrow> nat" where
  "iroot k 0 a n = a"
| "iroot k (Suc b) a n = iroot k b (if (a + 2 ^ b) ^ k \<le> n then a + 2 ^ b else a) n"

definition primes_below :: "nat \<Rightarrow> nat list" where
  "primes_below n = filter (\<lambda>p. list_all (\<lambda>d. p mod d \<noteq> 0) [2..<p]) [2..<n]"

definition frac_root :: "nat \<Rightarrow> nat \<Rightarrow> 32 word" where
  "frac_root k p = word_of_nat (iroot k 37 0 (p * 2 ^ (32 * k)))"

definition sha_init :: "32 word list" where
  "sha_init = map (frac_root 2) (primes_below 20)"

definition sha_k :: "32 word list" where
  "sha_k = map (frac_root 3) (primes_below 312)"

definition rotr :: "nat \<Rightarrow> 32 word \<Rightarrow> 32 word" where
  "rotr n x = drop_bit n x OR push_bit (32 - n) x"

definition byte_word :: "char \<Rightarrow> 32 word" where
  "byte_word c = word_of_nat (byte c)"

definition be_word :: "string \<Rightarrow> 32 word" where
  "be_word bs = foldl (\<lambda>w c. push_bit 8 w OR byte_word c) 0 bs"

text \<open>The message, a 1 bit, zero bits, and the length in bits as 8 bytes.\<close>

fun be_bytes :: "nat \<Rightarrow> nat \<Rightarrow> string" where
  "be_bytes 0 n = []"
| "be_bytes (Suc k) n = be_bytes k (n div 256) @ [char_of (n mod 256)]"

definition sha_pad :: "string \<Rightarrow> string" where
  "sha_pad s = s @ [CHR 0x80] @ replicate ((119 - length s mod 64) mod 64) (char_of (0 :: nat)) @ be_bytes 8 (8 * length s)"

fun chunks :: "nat \<Rightarrow> string \<Rightarrow> string list" where
  "chunks 0 s = []"
| "chunks (Suc k) s = take 64 s # chunks k (drop 64 s)"

definition words_of :: "string \<Rightarrow> 32 word list" where
  "words_of b = map (\<lambda>i. be_word (take 4 (drop (4 * i) b))) [0..<16]"

text \<open>The message schedule, latest word first: each new word is made of four earlier ones.\<close>

fun schedule :: "nat \<Rightarrow> 32 word list \<Rightarrow> 32 word list" where
  "schedule 0 ws = ws"
| "schedule (Suc k) ws =
     (let v1 = ws ! 1; t1 = rotr 17 v1 XOR rotr 19 v1 XOR drop_bit 10 v1;
          v2 = ws ! 14; t2 = rotr 7 v2 XOR rotr 18 v2 XOR drop_bit 3 v2
      in schedule k ((t1 + ws ! 6 + t2 + ws ! 15) # ws))"

fun sha_round :: "32 word list \<Rightarrow> 32 word \<times> 32 word \<Rightarrow> 32 word list" where
  "sha_round [a, b, c, d, e, f, g, h] (k, w) =
     (let t1 = h + (rotr 6 e XOR rotr 11 e XOR rotr 25 e) + ((e AND f) XOR (NOT e AND g)) + k + w;
          t2 = (rotr 2 a XOR rotr 13 a XOR rotr 22 a) + ((a AND b) XOR (a AND c) XOR (b AND c))
      in [t1 + t2, a, b, c, d + t1, e, f, g])"
| "sha_round s _ = s"

definition sha_block :: "32 word list \<Rightarrow> string \<Rightarrow> 32 word list" where
  "sha_block h b =
     map (\<lambda>(x, y). x + y)
       (zip h (foldl sha_round h (zip sha_k (rev (schedule 48 (rev (words_of b)))))))"

definition word_bytes :: "32 word \<Rightarrow> string" where
  "word_bytes w = map (\<lambda>n. char_of (unat (drop_bit n w AND 255))) [24, 16, 8, 0]"

definition sha256 :: "string \<Rightarrow> string" where
  "sha256 s =
     (let p = sha_pad s in concat (map word_bytes (foldl sha_block sha_init (chunks (length p div 64) p))))"

subsection \<open>Hexadecimal\<close>

definition hex_char :: "nat \<Rightarrow> char" where
  "hex_char n = ''0123456789abcdef'' ! (n mod 16)"

definition hex_encode :: "string \<Rightarrow> string" where
  "hex_encode s = concat (map (\<lambda>c. [hex_char (byte c div 16), hex_char (byte c)]) s)"

subsection \<open>Base64 without padding\<close>

definition std_alphabet :: string where
  "std_alphabet = ''ABCDEFGHIJKLMNOPQRSTUVWXYZabcdefghijklmnopqrstuvwxyz0123456789+/''"

definition url_alphabet :: string where
  "url_alphabet = ''ABCDEFGHIJKLMNOPQRSTUVWXYZabcdefghijklmnopqrstuvwxyz0123456789-_''"

text \<open>Bytes as sextets and back, three bytes to four sextets.\<close>

fun sextets :: "nat list \<Rightarrow> nat list" where
  "sextets (a # b # c # bs) =
     [a div 4, (a mod 4) * 16 + b div 16, (b mod 16) * 4 + c div 64, c mod 64] @ sextets bs"
| "sextets [a, b] = [a div 4, (a mod 4) * 16 + b div 16, (b mod 16) * 4]"
| "sextets [a] = [a div 4, (a mod 4) * 16]"
| "sextets [] = []"

text \<open>The decoder drops the bits of the last group that make up no byte, whatever they are.\<close>

fun unsextets :: "nat list \<Rightarrow> nat list option" where
  "unsextets (w # x # y # z # ss) =
     map_option (\<lambda>bs. [w * 4 + x div 16, (x mod 16) * 16 + y div 4, (y mod 4) * 64 + z] @ bs) (unsextets ss)"
| "unsextets [w, x, y] = Some [w * 4 + x div 16, (x mod 16) * 16 + y div 4]"
| "unsextets [w, x] = Some [w * 4 + x div 16]"
| "unsextets [w] = None"
| "unsextets [] = Some []"

fun opt_list :: "'a option list \<Rightarrow> 'a list option" where
  "opt_list [] = Some []"
| "opt_list (x # xs) = (case x of None \<Rightarrow> None | Some y \<Rightarrow> map_option ((#) y) (opt_list xs))"

definition b64_encode :: "string \<Rightarrow> string \<Rightarrow> string" where
  "b64_encode alphabet s = map (\<lambda>i. alphabet ! i) (sextets (map byte s))"

text \<open>\<open>DecodeString\<close> skips carriage returns and newlines and refuses any other foreign byte.\<close>

definition b64_decode :: "string \<Rightarrow> string \<Rightarrow> string option" where
  "b64_decode alphabet s =
     (case opt_list (map (index_byte alphabet) (filter (\<lambda>c. c \<noteq> CHR 0x0A \<and> c \<noteq> CHR 0x0D) s)) of
        None \<Rightarrow> None
      | Some ss \<Rightarrow> map_option (map char_of) (unsextets ss))"

lemma index_byte_nth: "distinct xs \<Longrightarrow> i < length xs \<Longrightarrow> index_byte xs (xs ! i) = Some i"
  by (induction xs arbitrary: i) (auto simp: nth_Cons split: nat.split)

lemma sextets_less: "\<forall>b \<in> set bs. b < 256 \<Longrightarrow> i \<in> set (sextets bs) \<Longrightarrow> i < 64"
  by (induction bs rule: sextets.induct) auto

lemma sextet_digits:
  "a < 256 \<Longrightarrow> b < 256 \<Longrightarrow> (a div 4) * 4 + ((a mod 4) * 16 + b div 16) div 16 = (a :: nat)"
  "b < 256 \<Longrightarrow> ((a mod 4) * 16 + b div 16) mod 16 = b div (16 :: nat)"
  "c < 256 \<Longrightarrow> ((b mod 16) * 4 + c div 64) div 4 = b mod (16 :: nat)"
  "c < 256 \<Longrightarrow> ((b mod 16) * 4 + c div 64) mod 4 = c div (64 :: nat)"
  by (simp_all add: less_mult_imp_div_less div_add1_eq mod_add_eq [symmetric])

lemma unsextets_sextets:
  "\<forall>b \<in> set bs. b < 256 \<Longrightarrow> unsextets (sextets bs) = Some bs"
  by (induction bs rule: sextets.induct) (auto simp: sextet_digits)

lemma opt_list_map_Some: "opt_list (map Some xs) = Some xs"
  by (induction xs) auto

lemma b64_round_trip:
  assumes "distinct alphabet" "length alphabet = 64" "CHR 0x0A \<notin> set alphabet" "CHR 0x0D \<notin> set alphabet"
  shows "b64_decode alphabet (b64_encode alphabet s) = Some s"
proof -
  let ?ss = "sextets (map byte s)"
  have less: "i < 64" if "i \<in> set ?ss" for i
    using sextets_less [of "map byte s" i] that by auto
  have "filter (\<lambda>c. c \<noteq> CHR 0x0A \<and> c \<noteq> CHR 0x0D) (b64_encode alphabet s) = b64_encode alphabet s"
    using less assms(2-4) by (auto simp: b64_encode_def filter_id_conv) (metis nth_mem)+
  moreover have "map (index_byte alphabet) (b64_encode alphabet s) = map Some ?ss"
    using less assms(1,2) by (auto simp: b64_encode_def index_byte_nth)
  moreover have "unsextets ?ss = Some (map byte s)" by (rule unsextets_sextets) auto
  ultimately show ?thesis by (simp add: b64_decode_def opt_list_map_Some comp_def)
qed

lemma b64_url_round_trip: "b64_decode url_alphabet (b64_encode url_alphabet s) = Some s"
  by (rule b64_round_trip) (simp_all add: url_alphabet_def)

lemma b64_std_round_trip: "b64_decode std_alphabet (b64_encode std_alphabet s) = Some s"
  by (rule b64_round_trip) (simp_all add: std_alphabet_def)

lemma b64_encode_set:
  assumes "length alphabet = 64" "c \<in> set (b64_encode alphabet s)" shows "c \<in> set alphabet"
proof -
  from assms(2) obtain i where "i \<in> set (sextets (map byte s))" "c = alphabet ! i"
    by (auto simp: b64_encode_def)
  with sextets_less [of "map byte s" i] assms(1) show ?thesis by auto
qed

end
