(* ===== verification/Jwt.thy ===== *)
theory Jwt
  imports Uuid GoTime GoCrypto
begin

text \<open>
  \<open>internal/auth/jwt.go\<close> and \<open>internal/auth/context.go\<close>. \<open>github.com/golang-jwt/jwt\<close> is a library: signing
  and parsing with a key function are a parameter (\<open>jwt_lib\<close>), and the locale \<open>jwt_laws\<close> states the
  documented behaviour that the program relies on. A \<open>NumericDate\<close> is whole seconds.
\<close>

subsection \<open>The library\<close>

text \<open>The registered claims that the program sets or the parser checks.\<close>

record claims =
  cl_IsGuest :: bool
  cl_Subject :: string
  cl_IssuedAt :: "int option"
  cl_ExpiresAt :: "int option"
  cl_NotBefore :: "int option"

datatype signing_method = SigningMethodHMAC string | OtherMethod string

definition SigningMethodHS256 :: signing_method where
  "SigningMethodHS256 = SigningMethodHMAC ''HS256''"

type_synonym keyfunc = "signing_method \<Rightarrow> err + string"

text \<open>
  \<open>jw_Sign m key claims\<close> is \<open>SignedString\<close>; \<open>jw_Parse kf now token\<close> is \<open>ParseWithClaims\<close> at the time
  \<open>now\<close>: the claims and whether the token is valid.
\<close>

record jwt_lib =
  jw_Sign :: "signing_method \<Rightarrow> string \<Rightarrow> claims \<Rightarrow> err + string"
  jw_Parse :: "keyfunc \<Rightarrow> instant \<Rightarrow> string \<Rightarrow> err + claims \<times> bool"

definition NewNumericDate :: "instant \<Rightarrow> int" where
  "NewNumericDate t = t div 10 ^ 9"

text \<open>A claim is in force from \<open>nbf\<close> on and until \<open>exp\<close>.\<close>

definition in_force :: "instant \<Rightarrow> claims \<Rightarrow> bool" where
  "in_force now c \<longleftrightarrow>
     (\<forall>e. cl_ExpiresAt c = Some e \<longrightarrow> now < e * 10 ^ 9) \<and> (\<forall>b. cl_NotBefore c = Some b \<longrightarrow> b * 10 ^ 9 \<le> now)"

text \<open>
  \<open>bears m key token c\<close>: the token carries the claims \<open>c\<close> and names the method \<open>m\<close>, and its signature
  is that of \<open>m\<close> under the key. The parser accepts nothing else, and a token it accepts is in force;
  it accepts what was signed.
\<close>

locale jwt_laws =
  fixes J :: jwt_lib and bears :: "signing_method \<Rightarrow> string \<Rightarrow> string \<Rightarrow> claims \<Rightarrow> bool"
  assumes sign: "jw_Sign J m key c = Inr token \<Longrightarrow> bears m key token c"
    and parse: "jw_Parse J kf now token = Inr (c, valid) \<Longrightarrow>
      valid \<and> in_force now c \<and> (\<exists>m key. kf m = Inr key \<and> bears m key token c)"
    and accept: "bears m key token c \<Longrightarrow> kf m = Inr key \<Longrightarrow> in_force now c \<Longrightarrow>
      jw_Parse J kf now token = Inr (c, True)"
    and hs256_signs: "\<exists>token. jw_Sign J SigningMethodHS256 key c = Inr token"

subsection \<open>The token manager\<close>

record token_manager =
  tm_secret :: string
  tm_ttl :: duration
  tm_jwt :: jwt_lib
  tm_uuid :: uuid_lib

definition Issue :: "token_manager \<Rightarrow> uuid \<Rightarrow> bool \<Rightarrow> instant \<Rightarrow> err + string \<times> instant" where
  "Issue M userID isGuest now =
     (let expiresAt = now + tm_ttl M;
          c = \<lparr>cl_IsGuest = isGuest, cl_Subject = uuid_String (tm_uuid M) userID,
               cl_IssuedAt = Some (NewNumericDate now), cl_ExpiresAt = Some (NewNumericDate expiresAt),
               cl_NotBefore = None\<rparr> in
      case jw_Sign (tm_jwt M) SigningMethodHS256 (tm_secret M) c of
        Inl e \<Rightarrow> Inl (Wrap ''signing token'' e)
      | Inr tok \<Rightarrow> Inr (tok, expiresAt))"

definition token_key :: "token_manager \<Rightarrow> keyfunc" where
  "token_key M m =
     (case m of
        SigningMethodHMAC _ \<Rightarrow> Inr (tm_secret M)
      | OtherMethod a \<Rightarrow> Inl (Err (''unexpected signing method: '' @ a)))"

definition Verify :: "token_manager \<Rightarrow> instant \<Rightarrow> string \<Rightarrow> err + claims" where
  "Verify M now token =
     (case jw_Parse (tm_jwt M) (token_key M) now token of
        Inl e \<Rightarrow> Inl (Wrap ''parsing token'' e)
      | Inr (c, valid) \<Rightarrow> if \<not> valid then Inl (Sentinel ErrInvalidToken) else Inr c)"

subsection \<open>The request context\<close>

text \<open>The two values that the package stores in a context.\<close>

record auth_context =
  cx_userID :: "uuid option"
  cx_isGuest :: "bool option"

definition Background :: auth_context where
  "Background = \<lparr>cx_userID = None, cx_isGuest = None\<rparr>"

definition WithUserID :: "uuid \<Rightarrow> auth_context \<Rightarrow> auth_context" where
  "WithUserID i c = c\<lparr>cx_userID := Some i\<rparr>"

definition UserIDFromContext :: "auth_context \<Rightarrow> uuid option" where
  "UserIDFromContext c = cx_userID c"

definition WithIsGuest :: "bool \<Rightarrow> auth_context \<Rightarrow> auth_context" where
  "WithIsGuest g c = c\<lparr>cx_isGuest := Some g\<rparr>"

definition IsGuestFromContext :: "auth_context \<Rightarrow> bool option" where
  "IsGuestFromContext c = cx_isGuest c"

lemma context_simps [simp]:
  "UserIDFromContext (WithUserID i c) = Some i" "UserIDFromContext (WithIsGuest g c) = UserIDFromContext c"
  "IsGuestFromContext (WithIsGuest g c) = Some g" "IsGuestFromContext (WithUserID i c) = IsGuestFromContext c"
  "UserIDFromContext Background = None" "IsGuestFromContext Background = None"
  by (simp_all add: UserIDFromContext_def WithUserID_def WithIsGuest_def IsGuestFromContext_def Background_def)

subsection \<open>Issuing and verifying\<close>

locale tokens = jwt_laws "tm_jwt M" bears + uuid_laws "tm_uuid M"
  for M :: token_manager and bears :: "signing_method \<Rightarrow> string \<Rightarrow> string \<Rightarrow> claims \<Rightarrow> bool"
begin

lemma Issue_total: "\<exists>token. Issue M u g now = Inr (token, now + tm_ttl M)"
proof -
  obtain token where "jw_Sign (tm_jwt M) SigningMethodHS256 (tm_secret M) \<lparr>cl_IsGuest = g,
      cl_Subject = uuid_String (tm_uuid M) u, cl_IssuedAt = Some (NewNumericDate now),
      cl_ExpiresAt = Some (NewNumericDate (now + tm_ttl M)), cl_NotBefore = None\<rparr> = Inr token"
    using hs256_signs by blast
  then show ?thesis by (simp add: Issue_def)
qed

text \<open>A token is accepted, with the claims it was issued for, until the second it expires in.\<close>

lemma Verify_Issue:
  assumes "Issue M u g now = Inr (token, expires)" "later < expires div 10 ^ 9 * 10 ^ 9"
  shows "\<exists>c. Verify M later token = Inr c \<and> cl_IsGuest c = g \<and> uuid_Parse (tm_uuid M) (cl_Subject c) = Inr u"
proof -
  let ?c = "\<lparr>cl_IsGuest = g, cl_Subject = uuid_String (tm_uuid M) u, cl_IssuedAt = Some (NewNumericDate now),
    cl_ExpiresAt = Some (NewNumericDate (now + tm_ttl M)), cl_NotBefore = None\<rparr>"
  have s: "jw_Sign (tm_jwt M) SigningMethodHS256 (tm_secret M) ?c = Inr token" "expires = now + tm_ttl M"
    using assms(1) by (auto simp: Issue_def Let_def split: sum.splits)
  have "token_key M SigningMethodHS256 = Inr (tm_secret M)" by (simp add: token_key_def SigningMethodHS256_def)
  moreover have "in_force later ?c" using assms(2) by (simp add: in_force_def NewNumericDate_def s(2))
  ultimately have "jw_Parse (tm_jwt M) (token_key M) later token = Inr (?c, True)"
    using accept sign [OF s(1)] by blast
  then show ?thesis by (simp add: Verify_def parse_string)
qed

text \<open>
  What is accepted was signed with the secret by an HMAC method, and is in force.
\<close>

lemma Verify_signed:
  assumes "Verify M now token = Inr c"
  shows "in_force now c \<and> (\<exists>alg. bears (SigningMethodHMAC alg) (tm_secret M) token c)"
proof -
  from assms obtain valid where p: "jw_Parse (tm_jwt M) (token_key M) now token = Inr (c, valid)"
    by (auto simp: Verify_def split: sum.splits if_splits)
  from parse [OF p] obtain m key where m: "in_force now c" "token_key M m = Inr key" "bears m key token c" by blast
  then obtain alg where "m = SigningMethodHMAC alg" "key = tm_secret M"
    by (cases m) (auto simp: token_key_def)
  with m show ?thesis by blast
qed

end

subsection \<open>A sample library\<close>

text \<open>
  Tokens that show their method, key and claims: a library with these laws, for the closed
  examples. The fields are separated by dots; texts are in base64 and numbers in decimals.
\<close>

definition dec_int :: "string \<Rightarrow> int" where
  "dec_int s = (case s of c # t \<Rightarrow> if c = CHR ''-'' then - int (digits_val t) else int (digits_val s) | [] \<Rightarrow> 0)"

definition show_date :: "int option \<Rightarrow> string" where
  "show_date i = (case i of None \<Rightarrow> ''n'' | Some i \<Rightarrow> itoa i)"

definition read_date :: "string \<Rightarrow> int option" where
  "read_date s = (if s = ''n'' then None else Some (dec_int s))"

definition b64 :: "string \<Rightarrow> string" where
  "b64 = b64_encode url_alphabet"

definition show_method :: "signing_method \<Rightarrow> string \<times> string" where
  "show_method m = (case m of SigningMethodHMAC a \<Rightarrow> (''h'', a) | OtherMethod a \<Rightarrow> (''o'', a))"

definition show_token :: "signing_method \<Rightarrow> string \<Rightarrow> claims \<Rightarrow> string" where
  "show_token m key c =
     fst (show_method m) @ ''.'' @ b64 (snd (show_method m)) @ ''.'' @ b64 key @ ''.'' @
     (if cl_IsGuest c then ''t'' else ''f'') @ ''.'' @ b64 (cl_Subject c) @ ''.'' @ show_date (cl_IssuedAt c) @ ''.'' @
     show_date (cl_ExpiresAt c) @ ''.'' @ show_date (cl_NotBefore c)"

definition read_token :: "string \<Rightarrow> (signing_method \<times> string \<times> claims) option" where
  "read_token s =
     (case split_on (CHR ''.'') s of
        [k, a, key, g, sub, iat, ex, nbf] \<Rightarrow>
          (case (b64_decode url_alphabet a, b64_decode url_alphabet key, b64_decode url_alphabet sub) of
             (Some a, Some key, Some sub) \<Rightarrow>
               Some (if k = ''h'' then SigningMethodHMAC a else OtherMethod a, key,
                 \<lparr>cl_IsGuest = (g = ''t''), cl_Subject = sub, cl_IssuedAt = read_date iat,
                  cl_ExpiresAt = read_date ex, cl_NotBefore = read_date nbf\<rparr>)
           | _ \<Rightarrow> None)
      | _ \<Rightarrow> None)"

definition open_jwt :: jwt_lib where
  "open_jwt = \<lparr>jw_Sign = (\<lambda>m key c. Inr (show_token m key c)),
     jw_Parse = (\<lambda>kf now token.
       (case read_token token of
          None \<Rightarrow> Inl (Err ''token is malformed'')
        | Some (m, key, c) \<Rightarrow>
            (case kf m of
               Inl e \<Rightarrow> Inl e
             | Inr k \<Rightarrow>
                 if k \<noteq> key then Inl (Err ''signature is invalid'')
                 else if \<not> (case cl_ExpiresAt c of None \<Rightarrow> True | Some e \<Rightarrow> now < e * 10 ^ 9)
                 then Inl (Err ''token is expired'')
                 else if \<not> (case cl_NotBefore c of None \<Rightarrow> True | Some b \<Rightarrow> b * 10 ^ 9 \<le> now)
                 then Inl (Err ''token is not valid yet'')
                 else Inr (c, True))))\<rparr>"

lemma dec_itoa: "dec_int (itoa i) = i"
proof -
  have hd: "hd (dec_nat n) \<noteq> CHR ''-''" for n
    using dec_nat_set [of "hd (dec_nat n)" n] by (auto simp: is_digit_def byte_def)
  obtain c t where ct: "dec_nat (nat i) = c # t" by (cases "dec_nat (nat i)") auto
  with hd [of "nat i"] have "c \<noteq> CHR ''-''" by simp
  with ct digits_val_dec_nat [of "nat i"] show ?thesis by (simp add: dec_int_def itoa_def)
qed

lemma itoa_chars: "c \<in> set (itoa i) \<Longrightarrow> is_digit c \<or> c = CHR ''-''"
  by (auto simp: itoa_def dest: dec_nat_set split: if_splits)

lemma read_show_date: "read_date (show_date i) = i"
proof (cases i)
  case (Some j)
  have "CHR ''n'' \<notin> set (itoa j)" using itoa_chars [of "CHR ''n''" j] by (auto simp: is_digit_def byte_def)
  with Some show ?thesis by (auto simp: read_date_def show_date_def dec_itoa)
qed (simp add: read_date_def show_date_def)

lemma no_dot_date: "CHR ''.'' \<notin> set (show_date i)"
  using itoa_chars [of "CHR ''.''"] by (auto simp: show_date_def is_digit_def byte_def split: option.splits)

lemma no_dot_b64: "CHR ''.'' \<notin> set (b64 s)"
proof -
  have "CHR ''.'' \<notin> set url_alphabet" "length url_alphabet = 64" by (simp_all add: url_alphabet_def)
  then show ?thesis using b64_encode_set [of url_alphabet "CHR ''.''" s] by (auto simp: b64_def)
qed

lemma split_token:
  "split_on (CHR ''.'') (show_token m key c) =
     [fst (show_method m), b64 (snd (show_method m)), b64 key, if cl_IsGuest c then ''t'' else ''f'',
      b64 (cl_Subject c), show_date (cl_IssuedAt c), show_date (cl_ExpiresAt c), show_date (cl_NotBefore c)]"
proof -
  have "CHR ''.'' \<notin> set (fst (show_method m))" by (cases m) (simp_all add: show_method_def)
  moreover have "CHR ''.'' \<notin> set (if cl_IsGuest c then ''t'' else ''f'')" by simp
  ultimately show ?thesis
    using no_dot_b64 no_dot_date unfolding show_token_def
    by (simp add: split_on_append split_on_no_sep del: split_on.simps if_split split: )
qed

lemma read_show_token: "read_token (show_token m key c) = Some (m, key, c)"
  unfolding read_token_def split_token
  by (cases m; cases "cl_IsGuest c") (simp_all add: show_method_def b64_def b64_url_round_trip read_show_date)

definition open_bears :: "signing_method \<Rightarrow> string \<Rightarrow> string \<Rightarrow> claims \<Rightarrow> bool" where
  "open_bears m key token c \<longleftrightarrow> read_token token = Some (m, key, c)"

interpretation open_jwt: jwt_laws open_jwt open_bears
  by unfold_locales
    (auto simp: open_jwt_def open_bears_def read_show_token in_force_def SigningMethodHS256_def
      split: option.splits sum.splits if_splits prod.splits)

definition sample_tokens :: token_manager where
  "sample_tokens = \<lparr>tm_secret = ''0123456789abcdef'', tm_ttl = 3600 * 10 ^ 9, tm_jwt = open_jwt, tm_uuid = canonical_uuid\<rparr>"

interpretation sample_tokens: tokens sample_tokens open_bears
  by unfold_locales
    (simp_all add: sample_tokens_def open_jwt.sign open_jwt.accept open_jwt.hs256_signs
      canonical.parse_string canonical.string_chars, blast dest: open_jwt.parse)

end
