(* ===== verification/GoHttp.thy ===== *)
theory GoHttp
  imports GoNet GoJsonEncode Jwt
begin

text \<open>
  What the program uses of \<open>net/http\<close>: requests with their query and context, a response writer
  as the state that handlers thread, and \<open>http.Redirect\<close>. A handler also threads the state of the
  world \<open>'w\<close>, and returns or panics.
\<close>

subsection \<open>Headers\<close>

text \<open>
  \<open>textproto.CanonicalMIMEHeaderKey\<close> on a name of letters, digits and hyphens: a letter is upper case
  at the start and after a hyphen, and lower case elsewhere.
\<close>

definition ascii_upper :: "char \<Rightarrow> char" where
  "ascii_upper c = (if 97 \<le> byte c \<and> byte c \<le> 122 then char_of (byte c - 32) else c)"

fun canonical_from :: "bool \<Rightarrow> string \<Rightarrow> string" where
  "canonical_from up [] = []"
| "canonical_from up (c # s) = (if up then ascii_upper c else ascii_lower c) # canonical_from (c = CHR ''-'') s"

definition canonical_key :: "string \<Rightarrow> string" where
  "canonical_key s = canonical_from True s"

type_synonym headers = "string \<rightharpoonup> string"

definition header_Set :: "string \<Rightarrow> string \<Rightarrow> headers \<Rightarrow> headers" where
  "header_Set k v h = h(canonical_key k \<mapsto> v)"

text \<open>\<open>Get\<close> gives the empty string where there is no value.\<close>

definition header_Get :: "headers \<Rightarrow> string \<Rightarrow> string" where
  "header_Get h k = (case h (canonical_key k) of None \<Rightarrow> [] | Some v \<Rightarrow> v)"

subsection \<open>Requests\<close>

text \<open>
  \<open>rq_Header\<close> has the first value of each header, \<open>rq_Query\<close> is the raw query of the URL,
  \<open>rq_Params\<close> are the URL parameters that the router has bound (\<open>chi.URLParam\<close>).
\<close>

record request =
  rq_Method :: string
  rq_Path :: string
  rq_RawPath :: string
  rq_Query :: string
  rq_Header :: headers
  rq_Body :: string
  rq_RemoteAddr :: string
  rq_Params :: "string \<rightharpoonup> string"
  rq_Context :: auth_context

definition URLParam :: "request \<Rightarrow> string \<Rightarrow> string" where
  "URLParam r k = (case rq_Params r k of None \<Rightarrow> [] | Some v \<Rightarrow> v)"

text \<open>\<open>url.QueryUnescape\<close>.\<close>

fun query_unescape :: "string \<Rightarrow> string option" where
  "query_unescape [] = Some []"
| "query_unescape (c # s) =
     (if c = CHR ''%'' then
        (case s of
           a # b # t \<Rightarrow>
             (case (hex_val a, hex_val b) of
                (Some x, Some y) \<Rightarrow> map_option ((#) (char_of (x * 16 + y))) (query_unescape t)
              | _ \<Rightarrow> None)
         | _ \<Rightarrow> None)
      else map_option ((#) (if c = CHR ''+'' then CHR '' '' else c)) (query_unescape s))"

text \<open>One \<open>key=value\<close> of a query; \<open>url.ParseQuery\<close> drops what is empty or malformed.\<close>

definition query_pair :: "string \<Rightarrow> (string \<times> string) option" where
  "query_pair kv =
     (if CHR '';'' \<in> set kv \<or> kv = [] then None
      else (case cut kv (CHR ''='') of
          (k, v, _) \<Rightarrow>
            (case (query_unescape k, query_unescape v) of (Some k, Some v) \<Rightarrow> Some (k, v) | _ \<Rightarrow> None)))"

text \<open>\<open>r.URL.Query().Get(k)\<close>: the first value, or the empty string.\<close>

definition query_Get :: "string \<Rightarrow> string \<Rightarrow> string" where
  "query_Get q k =
     (case map_of (List.map_filter query_pair (split_on (CHR ''&'') q)) k of None \<Rightarrow> [] | Some v \<Rightarrow> v)"

subsection \<open>Response writers\<close>

text \<open>
  The header map being built, and once the header is written its status and the headers sent with
  it; the body; and the status that the recorder of the request log has seen
  (\<open>middleware.statusRecorder\<close>, 200 before any).
\<close>

record rw =
  rw_Header :: headers
  rw_Sent :: "(int \<times> headers) option"
  rw_Body :: string
  rw_Status :: int

definition new_rw :: rw where
  "new_rw = \<lparr>rw_Header = (\<lambda>_. None), rw_Sent = None, rw_Body = [], rw_Status = 200\<rparr>"

definition set_header :: "string \<Rightarrow> string \<Rightarrow> rw \<Rightarrow> rw" where
  "set_header k v W = W\<lparr>rw_Header := header_Set k v (rw_Header W)\<rparr>"

text \<open>The header is written once; \<open>Write\<close> writes it with 200 first if it is not yet.\<close>

definition send_header :: "int \<Rightarrow> rw \<Rightarrow> rw" where
  "send_header code W = (if rw_Sent W = None then W\<lparr>rw_Sent := Some (code, rw_Header W)\<rparr> else W)"

definition WriteHeader :: "int \<Rightarrow> rw \<Rightarrow> rw" where
  "WriteHeader code W = (send_header code W)\<lparr>rw_Status := code\<rparr>"

definition body_allowed :: "int \<Rightarrow> bool" where
  "body_allowed code \<longleftrightarrow> \<not> (100 \<le> code \<and> code \<le> 199) \<and> code \<noteq> 204 \<and> code \<noteq> 304"

definition write_body :: "string \<Rightarrow> rw \<Rightarrow> rw" where
  "write_body bs W =
     (let W1 = send_header 200 W in
      case rw_Sent W1 of
        Some (code, _) \<Rightarrow> if body_allowed code then W1\<lparr>rw_Body := rw_Body W1 @ bs\<rparr> else W1
      | None \<Rightarrow> W1)"

text \<open>What a client sees of a response: its status, a header, its body.\<close>

definition status_of :: "rw \<Rightarrow> int" where
  "status_of W = (case rw_Sent W of None \<Rightarrow> 200 | Some (code, _) \<Rightarrow> code)"

definition header_of :: "rw \<Rightarrow> string \<Rightarrow> string option" where
  "header_of W k = (case rw_Sent W of None \<Rightarrow> rw_Header W | Some (_, h) \<Rightarrow> h) (canonical_key k)"

subsection \<open>Handlers\<close>

datatype ending = Returned | Panicked

type_synonym 'w handler = "request \<Rightarrow> rw \<times> 'w \<Rightarrow> ending \<times> rw \<times> 'w"

subsection \<open>Redirects\<close>

text \<open>
  \<open>path.Clean\<close>: the segments of a path without the empty ones and dots, where a double dot takes back
  the segment before it; a rooted path has nothing to take back at its root.
\<close>

fun clean_segments :: "bool \<Rightarrow> string list \<Rightarrow> string list \<Rightarrow> string list" where
  "clean_segments rooted out [] = rev out"
| "clean_segments rooted out (p # ps) =
     (if p = [] \<or> p = ''.'' then clean_segments rooted out ps
      else if p = ''..'' then
        (case out of
           q # qs \<Rightarrow> if q \<noteq> ''..'' then clean_segments rooted qs ps else clean_segments rooted (p # out) ps
         | [] \<Rightarrow> clean_segments rooted (if rooted then [] else [p]) ps)
      else clean_segments rooted (p # out) ps)"

definition path_Clean :: "string \<Rightarrow> string" where
  "path_Clean p =
     (let rooted = has_prefix p ''/'';
          out = join_with ''/'' (clean_segments rooted [] (split_on (CHR ''/'') p)) in
      if rooted then CHR ''/'' # out else if out = [] then ''.'' else out)"

text \<open>The directory that \<open>path.Split\<close> gives, with its slash.\<close>

definition path_dir :: "string \<Rightarrow> string" where
  "path_dir p = (case last_index_byte p (CHR ''/'') of None \<Rightarrow> [] | Some i \<Rightarrow> take (Suc i) p)"

definition redirect_target :: "string \<Rightarrow> string \<Rightarrow> string" where
  "redirect_target oldpath u =
     (case url_Parse u of
        None \<Rightarrow> u
      | Some x \<Rightarrow>
          if url_Scheme x = [] \<and> url_Host x = [] then
            (let old = (if oldpath = [] then ''/'' else oldpath);
                 u1 = (if has_prefix u ''/'' then u else path_dir old @ u);
                 (p, q) = (case index_byte u1 (CHR ''?'') of None \<Rightarrow> (u1, []) | Some i \<Rightarrow> (take i u1, drop i u1));
                 c = path_Clean p in
             (if has_suffix p ''/'' \<and> \<not> has_suffix c ''/'' then c @ ''/'' else c) @ q)
          else u)"

definition hex_lower :: "nat \<Rightarrow> char" where
  "hex_lower n = ''0123456789abcdef'' ! (n mod 16)"

definition hexEscapeNonASCII :: "string \<Rightarrow> string" where
  "hexEscapeNonASCII s =
     concat (map (\<lambda>c. if 128 \<le> byte c then [CHR ''%'', hex_lower (byte c div 16), hex_lower (byte c)] else [c]) s)"

definition htmlEscape :: "string \<Rightarrow> string" where
  "htmlEscape s = concat (map (\<lambda>c.
     if c = CHR ''&'' then ''&amp;'' else if c = CHR ''<'' then ''&lt;'' else if c = CHR ''>'' then ''&gt;''
     else if c = CHR 0x22 then ''&#34;'' else if c = CHR 0x27 then ''&#39;'' else [c]) s)"

definition StatusText :: "int \<Rightarrow> string" where
  "StatusText code = (if code = 302 then ''Found'' else [])"

definition http_Redirect :: "request \<Rightarrow> string \<Rightarrow> int \<Rightarrow> rw \<Rightarrow> rw" where
  "http_Redirect r u code W =
     (let u1 = redirect_target (rq_Path r) u;
          hadCT = rw_Header W ''Content-Type'' \<noteq> None;
          W1 = set_header ''Location'' (hexEscapeNonASCII u1) W;
          W2 = (if \<not> hadCT \<and> (rq_Method r = ''GET'' \<or> rq_Method r = ''HEAD'')
                then set_header ''Content-Type'' ''text/html; charset=utf-8'' W1 else W1);
          W3 = WriteHeader code W2 in
      if \<not> hadCT \<and> rq_Method r = ''GET''
      then write_body (''<a href='' @ [CHR 0x22] @ htmlEscape u1 @ [CHR 0x22, CHR ''>''] @ StatusText code @ ''</a>.'' @
             [CHR 0x0A, CHR 0x0A]) W3
      else W3)"

subsection \<open>Facts\<close>

lemma send_header_simps [simp]:
  "rw_Header (send_header code W) = rw_Header W"
  "rw_Body (send_header code W) = rw_Body W"
  "rw_Status (send_header code W) = rw_Status W"
  "rw_Sent (send_header code W) = Some (case rw_Sent W of None \<Rightarrow> (code, rw_Header W) | Some s \<Rightarrow> s)"
  by (auto simp: send_header_def split: option.splits)

lemma WriteHeader_simps [simp]:
  "rw_Header (WriteHeader code W) = rw_Header W"
  "rw_Body (WriteHeader code W) = rw_Body W"
  "rw_Status (WriteHeader code W) = code"
  "rw_Sent (WriteHeader code W) = Some (case rw_Sent W of None \<Rightarrow> (code, rw_Header W) | Some s \<Rightarrow> s)"
  by (simp_all add: WriteHeader_def)

lemma write_body_simps [simp]:
  "rw_Header (write_body bs W) = rw_Header W"
  "rw_Status (write_body bs W) = rw_Status W"
  "rw_Sent (write_body bs W) = Some (case rw_Sent W of None \<Rightarrow> (200, rw_Header W) | Some s \<Rightarrow> s)"
  "rw_Body (write_body bs W) = rw_Body W @ (if body_allowed (status_of W) then bs else [])"
  by (cases "rw_Sent W"; force simp: write_body_def Let_def status_of_def body_allowed_def)+

lemma set_header_simps [simp]:
  "rw_Header (set_header k v W) = (rw_Header W)(canonical_key k \<mapsto> v)"
  "rw_Body (set_header k v W) = rw_Body W"
  "rw_Status (set_header k v W) = rw_Status W"
  "rw_Sent (set_header k v W) = rw_Sent W"
  by (simp_all add: set_header_def header_Set_def)

text \<open>The target of a redirect to an absolute URL is that URL.\<close>

lemma redirect_target_absolute:
  "url_Parse u = Some x \<Longrightarrow> url_Scheme x \<noteq> [] \<or> url_Host x \<noteq> [] \<Longrightarrow> redirect_target p u = u"
  by (auto simp: redirect_target_def)

lemma hexEscapeNonASCII_ascii: "list_all (\<lambda>c. byte c < 128) s \<Longrightarrow> hexEscapeNonASCII s = s"
  by (induction s) (auto simp: hexEscapeNonASCII_def)

lemma hexEscapeNonASCII_is_ascii: "c \<in> set (hexEscapeNonASCII s) \<Longrightarrow> byte c < 128"
proof -
  have "byte (hex_lower n) < 128" for n
  proof -
    have "\<forall>i < 16. byte (''0123456789abcdef'' ! i) < 128"
      by (simp add: byte_def numeral_eq_Suc All_less_Suc)
    then show ?thesis by (simp add: hex_lower_def)
  qed
  then show "c \<in> set (hexEscapeNonASCII s) \<Longrightarrow> byte c < 128"
    by (auto simp: hexEscapeNonASCII_def byte_def split: if_splits)
qed

end
