(* ===== verification/Response.thy ===== *)
theory Response
  imports GoHttp GoTime
begin

text \<open>
  \<open>internal/http/response/response.go\<close>: how the API writes JSON. An encoding error leaves the body
  empty, since the encoder writes a whole value or nothing; it is logged, which is not modelled.
\<close>

subsection \<open>Writing\<close>

definition response_JSON :: "int \<Rightarrow> jout option \<Rightarrow> rw \<Rightarrow> rw" where
  "response_JSON status v W =
     (let W1 = WriteHeader status (set_header ''Content-Type'' ''application/json'' W) in
      case v of
        None \<Rightarrow> W1
      | Some v \<Rightarrow> (case json_encode_line v of None \<Rightarrow> W1 | Some t \<Rightarrow> write_body t W1))"

definition error_json :: "string \<Rightarrow> string \<Rightarrow> jout" where
  "error_json code message = OObj [(''error'', OObj [(''code'', OStr code), (''message'', OStr message)])]"

definition response_Error :: "int \<Rightarrow> string \<Rightarrow> string \<Rightarrow> rw \<Rightarrow> rw" where
  "response_Error status code message W = response_JSON status (Some (error_json code message)) W"

text \<open>
  \<open>time.Time.MarshalJSON\<close> in UTC: an error outside the years 0 to 9999, which is an unencodable
  value here.
\<close>

definition time_json :: "instant \<Rightarrow> jout" where
  "time_json t = (if year4 t then OStr (time_Format t) else ORaw '' '')"

definition string_ptr_json :: "string option \<Rightarrow> jout" where
  "string_ptr_json s = (case s of None \<Rightarrow> ONull | Some s \<Rightarrow> OStr s)"

subsection \<open>What a client reads\<close>

definition fresh :: "rw \<Rightarrow> bool" where
  "fresh W \<longleftrightarrow> rw_Sent W = None \<and> rw_Body W = []"

lemma fresh_new [simp]: "fresh new_rw"
  by (simp add: fresh_def new_rw_def)

lemma fresh_set_header [simp]: "fresh (set_header k v W) \<longleftrightarrow> fresh W"
  by (simp add: fresh_def)

lemma canonical_content_type [simp]: "canonical_key ''Content-Type'' = ''Content-Type''"
  by code_simp

text \<open>
  \<open>answers W status v\<close>: the response has the status, is JSON, and its body reads as \<open>v\<close>.
\<close>

definition answers :: "rw \<Rightarrow> int \<Rightarrow> json \<Rightarrow> bool" where
  "answers W status v \<longleftrightarrow> status_of W = status \<and> header_of W ''Content-Type'' = Some ''application/json'' \<and>
     json_unmarshal (rw_Body W) = Some v"

lemma response_JSON_status:
  "fresh W \<Longrightarrow> status_of (response_JSON status v W) = status \<and>
   header_of (response_JSON status v W) ''Content-Type'' = Some ''application/json''"
  by (auto simp: response_JSON_def fresh_def status_of_def header_of_def Let_def split: option.splits)

lemma response_JSON_answers:
  assumes "fresh W" "body_allowed status" "text_value v" "json_depth v \<le> 10000"
  shows "answers (response_JSON status (Some v) W) status (json_of v)"
proof -
  from json_line_round_trip [OF assms(3,4)] obtain t where
    t: "json_encode_line v = Some t" "json_unmarshal t = Some (json_of v)" by blast
  then have "rw_Body (response_JSON status (Some v) W) = t"
    using assms(1,2) by (simp add: response_JSON_def fresh_def status_of_def)
  with t(2) response_JSON_status [OF assms(1), of status "Some v"] show ?thesis by (simp add: answers_def)
qed

lemma response_JSON_sent:
  "rw_Sent W = Some s \<Longrightarrow> rw_Sent (response_JSON status v W) = Some s"
  by (auto simp: response_JSON_def Let_def split: option.splits)

text \<open>The error of a response: its \<open>code\<close>.\<close>

definition error_code :: "json \<Rightarrow> string option" where
  "error_code v =
     (case v of
        JObj [(e, _, JObj [(c, _, JStr code), (m, _, JStr _)])] \<Rightarrow>
          if e = ''error'' \<and> c = ''code'' \<and> m = ''message'' then Some code else None
      | _ \<Rightarrow> None)"

text \<open>\<open>fails W status code\<close>: the response is the error envelope with this code.\<close>

definition fails :: "rw \<Rightarrow> int \<Rightarrow> string \<Rightarrow> bool" where
  "fails W status code \<longleftrightarrow> (\<exists>v. answers W status v \<and> error_code v = Some code)"

lemma ascii_utf8: "is_ascii s \<Longrightarrow> utf8_valid s"
proof (induction s)
  case Nil
  then show ?case by (simp add: utf8_valid.simps)
next
  case (Cons c s)
  then have "utf8_len (c # s) = 1" by (simp add: is_ascii_def utf8_len_def byte_at_def lead_len_def second_ok_ascii)
  with Cons show ?case by (simp add: utf8_valid.simps [of "c # s"] is_ascii_def)
qed

lemma response_Error_fails:
  assumes "fresh W" "body_allowed status" "is_ascii code" "is_ascii message"
  shows "fails (response_Error status code message W) status code"
proof -
  have "text_value (error_json code message)"
    using assms(3,4) ascii_utf8 by (simp add: error_json_def) (simp add: ascii_utf8 is_ascii_def byte_def)
  moreover have "json_depth (error_json code message) \<le> 10000" by (simp add: error_json_def)
  ultimately have "answers (response_Error status code message W) status (json_of (error_json code message))"
    unfolding response_Error_def using response_JSON_answers assms(1,2) by blast
  then show ?thesis unfolding fails_def by (auto simp: error_json_def error_code_def)
qed

lemma time_json_text: "year4 t \<Longrightarrow> text_value (time_json t) \<longleftrightarrow> utf8_valid (time_Format t)"
  by (simp add: time_json_def)

end
