(* ===== verification/Validator.thy ===== *)
theory Validator
  imports GoJson
begin

text \<open>
  \<open>github.com/go-playground/validator\<close>, which the handlers check their requests with. It is a library:
  whether a struct is valid is a parameter, a function of the tags and values of its fields, and the
  locale \<open>validator_laws\<close> states what its documentation says of the tags used here. What the tag
  \<open>email\<close> accepts is left open.
\<close>

datatype tag = Required | Omitempty | Oneof "string list" | MaxLen nat | MinLen nat | Email

text \<open>A string, a pointer to a string, and raw bytes, which are nil when empty.\<close>

datatype field = FString string | FStringPtr "string option" | FRaw string

type_synonym validator = "(tag list \<times> field) list \<Rightarrow> bool"

text \<open>\<open>utf8.RuneCountInString\<close>: a byte that begins no character counts as one.\<close>

function rune_count :: "string \<Rightarrow> nat" where
  "rune_count s = (if s = [] then 0 else Suc (rune_count (drop (max 1 (utf8_len s)) s)))"
  by pat_completeness auto
termination by (relation "measure length") (auto intro!: diff_less)

declare rune_count.simps [simp del]

lemma rune_count_Nil [simp]: "rune_count [] = 0"
  by (simp add: rune_count.simps)

lemma rune_count_pos: "rune_count s = 0 \<longleftrightarrow> s = []"
  by (simp add: rune_count.simps [of s])

lemma rune_count_le: "rune_count s \<le> length s"
proof (induction s rule: rune_count.induct)
  case (1 s)
  show ?case
  proof (cases "s = []")
    case False
    with 1 have "rune_count (drop (max 1 (utf8_len s)) s) \<le> length s - max 1 (utf8_len s)" by simp
    with False show ?thesis by (simp add: rune_count.simps [of s]) (cases s; simp)
  qed simp
qed

text \<open>A pointer that is set has a value, whatever it points to.\<close>

definition has_value :: "field \<Rightarrow> bool" where
  "has_value f =
     (case f of FString s \<Rightarrow> s \<noteq> [] | FStringPtr p \<Rightarrow> p \<noteq> None | FRaw b \<Rightarrow> b \<noteq> [])"

locale validator_laws =
  fixes V :: validator
  assumes fields: "V fs \<longleftrightarrow> list_all (\<lambda>f. V [f]) fs"
    and untagged: "V [([], f)]"
    and required: "V [(Required # ts, f)] \<longleftrightarrow> has_value f \<and> V [(ts, f)]"
    and omitempty: "V [(Omitempty # ts, f)] \<longleftrightarrow> \<not> has_value f \<or> V [(ts, f)]"
    and oneof: "V [(Oneof vs # ts, FString s)] \<longleftrightarrow> s \<in> set vs \<and> V [(ts, FString s)]"
    and max_len: "V [(MaxLen n # ts, FString s)] \<longleftrightarrow> rune_count s \<le> n \<and> V [(ts, FString s)]"
    and min_len: "V [(MinLen n # ts, FString s)] \<longleftrightarrow> n \<le> rune_count s \<and> V [(ts, FString s)]"
    and max_len_ptr: "V [(MaxLen n # ts, FStringPtr (Some s))] \<longleftrightarrow> rune_count s \<le> n \<and> V [(ts, FStringPtr (Some s))]"
    and min_len_ptr: "V [(MinLen n # ts, FStringPtr (Some s))] \<longleftrightarrow> n \<le> rune_count s \<and> V [(ts, FStringPtr (Some s))]"

subsection \<open>A sample validator\<close>

text \<open>One that takes for an email what has an at sign.\<close>

definition field_text :: "field \<Rightarrow> string" where
  "field_text f = (case f of FString s \<Rightarrow> s | FStringPtr p \<Rightarrow> (case p of None \<Rightarrow> [] | Some s \<Rightarrow> s) | FRaw b \<Rightarrow> b)"

fun tags_hold :: "tag list \<Rightarrow> field \<Rightarrow> bool" where
  "tags_hold [] f = True"
| "tags_hold (Required # ts) f = (has_value f \<and> tags_hold ts f)"
| "tags_hold (Omitempty # ts) f = (\<not> has_value f \<or> tags_hold ts f)"
| "tags_hold (Oneof vs # ts) f = (List.member vs (field_text f) \<and> tags_hold ts f)"
| "tags_hold (MaxLen n # ts) f = (rune_count (field_text f) \<le> n \<and> tags_hold ts f)"
| "tags_hold (MinLen n # ts) f = (n \<le> rune_count (field_text f) \<and> tags_hold ts f)"
| "tags_hold (Email # ts) f = (CHR 0x40 \<in> set (field_text f) \<and> tags_hold ts f)"

definition sample_validator :: validator where
  "sample_validator fs = list_all (\<lambda>(ts, f). tags_hold ts f) fs"

interpretation sample_validator: validator_laws sample_validator
  by unfold_locales (simp_all add: sample_validator_def field_text_def list_all_iff)

end
