(* ===== verification/Redis.thy ===== *)
theory Redis
  imports Prelude GoStrings
begin

text \<open>
  The Redis server as the program uses it through go-redis: \<open>GET\<close>, \<open>SET\<close> with an expiry, \<open>DEL\<close>,
  \<open>PING\<close>, and a pipeline of \<open>INCR\<close> and \<open>EXPIRE\<close>. The client is a parameter of the components
  (a record of operations on a state \<open>'r\<close>), and the locale \<open>redis_server\<close> states the documented
  behaviour they rely on: a key holds the value last set until its deadline passes or it is
  deleted, and a command that fails took effect or did not.

  The server \<open>mem_redis\<close> at the end implements this contract: a table of values with deadlines, a
  clock that moves with every command, and an outcome for every command.
\<close>

subsection \<open>Commands\<close>

datatype pipe_cmd = PipeIncr string | PipeExpire string duration

record 'r redis =
  rd_Get :: "string \<Rightarrow> 'r \<Rightarrow> (err + string) \<times> 'r"
  rd_Set :: "string \<Rightarrow> string \<Rightarrow> duration \<Rightarrow> 'r \<Rightarrow> err option \<times> 'r"
  rd_Del :: "string \<Rightarrow> 'r \<Rightarrow> err option \<times> 'r"
  rd_Exec :: "pipe_cmd list \<Rightarrow> 'r \<Rightarrow> (err + int list) \<times> 'r"
  rd_Ping :: "'r \<Rightarrow> err option \<times> 'r"

text \<open>The contents of a server: each key with its value and, if it expires, its deadline.\<close>

type_synonym kv = "string \<Rightarrow> (string \<times> instant option) option"

definition live :: "instant \<Rightarrow> kv \<Rightarrow> string \<Rightarrow> string option" where
  "live t m k =
     (case m k of
        Some (v, None) \<Rightarrow> Some v
      | Some (v, Some dl) \<Rightarrow> if t < dl then Some v else None
      | None \<Rightarrow> None)"

text \<open>
  \<open>INCR\<close> reads the number at a key (an absent key counts as 0) and keeps the deadline; on a value
  that is no number, or the largest one, it is an error. \<open>EXPIRE\<close> sets the deadline of a key that exists.
\<close>

definition incr_value :: "instant \<Rightarrow> kv \<Rightarrow> string \<Rightarrow> int option" where
  "incr_value t m k =
     (case live t m k of
        None \<Rightarrow> Some 1
      | Some v \<Rightarrow> (case atoi v of None \<Rightarrow> None | Some i \<Rightarrow> if i = 2 ^ 63 - 1 then None else Some (i + 1)))"

definition incr_entry :: "instant \<Rightarrow> kv \<Rightarrow> string \<Rightarrow> kv" where
  "incr_entry t m k =
     (case incr_value t m k of
        None \<Rightarrow> m
      | Some i \<Rightarrow> m(k \<mapsto> (itoa i, if live t m k = None then None else Option.bind (m k) snd)))"

definition expire_entry :: "instant \<Rightarrow> kv \<Rightarrow> string \<Rightarrow> duration \<Rightarrow> kv" where
  "expire_entry t m k d = (case live t m k of None \<Rightarrow> m | Some v \<Rightarrow> m(k \<mapsto> (v, Some (t + d))))"

text \<open>The two commands of the rate limiter, one after the other on the same key.\<close>

definition incr_expire :: "instant \<Rightarrow> kv \<Rightarrow> string \<Rightarrow> duration \<Rightarrow> kv" where
  "incr_expire t m k d = expire_entry t (incr_entry t m k) k d"

subsection \<open>The contract\<close>

text \<open>
  \<open>data\<close> is the contents of a state and \<open>clock\<close> the server's time. A command executes at the
  time of the state after it. After an error other than \<open>redis.Nil\<close> a writing command may or may
  not have been executed.
\<close>

locale redis_server =
  fixes R :: "'r redis" and data :: "'r \<Rightarrow> kv" and clock :: "'r \<Rightarrow> instant"
  assumes get: "rd_Get R k s = (r, s') \<Longrightarrow>
      clock s \<le> clock s' \<and> data s' = data s \<and>
      (case r of Inr v \<Rightarrow> live (clock s') (data s) k = Some v
       | Inl e \<Rightarrow> errors_is e RedisNil \<longrightarrow> live (clock s') (data s) k = None)"
    and set: "rd_Set R k v d s = (x, s') \<Longrightarrow> 0 < d \<Longrightarrow>
      clock s \<le> clock s' \<and>
      (data s' = (data s)(k \<mapsto> (v, Some (clock s' + d))) \<or> x \<noteq> None \<and> data s' = data s)"
    and del: "rd_Del R k s = (x, s') \<Longrightarrow>
      clock s \<le> clock s' \<and> (data s' = (data s)(k := None) \<or> x \<noteq> None \<and> data s' = data s)"
    and exec: "rd_Exec R [PipeIncr k, PipeExpire k d] s = (q, s') \<Longrightarrow> 0 < d \<Longrightarrow>
      clock s \<le> clock s' \<and>
      (case q of
         Inr rs \<Rightarrow> data s' = incr_expire (clock s') (data s) k d \<and>
           (\<exists>i rest. incr_value (clock s') (data s) k = Some i \<and> rs = i # rest)
       | Inl e \<Rightarrow> data s' \<in> {data s, incr_entry (clock s') (data s) k, incr_expire (clock s') (data s) k d})"
    and ping: "rd_Ping R s = (x, s') \<Longrightarrow> clock s \<le> clock s' \<and> data s' = data s"
begin

text \<open>What a client can read at the server's present time.\<close>

definition readable :: "'r \<Rightarrow> string \<Rightarrow> string option" where
  "readable s = live (clock s) (data s)"

end

lemma live_later: "t \<le> t' \<Longrightarrow> live t' m \<subseteq>\<^sub>m live t m"
  by (auto simp: map_le_def live_def split: option.splits if_splits)

lemma live_upd: "live t (m(k \<mapsto> (v, Some dl))) = (if t < dl then (live t m)(k \<mapsto> v) else (live t m)(k := None))"
  by (auto simp: live_def fun_eq_iff)

lemma live_del: "live t (m(k := None)) = (live t m)(k := None)"
  by (auto simp: live_def fun_eq_iff)

context redis_server
begin

lemma get_readable:
  assumes "rd_Get R k s = (r, s')"
  shows "readable s' \<subseteq>\<^sub>m readable s" "r = Inr v \<Longrightarrow> readable s' k = Some v"
    "r = Inl e \<Longrightarrow> errors_is e RedisNil \<Longrightarrow> readable s' k = None"
  using get [OF assms] live_later [of "clock s" "clock s'" "data s"]
  by (auto simp: readable_def)

lemma set_readable:
  assumes "rd_Set R k v d s = (x, s')" "0 < d"
  shows "readable s' \<subseteq>\<^sub>m (readable s)(k \<mapsto> v) \<or> x \<noteq> None \<and> readable s' \<subseteq>\<^sub>m readable s"
proof -
  note law = set [OF assms]
  have "live (clock s') (data s) \<subseteq>\<^sub>m live (clock s) (data s)" using law by (intro live_later) simp
  then show ?thesis
    using law assms(2) map_le_upd [of "live (clock s') (data s)" "live (clock s) (data s)" k]
    by (auto simp: readable_def live_upd)
qed

lemma del_readable:
  assumes "rd_Del R k s = (x, s')"
  shows "readable s' \<subseteq>\<^sub>m readable s" "x = None \<Longrightarrow> readable s' k = None"
proof -
  note law = del [OF assms]
  have later: "live (clock s') (data s) \<subseteq>\<^sub>m live (clock s) (data s)" using law by (intro live_later) simp
  then have "(live (clock s') (data s))(k := None) \<subseteq>\<^sub>m live (clock s) (data s)"
    by (auto simp: map_le_def)
  with later law show "readable s' \<subseteq>\<^sub>m readable s" by (auto simp: readable_def live_del)
  show "x = None \<Longrightarrow> readable s' k = None" using law by (auto simp: readable_def live_del)
qed

text \<open>A command on one key leaves the others as they are, but for the passing of time.\<close>

lemma set_other:
  assumes "rd_Set R k v d s = (x, s')" "0 < d" "j \<noteq> k" "readable s' j = Some w"
  shows "readable s j = Some w"
  using set_readable [OF assms(1,2)] assms(3,4) by (auto dest: map_leD)

end

subsection \<open>A server\<close>

text \<open>
  \<open>mv_step\<close> is how far the clock moves before the command with a given number, \<open>mv_out\<close> the
  outcome of that command.
\<close>

datatype outcome = Executed | Unsent err | Unanswered err

record mem_env =
  mv_step :: "nat \<Rightarrow> nat"
  mv_out :: "nat \<Rightarrow> outcome"

record mem =
  mem_data :: kv
  mem_clock :: instant
  mem_tick :: nat

definition mem_run :: "mem_env \<Rightarrow> (instant \<Rightarrow> kv \<Rightarrow> (err + 'a) \<times> kv) \<Rightarrow> mem \<Rightarrow> (err + 'a) \<times> mem" where
  "mem_run V f s =
     (let n = mem_tick s; t = mem_clock s + int (mv_step V n);
          s1 = s\<lparr>mem_clock := t, mem_tick := Suc n\<rparr>; (r, m) = f t (mem_data s) in
      case mv_out V n of
        Executed \<Rightarrow> (r, s1\<lparr>mem_data := m\<rparr>)
      | Unsent e \<Rightarrow> (Inl e, s1)
      | Unanswered e \<Rightarrow> (Inl e, s1\<lparr>mem_data := m\<rparr>))"

definition mem_err :: "(err + unit) \<times> mem \<Rightarrow> err option \<times> mem" where
  "mem_err r = (case r of (Inl e, s) \<Rightarrow> (Some e, s) | (Inr _, s) \<Rightarrow> (None, s))"

fun mem_pipe :: "pipe_cmd list \<Rightarrow> instant \<Rightarrow> kv \<Rightarrow> (err + int list) \<times> kv" where
  "mem_pipe [] t m = (Inr [], m)"
| "mem_pipe (PipeIncr k # cs) t m =
     (case mem_pipe cs t (incr_entry t m k) of
        (r, m') \<Rightarrow> (case incr_value t m k of
           None \<Rightarrow> Inl (Err ''ERR value is not an integer or out of range'')
         | Some i \<Rightarrow> map_sum id ((#) i) r, m'))"
| "mem_pipe (PipeExpire k d # cs) t m =
     (case mem_pipe cs t (expire_entry t m k d) of
        (r, m') \<Rightarrow> (map_sum id ((#) (if live t m k = None then 0 else 1)) r, m'))"

definition mem_redis :: "mem_env \<Rightarrow> mem redis" where
  "mem_redis V = \<lparr>
     rd_Get = (\<lambda>k. mem_run V (\<lambda>t m.
       (case live t m k of None \<Rightarrow> Inl (Sentinel RedisNil) | Some v \<Rightarrow> Inr v, m))),
     rd_Set = (\<lambda>k v d s. mem_err (mem_run V (\<lambda>t m. (Inr (), m(k \<mapsto> (v, Some (t + d))))) s)),
     rd_Del = (\<lambda>k s. mem_err (mem_run V (\<lambda>t m. (Inr (), m(k := None))) s)),
     rd_Exec = (\<lambda>cs. mem_run V (mem_pipe cs)),
     rd_Ping = (\<lambda>s. mem_err (mem_run V (\<lambda>t m. (Inr (), m)) s))\<rparr>"

definition mem_ok :: "mem_env \<Rightarrow> bool" where
  "mem_ok V \<longleftrightarrow> (\<forall>n e. mv_out V n = Unsent e \<or> mv_out V n = Unanswered e \<longrightarrow> \<not> errors_is e RedisNil)"

lemmas mem_defs = mem_redis_def mem_run_def mem_err_def Let_def

lemma mem_redis_server:
  assumes "mem_ok V" shows "redis_server (mem_redis V) mem_data mem_clock"
proof
  fix k v d s r x q s'
  show "rd_Get (mem_redis V) k s = (r, s') \<Longrightarrow> mem_clock s \<le> mem_clock s' \<and> mem_data s' = mem_data s \<and>
      (case r of Inr v \<Rightarrow> live (mem_clock s') (mem_data s) k = Some v
       | Inl e \<Rightarrow> errors_is e RedisNil \<longrightarrow> live (mem_clock s') (mem_data s) k = None)"
    using assms by (auto simp: mem_defs mem_ok_def split: outcome.splits option.splits)
  show "rd_Set (mem_redis V) k v d s = (x, s') \<Longrightarrow> 0 < d \<Longrightarrow> mem_clock s \<le> mem_clock s' \<and>
      (mem_data s' = (mem_data s)(k \<mapsto> (v, Some (mem_clock s' + d))) \<or> x \<noteq> None \<and> mem_data s' = mem_data s)"
    by (auto simp: mem_defs split: outcome.splits)
  show "rd_Del (mem_redis V) k s = (x, s') \<Longrightarrow> mem_clock s \<le> mem_clock s' \<and>
      (mem_data s' = (mem_data s)(k := None) \<or> x \<noteq> None \<and> mem_data s' = mem_data s)"
    by (auto simp: mem_defs split: outcome.splits)
  show "rd_Exec (mem_redis V) [PipeIncr k, PipeExpire k d] s = (q, s') \<Longrightarrow> 0 < d \<Longrightarrow> mem_clock s \<le> mem_clock s' \<and>
      (case q of
         Inr rs \<Rightarrow> mem_data s' = incr_expire (mem_clock s') (mem_data s) k d \<and>
           (\<exists>i rest. incr_value (mem_clock s') (mem_data s) k = Some i \<and> rs = i # rest)
       | Inl e \<Rightarrow> mem_data s' \<in> {mem_data s, incr_entry (mem_clock s') (mem_data s) k,
           incr_expire (mem_clock s') (mem_data s) k d})"
    by (auto simp: mem_defs incr_expire_def split: outcome.splits option.splits)
  show "rd_Ping (mem_redis V) s = (x, s') \<Longrightarrow> mem_clock s \<le> mem_clock s' \<and> mem_data s' = mem_data s"
    by (auto simp: mem_defs split: outcome.splits)
qed

text \<open>A server whose commands all succeed, a nanosecond apart, and its empty state.\<close>

definition sample_mem_env :: mem_env where
  "sample_mem_env = \<lparr>mv_step = (\<lambda>_. 1), mv_out = (\<lambda>_. Executed)\<rparr>"

definition sample_mem :: mem where
  "sample_mem = \<lparr>mem_data = (\<lambda>_. None), mem_clock = 0, mem_tick = 0\<rparr>"

lemma sample_mem_ok: "mem_ok sample_mem_env"
  by (simp add: mem_ok_def sample_mem_env_def)

interpretation sample_redis: redis_server "mem_redis sample_mem_env" mem_data mem_clock
  by (rule mem_redis_server [OF sample_mem_ok])

end
