(* ===== verification/RateLimit.thy ===== *)
theory RateLimit
  imports Redis "HOL-Library.Signed_Division"
begin

text \<open>
  The fixed-window limiter of \<open>internal/ratelimit/ratelimit.go\<close>. A request counts in the Redis key of
  its client and its window; what \<open>l.now()\<close> returns is an argument. Division of Go integers
  truncates (\<open>sdiv\<close>).
\<close>

record 'r limiter =
  li_rdb :: "'r redis"
  li_limit :: int
  li_window :: duration

definition second :: duration where "second = 10 ^ 9"

definition minute :: duration where "minute = 60 * second"

definition limiter_Limit :: "'r limiter \<Rightarrow> int" where
  "limiter_Limit L = li_limit L"

definition window_secs :: "duration \<Rightarrow> int" where
  "window_secs window = (let s = window sdiv second in if s < 1 then 1 else s)"

text \<open>\<open>time.Time.Unix\<close>: whole seconds, rounded down.\<close>

definition unix :: "instant \<Rightarrow> int" where
  "unix t = t div second"

definition rate_key :: "string \<Rightarrow> int \<Rightarrow> string" where
  "rate_key key bucket = ''ratelimit:'' @ key @ '':'' @ itoa bucket"

definition limiter_Allow :: "'r limiter \<Rightarrow> instant \<Rightarrow> string \<Rightarrow> ('r, bool \<times> int \<times> duration) act" where
  "limiter_Allow L now key s =
     (let windowSecs = window_secs (li_window L);
          t = unix now;
          bucket = t sdiv windowSecs;
          redisKey = rate_key key bucket in
      case rd_Exec (li_rdb L) [PipeIncr redisKey, PipeExpire redisKey (li_window L)] s of
        (Inl e, s1) \<Rightarrow> (Inl (Wrap ''rate limit pipeline'' e), s1)
      | (Inr rs, s1) \<Rightarrow>
          (let count = hd rs;
               reset = ((bucket + 1) * windowSecs - t) * second;
               remaining = (let r = li_limit L - count in if r < 0 then 0 else r)
           in (Inr (count \<le> li_limit L, remaining, reset), s1)))"

subsection \<open>Keys\<close>

lemma itoa_no_colon: "CHR '':'' \<notin> set (itoa i)"
  by (auto simp: itoa_def is_digit_def byte_def dest: dec_nat_set)

lemma itoa_inject: "itoa i = itoa j \<longleftrightarrow> i = j"
proof
  have "hd (dec_nat n) \<noteq> CHR ''-''" for n
    using dec_nat_set [of "hd (dec_nat n)" n] by (auto simp: is_digit_def byte_def)
  then have "dec_nat n \<noteq> CHR ''-'' # t" for n t by (metis list.sel(1))
  then show "itoa i = itoa j \<Longrightarrow> i = j" by (auto simp: itoa_def split: if_splits dest: sym)
qed simp

lemma append_colon_inject:
  "CHR '':'' \<notin> set x \<Longrightarrow> CHR '':'' \<notin> set y \<Longrightarrow> s @ CHR '':'' # x = t @ CHR '':'' # y \<Longrightarrow> s = t \<and> x = y"
  by (auto simp: append_eq_append_conv2 Cons_eq_append_conv append_eq_Cons_conv)

text \<open>A client and a window have a counter of their own.\<close>

lemma rate_key_inject: "rate_key k b = rate_key k' b' \<longleftrightarrow> k = k' \<and> b = b'"
  using append_colon_inject [OF itoa_no_colon itoa_no_colon, of k b k' b'] itoa_inject
  by (auto simp: rate_key_def)

lemma window_secs_pos: "1 \<le> window_secs w"
  by (simp add: window_secs_def Let_def)

text \<open>The time until the window resets is at least a second and at most a window.\<close>

lemma reset_bounds:
  assumes "0 \<le> now" "limiter_Allow L now key s = (Inr (ok, remaining, reset), s')"
  shows "second \<le> reset" "reset \<le> window_secs (li_window L) * second"
proof -
  let ?w = "window_secs (li_window L)" and ?t = "unix now"
  have w: "0 < ?w" using window_secs_pos [of "li_window L"] by simp
  have t: "0 \<le> ?t" using assms(1) by (simp add: unix_def second_def)
  have b: "?t sdiv ?w = ?t div ?w" using w t by (cases "?t = 0") (simp_all add: signed_divide_int_def sgn_if)
  have reset: "reset = ((?t sdiv ?w + 1) * ?w - ?t) * second"
    using assms(2) by (auto simp: limiter_Allow_def Let_def split: prod.splits sum.splits)
  have "(?t div ?w + 1) * ?w - ?t = ?w - ?t mod ?w"
    using div_mult_mod_eq [of ?t ?w] by (simp add: algebra_simps)
  moreover have "0 \<le> ?t mod ?w" "?t mod ?w < ?w" using w by simp_all
  ultimately have "1 \<le> (?t sdiv ?w + 1) * ?w - ?t" "(?t sdiv ?w + 1) * ?w - ?t \<le> ?w" unfolding b by simp_all
  then show "second \<le> reset" "reset \<le> ?w * second" unfolding reset by (simp_all add: second_def)
qed

subsection \<open>Counting\<close>

text \<open>
  A burst: requests of one client, one after the other, at the given times; how many were allowed.
\<close>

fun burst :: "'r limiter \<Rightarrow> string \<Rightarrow> instant list \<Rightarrow> 'r \<Rightarrow> (err + bool \<times> int \<times> duration) list \<times> 'r" where
  "burst L key [] s = ([], s)"
| "burst L key (t # ts) s =
     (let (r, s1) = limiter_Allow L t key s; (rs, s2) = burst L key ts s1 in (r # rs, s2))"

definition allowed :: "(err + bool \<times> int \<times> duration) list \<Rightarrow> nat" where
  "allowed rs = length (filter (\<lambda>r. case r of Inr (ok, _) \<Rightarrow> ok | Inl _ \<Rightarrow> False) rs)"

lemma allowed_Nil [simp]: "allowed [] = 0"
  by (simp add: allowed_def)

lemma allowed_Cons: "allowed (r # rs) = (case r of Inr (ok, _) \<Rightarrow> if ok then 1 else 0 | Inl _ \<Rightarrow> 0) + allowed rs"
  by (auto simp: allowed_def split: sum.split prod.split)

text \<open>
  The counter of a key until a time: its value, and no deadline before that time.
\<close>

definition counter :: "instant \<Rightarrow> kv \<Rightarrow> string \<Rightarrow> int \<Rightarrow> bool" where
  "counter T m k n \<longleftrightarrow>
     (case m k of None \<Rightarrow> n = 0 | Some (v, dl) \<Rightarrow> v = itoa n \<and> 0 < n \<and> (\<forall>d. dl = Some d \<longrightarrow> T \<le> d))"

lemma counter_live: "counter T m k n \<Longrightarrow> t < T \<Longrightarrow> live t m k = (if n = 0 then None else Some (itoa n))"
  by (auto simp: counter_def live_def split: option.splits)

lemma counter_nonneg: "counter T m k n \<Longrightarrow> 0 \<le> n"
  by (auto simp: counter_def split: option.splits)

lemma counter_incr:
  assumes "counter T m k n" "t < T" "n < 2 ^ 63 - 1"
  shows "incr_value t m k = Some (n + 1)" "counter T (incr_entry t m k) k (n + 1)"
    "T \<le> t + d \<Longrightarrow> counter T (incr_expire t m k d) k (n + 1)"
proof -
  note live = counter_live [OF assms(1,2)] and n = counter_nonneg [OF assms(1)]
  show incr: "incr_value t m k = Some (n + 1)"
    using assms(3) n atoi_itoa [of n] by (simp add: incr_value_def live)
  show c: "counter T (incr_entry t m k) k (n + 1)"
    using assms(1) n by (auto simp: incr_entry_def incr live counter_def split: option.splits)
  show "counter T (incr_expire t m k d) k (n + 1)" if "T \<le> t + d"
    using that counter_live [OF c assms(2)] n by (simp add: incr_expire_def expire_entry_def counter_def)
qed

context redis_server
begin

lemma Allow_counter:
  assumes L: "li_rdb L = R" "0 < li_window L" and T: "T \<le> clock s + li_window L"
    and c: "counter T (data s) k n" "n < 2 ^ 63 - 1"
    and k: "k = rate_key key (unix now sdiv window_secs (li_window L))"
    and run: "limiter_Allow L now key s = (r, s')" and T': "clock s' < T"
  shows "clock s \<le> clock s' \<and>
    (case r of
       Inr (ok, remaining, reset) \<Rightarrow> counter T (data s') k (n + 1) \<and> ok = (n + 1 \<le> li_limit L) \<and>
         remaining = max 0 (li_limit L - (n + 1))
     | Inl e \<Rightarrow> counter T (data s') k n \<or> counter T (data s') k (n + 1))"
proof -
  let ?cmds = "[PipeIncr k, PipeExpire k (li_window L)]"
  obtain q s1 where q: "rd_Exec R ?cmds s = (q, s1)" by (rule prod.exhaust)
  have s1: "s1 = s'" using run q L(1) k by (auto simp: limiter_Allow_def Let_def split: sum.splits)
  note law = exec [OF q L(2)]
  then have mono: "clock s \<le> clock s'" using s1 by simp
  note incr = counter_incr [OF c(1) T' c(2)]
  have T2: "T \<le> clock s' + li_window L" using T mono by simp
  show ?thesis
  proof (cases q)
    case (Inl e)
    then have "\<exists>e. r = Inl e" using run q L(1) k by (auto simp: limiter_Allow_def Let_def)
    moreover have "data s' \<in> {data s, incr_entry (clock s') (data s) k, incr_expire (clock s') (data s) k (li_window L)}"
      using law Inl s1 by simp
    ultimately show ?thesis using mono c(1) incr(2) incr(3) [OF T2] by auto
  next
    case (Inr rs)
    with law s1 incr(1) obtain rest where "data s' = incr_expire (clock s') (data s) k (li_window L)" "rs = (n + 1) # rest"
      by auto
    moreover from this run q L(1) k Inr
    have "r = Inr (n + 1 \<le> li_limit L, max 0 (li_limit L - (n + 1)),
        ((unix now sdiv window_secs (li_window L) + 1) * window_secs (li_window L) - unix now) * second)"
      by (auto simp: limiter_Allow_def Let_def max_def)
    ultimately show ?thesis using mono incr(3) [OF T2] by simp
  qed
qed

lemma Allow_clock:
  "li_rdb L = R \<Longrightarrow> 0 < li_window L \<Longrightarrow> limiter_Allow L now key s = (r, s') \<Longrightarrow> clock s \<le> clock s'"
  using exec by (auto simp: limiter_Allow_def Let_def split: prod.splits sum.splits)

lemma burst_clock: "li_rdb L = R \<Longrightarrow> 0 < li_window L \<Longrightarrow> burst L key ts s = (rs, s') \<Longrightarrow> clock s \<le> clock s'"
proof (induction ts arbitrary: s rs)
  case (Cons t ts)
  obtain r s1 where a: "limiter_Allow L t key s = (r, s1)" by (rule prod.exhaust)
  obtain rs2 s2 where b: "burst L key ts s1 = (rs2, s2)" by (rule prod.exhaust)
  have "s2 = s'" using Cons.prems(3) a b by simp
  with Allow_clock [OF Cons.prems(1,2) a] Cons.IH [OF Cons.prems(1,2), of s1 rs2] b show ?case by simp
qed simp

text \<open>
  In one window a client gets at most the limit, whatever the outcome of the commands.
\<close>

lemma burst_bound:
  assumes L: "li_rdb L = R" "0 < li_window L"
  shows "T \<le> clock s + li_window L \<Longrightarrow> counter T (data s) k n \<Longrightarrow> n + int (length ts) < 2 ^ 63 \<Longrightarrow>
    (\<forall>t \<in> set ts. k = rate_key key (unix t sdiv window_secs (li_window L))) \<Longrightarrow>
    burst L key ts s = (rs, s') \<Longrightarrow> clock s' < T \<Longrightarrow> int (allowed rs) \<le> max 0 (li_limit L - n)"
proof (induction ts arbitrary: s n rs)
  case Nil
  then show ?case by simp
next
  case (Cons t ts)
  obtain r s1 where a: "limiter_Allow L t key s = (r, s1)" by (rule prod.exhaust)
  obtain rs2 s2 where b: "burst L key ts s1 = (rs2, s2)" by (rule prod.exhaust)
  have r: "rs = r # rs2" "s2 = s'" using Cons.prems(5) a b by simp_all
  note b' = b [unfolded r(2)]
  have "clock s1 \<le> clock s'" using burst_clock [OF L b'] .
  then have T1: "clock s1 < T" using Cons.prems(6) by simp
  have k: "k = rate_key key (unix t sdiv window_secs (li_window L))" using Cons.prems(4) by simp
  have n: "n < 2 ^ 63 - 1" using Cons.prems(3) by simp
  note step = Allow_counter [OF L Cons.prems(1,2) n k a T1]
  then have T2: "T \<le> clock s1 + li_window L" using Cons.prems(1) by simp
  have rest: "int (allowed rs2) \<le> max 0 (li_limit L - m)" if "counter T (data s1) k m" "m \<le> n + 1" for m
    using Cons.IH [OF T2 that(1) _ _ b'] that(2) Cons.prems(3,4,6) by simp
  show ?case
  proof (cases r)
    case (Inl e)
    with step rest [of n] rest [of "n + 1"] show ?thesis by (auto simp: r allowed_Cons)
  next
    case (Inr x)
    with step rest [of "n + 1"] show ?thesis by (cases x) (auto simp: r allowed_Cons)
  qed
qed

text \<open>If every command is answered, it gets the limit exactly (or all it asked for).\<close>

lemma burst_exact:
  assumes L: "li_rdb L = R" "0 < li_window L"
  shows "T \<le> clock s + li_window L \<Longrightarrow> counter T (data s) k n \<Longrightarrow> n + int (length ts) < 2 ^ 63 \<Longrightarrow>
    (\<forall>t \<in> set ts. k = rate_key key (unix t sdiv window_secs (li_window L))) \<Longrightarrow>
    burst L key ts s = (rs, s') \<Longrightarrow> clock s' < T \<Longrightarrow> list_all (\<lambda>r. case r of Inr _ \<Rightarrow> True | Inl _ \<Rightarrow> False) rs \<Longrightarrow>
    int (allowed rs) = min (int (length ts)) (max 0 (li_limit L - n))"
proof (induction ts arbitrary: s n rs)
  case Nil
  then show ?case by simp
next
  case (Cons t ts)
  obtain r s1 where a: "limiter_Allow L t key s = (r, s1)" by (rule prod.exhaust)
  obtain rs2 s2 where b: "burst L key ts s1 = (rs2, s2)" by (rule prod.exhaust)
  have r: "rs = r # rs2" "s2 = s'" using Cons.prems(5) a b by simp_all
  note b' = b [unfolded r(2)]
  have T1: "clock s1 < T" using burst_clock [OF L b'] Cons.prems(6) by simp
  have k: "k = rate_key key (unix t sdiv window_secs (li_window L))" using Cons.prems(4) by simp
  have n: "n < 2 ^ 63 - 1" using Cons.prems(3) by simp
  note step = Allow_counter [OF L Cons.prems(1,2) n k a T1]
  then have T2: "T \<le> clock s1 + li_window L" using Cons.prems(1) by simp
  obtain ok rem res where x: "r = Inr (ok, rem, res)" using Cons.prems(7) r by (auto split: sum.splits)
  with step have c: "counter T (data s1) k (n + 1)" "ok = (n + 1 \<le> li_limit L)" by simp_all
  have "int (allowed rs2) = min (int (length ts)) (max 0 (li_limit L - (n + 1)))"
    using Cons.IH [OF T2 c(1) _ _ b'] Cons.prems(3,4,6,7) r by simp
  then show ?case using c(2) x r by (auto simp: allowed_Cons)
qed

end

subsection \<open>Properties\<close>

text \<open>
  C38. The limiter is a limiter: of the requests that a client makes in one window, the first of
  which finds no counter, no more than the limit are allowed, whatever the commands answer; and if
  each of them is answered, the limit is used up exactly. The burst is shorter than the window on
  the server's clock, so that the counter, whose deadline every request renews, does not expire in it.
\<close>

theorem limiter_bound:
  assumes "redis_server R data clock" "li_rdb L = R" "0 < li_window L" "0 \<le> li_limit L"
    and "data s (rate_key key b) = None" "int (length ts) < 2 ^ 63"
    and "\<forall>t \<in> set ts. unix t sdiv window_secs (li_window L) = b"
    and "burst L key ts s = (rs, s')" "clock s' < clock s + li_window L"
  shows "int (allowed rs) \<le> li_limit L \<and>
    (list_all (\<lambda>r. case r of Inr _ \<Rightarrow> True | Inl _ \<Rightarrow> False) rs \<longrightarrow>
       int (allowed rs) = min (int (length ts)) (li_limit L))"
proof -
  have c: "counter (clock s + li_window L) (data s) (rate_key key b) 0" using assms(5) by (simp add: counter_def)
  have b: "\<forall>t \<in> set ts. rate_key key b = rate_key key (unix t sdiv window_secs (li_window L))" using assms(7) by simp
  note bound = redis_server.burst_bound [OF assms(1-3) order_refl c _ b assms(8,9)]
  note exact = redis_server.burst_exact [OF assms(1-3) order_refl c _ b assms(8,9)]
  show ?thesis using bound exact assms(4,6) by simp
qed

definition sample_limiter :: "mem limiter" where
  "sample_limiter = \<lparr>li_rdb = mem_redis sample_mem_env, li_limit = 2, li_window = minute\<rparr>"

lemma sample_times:
  "unix 0 = 0" "unix 1000000000 = 1" "unix 2000000000 = 2" "(0::int) sdiv 60 = 0" "(1::int) sdiv 60 = 0"
  "(2::int) sdiv 60 = 0" "window_secs minute = 60"
  by (simp_all add: unix_def second_def window_secs_def minute_def signed_divide_int_def Let_def)

lemma sample_burst:
  "burst sample_limiter ''1.2.3.4'' [0, 1000000000, 2000000000] sample_mem =
     ([Inr (True, 1, 60 * second), Inr (True, 0, 59 * second), Inr (False, 0, 58 * second)],
      \<lparr>mem_data = [rate_key ''1.2.3.4'' 0 \<mapsto> (itoa 3, Some (3 + minute))], mem_clock = 3, mem_tick = 3\<rparr>)"
  by (simp add: sample_limiter_def limiter_Allow_def Let_def sample_times mem_redis_def mem_run_def
      sample_mem_env_def sample_mem_def incr_value_def incr_entry_def expire_entry_def live_def atoi_itoa)
    (simp add: minute_def second_def)

theorem limiter_bound_witness:
  "fst (burst sample_limiter ''1.2.3.4'' [0, 1000000000, 2000000000] sample_mem) =
     [Inr (True, 1, 60 * second), Inr (True, 0, 59 * second), Inr (False, 0, 58 * second)] \<and>
   allowed (fst (burst sample_limiter ''1.2.3.4'' [0, 1000000000, 2000000000] sample_mem)) = 2"
proof -
  have L: "li_rdb sample_limiter = mem_redis sample_mem_env" "0 < li_window sample_limiter"
    "0 \<le> li_limit sample_limiter" "mem_data sample_mem (rate_key ''1.2.3.4'' 0) = None"
    by (simp_all add: sample_limiter_def minute_def second_def sample_mem_def)
  have now: "\<forall>t \<in> set [0, 1000000000, 2000000000]. unix t sdiv window_secs (li_window sample_limiter) = 0"
    by (simp add: sample_times sample_limiter_def)
  from limiter_bound [OF sample_redis.redis_server_axioms L _ now sample_burst]
  show ?thesis unfolding sample_burst by (simp add: sample_limiter_def sample_mem_def minute_def second_def)
qed

end
