(* ===== verification/Middleware.thy ===== *)
theory Middleware
  imports Response RateLimit
begin

text \<open>
  \<open>internal/http/middleware\<close>: authentication, rate limiting, request logging and panic recovery, each
  from the handler it wraps to a handler. What the log of requests does is a parameter; other log
  lines are left out.
\<close>

subsection \<open>The client's address\<close>

definition clientIP :: "request \<Rightarrow> string" where
  "clientIP r =
     (let xff = header_Get (rq_Header r) ''X-Forwarded-For'' in
      if xff \<noteq> [] then
        (case index_byte xff (CHR '','') of
           Some i \<Rightarrow> trim_space (take i xff)
         | None \<Rightarrow> trim_space xff)
      else (case SplitHostPort (rq_RemoteAddr r) of
          None \<Rightarrow> rq_RemoteAddr r
        | Some (host, _) \<Rightarrow> host))"

subsection \<open>Authentication\<close>

definition Auth :: "token_manager \<Rightarrow> ('w \<Rightarrow> instant) \<Rightarrow> 'w handler \<Rightarrow> 'w handler" where
  "Auth M now nxt r Ww =
     (case Ww of (W, w) \<Rightarrow>
        let header = header_Get (rq_Header r) ''Authorization'' in
        if header = [] then
          (Returned, response_Error 401 ''unauthorized'' ''missing authorization header'' W, w)
        else (case cut header (CHR '' '') of (scheme, token, found) \<Rightarrow>
          if \<not> found \<or> \<not> equal_fold_ascii scheme ''Bearer'' \<or> token = [] then
            (Returned, response_Error 401 ''unauthorized'' ''malformed authorization header'' W, w)
          else (case Verify M (now w) token of
              Inl _ \<Rightarrow> (Returned, response_Error 401 ''unauthorized'' ''invalid or expired token'' W, w)
            | Inr c \<Rightarrow>
                (case uuid_Parse (tm_uuid M) (cl_Subject c) of
                   Inl _ \<Rightarrow> (Returned, response_Error 401 ''unauthorized'' ''invalid subject claim'' W, w)
                 | Inr userID \<Rightarrow>
                     nxt (r\<lparr>rq_Context := WithIsGuest (cl_IsGuest c) (WithUserID userID (rq_Context r))\<rparr>) (W, w)))))"

subsection \<open>Rate limiting\<close>

record 'w rate_limiter =
  rl_Allow :: "string \<Rightarrow> ('w, bool \<times> int \<times> duration) act"
  rl_Limit :: int

text \<open>\<open>int(math.Ceil(d.Seconds()))\<close>, exact for windows of a minute, whose nanoseconds \<open>float64\<close> can tell apart.\<close>

definition ceil_seconds :: "duration \<Rightarrow> int" where
  "ceil_seconds d = - (- d div second)"

definition rate_limit_headers :: "int \<Rightarrow> int \<Rightarrow> rw \<Rightarrow> rw" where
  "rate_limit_headers limit remaining W =
     set_header ''X-RateLimit-Remaining'' (itoa remaining) (set_header ''X-RateLimit-Limit'' (itoa limit) W)"

definition retry_after :: "duration \<Rightarrow> int" where
  "retry_after reset = (let retry = ceil_seconds reset in if retry < 1 then 1 else retry)"

definition RateLimit_mw :: "'w rate_limiter \<Rightarrow> 'w handler \<Rightarrow> 'w handler" where
  "RateLimit_mw L nxt r Ww =
     (case Ww of (W, w) \<Rightarrow>
        (case rl_Allow L (clientIP r) w of
           (Inl e, w1) \<Rightarrow> nxt r (W, w1)
         | (Inr (ok, remaining, reset), w1) \<Rightarrow>
             (let W1 = rate_limit_headers (rl_Limit L) remaining W in
              if \<not> ok then
                (Returned, response_Error 429 ''rate_limited'' ''too many requests; slow down''
                   (set_header ''Retry-After'' (itoa (retry_after reset)) W1), w1)
              else nxt r (W1, w1))))"

subsection \<open>Logging and recovery\<close>

text \<open>The line of a request, without its duration.\<close>

record log_entry =
  lo_Method :: string
  lo_Path :: string
  lo_Status :: int
  lo_RemoteAddr :: string

definition Logger :: "(log_entry \<Rightarrow> 'w \<Rightarrow> 'w) \<Rightarrow> 'w handler \<Rightarrow> 'w handler" where
  "Logger log nxt r Ww =
     (case Ww of (W, w) \<Rightarrow>
        (case nxt r (W\<lparr>rw_Status := 200\<rparr>, w) of
           (Returned, W1, w1) \<Rightarrow>
             (Returned, W1, log \<lparr>lo_Method = rq_Method r, lo_Path = rq_Path r, lo_Status = rw_Status W1,
                lo_RemoteAddr = rq_RemoteAddr r\<rparr> w1)
         | (Panicked, W1, w1) \<Rightarrow> (Panicked, W1, w1)))"

definition Recover :: "'w handler \<Rightarrow> 'w handler" where
  "Recover nxt r Ww =
     (case nxt r Ww of
        (Returned, W1, w1) \<Rightarrow> (Returned, W1, w1)
      | (Panicked, W1, w1) \<Rightarrow>
          (Returned, response_Error 500 ''internal_error'' ''internal server error'' W1, w1))"

subsection \<open>Who passes\<close>

text \<open>
  \<open>bearer M now r\<close>: the user and guest flag that the bearer token of the request stands for, if it
  has a valid one.
\<close>

definition bearer :: "token_manager \<Rightarrow> instant \<Rightarrow> request \<Rightarrow> (uuid \<times> bool) option" where
  "bearer M now r =
     (case cut (header_Get (rq_Header r) ''Authorization'') (CHR '' '') of (scheme, token, found) \<Rightarrow>
        if found \<and> equal_fold_ascii scheme ''Bearer'' \<and> token \<noteq> [] then
          (case Verify M now token of
             Inl _ \<Rightarrow> None
           | Inr c \<Rightarrow>
               (case uuid_Parse (tm_uuid M) (cl_Subject c) of Inl _ \<Rightarrow> None | Inr u \<Rightarrow> Some (u, cl_IsGuest c)))
        else None)"

lemma unauthorized_texts:
  "is_ascii ''unauthorized''" "is_ascii ''missing authorization header''" "is_ascii ''malformed authorization header''"
  "is_ascii ''invalid or expired token''" "is_ascii ''invalid subject claim''" "body_allowed 401"
  by (simp_all add: is_ascii_def byte_def body_allowed_def)

text \<open>Without a valid token the answer is 401 and nothing else happens.\<close>

lemma Auth_refuses:
  assumes "bearer M (now w) r = None" "fresh W"
  shows "\<exists>W'. Auth M now nxt r (W, w) = (Returned, W', w) \<and> fails W' 401 ''unauthorized''"
proof -
  have e: "fails (response_Error 401 ''unauthorized'' m W) 401 ''unauthorized''" if "is_ascii m" for m
    using response_Error_fails [OF assms(2) unauthorized_texts(6,1) that] .
  show ?thesis
  proof (cases "header_Get (rq_Header r) ''Authorization'' = []")
    case True
    then show ?thesis using e [OF unauthorized_texts(2)] by (simp add: Auth_def)
  next
    case header: False
    obtain scheme token found where c: "cut (header_Get (rq_Header r) ''Authorization'') (CHR '' '') = (scheme, token, found)"
      by (rule prod_cases3)
    show ?thesis
    proof (cases "found \<and> equal_fold_ascii scheme ''Bearer'' \<and> token \<noteq> []")
      case False
      with header c have "Auth M now nxt r (W, w) =
          (Returned, response_Error 401 ''unauthorized'' ''malformed authorization header'' W, w)"
        unfolding Auth_def Let_def prod.case by (simp only: if_False c prod.case) auto
      then show ?thesis using e [OF unauthorized_texts(3)] by simp
    next
      case True
      then show ?thesis
        using assms(1) header c e [OF unauthorized_texts(4)] e [OF unauthorized_texts(5)]
        by (auto simp: Auth_def bearer_def split: sum.splits)
    qed
  qed
qed

lemma Auth_passes:
  assumes "bearer M (now w) r = Some (u, g)"
  shows "Auth M now nxt r (W, w) = nxt (r\<lparr>rq_Context := WithIsGuest g (WithUserID u (rq_Context r))\<rparr>) (W, w)"
proof -
  have "header_Get (rq_Header r) ''Authorization'' \<noteq> []"
  proof
    assume "header_Get (rq_Header r) ''Authorization'' = []"
    with assms show False by (simp add: bearer_def cut_def)
  qed
  with assms show ?thesis by (auto simp: Auth_def bearer_def Let_def split: prod.splits if_splits sum.splits)
qed

text \<open>Rate limiting fails open, and a client that is turned away learns when to come back.\<close>

lemma RateLimit_fails_open:
  "rl_Allow L (clientIP r) w = (Inl e, w1) \<Longrightarrow> RateLimit_mw L nxt r (W, w) = nxt r (W, w1)"
  by (simp add: RateLimit_mw_def)

lemma RateLimit_lets_pass:
  "rl_Allow L (clientIP r) w = (Inr (True, remaining, reset), w1) \<Longrightarrow>
   RateLimit_mw L nxt r (W, w) = nxt r (rate_limit_headers (rl_Limit L) remaining W, w1)"
  by (simp add: RateLimit_mw_def Let_def)

lemma RateLimit_turns_away:
  assumes "rl_Allow L (clientIP r) w = (Inr (False, remaining, reset), w1)" "fresh W"
  shows "\<exists>W'. RateLimit_mw L nxt r (W, w) = (Returned, W', w1) \<and> fails W' 429 ''rate_limited'' \<and>
    header_of W' ''Retry-After'' = Some (itoa (retry_after reset))"
proof -
  let ?W = "set_header ''Retry-After'' (itoa (retry_after reset)) (rate_limit_headers (rl_Limit L) remaining W)"
  let ?W' = "response_Error 429 ''rate_limited'' ''too many requests; slow down'' ?W"
  have "fresh ?W" using assms(2) by (simp add: rate_limit_headers_def)
  moreover have "body_allowed 429" "is_ascii ''rate_limited''" "is_ascii ''too many requests; slow down''"
    by (simp_all add: is_ascii_def byte_def body_allowed_def)
  ultimately have "fails ?W' 429 ''rate_limited''" by (intro response_Error_fails)
  moreover have "canonical_key ''Retry-After'' = ''Retry-After''" by code_simp
  then have "header_of ?W' ''Retry-After'' = Some (itoa (retry_after reset))"
    using \<open>fresh ?W\<close>
    by (auto simp: response_Error_def response_JSON_def header_of_def fresh_def Let_def split: option.splits)
  moreover have "RateLimit_mw L nxt r (W, w) = (Returned, ?W', w1)"
    using assms(1) by (simp add: RateLimit_mw_def Let_def)
  ultimately show ?thesis by blast
qed

lemma ceil_seconds_bounds: "d \<le> ceil_seconds d * second \<and> ceil_seconds d * second < d + second"
proof -
  have "- d div second * second \<le> - d" "- d < - d div second * second + second"
    by (simp_all add: second_def)
  then show ?thesis by (simp add: ceil_seconds_def)
qed

lemma Recover_returns: "fst (Recover nxt r Ww) = Returned"
  by (cases "nxt r Ww" rule: prod_cases3; cases "fst (nxt r Ww)") (simp_all add: Recover_def)

lemma Recover_panic:
  assumes "nxt r Ww = (Panicked, W1, w1)" "fresh W1"
  shows "\<exists>W'. Recover nxt r Ww = (Returned, W', w1) \<and> fails W' 500 ''internal_error''"
proof -
  have "body_allowed 500" "is_ascii ''internal_error''" "is_ascii ''internal server error''"
    by (simp_all add: is_ascii_def byte_def body_allowed_def)
  with assms response_Error_fails [OF assms(2)] show ?thesis by (auto simp: Recover_def)
qed

end
