(* ===== verification/CodesModel.thy ===== *)
theory CodesModel
  imports GoJson
begin

text \<open>
  The data of the package \<open>codes\<close> (\<open>internal/codes/model.go\<close>) and the slug generator
  (\<open>internal/codes/slug.go\<close>). The bytes that \<open>crypto/rand\<close> delivers are an argument: the reader
  either fails or fills the buffer.
\<close>

subsection \<open>Model types\<close>

text \<open>\<open>CodeType\<close> is a string type with six constants.\<close>

definition TypeURL :: string where "TypeURL = ''url''"

definition code_types :: "string list" where
  "code_types = [''url'', ''wifi'', ''vcard'', ''email'', ''text'', ''sms'']"

record dynamic_code =
  dyn_CodeID :: uuid
  dyn_Slug :: string
  dyn_Destination :: string
  dyn_UpdatedAt :: instant

record code =
  code_ID :: uuid
  code_UserID :: uuid
  code_Type :: string
  code_Payload :: string
  code_IsDynamic :: bool
  code_Label :: "string option"
  code_CreatedAt :: instant
  code_UpdatedAt :: instant
  code_Dynamic :: "dynamic_code option"

record scan_event =
  scan_ID :: uuid
  scan_Slug :: string
  scan_IPHash :: "string option"
  scan_UserAgent :: "string option"
  scan_ScannedAt :: instant

record day_count =
  dc_Date :: string
  dc_Count :: nat

record user_agent_count =
  uac_UserAgent :: string
  uac_Count :: nat

record analytics =
  an_CodeID :: uuid
  an_TotalScans :: nat
  an_UniqueVisitors :: nat
  an_Daily :: "day_count list"
  an_TopUserAgents :: "user_agent_count list"

text \<open>
  \<open>bytes.TrimSpace\<close> agrees with \<open>strings.TrimSpace\<close>; unmarshalling into a map of raw messages
  succeeds on every object.
\<close>

definition IsJSONObject :: "string \<Rightarrow> bool" where
  "IsJSONObject b =
     (let t = trim_space b in
      if t = [] \<or> hd t \<noteq> CHR 0x7B then False
      else (case json_unmarshal t of Some (JObj _) \<Rightarrow> True | _ \<Rightarrow> False))"

subsection \<open>Slugs\<close>

definition slugAlphabet :: string where
  "slugAlphabet = ''0123456789ABCDEFGHIJKLMNOPQRSTUVWXYZabcdefghijklmnopqrstuvwxyz''"

definition SlugLength :: nat where
  "SlugLength = 8"

definition slug_symbol :: "char \<Rightarrow> char" where
  "slug_symbol b = slugAlphabet ! (byte b mod length slugAlphabet)"

text \<open>
  \<open>rand.Read\<close> writes into a buffer that the caller made, which keeps its length: \<open>fill buf bs\<close> is the
  buffer after the bytes \<open>bs\<close> were written into it from its start.
\<close>

definition fill :: "string \<Rightarrow> string \<Rightarrow> string" where
  "fill buf bs = take (length buf) bs @ drop (length bs) buf"

lemma fill_length [simp]: "length (fill buf bs) = length buf"
  by (simp add: fill_def)

lemma fill_whole: "length bs = length buf \<Longrightarrow> fill buf bs = bs"
  by (simp add: fill_def)

text \<open>\<open>rnd n\<close> is what \<open>rand.Read\<close> does with a buffer of length \<open>n\<close>: an error, or the bytes it writes.\<close>

definition GenerateSlug :: "(nat \<Rightarrow> err + string) \<Rightarrow> err + string" where
  "GenerateSlug rnd =
     (let buf = replicate SlugLength (CHR 0x00) in
      case rnd (length buf) of
        Inl e \<Rightarrow> Inl (Wrap ''reading random bytes'' e)
      | Inr bs \<Rightarrow> Inr (map slug_symbol (fill buf bs)))"

lemma length_slugAlphabet [simp]: "length slugAlphabet = 62"
  by (simp add: slugAlphabet_def)

lemma distinct_slugAlphabet: "distinct slugAlphabet"
  by (simp add: slugAlphabet_def)

lemma slug_symbol_in: "slug_symbol b \<in> set slugAlphabet"
  by (simp add: slug_symbol_def)

lemma slugAlphabet_nth_inject:
  "i < 62 \<Longrightarrow> j < 62 \<Longrightarrow> slugAlphabet ! i = slugAlphabet ! j \<longleftrightarrow> i = j"
  using distinct_slugAlphabet by (simp add: nth_eq_iff_index_eq)

lemma slug_symbol_eq_nth: "i < 62 \<Longrightarrow> slug_symbol b = slugAlphabet ! i \<longleftrightarrow> byte b mod 62 = i"
  by (simp add: slug_symbol_def slugAlphabet_nth_inject)

text \<open>
  No byte of a slug is special in a URL path segment or in a cache key: letters and digits only.
\<close>

lemma slugAlphabet_alnum:
  "c \<in> set slugAlphabet \<Longrightarrow>
   is_digit c \<or> 65 \<le> byte c \<and> byte c \<le> 90 \<or> 97 \<le> byte c \<and> byte c \<le> 122"
  by (auto simp: slugAlphabet_def is_digit_def byte_def)

end
