(* ===== verification/RedirectCache.thy ===== *)
theory RedirectCache
  imports Redis GoJsonEncode CodesModel
begin

text \<open>
  The redirect cache of \<open>internal/codes/redirect.go\<close>: the interface \<open>Cache\<close> as a record of
  operations with its contract (locale \<open>redirect_cache\<close>), and its implementation \<open>RedisCache\<close>, which
  keeps the JSON form of a target under the key \<open>redirect:<slug>\<close> for an hour. Under the contract of
  a Redis server the implementation meets the contract of the interface (\<open>sublocale\<close>).
\<close>

subsection \<open>The interface\<close>

record cached_target =
  ct_Destination :: string
  ct_CodeID :: string

text \<open>\<open>Lookup\<close> returns a target for a hit and nothing for a miss.\<close>

record 'w cache =
  ca_Lookup :: "string \<Rightarrow> ('w, cached_target option) act"
  ca_Store :: "string \<Rightarrow> cached_target \<Rightarrow> 'w eact"
  ca_Invalidate :: "string \<Rightarrow> 'w eact"

definition target_text :: "cached_target \<Rightarrow> bool" where
  "target_text t \<longleftrightarrow> utf8_valid (ct_Destination t) \<and> utf8_valid (ct_CodeID t)"

text \<open>
  The contract: \<open>targets\<close> is what a state of the cache can answer. Entries may vanish at any time; a
  lookup answers from the entries, a store adds one at most, a successful invalidation leaves
  none for its slug.
\<close>

locale redirect_cache =
  fixes C :: "'w cache" and targets :: "'w \<Rightarrow> string \<Rightarrow> cached_target option"
  assumes lookup: "ca_Lookup C slug w = (r, w') \<Longrightarrow>
      targets w' \<subseteq>\<^sub>m targets w \<and> (\<forall>t. r = Inr (Some t) \<longrightarrow> targets w slug = Some t)"
    and store: "ca_Store C slug t w = (x, w') \<Longrightarrow> target_text t \<Longrightarrow>
      targets w' \<subseteq>\<^sub>m (targets w)(slug \<mapsto> t) \<or> targets w' \<subseteq>\<^sub>m targets w"
    and invalidate: "ca_Invalidate C slug w = (x, w') \<Longrightarrow>
      targets w' \<subseteq>\<^sub>m targets w \<and> (x = None \<longrightarrow> targets w' slug = None)"
begin

lemma lookup_hit: "ca_Lookup C slug w = (Inr (Some t), w') \<Longrightarrow> targets w slug = Some t"
  using lookup by blast

lemma invalidated: "ca_Invalidate C slug w = (None, w') \<Longrightarrow> targets w' \<subseteq>\<^sub>m (targets w)(slug := None)"
  using invalidate [of slug w None w'] by (auto simp: map_le_def)

end

subsection \<open>The Redis implementation\<close>

definition redirectKeyPrefix :: string where "redirectKeyPrefix = ''redirect:''"

definition hour :: duration where "hour = 3600 * 10 ^ 9"

definition redirectTTL :: duration where "redirectTTL = hour"

definition redirectKey :: "string \<Rightarrow> string" where
  "redirectKey slug = redirectKeyPrefix @ slug"

definition target_json :: "cached_target \<Rightarrow> jout" where
  "target_json t = OObj [(''destination'', OStr (ct_Destination t)), (''code_id'', OStr (ct_CodeID t))]"

text \<open>\<open>json.Unmarshal\<close> into a fresh \<open>CachedTarget\<close>.\<close>

definition target_of_json :: "string \<Rightarrow> cached_target option" where
  "target_of_json s =
     Option.bind (json_unmarshal s) (\<lambda>v.
     Option.bind (struct_of [''destination'', ''code_id''] v) (\<lambda>ms.
     Option.bind (string_field ''destination'' ms []) (\<lambda>d.
     map_option (\<lambda>c. \<lparr>ct_Destination = d, ct_CodeID = c\<rparr>) (string_field ''code_id'' ms []))))"

definition cache_Lookup :: "'r redis \<Rightarrow> string \<Rightarrow> ('r, cached_target option) act" where
  "cache_Lookup R slug s =
     (case rd_Get R (redirectKey slug) s of
        (Inl e, s1) \<Rightarrow>
          (if errors_is e RedisNil then Inr None else Inl (Wrap ''redis get'' e), s1)
      | (Inr val, s1) \<Rightarrow>
          (case target_of_json val of
             None \<Rightarrow> (Inl (Wrap ''decoding cached target'' (Err ''json'')), s1)
           | Some t \<Rightarrow> (Inr (Some t), s1)))"

definition cache_Store :: "'r redis \<Rightarrow> string \<Rightarrow> cached_target \<Rightarrow> 'r eact" where
  "cache_Store R slug t s =
     (case json_encode (target_json t) of
        None \<Rightarrow> (Some (Wrap ''encoding cached target'' (Err ''json'')), s)
      | Some b \<Rightarrow>
          (case rd_Set R (redirectKey slug) b redirectTTL s of
             (Some e, s1) \<Rightarrow> (Some (Wrap ''redis set'' e), s1)
           | (None, s1) \<Rightarrow> (None, s1)))"

definition cache_Invalidate :: "'r redis \<Rightarrow> string \<Rightarrow> 'r eact" where
  "cache_Invalidate R slug s =
     (case rd_Del R (redirectKey slug) s of
        (Some e, s1) \<Rightarrow> (Some (Wrap ''redis del'' e), s1)
      | (None, s1) \<Rightarrow> (None, s1))"

definition redis_cache :: "'r redis \<Rightarrow> 'r cache" where
  "redis_cache R = \<lparr>ca_Lookup = cache_Lookup R, ca_Store = cache_Store R, ca_Invalidate = cache_Invalidate R\<rparr>"

subsection \<open>The implementation meets the contract\<close>

lemma target_round_trip:
  assumes "target_text t"
  shows "\<exists>b. json_encode (target_json t) = Some b \<and> target_of_json b = Some t"
proof -
  have v: "text_value (target_json t)" "json_depth (target_json t) \<le> 10000"
    using assms by (simp_all add: target_json_def target_text_def utf8_valid.simps utf8_len_def
        byte_at_def lead_len_def second_ok_def cont_byte_def byte_def)
  obtain b where b: "json_encode (target_json t) = Some b" "json_unmarshal b = Some (json_of (target_json t))"
    using json_round_trip [OF v] by blast
  moreover have "target_of_json b = Some t" unfolding target_of_json_def b(2)
    by (simp add: target_json_def struct_of_def struct_members_def field_for_def map_filter_simps)
  ultimately show ?thesis by blast
qed

lemma redirectKey_inject [simp]: "redirectKey s = redirectKey t \<longleftrightarrow> s = t"
  by (simp add: redirectKey_def)

lemma redirectTTL_pos: "0 < redirectTTL"
  by (simp add: redirectTTL_def hour_def)

context redis_server
begin

definition cached :: "'r \<Rightarrow> string \<Rightarrow> cached_target option" where
  "cached s slug = Option.bind (readable s (redirectKey slug)) target_of_json"

lemma cached_mono: "readable s' \<subseteq>\<^sub>m readable s \<Longrightarrow> cached s' \<subseteq>\<^sub>m cached s"
  by (auto simp: map_le_def cached_def dom_def bind_eq_Some_conv)

lemma cached_upd:
  assumes "readable s' \<subseteq>\<^sub>m (readable s)(redirectKey slug \<mapsto> b)" "target_of_json b = Some t"
  shows "cached s' \<subseteq>\<^sub>m (cached s)(slug \<mapsto> t)"
proof (rule map_leI)
  fix k u assume u: "cached s' k = Some u"
  then obtain v where v: "readable s' (redirectKey k) = Some v" by (auto simp: cached_def bind_eq_Some_conv)
  from map_leD [OF assms(1) v] u v assms(2) show "((cached s)(slug \<mapsto> t)) k = Some u"
    by (auto simp: cached_def split: if_splits)
qed

end

sublocale redis_server \<subseteq> rc: redirect_cache "redis_cache R" cached
proof
  fix slug t s s' and r :: "err + cached_target option" and x
  show "ca_Lookup (redis_cache R) slug s = (r, s') \<Longrightarrow>
      cached s' \<subseteq>\<^sub>m cached s \<and> (\<forall>t. r = Inr (Some t) \<longrightarrow> cached s slug = Some t)"
  proof -
    assume run: "ca_Lookup (redis_cache R) slug s = (r, s')"
    obtain q s1 where g: "rd_Get R (redirectKey slug) s = (q, s1)" by (rule prod.exhaust)
    then have s1: "s1 = s'" using run by (auto simp: redis_cache_def cache_Lookup_def split: sum.splits option.splits)
    have le: "readable s' \<subseteq>\<^sub>m readable s" using get_readable(1) [OF g] s1 by simp
    have "cached s slug = Some t" if hit: "r = Inr (Some t)" for t
    proof -
      have "\<exists>v. q = Inr v \<and> target_of_json v = Some t"
        using run g hit by (auto simp: redis_cache_def cache_Lookup_def split: sum.splits option.splits if_splits)
      then obtain v where v: "q = Inr v" "target_of_json v = Some t" by blast
      have "readable s (redirectKey slug) = Some v"
        using get_readable(2) [OF g v(1)] map_leD [OF le] s1 by simp
      with v(2) show ?thesis by (simp add: cached_def)
    qed
    with cached_mono [OF le] show ?thesis by blast
  qed
  show "ca_Store (redis_cache R) slug t s = (x, s') \<Longrightarrow> target_text t \<Longrightarrow>
      cached s' \<subseteq>\<^sub>m (cached s)(slug \<mapsto> t) \<or> cached s' \<subseteq>\<^sub>m cached s"
  proof -
    assume run: "ca_Store (redis_cache R) slug t s = (x, s')" and t: "target_text t"
    obtain b where b: "json_encode (target_json t) = Some b" "target_of_json b = Some t"
      using target_round_trip [OF t] by blast
    obtain y s1 where y: "rd_Set R (redirectKey slug) b redirectTTL s = (y, s1)" by (rule prod.exhaust)
    then have "s1 = s'" using run b by (auto simp: redis_cache_def cache_Store_def split: option.splits)
    with set_readable [OF y redirectTTL_pos] show ?thesis
      using cached_upd [OF _ b(2), of s' s slug] cached_mono [of s' s] by auto
  qed
  show "ca_Invalidate (redis_cache R) slug s = (x, s') \<Longrightarrow>
      cached s' \<subseteq>\<^sub>m cached s \<and> (x = None \<longrightarrow> cached s' slug = None)"
  proof -
    assume run: "ca_Invalidate (redis_cache R) slug s = (x, s')"
    obtain y s1 where y: "rd_Del R (redirectKey slug) s = (y, s1)" by (rule prod.exhaust)
    then have "s1 = s'" "x = None \<Longrightarrow> y = None"
      using run by (auto simp: redis_cache_def cache_Invalidate_def split: option.splits)
    with del_readable [OF y] show ?thesis by (auto simp: cached_def cached_mono)
  qed
qed

end
