(* ===== verification/Database.thy ===== *)
theory Database
  imports CodesModel "HOL-Library.Product_Lexorder" "HOL-Library.List_Lexorder"
begin

text \<open>
  The Postgres tables of \<open>backend/migrations\<close> as a state, and the execution of one SQL statement
  on it. A table is the list of its rows. What Postgres itself decides is a parameter
  (\<open>pg_env\<close>): the UUIDs of \<open>gen_random_uuid()\<close> and the time of \<open>NOW()\<close> for each statement, the
  outcome of each statement (done; refused or lost before it took effect; lost after it took
  effect), how \<open>JSONB\<close> normalises a text (or refuses it), the sort key of the text collation and
  the comparison key of \<open>CITEXT\<close>. Statements are numbered by \<open>pg_tick\<close>, which the parameters read,
  so two statements need not behave alike.
\<close>

subsection \<open>Tables\<close>

text \<open>A row of \<open>users\<close> has exactly the fields of the Go struct \<open>users.User\<close>.\<close>

record user =
  user_ID :: uuid
  user_Email :: "string option"
  user_PasswordHash :: "string option"
  user_IsGuest :: bool
  user_CreatedAt :: instant
  user_UpdatedAt :: instant

record code_row =
  cr_id :: uuid
  cr_user_id :: uuid
  cr_type :: string
  cr_payload :: string
  cr_is_dynamic :: bool
  cr_label :: "string option"
  cr_created_at :: instant
  cr_updated_at :: instant

record dyn_row =
  dr_code_id :: uuid
  dr_slug :: string
  dr_destination :: string
  dr_updated_at :: instant

record db =
  t_users :: "user list"
  t_codes :: "code_row list"
  t_dyn :: "dyn_row list"
  t_scans :: "scan_event list"
  pg_tick :: nat

subsection \<open>The server\<close>

datatype pg_outcome = Done | LostBefore err | LostAfter err

record pg_env =
  pg_uuid :: "nat \<Rightarrow> uuid"
  pg_now :: "nat \<Rightarrow> instant"
  pg_out :: "nat \<Rightarrow> pg_outcome"
  pg_jsonb :: "string \<Rightarrow> string option"
  pg_collate :: "string \<Rightarrow> string"
  pg_citext :: "string \<Rightarrow> string"

text \<open>
  One autocommitted statement: \<open>st n d\<close> is what the statement numbered \<open>n\<close> does to the tables.
  A statement that raises an error leaves the tables as they are.
\<close>

definition run_stmt :: "pg_env \<Rightarrow> (nat \<Rightarrow> db \<Rightarrow> (err + 'a) \<times> db) \<Rightarrow> (db, 'a) act" where
  "run_stmt E st d =
     (let n = pg_tick d; d1 = d\<lparr>pg_tick := Suc n\<rparr> in
      case pg_out E n of
        Done \<Rightarrow> st n d1
      | LostBefore e \<Rightarrow> (Inl e, d1)
      | LostAfter e \<Rightarrow> (Inl e, snd (st n d1)))"

text \<open>
  Constraint violations: the SQLSTATE codes of unique, foreign key and check violations, and of
  a text that is not JSON.
\<close>

definition unique_violation :: string where "unique_violation = ''23505''"
definition foreign_key_violation :: string where "foreign_key_violation = ''23503''"
definition check_violation :: string where "check_violation = ''23514''"
definition invalid_text :: string where "invalid_text = ''22P02''"

text \<open>The unique index on \<open>users.email\<close> ignores NULLs and compares as \<open>CITEXT\<close>.\<close>

definition email_key :: "pg_env \<Rightarrow> user \<Rightarrow> string option" where
  "email_key E u = map_option (pg_citext E) (user_Email u)"

definition email_taken :: "pg_env \<Rightarrow> string option \<Rightarrow> user list \<Rightarrow> bool" where
  "email_taken E em us =
     (em \<noteq> None \<and> list_ex (\<lambda>u. email_key E u = map_option (pg_citext E) em) us)"

text \<open>
  A \<open>TEXT\<close> value of a UTF-8 database is UTF-8 without NUL bytes; a statement with another text
  among its parameters is refused. \<open>with_text\<close> checks the text parameters of a statement (an absent
  one is NULL).
\<close>

definition pg_text :: "string \<Rightarrow> bool" where
  "pg_text s \<longleftrightarrow> utf8_valid s \<and> CHR 0x00 \<notin> set s"

definition invalid_encoding :: string where "invalid_encoding = ''22021''"

definition texts_ok :: "string option list \<Rightarrow> bool" where
  "texts_ok ts = list_all (\<lambda>t. case t of None \<Rightarrow> True | Some s \<Rightarrow> pg_text s) ts"

definition refuse :: "string \<Rightarrow> nat \<Rightarrow> db \<Rightarrow> (err + 'a) \<times> db" where
  "refuse code n d = (Inl (PgError code), d)"

definition with_text ::
  "string option list \<Rightarrow> (nat \<Rightarrow> db \<Rightarrow> (err + 'a) \<times> db) \<Rightarrow> nat \<Rightarrow> db \<Rightarrow> (err + 'a) \<times> db" where
  "with_text ts st = (if texts_ok ts then st else refuse invalid_encoding)"

subsection \<open>Integrity\<close>

text \<open>
  What the schema promises of the tables: primary keys, the unique email and slug, the foreign
  keys of \<open>codes.user_id\<close> and \<open>dynamic_codes.code_id\<close>, and the check on \<open>codes.type\<close>.
\<close>

definition users_ok :: "pg_env \<Rightarrow> user list \<Rightarrow> bool" where
  "users_ok E us \<longleftrightarrow>
     distinct (map user_ID us) \<and>
     (\<forall>u \<in> set us. \<forall>v \<in> set us. \<forall>k.
        email_key E u = Some k \<longrightarrow> email_key E v = Some k \<longrightarrow> user_ID u = user_ID v)"

definition codes_ok :: "user list \<Rightarrow> code_row list \<Rightarrow> bool" where
  "codes_ok us cs \<longleftrightarrow>
     distinct (map cr_id cs) \<and> cr_user_id ` set cs \<subseteq> user_ID ` set us \<and>
     cr_type ` set cs \<subseteq> set code_types"

definition dyn_ok :: "code_row list \<Rightarrow> dyn_row list \<Rightarrow> bool" where
  "dyn_ok cs ds \<longleftrightarrow>
     distinct (map dr_code_id ds) \<and> distinct (map dr_slug ds) \<and>
     dr_code_id ` set ds \<subseteq> cr_id ` set cs"

definition dyn_texts :: "dyn_row list \<Rightarrow> bool" where
  "dyn_texts ds \<longleftrightarrow> (\<forall>r \<in> set ds. pg_text (dr_slug r) \<and> pg_text (dr_destination r))"

definition schema_ok :: "pg_env \<Rightarrow> db \<Rightarrow> bool" where
  "schema_ok E d \<longleftrightarrow>
     users_ok E (t_users d) \<and> codes_ok (t_users d) (t_codes d) \<and> dyn_ok (t_codes d) (t_dyn d) \<and>
     dyn_texts (t_dyn d) \<and> distinct (map scan_ID (t_scans d))"

text \<open>
  What the application adds: a code is marked dynamic exactly if it has a row in \<open>dynamic_codes\<close>,
  and only URL codes are.
\<close>

definition marks_ok :: "code_row list \<Rightarrow> dyn_row list \<Rightarrow> bool" where
  "marks_ok cs ds \<longleftrightarrow>
     (\<forall>c \<in> set cs. (cr_is_dynamic c \<longleftrightarrow> cr_id c \<in> dr_code_id ` set ds) \<and>
        (cr_is_dynamic c \<longrightarrow> cr_type c = TypeURL))"

definition app_ok :: "db \<Rightarrow> bool" where
  "app_ok d \<longleftrightarrow> marks_ok (t_codes d) (t_dyn d)"

definition db_ok :: "pg_env \<Rightarrow> db \<Rightarrow> bool" where
  "db_ok E d \<longleftrightarrow> schema_ok E d \<and> app_ok d"

definition empty_db :: db where
  "empty_db = \<lparr>t_users = [], t_codes = [], t_dyn = [], t_scans = [], pg_tick = 0\<rparr>"

lemma db_ok_empty: "db_ok E empty_db"
  by (simp add: db_ok_def schema_ok_def app_ok_def users_ok_def codes_ok_def dyn_ok_def marks_ok_def dyn_texts_def
      empty_db_def)

lemma schema_ok_tick [simp]: "schema_ok E (d\<lparr>pg_tick := n\<rparr>) = schema_ok E d"
  by (simp add: schema_ok_def)

lemma app_ok_tick [simp]: "app_ok (d\<lparr>pg_tick := n\<rparr>) = app_ok d"
  by (simp add: app_ok_def)

lemma db_ok_tick [simp]: "db_ok E (d\<lparr>pg_tick := n\<rparr>) = db_ok E d"
  by (simp add: db_ok_def)

lemma codes_ok_more_users: "codes_ok us cs \<Longrightarrow> user_ID ` set us \<subseteq> user_ID ` set us' \<Longrightarrow> codes_ok us' cs"
  unfolding codes_ok_def by (meson order_trans)

lemma codes_ok_same_ids: "map user_ID us' = map user_ID us \<Longrightarrow> codes_ok us cs \<Longrightarrow> codes_ok us' cs"
  unfolding codes_ok_def by (metis list.set_map)

lemma db_ok_iff:
  "db_ok E d \<longleftrightarrow>
   users_ok E (t_users d) \<and> codes_ok (t_users d) (t_codes d) \<and> dyn_ok (t_codes d) (t_dyn d) \<and>
   dyn_texts (t_dyn d) \<and> distinct (map scan_ID (t_scans d)) \<and> marks_ok (t_codes d) (t_dyn d)"
  by (auto simp: db_ok_def schema_ok_def app_ok_def)

text \<open>Replacing one table.\<close>

lemma db_ok_upd_users:
  "db_ok E d \<Longrightarrow> users_ok E us \<Longrightarrow> codes_ok us (t_codes d) \<Longrightarrow> db_ok E (d\<lparr>t_users := us\<rparr>)"
  by (simp add: db_ok_iff)

lemma db_ok_upd_codes_dyn:
  "db_ok E d \<Longrightarrow> codes_ok (t_users d) cs \<Longrightarrow> dyn_ok cs ds \<Longrightarrow> marks_ok cs ds \<Longrightarrow> dyn_texts ds \<Longrightarrow>
   db_ok E (d\<lparr>t_codes := cs, t_dyn := ds\<rparr>)"
  by (simp add: db_ok_iff)

lemma db_ok_upd_codes:
  "db_ok E d \<Longrightarrow> codes_ok (t_users d) cs \<Longrightarrow> dyn_ok cs (t_dyn d) \<Longrightarrow> marks_ok cs (t_dyn d) \<Longrightarrow>
   db_ok E (d\<lparr>t_codes := cs\<rparr>)"
  by (simp add: db_ok_iff)

lemma db_ok_upd_dyn:
  "db_ok E d \<Longrightarrow> dyn_ok (t_codes d) ds \<Longrightarrow> marks_ok (t_codes d) ds \<Longrightarrow> dyn_texts ds \<Longrightarrow>
   db_ok E (d\<lparr>t_dyn := ds\<rparr>)"
  by (simp add: db_ok_iff)

lemma db_ok_upd_scans:
  "db_ok E d \<Longrightarrow> distinct (map scan_ID ss) \<Longrightarrow> db_ok E (d\<lparr>t_scans := ss\<rparr>)"
  by (simp add: db_ok_iff)

text \<open>
  A statement keeps a property of the tables whatever its outcome, if its effect keeps it; and a
  statement that only reads changes nothing but the number of the next statement.
\<close>

lemma run_stmt_inv:
  assumes "\<And>n d'. P d' \<Longrightarrow> P (snd (st n d'))" "\<And>d' n. P (d'\<lparr>pg_tick := n\<rparr>) = P d'" "P d"
  shows "P (snd (run_stmt E st d))"
  using assms by (simp add: run_stmt_def Let_def split: pg_outcome.split)

lemma run_stmt_read:
  "(\<And>n d'. snd (st n d') = d') \<Longrightarrow> snd (run_stmt E st d) = d\<lparr>pg_tick := Suc (pg_tick d)\<rparr>"
  by (simp add: run_stmt_def Let_def split: pg_outcome.split)

lemma run_stmt_Inr:
  "run_stmt E st d = (Inr x, d') \<longleftrightarrow>
   pg_out E (pg_tick d) = Done \<and> st (pg_tick d) (d\<lparr>pg_tick := Suc (pg_tick d)\<rparr>) = (Inr x, d')"
  by (simp add: run_stmt_def Let_def split: pg_outcome.split)

text \<open>Every statement of a refused kind leaves the tables alone.\<close>

lemma with_text_ok [simp]: "texts_ok ts \<Longrightarrow> with_text ts st = st"
  and with_text_refused [simp]: "\<not> texts_ok ts \<Longrightarrow> with_text ts st = refuse invalid_encoding"
  by (simp_all add: with_text_def)

lemma with_text_inv: "(\<And>n d. P d \<Longrightarrow> P (snd (st n d))) \<Longrightarrow> P d \<Longrightarrow> P (snd (with_text ts st n d))"
  by (simp add: with_text_def refuse_def)

lemma with_text_read: "(\<And>n d. snd (st n d) = d) \<Longrightarrow> snd (with_text ts st n d) = d"
  by (simp add: with_text_def refuse_def)

lemma texts_ok_simps [simp]:
  "texts_ok []" "texts_ok (None # ts) = texts_ok ts" "texts_ok (Some s # ts) = (pg_text s \<and> texts_ok ts)"
  by (simp_all add: texts_ok_def)

text \<open>Two databases with the same rows in every table.\<close>

definition same_tables :: "db \<Rightarrow> db \<Rightarrow> bool" where
  "same_tables d d' \<longleftrightarrow> d'\<lparr>pg_tick := 0\<rparr> = d\<lparr>pg_tick := 0\<rparr>"

lemma same_tables_iff:
  "same_tables d d' \<longleftrightarrow>
   t_users d' = t_users d \<and> t_codes d' = t_codes d \<and> t_dyn d' = t_dyn d \<and> t_scans d' = t_scans d"
  by (cases d; cases d') (auto simp: same_tables_def)

subsection \<open>A sample server\<close>

text \<open>
  A server on which every statement runs, with consecutive UUIDs, one second between statements,
  \<open>JSONB\<close> keeping texts as they are and \<open>CITEXT\<close> folding ASCII letters; and tables with one guest
  and one account. The closed examples of the other theories run on them.
\<close>

definition sample_env :: pg_env where
  "sample_env = \<lparr>pg_uuid = (\<lambda>n. word_of_nat (n + 100)), pg_now = (\<lambda>n. int n * 1000000000),
     pg_out = (\<lambda>_. Done), pg_jsonb = Some, pg_collate = (\<lambda>s. s), pg_citext = map ascii_lower\<rparr>"

definition sample_guest :: user where
  "sample_guest = \<lparr>user_ID = 1, user_Email = None, user_PasswordHash = None, user_IsGuest = True,
     user_CreatedAt = 0, user_UpdatedAt = 0\<rparr>"

definition sample_account :: user where
  "sample_account = \<lparr>user_ID = 2, user_Email = Some ''a@b.cd'', user_PasswordHash = Some ''x'',
     user_IsGuest = False, user_CreatedAt = 0, user_UpdatedAt = 0\<rparr>"

definition sample_row :: code_row where
  "sample_row = \<lparr>cr_id = 3, cr_user_id = 1, cr_type = TypeURL, cr_payload = ''{}'', cr_is_dynamic = True,
     cr_label = None, cr_created_at = 0, cr_updated_at = 0\<rparr>"

definition sample_dyn :: dyn_row where
  "sample_dyn = \<lparr>dr_code_id = 3, dr_slug = ''taken'', dr_destination = ''https://a.b'', dr_updated_at = 0\<rparr>"

definition sample_db :: db where
  "sample_db = \<lparr>t_users = [sample_guest, sample_account], t_codes = [sample_row],
     t_dyn = [sample_dyn], t_scans = [], pg_tick = 0\<rparr>"

lemmas sample_defs = sample_env_def sample_guest_def sample_account_def sample_row_def sample_dyn_def sample_db_def

lemma sample_db_ok: "db_ok sample_env sample_db"
  by (simp add: db_ok_iff users_ok_def codes_ok_def dyn_ok_def marks_ok_def sample_defs email_key_def
      code_types_def TypeURL_def dyn_texts_def pg_text_def utf8_valid.simps utf8_len_def byte_at_def lead_len_def
      second_ok_def cont_byte_def byte_def)

end
