(* ===== verification/UsersRepository.thy ===== *)
theory UsersRepository
  imports Database
begin

text \<open>
  \<open>internal/users/repository.go\<close>: each method is one SQL statement on the table \<open>users\<close> and the
  mapping of its errors. A statement is given as its effect on the tables (\<open>..._stmt\<close>) and run by
  \<^const>\<open>run_stmt\<close>. Where the Go method fills fields of the struct it was given, the method here
  returns the filled struct.
\<close>

definition isUniqueViolation :: "err \<Rightarrow> bool" where
  "isUniqueViolation e = (errors_as_pg e = Some unique_violation)"

subsection \<open>Statements\<close>

definition insert_user_stmt :: "pg_env \<Rightarrow> user \<Rightarrow> nat \<Rightarrow> db \<Rightarrow> (err + uuid \<times> instant \<times> instant) \<times> db" where
  "insert_user_stmt E u n d =
     (let i = pg_uuid E n; t = pg_now E n in
      if list_ex (\<lambda>r. user_ID r = i) (t_users d) \<or> email_taken E (user_Email u) (t_users d)
      then (Inl (PgError unique_violation), d)
      else (Inr (i, t, t),
            d\<lparr>t_users := t_users d @
               [u\<lparr>user_ID := i, user_CreatedAt := t, user_UpdatedAt := t\<rparr>]\<rparr>))"

definition select_user_stmt :: "(user \<Rightarrow> bool) \<Rightarrow> nat \<Rightarrow> db \<Rightarrow> (err + user) \<times> db" where
  "select_user_stmt P n d =
     (case filter P (t_users d) of
        [] \<Rightarrow> (Inl (Sentinel PgErrNoRows), d)
      | u # _ \<Rightarrow> (Inr u, d))"

definition update_user_stmt :: "pg_env \<Rightarrow> user \<Rightarrow> nat \<Rightarrow> db \<Rightarrow> (err + instant) \<times> db" where
  "update_user_stmt E u n d =
     (if \<not> list_ex (\<lambda>r. user_ID r = user_ID u) (t_users d)
      then (Inl (Sentinel PgErrNoRows), d)
      else if email_taken E (user_Email u) (filter (\<lambda>r. user_ID r \<noteq> user_ID u) (t_users d))
      then (Inl (PgError unique_violation), d)
      else (Inr (pg_now E n),
            d\<lparr>t_users := map (\<lambda>r. if user_ID r = user_ID u
                 then r\<lparr>user_Email := user_Email u, user_PasswordHash := user_PasswordHash u,
                         user_IsGuest := user_IsGuest u, user_UpdatedAt := pg_now E n\<rparr>
                 else r) (t_users d)\<rparr>))"

subsection \<open>Methods\<close>

definition users_Create :: "pg_env \<Rightarrow> user \<Rightarrow> (db, user) act" where
  "users_Create E u d =
     (case run_stmt E (with_text [user_Email u, user_PasswordHash u] (insert_user_stmt E u)) d of
        (Inl e, d1) \<Rightarrow>
          (Inl (if isUniqueViolation e then Sentinel ErrEmailTaken else Wrap ''inserting user'' e), d1)
      | (Inr (i, c, t), d1) \<Rightarrow>
          (Inr (u\<lparr>user_ID := i, user_CreatedAt := c, user_UpdatedAt := t\<rparr>), d1))"

definition select_err :: "string \<Rightarrow> err \<Rightarrow> err" where
  "select_err msg e =
     (if errors_is e PgErrNoRows then Sentinel UsersErrNotFound else Wrap msg e)"

definition users_GetByID :: "pg_env \<Rightarrow> uuid \<Rightarrow> (db, user) act" where
  "users_GetByID E i d =
     (case run_stmt E (select_user_stmt (\<lambda>u. user_ID u = i)) d of
        (Inl e, d1) \<Rightarrow> (Inl (select_err ''selecting user by id'' e), d1)
      | (Inr u, d1) \<Rightarrow> (Inr u, d1))"

definition users_GetByEmail :: "pg_env \<Rightarrow> string \<Rightarrow> (db, user) act" where
  "users_GetByEmail E em d =
     (case run_stmt E (with_text [Some em] (select_user_stmt (\<lambda>u. email_key E u = Some (pg_citext E em)))) d of
        (Inl e, d1) \<Rightarrow> (Inl (select_err ''selecting user by email'' e), d1)
      | (Inr u, d1) \<Rightarrow> (Inr u, d1))"

definition users_Update :: "pg_env \<Rightarrow> user \<Rightarrow> (db, user) act" where
  "users_Update E u d =
     (case run_stmt E (with_text [user_Email u, user_PasswordHash u] (update_user_stmt E u)) d of
        (Inl e, d1) \<Rightarrow>
          (Inl (if errors_is e PgErrNoRows then Sentinel UsersErrNotFound
                else if isUniqueViolation e then Sentinel ErrEmailTaken
                else Wrap ''updating user'' e), d1)
      | (Inr t, d1) \<Rightarrow> (Inr (u\<lparr>user_UpdatedAt := t\<rparr>), d1))"

subsection \<open>What the methods keep\<close>

lemma not_email_taken:
  "\<not> email_taken E em us \<Longrightarrow> u \<in> set us \<Longrightarrow> email_key E u = Some k \<Longrightarrow>
   map_option (pg_citext E) em \<noteq> Some k"
  by (auto simp: email_taken_def list_ex_iff)

lemma users_okD:
  "users_ok E us \<Longrightarrow> v \<in> set us \<Longrightarrow> w \<in> set us \<Longrightarrow> email_key E v = Some k \<Longrightarrow>
   email_key E w = Some k \<Longrightarrow> user_ID v = user_ID w"
  unfolding users_ok_def by blast

lemma users_okI:
  assumes "distinct (map user_ID us)"
    and "\<And>v w k. v \<in> set us \<Longrightarrow> w \<in> set us \<Longrightarrow> email_key E v = Some k \<Longrightarrow>
           email_key E w = Some k \<Longrightarrow> user_ID v = user_ID w"
  shows "users_ok E us"
  unfolding users_ok_def using assms by blast

lemma users_ok_distinct: "users_ok E us \<Longrightarrow> distinct (map user_ID us)"
  by (simp add: users_ok_def)

lemma users_ok_snoc:
  assumes "users_ok E us" "user_ID u \<notin> user_ID ` set us" "\<not> email_taken E (user_Email u) us"
  shows "users_ok E (us @ [u])"
proof (rule users_okI)
  show "distinct (map user_ID (us @ [u]))"
    using users_ok_distinct [OF assms(1)] assms(2) by simp
next
  have key: "email_key E u = map_option (pg_citext E) (user_Email u)" by (simp add: email_key_def)
  have new: False if "v \<in> set us" "email_key E u = Some k" "email_key E v = Some k" for v k
    using not_email_taken [OF assms(3) that(1,3)] that(2) key by metis
  fix v w k
  assume "v \<in> set (us @ [u])" "w \<in> set (us @ [u])" "email_key E v = Some k" "email_key E w = Some k"
  then show "user_ID v = user_ID w"
    using new [of v k] new [of w k] users_okD [OF assms(1), of v w k] by (cases "v = u"; cases "w = u") simp_all
qed

lemma insert_user_db_ok:
  assumes "db_ok E d" shows "db_ok E (snd (insert_user_stmt E u n d))"
proof -
  let ?u = "u\<lparr>user_ID := pg_uuid E n, user_CreatedAt := pg_now E n, user_UpdatedAt := pg_now E n\<rparr>"
  show ?thesis
  proof (cases "list_ex (\<lambda>r. user_ID r = pg_uuid E n) (t_users d) \<or>
      email_taken E (user_Email u) (t_users d)")
    case True
    with assms show ?thesis by (simp add: insert_user_stmt_def Let_def)
  next
    case False
    then have "user_ID ?u \<notin> user_ID ` set (t_users d)" "\<not> email_taken E (user_Email ?u) (t_users d)"
      by (auto simp: list_ex_iff)
    then have "users_ok E (t_users d @ [?u])" using assms users_ok_snoc by (simp add: db_ok_iff)
    moreover have "codes_ok (t_users d @ [?u]) (t_codes d)"
      using assms by (auto simp: db_ok_iff elim!: codes_ok_more_users)
    ultimately show ?thesis
      using assms False by (simp add: insert_user_stmt_def Let_def db_ok_iff)
  qed
qed

lemma users_ok_update:
  assumes ok: "users_ok E us" and free: "\<not> email_taken E (user_Email u) (filter (\<lambda>r. user_ID r \<noteq> user_ID u) us)"
    and f: "\<And>r. user_ID (f r) = user_ID r" "\<And>r. user_Email (f r) = user_Email u"
  shows "users_ok E (map (\<lambda>r. if user_ID r = user_ID u then f r else r) us)"
proof (rule users_okI)
  let ?g = "\<lambda>r. if user_ID r = user_ID u then f r else r"
  have id: "user_ID (?g r) = user_ID r" for r using f(1) by simp
  then show "distinct (map user_ID (map ?g us))"
    using users_ok_distinct [OF ok] by (simp add: comp_def)
  have key: "email_key E (f r) = map_option (pg_citext E) (user_Email u)" for r
    using f(2) by (simp add: email_key_def)
  have free': False if "t \<in> set us" "user_ID t \<noteq> user_ID u" "email_key E t = Some k"
    "map_option (pg_citext E) (user_Email u) = Some k" for t k
    using not_email_taken [OF free, of t k] that by auto
  have main: "user_ID r = user_ID s"
    if "r \<in> set us" "s \<in> set us" "email_key E (?g r) = Some k" "email_key E (?g s) = Some k" for r s k
    using that key free' [of r k] free' [of s k] users_okD [OF ok, of r s k]
    by (cases "user_ID r = user_ID u"; cases "user_ID s = user_ID u") simp_all
  fix v w k
  assume vw: "v \<in> set (map ?g us)" "w \<in> set (map ?g us)" "email_key E v = Some k" "email_key E w = Some k"
  then obtain r s where rs: "r \<in> set us" "s \<in> set us" and v: "v = ?g r" and w: "w = ?g s" by auto
  have "user_ID v = user_ID r" "user_ID w = user_ID s" unfolding v w by (rule id)+
  with main [OF rs] vw(3,4) show "user_ID v = user_ID w" unfolding v w by simp
qed

lemma update_user_db_ok:
  assumes "db_ok E d" shows "db_ok E (snd (update_user_stmt E u n d))"
proof -
  let ?g = "\<lambda>r. r\<lparr>user_Email := user_Email u, user_PasswordHash := user_PasswordHash u,
                   user_IsGuest := user_IsGuest u, user_UpdatedAt := pg_now E n\<rparr>"
  let ?us = "map (\<lambda>r. if user_ID r = user_ID u then ?g r else r) (t_users d)"
  show ?thesis
  proof (cases "list_ex (\<lambda>r. user_ID r = user_ID u) (t_users d) \<and>
      \<not> email_taken E (user_Email u) (filter (\<lambda>r. user_ID r \<noteq> user_ID u) (t_users d))")
    case False
    then have "snd (update_user_stmt E u n d) = d"
      by (cases "list_ex (\<lambda>r. user_ID r = user_ID u) (t_users d)") (simp_all add: update_user_stmt_def)
    with assms show ?thesis by simp
  next
    case True
    then have "users_ok E ?us"
      using assms by (intro users_ok_update) (auto simp: db_ok_iff)
    moreover have "codes_ok ?us (t_codes d)"
      using assms by (intro codes_ok_same_ids [of ?us "t_users d"]) (simp_all add: db_ok_iff)
    moreover have "snd (update_user_stmt E u n d) = d\<lparr>t_users := ?us\<rparr>"
      using True by (simp add: update_user_stmt_def)
    ultimately show ?thesis
      using db_ok_upd_users [OF assms, of ?us] by (simp only:)
  qed
qed

lemma select_user_read: "snd (select_user_stmt P n d) = d"
  by (simp add: select_user_stmt_def split: list.split)

lemma run_stmt_db_ok:
  "(\<And>n d'. db_ok E d' \<Longrightarrow> db_ok E (snd (st n d'))) \<Longrightarrow> db_ok E d \<Longrightarrow> db_ok E (snd (run_stmt E (with_text ts st) d))"
  by (rule run_stmt_inv [where P = "db_ok E", OF _ db_ok_tick]) (simp_all add: with_text_inv)

lemma users_Create_db_ok [inv_intros]: "db_ok E d \<Longrightarrow> db_ok E (snd (users_Create E u d))"
  using run_stmt_db_ok [of E "insert_user_stmt E u" d] insert_user_db_ok
  by (simp add: users_Create_def case_prod_beta split: sum.split)

lemma select_user_db_ok: "db_ok E d \<Longrightarrow> db_ok E (snd (run_stmt E (with_text ts (select_user_stmt P)) d))"
  by (rule run_stmt_db_ok) (simp_all add: select_user_read)

lemma users_GetByID_db_ok [inv_intros]: "db_ok E d \<Longrightarrow> db_ok E (snd (users_GetByID E i d))"
  using select_user_db_ok [of E d "[]" "\<lambda>u. user_ID u = i"]
  by (simp add: users_GetByID_def case_prod_beta split: sum.split)

lemma users_GetByEmail_db_ok [inv_intros]: "db_ok E d \<Longrightarrow> db_ok E (snd (users_GetByEmail E em d))"
  using select_user_db_ok by (simp add: users_GetByEmail_def case_prod_beta split: sum.split)

lemma users_Update_db_ok [inv_intros]: "db_ok E d \<Longrightarrow> db_ok E (snd (users_Update E u d))"
  using run_stmt_db_ok [of E "update_user_stmt E u" d] update_user_db_ok
  by (simp add: users_Update_def case_prod_beta split: sum.split)

end
