(* ===== verification/CodesRepository.thy ===== *)
theory CodesRepository
  imports UsersRepository GoTime
begin

text \<open>
  \<open>internal/codes/repository.go\<close>: the SQL statements on \<open>codes\<close>, \<open>dynamic_codes\<close> and \<open>scan_events\<close>
  as effects on the tables, and the methods that run them and map their errors. The method
  \<open>CreateDynamic\<close> is a transaction: its statements see each other's effects, \<open>NOW()\<close> is the time
  it began, and a rollback puts the tables back.
\<close>

subsection \<open>The keyset position\<close>

text \<open>
  \<open>codes.Cursor\<close>; cursors are ordered as the SQL row comparison \<open>(created_at, id) < ($2, $3)\<close>
  orders rows.
\<close>

datatype cursor = Cursor (cur_CreatedAt: instant) (cur_ID: uuid)

instantiation cursor :: linorder
begin

definition less_cursor :: "cursor \<Rightarrow> cursor \<Rightarrow> bool" where
  "less_cursor a b \<longleftrightarrow>
     cur_CreatedAt a < cur_CreatedAt b \<or> cur_CreatedAt a = cur_CreatedAt b \<and> cur_ID a < cur_ID b"

definition less_eq_cursor :: "cursor \<Rightarrow> cursor \<Rightarrow> bool" where
  "less_eq_cursor a b \<longleftrightarrow>
     cur_CreatedAt a < cur_CreatedAt b \<or> cur_CreatedAt a = cur_CreatedAt b \<and> cur_ID a \<le> cur_ID b"

instance
  by standard (auto simp: less_cursor_def less_eq_cursor_def cursor.expand)

end

subsection \<open>Writing statements\<close>

definition row_of_code :: "code \<Rightarrow> bool \<Rightarrow> string \<Rightarrow> uuid \<Rightarrow> instant \<Rightarrow> code_row" where
  "row_of_code c dynamic payload i now =
     \<lparr>cr_id = i, cr_user_id = code_UserID c, cr_type = code_Type c, cr_payload = payload,
      cr_is_dynamic = dynamic, cr_label = code_Label c, cr_created_at = now, cr_updated_at = now\<rparr>"

definition insert_code_stmt ::
  "pg_env \<Rightarrow> code \<Rightarrow> bool \<Rightarrow> instant \<Rightarrow> nat \<Rightarrow> db \<Rightarrow> (err + uuid \<times> instant \<times> instant) \<times> db" where
  "insert_code_stmt E c dynamic now n d =
     (let i = pg_uuid E n in
      case pg_jsonb E (code_Payload c) of
        None \<Rightarrow> (Inl (PgError invalid_text), d)
      | Some p \<Rightarrow>
          if code_Type c \<notin> set code_types then (Inl (PgError check_violation), d)
          else if list_ex (\<lambda>r. cr_id r = i) (t_codes d) then (Inl (PgError unique_violation), d)
          else if \<not> list_ex (\<lambda>u. user_ID u = code_UserID c) (t_users d)
          then (Inl (PgError foreign_key_violation), d)
          else (Inr (i, now, now), d\<lparr>t_codes := t_codes d @ [row_of_code c dynamic p i now]\<rparr>))"

definition insert_dyn_stmt ::
  "uuid \<Rightarrow> string \<Rightarrow> string \<Rightarrow> instant \<Rightarrow> nat \<Rightarrow> db \<Rightarrow> (err + instant) \<times> db" where
  "insert_dyn_stmt i slug destination now n d =
     (if list_ex (\<lambda>r. dr_code_id r = i \<or> dr_slug r = slug) (t_dyn d)
      then (Inl (PgError unique_violation), d)
      else if \<not> list_ex (\<lambda>r. cr_id r = i) (t_codes d)
      then (Inl (PgError foreign_key_violation), d)
      else (Inr now,
            d\<lparr>t_dyn := t_dyn d @
               [\<lparr>dr_code_id = i, dr_slug = slug, dr_destination = destination, dr_updated_at = now\<rparr>]\<rparr>))"

text \<open>\<open>UPDATE\<close> and \<open>DELETE\<close> return the number of rows they touched (\<open>tag.RowsAffected()\<close>).\<close>

definition update_label_stmt ::
  "pg_env \<Rightarrow> uuid \<Rightarrow> uuid \<Rightarrow> string option \<Rightarrow> nat \<Rightarrow> db \<Rightarrow> (err + nat) \<times> db" where
  "update_label_stmt E userID i label n d =
     (let hit = (\<lambda>r. cr_id r = i \<and> cr_user_id r = userID) in
      (Inr (length (filter hit (t_codes d))),
       d\<lparr>t_codes := map (\<lambda>r. if hit r then r\<lparr>cr_label := label, cr_updated_at := pg_now E n\<rparr> else r)
                        (t_codes d)\<rparr>))"

definition update_destination_stmt ::
  "pg_env \<Rightarrow> uuid \<Rightarrow> string \<Rightarrow> nat \<Rightarrow> db \<Rightarrow> (err + nat) \<times> db" where
  "update_destination_stmt E codeID destination n d =
     (Inr (length (filter (\<lambda>r. dr_code_id r = codeID) (t_dyn d))),
      d\<lparr>t_dyn := map (\<lambda>r. if dr_code_id r = codeID
                         then r\<lparr>dr_destination := destination, dr_updated_at := pg_now E n\<rparr> else r)
                    (t_dyn d)\<rparr>)"

text \<open>Deleting a code deletes its \<open>dynamic_codes\<close> row (\<open>ON DELETE CASCADE\<close>).\<close>

definition delete_code_stmt :: "uuid \<Rightarrow> uuid \<Rightarrow> nat \<Rightarrow> db \<Rightarrow> (err + nat) \<times> db" where
  "delete_code_stmt userID i n d =
     (let hit = (\<lambda>r. cr_id r = i \<and> cr_user_id r = userID); gone = map cr_id (filter hit (t_codes d)) in
      (Inr (length gone),
       d\<lparr>t_codes := filter (\<lambda>r. \<not> hit r) (t_codes d),
         t_dyn := filter (\<lambda>r. dr_code_id r \<notin> set gone) (t_dyn d)\<rparr>))"

definition insert_scan_stmt ::
  "pg_env \<Rightarrow> scan_event \<Rightarrow> nat \<Rightarrow> db \<Rightarrow> (err + uuid \<times> instant) \<times> db" where
  "insert_scan_stmt E e n d =
     (let i = pg_uuid E n; t = pg_now E n in
      if list_ex (\<lambda>r. scan_ID r = i) (t_scans d) then (Inl (PgError unique_violation), d)
      else (Inr (i, t), d\<lparr>t_scans := t_scans d @ [e\<lparr>scan_ID := i, scan_ScannedAt := t\<rparr>]\<rparr>))"

subsection \<open>Reading statements\<close>

text \<open>\<open>FROM codes c LEFT JOIN dynamic_codes d ON d.code_id = c.id\<close>.\<close>

definition dyn_of :: "dyn_row list \<Rightarrow> uuid \<Rightarrow> dyn_row list" where
  "dyn_of ds i = filter (\<lambda>r. dr_code_id r = i) ds"

definition left_join :: "db \<Rightarrow> (code_row \<times> dyn_row option) list" where
  "left_join d =
     concat (map (\<lambda>c. case dyn_of (t_dyn d) (cr_id c) of
                        [] \<Rightarrow> [(c, None)]
                      | rs \<Rightarrow> map (\<lambda>r. (c, Some r)) rs) (t_codes d))"

definition row_cursor :: "code_row \<times> dyn_row option \<Rightarrow> cursor" where
  "row_cursor r = Cursor (cr_created_at (fst r)) (cr_id (fst r))"

definition select_code :: "uuid \<Rightarrow> uuid \<Rightarrow> db \<Rightarrow> err + code_row \<times> dyn_row option" where
  "select_code userID i d =
     (case filter (\<lambda>(c, _). cr_id c = i \<and> cr_user_id c = userID) (left_join d) of
        [] \<Rightarrow> Inl (Sentinel PgErrNoRows)
      | r # _ \<Rightarrow> Inr r)"

text \<open>
  \<open>ORDER BY c.created_at DESC, c.id DESC LIMIT\<close>; a negative limit is an error. Postgres keeps
  microseconds, and so do the cursors that the server issues; a forged cursor may have nanoseconds, which the
  driver cuts off and this does not.
\<close>

definition select_page ::
  "uuid \<Rightarrow> cursor option \<Rightarrow> int \<Rightarrow> db \<Rightarrow> err + (code_row \<times> dyn_row option) list" where
  "select_page userID cur limit d =
     (if limit < 0 then Inl (PgError ''2201W'')
      else Inr (take (nat limit) (rev (sort_key row_cursor
             (filter (\<lambda>r. cr_user_id (fst r) = userID \<and>
                          (case cur of None \<Rightarrow> True | Some k \<Rightarrow> row_cursor r < k)) (left_join d))))))"

definition select_slug :: "string \<Rightarrow> db \<Rightarrow> err + string \<times> uuid" where
  "select_slug slug d =
     (case filter (\<lambda>r. dr_slug r = slug) (t_dyn d) of
        [] \<Rightarrow> Inl (Sentinel PgErrNoRows)
      | r # _ \<Rightarrow> Inr (dr_destination r, dr_code_id r))"

definition scans_of :: "string \<Rightarrow> db \<Rightarrow> scan_event list" where
  "scans_of slug d = filter (\<lambda>e. scan_Slug e = slug) (t_scans d)"

definition counts_of :: "scan_event list \<Rightarrow> nat \<times> nat" where
  "counts_of es = (length es, length (remdups (List.map_filter scan_IPHash es)))"

definition select_counts :: "string \<Rightarrow> db \<Rightarrow> nat \<times> nat" where
  "select_counts slug d = counts_of (scans_of slug d)"

definition scan_day :: "scan_event \<Rightarrow> string" where
  \<comment> \<open>\<open>to_char((scanned_at AT TIME ZONE 'UTC')::date, 'YYYY-MM-DD')\<close>\<close>
  "scan_day e = date_str (scan_ScannedAt e div ns_per_day)"

definition daily_of :: "scan_event list \<Rightarrow> day_count list" where
  "daily_of es =
     map (\<lambda>day. \<lparr>dc_Date = day, dc_Count = length (filter (\<lambda>e. scan_day e = day) es)\<rparr>)
       (sort (remdups (map scan_day es)))"

definition select_daily :: "string \<Rightarrow> db \<Rightarrow> day_count list" where
  "select_daily slug d = daily_of (scans_of slug d)"

text \<open>
  \<open>ORDER BY count(*) DESC, user_agent ASC\<close>: the second key is the collation's, ties of it are
  broken by the bytes. Sorting by the second key first and stably by the first after it.
\<close>

definition agents_of :: "scan_event list \<Rightarrow> string list" where
  "agents_of es = List.map_filter scan_UserAgent es"

definition top_rank :: "user_agent_count \<Rightarrow> int" where
  "top_rank g = - int (uac_Count g)"

definition ranked_agents :: "(string \<Rightarrow> string) \<Rightarrow> scan_event list \<Rightarrow> user_agent_count list" where
  "ranked_agents collate es =
     sort_key top_rank (sort_key (\<lambda>g. (collate (uac_UserAgent g), uac_UserAgent g))
       (map (\<lambda>u. \<lparr>uac_UserAgent = u, uac_Count = count_list (agents_of es) u\<rparr>) (remdups (agents_of es))))"

definition select_top_agents :: "pg_env \<Rightarrow> string \<Rightarrow> nat \<Rightarrow> db \<Rightarrow> user_agent_count list" where
  "select_top_agents E slug limit d = take limit (ranked_agents (pg_collate E) (scans_of slug d))"

subsection \<open>Methods\<close>

text \<open>\<open>Create\<close> inserts the code as it is, with its own \<open>IsDynamic\<close>.\<close>

definition code_texts :: "code \<Rightarrow> string option list" where
  "code_texts c = [Some (code_Type c), code_Label c]"

definition repo_Create :: "pg_env \<Rightarrow> code \<Rightarrow> (db, code) act" where
  "repo_Create E c d =
     (case run_stmt E (with_text (code_texts c)
        (\<lambda>n. insert_code_stmt E c (code_IsDynamic c) (pg_now E n) n)) d of
        (Inl e, d1) \<Rightarrow> (Inl (Wrap ''inserting code'' e), d1)
      | (Inr (i, cr, up), d1) \<Rightarrow>
          (Inr (c\<lparr>code_ID := i, code_CreatedAt := cr, code_UpdatedAt := up\<rparr>), d1))"

definition rollback_to :: "db \<Rightarrow> db \<Rightarrow> db" where
  "rollback_to d0 d = d0\<lparr>pg_tick := pg_tick d\<rparr>"

text \<open>
  \<open>COMMIT\<close> of the tables \<open>d\<close> of a transaction that began on \<open>d0\<close>: it may fail before or after it
  took effect.
\<close>

definition commit_tx :: "pg_env \<Rightarrow> db \<Rightarrow> db eact" where
  "commit_tx E d0 d =
     (let n = pg_tick d; d1 = d\<lparr>pg_tick := Suc n\<rparr> in
      case pg_out E n of
        Done \<Rightarrow> (None, d1)
      | LostBefore e \<Rightarrow> (Some e, rollback_to d0 d1)
      | LostAfter e \<Rightarrow> (Some e, d1))"

text \<open>
  \<open>CreateDynamic\<close> returns its error and the code as the Go method leaves it, since the caller may
  use the same struct again after \<open>ErrSlugTaken\<close>.
\<close>

definition repo_CreateDynamic ::
  "pg_env \<Rightarrow> code \<Rightarrow> string \<Rightarrow> string \<Rightarrow> db \<Rightarrow> (err option \<times> code) \<times> db" where
  "repo_CreateDynamic E c slug destination d =
     (case run_stmt E (\<lambda>n d. (Inr (pg_now E n), d)) d of
        (Inl e, d1) \<Rightarrow> ((Some (Wrap ''beginning transaction'' e), c), d1)
      | (Inr now, d1) \<Rightarrow>
          (case run_stmt E (with_text (code_texts c) (insert_code_stmt E c True now)) d1 of
             (Inl e, d2) \<Rightarrow> ((Some (Wrap ''inserting dynamic code'' e), c), rollback_to d1 d2)
           | (Inr (i, cr, up), d2) \<Rightarrow>
               let c1 = c\<lparr>code_ID := i, code_CreatedAt := cr, code_UpdatedAt := up\<rparr> in
               (case run_stmt E (with_text [Some slug, Some destination] (insert_dyn_stmt i slug destination now)) d2 of
                  (Inl e, d3) \<Rightarrow>
                    ((Some (if isUniqueViolation e then Sentinel ErrSlugTaken
                            else Wrap ''inserting dynamic_codes row'' e), c1), rollback_to d1 d3)
                | (Inr du, d3) \<Rightarrow>
                    (case commit_tx E d1 d3 of
                       (Some e, d4) \<Rightarrow> ((Some (Wrap ''committing dynamic code'' e), c1), d4)
                     | (None, d4) \<Rightarrow>
                         ((None, c1\<lparr>code_IsDynamic := True,
                                    code_Dynamic := Some \<lparr>dyn_CodeID = i, dyn_Slug = slug,
                                      dyn_Destination = destination, dyn_UpdatedAt = du\<rparr>\<rparr>), d4)))))"

text \<open>\<open>scanCode\<close>: the columns of \<open>dynamic_codes\<close> are NULL for a code without a row there.\<close>

definition scanCode :: "code_row \<times> dyn_row option \<Rightarrow> code" where
  "scanCode r =
     (case r of (c, dy) \<Rightarrow>
       \<lparr>code_ID = cr_id c, code_UserID = cr_user_id c, code_Type = cr_type c,
        code_Payload = cr_payload c, code_IsDynamic = cr_is_dynamic c, code_Label = cr_label c,
        code_CreatedAt = cr_created_at c, code_UpdatedAt = cr_updated_at c,
        code_Dynamic = map_option (\<lambda>x. \<lparr>dyn_CodeID = cr_id c, dyn_Slug = dr_slug x,
          dyn_Destination = dr_destination x, dyn_UpdatedAt = dr_updated_at x\<rparr>) dy\<rparr>)"

definition repo_GetByID :: "pg_env \<Rightarrow> uuid \<Rightarrow> uuid \<Rightarrow> (db, code) act" where
  "repo_GetByID E userID i d =
     (case run_stmt E (\<lambda>n d. (select_code userID i d, d)) d of
        (Inl e, d1) \<Rightarrow>
          (Inl (if errors_is e PgErrNoRows then Sentinel CodesErrNotFound
                else Wrap ''scanning code'' e), d1)
      | (Inr r, d1) \<Rightarrow> (Inr (scanCode r), d1))"

text \<open>
  A query of many rows: an error may come from the query itself or, the connection being lost,
  from reading its rows.
\<close>

definition run_query :: "pg_env \<Rightarrow> (db \<Rightarrow> err + 'a list) \<Rightarrow> string \<Rightarrow> string \<Rightarrow> (db, 'a list) act" where
  "run_query E q querying iterating d =
     (let n = pg_tick d; d1 = d\<lparr>pg_tick := Suc n\<rparr> in
      case pg_out E n of
        Done \<Rightarrow> (case q d1 of Inl e \<Rightarrow> (Inl (Wrap querying e), d1) | Inr rs \<Rightarrow> (Inr rs, d1))
      | LostBefore e \<Rightarrow> (Inl (Wrap querying e), d1)
      | LostAfter e \<Rightarrow> (Inl (Wrap iterating e), d1))"

definition repo_List :: "pg_env \<Rightarrow> uuid \<Rightarrow> cursor option \<Rightarrow> int \<Rightarrow> (db, code list) act" where
  "repo_List E userID cur limit d =
     (case run_query E (select_page userID cur limit) ''querying codes'' ''iterating codes'' d of
        (Inl e, d1) \<Rightarrow> (Inl e, d1)
      | (Inr rs, d1) \<Rightarrow> (Inr (map scanCode rs), d1))"

text \<open>The result of an \<open>UPDATE\<close> or \<open>DELETE\<close> as an error: none, or that it touched no row.\<close>

definition affected :: "string \<Rightarrow> (err + nat) \<times> db \<Rightarrow> err option \<times> db" where
  "affected msg r =
     (case r of
        (Inl e, d) \<Rightarrow> (Some (Wrap msg e), d)
      | (Inr k, d) \<Rightarrow> (if k = 0 then Some (Sentinel CodesErrNotFound) else None, d))"

definition repo_UpdateLabel :: "pg_env \<Rightarrow> uuid \<Rightarrow> uuid \<Rightarrow> string option \<Rightarrow> db eact" where
  "repo_UpdateLabel E userID i label d =
     affected ''updating label'' (run_stmt E (with_text [label] (update_label_stmt E userID i label)) d)"

definition repo_UpdateDestination :: "pg_env \<Rightarrow> uuid \<Rightarrow> string \<Rightarrow> db eact" where
  "repo_UpdateDestination E codeID destination d =
     affected ''updating destination'' 
       (run_stmt E (with_text [Some destination] (update_destination_stmt E codeID destination)) d)"

definition repo_Delete :: "pg_env \<Rightarrow> uuid \<Rightarrow> uuid \<Rightarrow> db eact" where
  "repo_Delete E userID i d =
     affected ''deleting code'' (run_stmt E (delete_code_stmt userID i) d)"

definition repo_ResolveSlug :: "pg_env \<Rightarrow> string \<Rightarrow> (db, string \<times> uuid) act" where
  "repo_ResolveSlug E slug d =
     (case run_stmt E (with_text [Some slug] (\<lambda>n d. (select_slug slug d, d))) d of
        (Inl e, d1) \<Rightarrow>
          (Inl (if errors_is e PgErrNoRows then Sentinel CodesErrNotFound
                else Wrap ''resolving slug'' e), d1)
      | (Inr r, d1) \<Rightarrow> (Inr r, d1))"

definition repo_InsertScanEvent :: "pg_env \<Rightarrow> scan_event \<Rightarrow> (db, scan_event) act" where
  "repo_InsertScanEvent E e d =
     (case run_stmt E (with_text [Some (scan_Slug e), scan_IPHash e, scan_UserAgent e] (insert_scan_stmt E e)) d of
        (Inl x, d1) \<Rightarrow> (Inl (Wrap ''inserting scan event'' x), d1)
      | (Inr (i, t), d1) \<Rightarrow> (Inr (e\<lparr>scan_ID := i, scan_ScannedAt := t\<rparr>), d1))"

definition repo_ScanCounts :: "pg_env \<Rightarrow> string \<Rightarrow> (db, nat \<times> nat) act" where
  "repo_ScanCounts E slug d =
     (case run_stmt E (with_text [Some slug] (\<lambda>n d. (Inr (select_counts slug d), d))) d of
        (Inl e, d1) \<Rightarrow> (Inl (Wrap ''counting scans'' e), d1)
      | (Inr r, d1) \<Rightarrow> (Inr r, d1))"

definition text_query :: "string \<Rightarrow> 'a list \<Rightarrow> err + 'a list" where
  "text_query slug rs = (if pg_text slug then Inr rs else Inl (PgError invalid_encoding))"

definition repo_ScanDaily :: "pg_env \<Rightarrow> string \<Rightarrow> (db, day_count list) act" where
  "repo_ScanDaily E slug =
     run_query E (\<lambda>d. text_query slug (select_daily slug d)) ''querying daily scans'' ''iterating daily scans''"

definition repo_ScanTopUserAgents :: "pg_env \<Rightarrow> string \<Rightarrow> nat \<Rightarrow> (db, user_agent_count list) act" where
  "repo_ScanTopUserAgents E slug limit =
     run_query E (\<lambda>d. text_query slug (select_top_agents E slug limit d))
       ''querying top user agents'' ''iterating user agents''"

subsection \<open>The join as a map from code ids to codes\<close>

text \<open>
  Under the keys of the schema the join has one row per code, so the tables amount to a map from
  ids to codes (\<open>code_view\<close>) and one from slugs to their rows of \<open>dynamic_codes\<close>.
\<close>

definition join_row :: "dyn_row list \<Rightarrow> code_row \<Rightarrow> code_row \<times> dyn_row option" where
  "join_row ds c = (c, lookup dr_code_id ds (cr_id c))"

definition code_view :: "db \<Rightarrow> uuid \<Rightarrow> code option" where
  "code_view d i = map_option (\<lambda>c. scanCode (join_row (t_dyn d) c)) (lookup cr_id (t_codes d) i)"

definition slug_view :: "db \<Rightarrow> string \<Rightarrow> (string \<times> uuid) option" where
  "slug_view d s = map_option (\<lambda>r. (dr_destination r, dr_code_id r)) (lookup dr_slug (t_dyn d) s)"

lemma db_okD:
  assumes "db_ok E d"
  shows db_ok_users: "users_ok E (t_users d)"
    and db_ok_codes: "codes_ok (t_users d) (t_codes d)"
    and db_ok_dyn: "dyn_ok (t_codes d) (t_dyn d)"
    and db_ok_marks: "marks_ok (t_codes d) (t_dyn d)"
    and db_ok_scans: "distinct (map scan_ID (t_scans d))"
    and db_ok_texts: "dyn_texts (t_dyn d)"
  using assms by (simp_all add: db_ok_iff)

lemma codes_ok_distinct: "codes_ok us cs \<Longrightarrow> distinct (map cr_id cs)"
  and codes_ok_owner: "codes_ok us cs \<Longrightarrow> c \<in> set cs \<Longrightarrow> cr_user_id c \<in> user_ID ` set us"
  and codes_ok_type: "codes_ok us cs \<Longrightarrow> c \<in> set cs \<Longrightarrow> cr_type c \<in> set code_types"
  by (auto simp: codes_ok_def)

lemma dyn_ok_distinct: "dyn_ok cs ds \<Longrightarrow> distinct (map dr_code_id ds)"
  and dyn_ok_slugs: "dyn_ok cs ds \<Longrightarrow> distinct (map dr_slug ds)"
  and dyn_ok_code: "dyn_ok cs ds \<Longrightarrow> r \<in> set ds \<Longrightarrow> dr_code_id r \<in> cr_id ` set cs"
  by (auto simp: dyn_ok_def)

lemma marks_okD:
  "marks_ok cs ds \<Longrightarrow> c \<in> set cs \<Longrightarrow> cr_is_dynamic c \<longleftrightarrow> cr_id c \<in> dr_code_id ` set ds"
  "marks_ok cs ds \<Longrightarrow> c \<in> set cs \<Longrightarrow> cr_is_dynamic c \<Longrightarrow> cr_type c = TypeURL"
  by (auto simp: marks_ok_def)

lemma left_join_rows:
  assumes "dyn_ok cs (t_dyn d)"
  shows "left_join d = map (join_row (t_dyn d)) (t_codes d)"
proof -
  have "(case dyn_of (t_dyn d) (cr_id c) of [] \<Rightarrow> [(c, None)] | rs \<Rightarrow> map (\<lambda>r. (c, Some r)) rs) =
      [join_row (t_dyn d) c]" for c
    by (simp add: dyn_of_def lookup_filter_key [OF dyn_ok_distinct [OF assms]] join_row_def
        split: option.split)
  then show ?thesis by (simp add: left_join_def concat_map_singleton)
qed

lemma fst_join_row [simp]: "fst (join_row ds c) = c"
  by (simp add: join_row_def)

lemma scanCode_join [simp]:
  "code_ID (scanCode (join_row ds c)) = cr_id c"
  "code_UserID (scanCode (join_row ds c)) = cr_user_id c"
  "code_Type (scanCode (join_row ds c)) = cr_type c"
  "code_Payload (scanCode (join_row ds c)) = cr_payload c"
  "code_IsDynamic (scanCode (join_row ds c)) = cr_is_dynamic c"
  "code_Label (scanCode (join_row ds c)) = cr_label c"
  "code_CreatedAt (scanCode (join_row ds c)) = cr_created_at c"
  "code_UpdatedAt (scanCode (join_row ds c)) = cr_updated_at c"
  by (simp_all add: scanCode_def join_row_def)

lemma code_view_ID: "code_view d i = Some c \<Longrightarrow> code_ID c = i"
  by (auto simp: code_view_def dest: lookup_SomeD)

lemma code_view_tick [simp]: "code_view (d\<lparr>pg_tick := n\<rparr>) = code_view d"
  by (simp add: code_view_def fun_eq_iff)

lemma slug_view_tick [simp]: "slug_view (d\<lparr>pg_tick := n\<rparr>) = slug_view d"
  by (simp add: slug_view_def fun_eq_iff)

text \<open>What a select by id and owner finds.\<close>

lemma filter_key_and: "filter (\<lambda>x. f x = k \<and> P x) xs = filter P (filter (\<lambda>x. f x = k) xs)"
  by (induction xs) auto

lemma select_code_view:
  assumes "db_ok E d"
  shows "select_code u i d =
    (case lookup cr_id (t_codes d) i of
       None \<Rightarrow> Inl (Sentinel PgErrNoRows)
     | Some c \<Rightarrow> if cr_user_id c = u then Inr (join_row (t_dyn d) c) else Inl (Sentinel PgErrNoRows))"
proof -
  have "filter (\<lambda>(c, _). cr_id c = i \<and> cr_user_id c = u) (left_join d) =
      map (join_row (t_dyn d)) (filter (\<lambda>c. cr_id c = i \<and> cr_user_id c = u) (t_codes d))"
    using left_join_rows [OF db_ok_dyn [OF assms]]
    by (simp add: filter_map comp_def case_prod_unfold)
  then show ?thesis
    by (simp add: select_code_def filter_key_and split: option.split
        add: lookup_filter_key [where f = cr_id, OF codes_ok_distinct [OF db_ok_codes [OF assms]]])
qed

text \<open>
  A statement that only reads runs in three ways; \<open>stmt_read\<close> is its result, the next statement
  number apart.
\<close>

definition stmt_read :: "pg_env \<Rightarrow> db \<Rightarrow> (err + 'a) \<Rightarrow> err + 'a" where
  "stmt_read E d r =
     (case pg_out E (pg_tick d) of Done \<Rightarrow> r | LostBefore e \<Rightarrow> Inl e | LostAfter e \<Rightarrow> Inl e)"

definition next_stmt :: "db \<Rightarrow> db" where
  "next_stmt d = d\<lparr>pg_tick := Suc (pg_tick d)\<rparr>"

lemma run_read:
  "(\<And>d n. q (d\<lparr>pg_tick := n\<rparr>) = q d) \<Longrightarrow> run_stmt E (\<lambda>n d. (q d, d)) d = (stmt_read E d (q d), next_stmt d)"
  by (simp add: run_stmt_def stmt_read_def next_stmt_def Let_def split: pg_outcome.split)

lemma run_refuse: "run_stmt E (refuse code) d = (stmt_read E d (Inl (PgError code)), next_stmt d)"
  by (simp add: run_stmt_def stmt_read_def next_stmt_def refuse_def Let_def split: pg_outcome.split)

lemma next_stmt_simps [simp]:
  "t_users (next_stmt d) = t_users d" "t_codes (next_stmt d) = t_codes d"
  "t_dyn (next_stmt d) = t_dyn d" "t_scans (next_stmt d) = t_scans d"
  "pg_tick (next_stmt d) = Suc (pg_tick d)" "db_ok E (next_stmt d) = db_ok E d"
  "code_view (next_stmt d) = code_view d" "slug_view (next_stmt d) = slug_view d"
  "same_tables d (next_stmt d)"
  by (simp_all add: next_stmt_def same_tables_def)

lemma select_code_tick [simp]: "select_code u i (d\<lparr>pg_tick := n\<rparr>) = select_code u i d"
  by (simp add: select_code_def left_join_def)

definition owned :: "uuid \<Rightarrow> code option \<Rightarrow> code option" where
  "owned u c = (case c of Some c \<Rightarrow> if code_UserID c = u then Some c else None | None \<Rightarrow> None)"

definition scan_err :: "string \<Rightarrow> err \<Rightarrow> err" where
  "scan_err msg e = (if errors_is e PgErrNoRows then Sentinel CodesErrNotFound else Wrap msg e)"

lemma repo_GetByID_eq:
  assumes "db_ok E d"
  shows "repo_GetByID E u i d =
    (map_sum (scan_err ''scanning code'') id
       (stmt_read E d (case owned u (code_view d i) of
          None \<Rightarrow> Inl (Sentinel PgErrNoRows) | Some c \<Rightarrow> Inr c)), next_stmt d)"
  by (simp add: repo_GetByID_def run_read select_code_view [OF assms] code_view_def owned_def scan_err_def
      stmt_read_def split: pg_outcome.split option.split)

subsection \<open>Integrity under changes of rows\<close>

lemma codes_ok_snoc:
  "codes_ok us cs \<Longrightarrow> cr_id c \<notin> cr_id ` set cs \<Longrightarrow> cr_user_id c \<in> user_ID ` set us \<Longrightarrow>
   cr_type c \<in> set code_types \<Longrightarrow> codes_ok us (cs @ [c])"
  by (auto simp: codes_ok_def)

lemma dyn_ok_more_codes: "dyn_ok cs ds \<Longrightarrow> cr_id ` set cs \<subseteq> cr_id ` set cs' \<Longrightarrow> dyn_ok cs' ds"
  unfolding dyn_ok_def by (meson order_trans)

lemma dyn_ok_snoc:
  "dyn_ok cs ds \<Longrightarrow> dr_code_id r \<notin> dr_code_id ` set ds \<Longrightarrow> dr_slug r \<notin> dr_slug ` set ds \<Longrightarrow>
   dr_code_id r \<in> cr_id ` set cs \<Longrightarrow> dyn_ok cs (ds @ [r])"
  by (auto simp: dyn_ok_def)

lemma marks_ok_snoc_static:
  assumes "marks_ok cs ds" "dyn_ok cs ds" "cr_id c \<notin> cr_id ` set cs" "\<not> cr_is_dynamic c"
  shows "marks_ok (cs @ [c]) ds"
proof -
  have "cr_id c \<notin> dr_code_id ` set ds" using assms(2,3) by (auto dest: dyn_ok_code)
  with assms(1,4) show ?thesis by (simp add: marks_ok_def)
qed

lemma marks_ok_snoc_dynamic:
  assumes "marks_ok cs ds" "cr_id c \<notin> cr_id ` set cs" "cr_is_dynamic c"
    "cr_type c = TypeURL" "dr_code_id r = cr_id c"
  shows "marks_ok (cs @ [c]) (ds @ [r])"
proof -
  have "cr_id x \<noteq> cr_id c" if "x \<in> set cs" for x using that assms(2) by (metis imageI)
  with assms(1,3-5) show ?thesis by (simp add: marks_ok_def)
qed

lemma codes_ok_map:
  assumes "\<And>c. cr_id (g c) = cr_id c" "\<And>c. cr_user_id (g c) = cr_user_id c" "\<And>c. cr_type (g c) = cr_type c"
  shows "codes_ok us (map g cs) = codes_ok us cs"
  using assms by (simp add: codes_ok_def comp_def image_image)

lemma dyn_ok_map:
  assumes "\<And>r. dr_code_id (g r) = dr_code_id r" "\<And>r. dr_slug (g r) = dr_slug r"
  shows "dyn_ok cs (map g ds) = dyn_ok cs ds"
  using assms by (simp add: dyn_ok_def comp_def image_image)

lemma dyn_ok_map_codes:
  "(\<And>c. cr_id (g c) = cr_id c) \<Longrightarrow> dyn_ok (map g cs) ds = dyn_ok cs ds"
  by (simp add: dyn_ok_def image_image)

lemma marks_ok_map:
  assumes "\<And>c. cr_id (g c) = cr_id c" "\<And>c. cr_is_dynamic (g c) = cr_is_dynamic c" "\<And>c. cr_type (g c) = cr_type c"
    "\<And>r. dr_code_id (h r) = dr_code_id r"
  shows "marks_ok (map g cs) (map h ds) = marks_ok cs ds"
  using assms by (simp add: marks_ok_def image_image)

lemma codes_ok_filter: "codes_ok us cs \<Longrightarrow> codes_ok us (filter P cs)"
  by (auto simp: codes_ok_def)

lemma dyn_ok_delete:
  assumes "dyn_ok cs ds"
  shows "dyn_ok (filter (\<lambda>c. \<not> P c) cs) (filter (\<lambda>r. dr_code_id r \<notin> cr_id ` set (filter P cs)) ds)"
proof -
  have "dr_code_id r \<in> cr_id ` set (filter (\<lambda>c. \<not> P c) cs)"
    if "r \<in> set ds" "dr_code_id r \<notin> cr_id ` set (filter P cs)" for r
    using dyn_ok_code [OF assms that(1)] that(2) by auto
  with assms show ?thesis by (auto simp: dyn_ok_def)
qed

lemma marks_ok_delete:
  assumes "marks_ok cs ds" "distinct (map cr_id cs)"
  shows "marks_ok (filter (\<lambda>c. \<not> P c) cs) (filter (\<lambda>r. dr_code_id r \<notin> cr_id ` set (filter P cs)) ds)"
proof -
  have *: "cr_id c \<notin> cr_id ` set (filter P cs)" if "c \<in> set cs" "\<not> P c" for c
    using distinct_map_eqD [OF assms(2)] that by auto
  have "k \<in> dr_code_id ` set (filter (\<lambda>r. dr_code_id r \<notin> K) ds) \<longleftrightarrow> k \<in> dr_code_id ` set ds - K" for k K
    by auto
  note kept = this
  show ?thesis unfolding marks_ok_def
  proof (intro ballI)
    fix c assume "c \<in> set (filter (\<lambda>c. \<not> P c) cs)"
    then have "c \<in> set cs" "\<not> P c" by simp_all
    with * marks_okD [OF assms(1)]
    show "(cr_is_dynamic c \<longleftrightarrow> cr_id c \<in> dr_code_id `
             set (filter (\<lambda>r. dr_code_id r \<notin> cr_id ` set (filter P cs)) ds)) \<and>
          (cr_is_dynamic c \<longrightarrow> cr_type c = TypeURL)"
      unfolding kept by blast
  qed
qed

lemma list_ex_key: "list_ex (\<lambda>r. f r = k) xs \<longleftrightarrow> k \<in> f ` set xs"
  by (auto simp: list_ex_iff)

text \<open>What the inserting statements do.\<close>

lemma insert_code_eq:
  "insert_code_stmt E c dynamic now n d =
     (case pg_jsonb E (code_Payload c) of
        None \<Rightarrow> (Inl (PgError invalid_text), d)
      | Some p \<Rightarrow>
          if code_Type c \<notin> set code_types then (Inl (PgError check_violation), d)
          else if pg_uuid E n \<in> cr_id ` set (t_codes d) then (Inl (PgError unique_violation), d)
          else if code_UserID c \<notin> user_ID ` set (t_users d) then (Inl (PgError foreign_key_violation), d)
          else (Inr (pg_uuid E n, now, now),
                d\<lparr>t_codes := t_codes d @ [row_of_code c dynamic p (pg_uuid E n) now]\<rparr>))"
  by (simp add: insert_code_stmt_def Let_def list_ex_key split: option.split)

lemma insert_code_cases:
  assumes "insert_code_stmt E c dynamic now n d = (r, d')"
  obtains (refused) e where "r = Inl e" "d' = d"
  | (inserted) p where "r = Inr (pg_uuid E n, now, now)" "pg_jsonb E (code_Payload c) = Some p"
      "code_Type c \<in> set code_types" "pg_uuid E n \<notin> cr_id ` set (t_codes d)"
      "code_UserID c \<in> user_ID ` set (t_users d)"
      "d' = d\<lparr>t_codes := t_codes d @ [row_of_code c dynamic p (pg_uuid E n) now]\<rparr>"
proof -
  have "(\<exists>e. r = Inl e \<and> d' = d) \<or>
    (\<exists>p. r = Inr (pg_uuid E n, now, now) \<and> pg_jsonb E (code_Payload c) = Some p \<and>
       code_Type c \<in> set code_types \<and> pg_uuid E n \<notin> cr_id ` set (t_codes d) \<and>
       code_UserID c \<in> user_ID ` set (t_users d) \<and>
       d' = d\<lparr>t_codes := t_codes d @ [row_of_code c dynamic p (pg_uuid E n) now]\<rparr>)"
    using assms unfolding insert_code_eq by (auto split: option.splits if_splits)
  with refused inserted show thesis by blast
qed

lemma insert_dyn_eq:
  "insert_dyn_stmt i slug destination now n d =
     (if i \<in> dr_code_id ` set (t_dyn d) \<or> slug \<in> dr_slug ` set (t_dyn d)
      then (Inl (PgError unique_violation), d)
      else if i \<notin> cr_id ` set (t_codes d) then (Inl (PgError foreign_key_violation), d)
      else (Inr now, d\<lparr>t_dyn := t_dyn d @
         [\<lparr>dr_code_id = i, dr_slug = slug, dr_destination = destination, dr_updated_at = now\<rparr>]\<rparr>))"
proof -
  have "list_ex (\<lambda>r. dr_code_id r = i \<or> dr_slug r = slug) (t_dyn d) \<longleftrightarrow>
      i \<in> dr_code_id ` set (t_dyn d) \<or> slug \<in> dr_slug ` set (t_dyn d)"
    unfolding list_ex_iff by blast
  then show ?thesis by (simp add: insert_dyn_stmt_def list_ex_key)
qed

lemma insert_dyn_cases:
  assumes "insert_dyn_stmt i slug destination now n d = (r, d')"
  obtains (refused) e where "r = Inl e" "d' = d"
  | (inserted) "r = Inr now" "i \<notin> dr_code_id ` set (t_dyn d)" "slug \<notin> dr_slug ` set (t_dyn d)"
      "i \<in> cr_id ` set (t_codes d)"
      "d' = d\<lparr>t_dyn := t_dyn d @
         [\<lparr>dr_code_id = i, dr_slug = slug, dr_destination = destination, dr_updated_at = now\<rparr>]\<rparr>"
proof -
  have "(\<exists>e. r = Inl e \<and> d' = d) \<or>
    (r = Inr now \<and> i \<notin> dr_code_id ` set (t_dyn d) \<and> slug \<notin> dr_slug ` set (t_dyn d) \<and>
       i \<in> cr_id ` set (t_codes d) \<and>
       d' = d\<lparr>t_dyn := t_dyn d @
         [\<lparr>dr_code_id = i, dr_slug = slug, dr_destination = destination, dr_updated_at = now\<rparr>]\<rparr>)"
    using assms unfolding insert_dyn_eq by (simp split: if_splits) blast+
  with refused inserted show thesis by blast
qed

lemma row_of_code_simps [simp]:
  "cr_id (row_of_code c b p i t) = i" "cr_user_id (row_of_code c b p i t) = code_UserID c"
  "cr_type (row_of_code c b p i t) = code_Type c" "cr_is_dynamic (row_of_code c b p i t) = b"
  by (simp_all add: row_of_code_def)

subsection \<open>What the inserting methods do\<close>

lemma map_le_upd_fresh: "m k = None \<Longrightarrow> m \<subseteq>\<^sub>m m(k \<mapsto> v)"
  by (auto simp: map_le_def)

lemma code_view_None: "code_view d i = None \<longleftrightarrow> i \<notin> cr_id ` set (t_codes d)"
  by (simp add: code_view_def lookup_None_iff)

lemma slug_view_None: "slug_view d s = None \<longleftrightarrow> s \<notin> dr_slug ` set (t_dyn d)"
  by (simp add: slug_view_def lookup_None_iff)

text \<open>The code a row stands for when it is first inserted.\<close>

definition stored :: "code \<Rightarrow> string \<Rightarrow> code" where
  "stored c p = c\<lparr>code_Payload := p\<rparr>"

lemma code_view_snoc_code:
  assumes "cr_id r \<notin> cr_id ` set (t_codes d)"
  shows "code_view (d\<lparr>t_codes := t_codes d @ [r]\<rparr>) =
    (code_view d)(cr_id r \<mapsto> scanCode (join_row (t_dyn d) r))"
  using lookup_snoc [OF assms] by (simp add: code_view_def fun_eq_iff)

lemma slug_view_same: "t_dyn d' = t_dyn d \<Longrightarrow> slug_view d' = slug_view d"
  by (simp add: slug_view_def fun_eq_iff)

lemma code_view_same: "t_codes d' = t_codes d \<Longrightarrow> t_dyn d' = t_dyn d \<Longrightarrow> code_view d' = code_view d"
  by (simp add: code_view_def fun_eq_iff)

lemma insert_static_view:
  assumes ok: "db_ok E d" and c: "\<not> code_IsDynamic c" "code_Dynamic c = None"
    and run: "insert_code_stmt E c (code_IsDynamic c) now n d = (r, d')"
  shows "db_ok E d' \<and> slug_view d' = slug_view d \<and>
    (case r of
       Inl e \<Rightarrow> d' = d
     | Inr (i, a, b) \<Rightarrow> code_view d i = None \<and> (\<exists>p. pg_jsonb E (code_Payload c) = Some p \<and>
         code_view d' = (code_view d)(i \<mapsto>
           stored (c\<lparr>code_ID := i, code_CreatedAt := a, code_UpdatedAt := b\<rparr>) p)))"
  using run
proof (cases rule: insert_code_cases)
  case (refused e)
  with ok show ?thesis by simp
next
  case (inserted p)
  let ?i = "pg_uuid E n" and ?r = "row_of_code c (code_IsDynamic c) p (pg_uuid E n) now"
  have "?i \<notin> dr_code_id ` set (t_dyn d)"
    using inserted(4) db_ok_dyn [OF ok] by (auto dest: dyn_ok_code)
  then have dyn: "lookup dr_code_id (t_dyn d) ?i = None" by (simp add: lookup_None_iff)
  have row: "scanCode (join_row (t_dyn d) ?r) =
      stored (c\<lparr>code_ID := ?i, code_CreatedAt := now, code_UpdatedAt := now\<rparr>) p"
    using dyn c by (simp add: scanCode_def join_row_def row_of_code_def stored_def)
  have "codes_ok (t_users d) (t_codes d @ [?r])"
    using db_ok_codes [OF ok] inserted by (intro codes_ok_snoc) simp_all
  moreover have "dyn_ok (t_codes d @ [?r]) (t_dyn d)"
    by (rule dyn_ok_more_codes [OF db_ok_dyn [OF ok]]) auto
  moreover have "marks_ok (t_codes d @ [?r]) (t_dyn d)"
    using db_ok_marks [OF ok] db_ok_dyn [OF ok] inserted(4) c by (intro marks_ok_snoc_static) simp_all
  ultimately have "db_ok E d'" unfolding inserted(6) by (rule db_ok_upd_codes [OF ok])
  moreover have "code_view d' = (code_view d)(?i \<mapsto> scanCode (join_row (t_dyn d) ?r))"
    unfolding inserted(6) using inserted(4) by (subst code_view_snoc_code) simp_all
  ultimately show ?thesis
    using inserted(1,2,4) row unfolding inserted(6) by (simp add: code_view_None slug_view_def fun_eq_iff)
qed

text \<open>
  The result of \<open>Create\<close>: the code it returns has a new id and is what the tables hold, except that
  Postgres normalised the payload. After an error the codes are those before it, or the
  connection was lost once the code was in.
\<close>

definition pg_error :: "pg_env \<Rightarrow> nat \<Rightarrow> err option" where
  "pg_error E n = (case pg_out E n of Done \<Rightarrow> None | LostBefore e \<Rightarrow> Some e | LostAfter e \<Rightarrow> Some e)"

definition static_result :: "code \<Rightarrow> uuid \<Rightarrow> instant \<Rightarrow> instant \<Rightarrow> code" where
  "static_result c i a b = c\<lparr>code_ID := i, code_CreatedAt := a, code_UpdatedAt := b\<rparr>"

definition static_added ::
  "(string \<Rightarrow> string option) \<Rightarrow> (uuid \<Rightarrow> code option) \<Rightarrow> code \<Rightarrow> code \<Rightarrow> (uuid \<Rightarrow> code option) \<Rightarrow> bool" where
  "static_added norm v c c' v' \<longleftrightarrow>
     (\<exists>p i a b. norm (code_Payload c) = Some p \<and> c' = static_result c i a b \<and>
        v i = None \<and> v' = v(i \<mapsto> stored c' p))"

lemma static_addedI:
  "norm (code_Payload c) = Some p \<Longrightarrow> v i = None \<Longrightarrow>
   static_added norm v c (static_result c i a b) (v(i \<mapsto> stored (static_result c i a b) p))"
  unfolding static_added_def by blast

lemma repo_Create_spec:
  assumes ok: "db_ok E d" and c: "\<not> code_IsDynamic c" "code_Dynamic c = None"
    and run: "repo_Create E c d = (r, d')"
  shows "db_ok E d' \<and> slug_view d' = slug_view d \<and> t_scans d' = t_scans d \<and>
    (case r of
       Inr c' \<Rightarrow> static_added (pg_jsonb E) (code_view d) c c' (code_view d')
     | Inl e \<Rightarrow> code_view d' = code_view d \<or>
         (\<exists>c'. static_added (pg_jsonb E) (code_view d) c c' (code_view d')))"
proof -
  let ?n = "pg_tick d" and ?d = "next_stmt d"
  let ?st = "\<lambda>n. insert_code_stmt E c (code_IsDynamic c) (pg_now E n) n"
  obtain x d2 where x: "with_text (code_texts c) ?st ?n ?d = (x, d2)"
    by (rule prod.exhaust)
  have ok': "db_ok E ?d" using ok by simp
  have spec: "db_ok E d2 \<and> slug_view d2 = slug_view d \<and> t_scans d2 = t_scans d \<and>
    (case x of
       Inl e \<Rightarrow> d2 = ?d
     | Inr (i, a, b) \<Rightarrow> static_added (pg_jsonb E) (code_view d) c (static_result c i a b) (code_view d2))"
  proof (cases "texts_ok (code_texts c)")
    case True
    then have run1: "insert_code_stmt E c (code_IsDynamic c) (pg_now E ?n) ?n ?d = (x, d2)" using x by simp
    then have "t_scans d2 = t_scans d" by (cases rule: insert_code_cases) simp_all
    with insert_static_view [OF ok' c run1] show ?thesis
      by (auto simp: static_result_def [symmetric] intro: static_addedI split: sum.splits)
  next
    case False
    with x ok' show ?thesis by (auto simp: refuse_def)
  qed
  then show ?thesis
    using run ok x
    by (cases x; cases "pg_out E ?n")
      (auto simp: repo_Create_def run_stmt_def Let_def next_stmt_def static_result_def [symmetric] split: prod.splits)
qed

lemma repo_Create_db_ok [inv_intros]:
  "db_ok E d \<Longrightarrow> \<not> code_IsDynamic c \<Longrightarrow> code_Dynamic c = None \<Longrightarrow> db_ok E (snd (repo_Create E c d))"
  using repo_Create_spec [of E d c] by (cases "repo_Create E c d") simp

text \<open>
  Errors that Postgres or the connection raise by themselves: none of the program's sentinels, and
  not a unique violation, which only a statement raises.
\<close>

definition foreign_err :: "err \<Rightarrow> bool" where
  "foreign_err e \<longleftrightarrow> (\<forall>s. \<not> errors_is e s) \<and> errors_as_pg e \<noteq> Some unique_violation"

definition pg_ok :: "pg_env \<Rightarrow> bool" where
  "pg_ok E \<longleftrightarrow> (\<forall>n e. pg_error E n = Some e \<longrightarrow> foreign_err e)"

lemma pg_okD: "pg_ok E \<Longrightarrow> pg_error E n = Some e \<Longrightarrow> foreign_err e"
  by (simp add: pg_ok_def)

lemma foreign_errD: "foreign_err e \<Longrightarrow> \<not> errors_is e s" "foreign_err e \<Longrightarrow> \<not> isUniqueViolation e"
  by (simp_all add: foreign_err_def isUniqueViolation_def)

lemma rollback_to_tables: "same_tables d0 (rollback_to d0 d)" "db_ok E (rollback_to d0 d) = db_ok E d0"
  by (simp_all add: rollback_to_def same_tables_def)

lemma same_tables_views:
  "same_tables d d' \<Longrightarrow> code_view d' = code_view d"
  "same_tables d d' \<Longrightarrow> slug_view d' = slug_view d"
  "same_tables d d' \<Longrightarrow> db_ok E d' = db_ok E d"
  by (simp_all add: same_tables_iff code_view_def slug_view_def fun_eq_iff db_ok_iff)

lemma same_tables_trans: "same_tables d d' \<Longrightarrow> same_tables d' d'' \<Longrightarrow> same_tables d d''"
  by (simp add: same_tables_iff)

lemma same_tables_refl [simp]: "same_tables d d" "same_tables d (d\<lparr>pg_tick := n\<rparr>)"
  by (simp_all add: same_tables_iff)

text \<open>A code inserted with its \<open>dynamic_codes\<close> row, as the transaction of \<open>CreateDynamic\<close> does.\<close>

definition dynamic_result :: "code \<Rightarrow> uuid \<Rightarrow> string \<Rightarrow> string \<Rightarrow> instant \<Rightarrow> code" where
  "dynamic_result c i slug dest now =
     c\<lparr>code_ID := i, code_CreatedAt := now, code_UpdatedAt := now, code_IsDynamic := True,
       code_Dynamic := Some \<lparr>dyn_CodeID = i, dyn_Slug = slug, dyn_Destination = dest, dyn_UpdatedAt = now\<rparr>\<rparr>"

lemma insert_dynamic_view:
  assumes ok: "db_ok E d" and url: "code_Type c = TypeURL"
    and p: "pg_jsonb E (code_Payload c) = Some p" "i \<notin> cr_id ` set (t_codes d)"
      "code_UserID c \<in> user_ID ` set (t_users d)" "slug \<notin> dr_slug ` set (t_dyn d)"
    and texts: "pg_text slug" "pg_text dest"
    and d': "t_users d' = t_users d" "t_codes d' = t_codes d @ [row_of_code c True p i now]"
      "t_dyn d' = t_dyn d @ [\<lparr>dr_code_id = i, dr_slug = slug, dr_destination = dest, dr_updated_at = now\<rparr>]"
      "t_scans d' = t_scans d"
  shows "db_ok E d' \<and> code_view d' = (code_view d)(i \<mapsto> stored (dynamic_result c i slug dest now) p) \<and>
    slug_view d' = (slug_view d)(slug \<mapsto> (dest, i))"
proof -
  let ?r = "row_of_code c True p i now"
  let ?s = "\<lparr>dr_code_id = i, dr_slug = slug, dr_destination = dest, dr_updated_at = now\<rparr>"
  have fresh: "i \<notin> dr_code_id ` set (t_dyn d)"
    using p(2) db_ok_dyn [OF ok] by (auto dest: dyn_ok_code)
  have "TypeURL \<in> set code_types" by (simp add: TypeURL_def code_types_def)
  then have "codes_ok (t_users d') (t_codes d')"
    unfolding d' using db_ok_codes [OF ok] p url by (intro codes_ok_snoc) simp_all
  moreover have "dyn_ok (t_codes d') (t_dyn d @ [?s])"
    unfolding d' using db_ok_dyn [OF ok] fresh p(4)
    by (intro dyn_ok_snoc dyn_ok_more_codes [OF db_ok_dyn [OF ok]]) auto
  moreover have "marks_ok (t_codes d') (t_dyn d @ [?s])"
    unfolding d' using db_ok_marks [OF ok] p(2) url by (intro marks_ok_snoc_dynamic) simp_all
  moreover have dl: "lookup dr_code_id (t_dyn d') = (lookup dr_code_id (t_dyn d))(i \<mapsto> ?s)"
    unfolding d' using lookup_snoc [of dr_code_id ?s "t_dyn d"] fresh by simp
  have old: "lookup cr_id (t_codes d) k = Some x \<Longrightarrow> cr_id x \<noteq> i" for k x
    using p(2) by (auto dest!: lookup_SomeD)
  have "lookup cr_id (t_codes d') = (lookup cr_id (t_codes d))(i \<mapsto> ?r)"
    unfolding d' using lookup_snoc [of cr_id ?r "t_codes d"] p(2) by simp
  then have "code_view d' = (code_view d)(i \<mapsto> scanCode (?r, Some ?s))"
    using old by (auto simp: code_view_def fun_eq_iff join_row_def dl
        intro!: option.map_cong0 dest: lookup_SomeD)
  moreover have "scanCode (?r, Some ?s) = stored (dynamic_result c i slug dest now) p"
    by (simp add: scanCode_def row_of_code_def stored_def dynamic_result_def)
  moreover have "slug_view d' = (slug_view d)(slug \<mapsto> (dest, i))"
    unfolding d' slug_view_def using lookup_snoc [of dr_slug ?s "t_dyn d"] p(4) by (simp add: fun_eq_iff d')
  moreover have "dyn_texts (t_dyn d')"
    using db_ok_texts [OF ok] texts by (simp add: dyn_texts_def d')
  ultimately show ?thesis
    using db_ok_users [OF ok] db_ok_scans [OF ok] by (simp add: db_ok_iff d')
qed

text \<open>One dynamic code with its slug, added to the two maps.\<close>

definition dynamic_added ::
  "(string \<Rightarrow> string option) \<Rightarrow> (uuid \<Rightarrow> code option) \<Rightarrow> (string \<Rightarrow> (string \<times> uuid) option) \<Rightarrow>
   code \<Rightarrow> string \<Rightarrow> string \<Rightarrow> code \<Rightarrow> (uuid \<Rightarrow> code option) \<Rightarrow> (string \<Rightarrow> (string \<times> uuid) option) \<Rightarrow> bool" where
  "dynamic_added norm v sv c slug dest c' v' sv' \<longleftrightarrow>
     (\<exists>p i now. norm (code_Payload c) = Some p \<and> c' = dynamic_result c i slug dest now \<and>
        v i = None \<and> sv slug = None \<and> v' = v(i \<mapsto> stored c' p) \<and> sv' = sv(slug \<mapsto> (dest, i)))"

definition created_dynamic :: "pg_env \<Rightarrow> db \<Rightarrow> code \<Rightarrow> string \<Rightarrow> string \<Rightarrow> code \<Rightarrow> db \<Rightarrow> bool" where
  "created_dynamic E d c slug dest c' d' \<longleftrightarrow>
     t_scans d' = t_scans d \<and>
     dynamic_added (pg_jsonb E) (code_view d) (slug_view d) c slug dest c' (code_view d') (slug_view d')"

definition same_input :: "code \<Rightarrow> code \<Rightarrow> bool" where
  "same_input c c' \<longleftrightarrow>
     code_UserID c' = code_UserID c \<and> code_Type c' = code_Type c \<and>
     code_Payload c' = code_Payload c \<and> code_Label c' = code_Label c"

lemma same_input_refl [simp]: "same_input c c"
  by (simp add: same_input_def)

lemma dynamic_result_input: "same_input c0 c \<Longrightarrow> dynamic_result c i slug dest t = dynamic_result c0 i slug dest t"
  by (cases c; cases c0) (simp add: dynamic_result_def same_input_def)

lemma created_dynamic_input:
  "same_input c0 c \<Longrightarrow> created_dynamic E d c slug dest c' d' = created_dynamic E d c0 slug dest c' d'"
  using dynamic_result_input [of c0 c] by (simp add: created_dynamic_def dynamic_added_def same_input_def)

text \<open>The three statements of the transaction, when they all run.\<close>

lemma run_stmt_cases:
  assumes "run_stmt E st d = (r, d')"
  obtains (ok) "pg_error E (pg_tick d) = None" "st (pg_tick d) (next_stmt d) = (r, d')"
  | (before) e where "pg_error E (pg_tick d) = Some e" "r = Inl e" "d' = next_stmt d"
  | (after) e where "pg_error E (pg_tick d) = Some e" "r = Inl e" "d' = snd (st (pg_tick d) (next_stmt d))"
  using assms by (auto simp: run_stmt_def Let_def pg_error_def next_stmt_def split: pg_outcome.splits)

lemma run_stmt_error:
  "run_stmt E st d = (Inl e, d') \<Longrightarrow>
   pg_error E (pg_tick d) = Some e \<or> pg_error E (pg_tick d) = None \<and> fst (st (pg_tick d) (next_stmt d)) = Inl e"
  by (erule run_stmt_cases) auto

text \<open>A statement with text parameters runs if they are valid, and otherwise changes nothing.\<close>

lemma run_with_text_Inr:
  "run_stmt E (with_text ts st) d = (Inr x, d') \<Longrightarrow> texts_ok ts \<and> run_stmt E st d = (Inr x, d')"
  by (auto simp: with_text_def refuse_def run_stmt_Inr split: if_splits)

lemma run_with_text_Inl:
  assumes "run_stmt E (with_text ts st) d = (Inl e :: err + 'a, d')"
  obtains (ran) "texts_ok ts" "run_stmt E st d = (Inl e, d')"
  | (refused) "\<not> texts_ok ts" "pg_error E (pg_tick d) = Some e \<or> e = PgError invalid_encoding" "d' = next_stmt d"
proof (cases "texts_ok ts")
  case True
  with assms show thesis by (intro ran) simp_all
next
  case False
  with assms have "(stmt_read E d (Inl (PgError invalid_encoding) :: err + 'a), next_stmt d) = (Inl e, d')"
    by (simp add: run_refuse)
  with False show thesis
    by (intro refused) (auto simp: stmt_read_def pg_error_def split: pg_outcome.splits)
qed

lemma commit_tx_cases:
  assumes "commit_tx E d0 d = (r, d')"
  obtains (committed) "r = None" "d' = next_stmt d"
  | (rolled_back) e where "r = Some e" "pg_error E (pg_tick d) = Some e" "same_tables d0 d'"
  | (unsure) e where "r = Some e" "pg_error E (pg_tick d) = Some e" "d' = next_stmt d"
  using assms
  by (auto simp: commit_tx_def Let_def pg_error_def next_stmt_def rollback_to_def same_tables_iff
      split: pg_outcome.splits)

lemma insert_code_not_unique_err:
  "fst (insert_dyn_stmt i slug dest now n d) = Inl e \<Longrightarrow> i \<notin> dr_code_id ` set (t_dyn d) \<Longrightarrow>
   isUniqueViolation e \<Longrightarrow> slug \<in> dr_slug ` set (t_dyn d)"
  by (auto simp: insert_dyn_eq isUniqueViolation_def unique_violation_def foreign_key_violation_def
      split: if_splits)

lemma insert_code_err_sentinel:
  "fst (insert_code_stmt E c b now n d) = Inl e \<Longrightarrow> \<not> errors_is e s"
  by (auto simp: insert_code_eq split: option.splits if_splits)

lemma insert_dyn_err_sentinel:
  "fst (insert_dyn_stmt i slug dest now n d) = Inl e \<Longrightarrow> \<not> errors_is e s"
  by (auto simp: insert_dyn_eq split: if_splits)

definition create_dynamic_result ::
  "pg_env \<Rightarrow> db \<Rightarrow> code \<Rightarrow> string \<Rightarrow> string \<Rightarrow> err option \<Rightarrow> code \<Rightarrow> db \<Rightarrow> bool" where
  "create_dynamic_result E d c slug dest eo c' d' \<longleftrightarrow>
     db_ok E d' \<and> same_input c c' \<and>
     (case eo of
        None \<Rightarrow> created_dynamic E d c slug dest c' d'
      | Some e \<Rightarrow>
          if errors_is e ErrSlugTaken then same_tables d d' \<and> slug_view d slug \<noteq> None
          else same_tables d d' \<or> (\<exists>c''. created_dynamic E d c slug dest c'' d'))"

lemma create_dynamic_refused:
  "db_ok E d \<Longrightarrow> same_tables d d' \<Longrightarrow> same_input c c' \<Longrightarrow> \<not> errors_is e ErrSlugTaken \<Longrightarrow>
   create_dynamic_result E d c slug dest (Some e) c' d'"
  by (simp add: create_dynamic_result_def same_tables_views)

lemma create_dynamic_begun:
  assumes ok: "db_ok E d" and E: "pg_ok E" and url: "code_Type c = TypeURL"
    and dj: "same_tables d dj"
    and x': "run_stmt E (with_text (code_texts c) (insert_code_stmt E c True now)) dj = (Inr (i, cr, up), d2)"
    and y: "run_stmt E (with_text [Some slug, Some dest] (insert_dyn_stmt i slug dest now)) d2 = (r, d3)"
  shows "case r of
      Inl e \<Rightarrow> isUniqueViolation e \<longrightarrow> slug_view d slug \<noteq> None
    | Inr du \<Rightarrow> db_ok E d3 \<and> cr = now \<and> up = now \<and> du = now \<and>
        created_dynamic E d c slug dest (dynamic_result c i slug dest now) d3"
proof -
  have dj': "t_users dj = t_users d" "t_codes dj = t_codes d" "t_dyn dj = t_dyn d" "t_scans dj = t_scans d"
    using dj by (simp_all add: same_tables_iff)
  from run_with_text_Inr [OF x'] have "run_stmt E (insert_code_stmt E c True now) dj = (Inr (i, cr, up), d2)" ..
  then have "insert_code_stmt E c True now (pg_tick dj) (next_stmt dj) = (Inr (i, cr, up), d2)"
    by (cases rule: run_stmt_cases) auto
  then obtain p where p: "cr = now" "up = now" "pg_jsonb E (code_Payload c) = Some p"
    "i \<notin> cr_id ` set (t_codes d)" "code_UserID c \<in> user_ID ` set (t_users d)"
    "d2 = (next_stmt dj)\<lparr>t_codes := t_codes d @ [row_of_code c True p i now]\<rparr>"
    by (cases rule: insert_code_cases) (simp_all add: dj')
  have fresh: "i \<notin> dr_code_id ` set (t_dyn d2)"
    using p(4) db_ok_dyn [OF ok] by (auto simp: p(6) dj' dest: dyn_ok_code)
  show ?thesis
  proof (cases r)
    case (Inl e)
    have "slug_view d slug \<noteq> None" if u: "isUniqueViolation e"
    proof -
      have "\<not> isUniqueViolation (PgError invalid_encoding)"
        by (simp add: isUniqueViolation_def unique_violation_def invalid_encoding_def)
      then have "run_stmt E (insert_dyn_stmt i slug dest now) d2 = (Inl e, d3)"
        using run_with_text_Inl [OF y [unfolded Inl]] u pg_okD [OF E] foreign_errD(2) by metis
      then have "fst (insert_dyn_stmt i slug dest now (pg_tick d2) (next_stmt d2)) = Inl e"
        using run_stmt_error pg_okD [OF E] foreign_errD(2) u by blast
      from insert_code_not_unique_err [OF this _ u] fresh show ?thesis
        by (simp add: slug_view_None p(6) dj')
    qed
    with Inl show ?thesis by simp
  next
    case (Inr du)
    from run_with_text_Inr [OF y [unfolded Inr]]
    have texts: "pg_text slug" "pg_text dest" and "run_stmt E (insert_dyn_stmt i slug dest now) d2 = (Inr du, d3)"
      by simp_all
    from this(3) have "insert_dyn_stmt i slug dest now (pg_tick d2) (next_stmt d2) = (Inr du, d3)"
      by (cases rule: run_stmt_cases) auto
    then have q: "du = now" "slug \<notin> dr_slug ` set (t_dyn d)"
      "d3 = (next_stmt d2)\<lparr>t_dyn := t_dyn d @
         [\<lparr>dr_code_id = i, dr_slug = slug, dr_destination = dest, dr_updated_at = now\<rparr>]\<rparr>"
      by (cases rule: insert_dyn_cases; simp add: p(6) dj')+
    have "db_ok E d3 \<and> code_view d3 = (code_view d)(i \<mapsto> stored (dynamic_result c i slug dest now) p) \<and>
        slug_view d3 = (slug_view d)(slug \<mapsto> (dest, i))"
      by (rule insert_dynamic_view [OF ok url p(3,4,5) q(2) texts]) (simp_all add: q(3) p(6) dj')
    then show ?thesis
      using p(1-4) q(1,2) Inr unfolding created_dynamic_def dynamic_added_def
      by (auto simp: code_view_None slug_view_None q(3) p(6) dj')
  qed
qed

text \<open>No statement raises one of the program's sentinels by itself.\<close>

lemma run_no_sentinel:
  assumes "pg_ok E" "run_stmt E (with_text ts st) d = (Inl e, d')"
    and "\<And>n d e. fst (st n d) = Inl e \<Longrightarrow> \<not> errors_is e s"
  shows "\<not> errors_is e s"
  using assms(2)
proof (cases rule: run_with_text_Inl)
  case ran
  with run_stmt_error [OF ran(2)] pg_okD [OF assms(1)] foreign_errD(1) assms(3) show ?thesis by blast
next
  case refused
  with pg_okD [OF assms(1)] foreign_errD(1) show ?thesis by auto
qed

lemmas run_insert_code_sentinel = run_no_sentinel [OF _ _ insert_code_err_sentinel]
lemmas run_insert_dyn_sentinel = run_no_sentinel [OF _ _ insert_dyn_err_sentinel]

lemma repo_CreateDynamic_spec:
  assumes ok: "db_ok E d" and E: "pg_ok E" and url: "code_Type c = TypeURL"
    and run: "repo_CreateDynamic E c slug dest d = ((eo, c'), d')"
  shows "create_dynamic_result E d c slug dest eo c' d'"
proof -
  let ?start = "run_stmt E (\<lambda>n d. (Inr (pg_now E n), d)) d"
  obtain b d1 where b: "?start = (b, d1)" by (rule prod.exhaust)
  have d1: "same_tables d d1" using b
    by (cases rule: run_stmt_cases) (auto simp: next_stmt_def)
  note refused = create_dynamic_refused [OF ok]
  show ?thesis
  proof (cases b)
    case (Inl e)
    then have "\<not> errors_is e ErrSlugTaken"
      using run_stmt_error [OF b [unfolded Inl]] pg_okD [OF E] foreign_errD(1) by auto
    with run b Inl d1 show ?thesis by (auto simp: repo_CreateDynamic_def intro!: refused)
  next
    case (Inr now)
    obtain x d2 where x: "run_stmt E (with_text (code_texts c) (insert_code_stmt E c True now)) d1 = (x, d2)"
      by (rule prod.exhaust)
    show ?thesis
    proof (cases x)
      case (Inl e)
      have "same_tables d (rollback_to d1 d2)"
        using same_tables_trans [OF d1 rollback_to_tables(1)] .
      with run b x \<open>b = Inr now\<close> Inl run_insert_code_sentinel [OF E x [unfolded Inl]]
      show ?thesis by (auto simp: repo_CreateDynamic_def intro!: refused)
    next
      case (Inr icu)
      obtain i cr up where icu: "icu = (i, cr, up)" by (rule prod_cases3)
      let ?c1 = "c\<lparr>code_ID := i, code_CreatedAt := cr, code_UpdatedAt := up\<rparr>"
      have in1: "same_input c ?c1" by (simp add: same_input_def)
      obtain y d3 where y: "run_stmt E (with_text [Some slug, Some dest] (insert_dyn_stmt i slug dest now)) d2 = (y, d3)"
        by (rule prod.exhaust)
      note begun = create_dynamic_begun [OF ok E url d1 x [unfolded Inr icu] y]
      note run' = run [unfolded repo_CreateDynamic_def b \<open>b = Inr now\<close> sum.case prod.case x Inr icu y Let_def]
      show ?thesis
      proof (cases y)
        case (Inl e)
        have undone: "same_tables d (rollback_to d1 d3)"
          using same_tables_trans [OF d1 rollback_to_tables(1)] .
        with run' Inl begun ok in1 run_insert_dyn_sentinel [OF E y [unfolded Inl]]
        show ?thesis
          by (auto simp: create_dynamic_result_def same_tables_views)
      next
        case (Inr du)
        let ?c2 = "dynamic_result c i slug dest now"
        note made = begun [unfolded Inr sum.case]
        obtain k d4 where k: "commit_tx E d1 d3 = (k, d4)" by (rule prod.exhaust)
        from k show ?thesis
        proof (cases rule: commit_tx_cases)
          case committed
          have "eo = None" "c' = ?c2" "d' = next_stmt d3"
            using run' Inr k committed made by (simp_all add: dynamic_result_def)
          with made show ?thesis
            by (simp add: create_dynamic_result_def created_dynamic_def same_input_def dynamic_result_def)
        next
          case (rolled_back e)
          then have "\<not> errors_is e ErrSlugTaken" using pg_okD [OF E] foreign_errD(1) by blast
          moreover have "eo = Some (Wrap ''committing dynamic code'' e)" "c' = ?c1" "d' = d4"
            using run' Inr k rolled_back by simp_all
          ultimately show ?thesis
            using in1 same_tables_trans [OF d1 rolled_back(3)] by (auto intro!: refused)
        next
          case (unsure e)
          then have "\<not> errors_is e ErrSlugTaken" using pg_okD [OF E] foreign_errD(1) by blast
          moreover have "eo = Some (Wrap ''committing dynamic code'' e)" "c' = ?c1" "d' = next_stmt d3"
            using run' Inr k unsure by simp_all
          ultimately show ?thesis
            using in1 made by (auto simp: create_dynamic_result_def created_dynamic_def)
        qed
      qed
    qed
  qed
qed

subsection \<open>What the updating methods do\<close>

text \<open>The three updates as functions on the maps.\<close>

definition set_label :: "uuid \<Rightarrow> uuid \<Rightarrow> string option \<Rightarrow> instant \<Rightarrow> (uuid \<Rightarrow> code option) \<Rightarrow> uuid \<Rightarrow> code option" where
  "set_label u i label t v =
     (case owned u (v i) of None \<Rightarrow> v | Some c \<Rightarrow> v(i \<mapsto> c\<lparr>code_Label := label, code_UpdatedAt := t\<rparr>))"

definition set_code_destination :: "uuid \<Rightarrow> string \<Rightarrow> instant \<Rightarrow> (uuid \<Rightarrow> code option) \<Rightarrow> uuid \<Rightarrow> code option" where
  "set_code_destination i dest t v =
     (case v i of
        None \<Rightarrow> v
      | Some c \<Rightarrow> v(i \<mapsto> c\<lparr>code_Dynamic :=
          map_option (\<lambda>x. x\<lparr>dyn_Destination := dest, dyn_UpdatedAt := t\<rparr>) (code_Dynamic c)\<rparr>))"

definition set_slug_destination ::
  "uuid \<Rightarrow> string \<Rightarrow> (string \<Rightarrow> (string \<times> uuid) option) \<Rightarrow> string \<Rightarrow> (string \<times> uuid) option" where
  "set_slug_destination i dest v s =
     map_option (\<lambda>(x, j). (if j = i then dest else x, j)) (v s)"

definition drop_code :: "uuid \<Rightarrow> uuid \<Rightarrow> (uuid \<Rightarrow> code option) \<Rightarrow> uuid \<Rightarrow> code option" where
  "drop_code u i v = (case owned u (v i) of None \<Rightarrow> v | Some c \<Rightarrow> v(i := None))"

definition drop_slugs :: "uuid \<Rightarrow> (string \<Rightarrow> (string \<times> uuid) option) \<Rightarrow> string \<Rightarrow> (string \<times> uuid) option" where
  "drop_slugs i v s = (case v s of Some (x, j) \<Rightarrow> if j = i then None else Some (x, j) | None \<Rightarrow> None)"

lemma set_label_apply:
  "set_label u i label t v j =
     (if j = i then map_option (\<lambda>c. if code_UserID c = u
        then c\<lparr>code_Label := label, code_UpdatedAt := t\<rparr> else c) (v j) else v j)"
  by (auto simp: set_label_def owned_def split: option.split)

lemma set_code_destination_apply:
  "set_code_destination i dest t v j =
     (if j = i then map_option (\<lambda>c. c\<lparr>code_Dynamic :=
        map_option (\<lambda>x. x\<lparr>dyn_Destination := dest, dyn_UpdatedAt := t\<rparr>) (code_Dynamic c)\<rparr>) (v j) else v j)"
  by (auto simp: set_code_destination_def split: option.split)

lemma drop_code_apply:
  "drop_code u i v j = (if j = i \<and> owned u (v i) \<noteq> None then None else v j)"
  by (simp add: drop_code_def split: option.split)

lemma affected_cases:
  assumes "affected msg (run_stmt E st d) = (r, d')" "\<And>n d. fst (st n d) = Inr (k d)"
  obtains (ran) "pg_error E (pg_tick d) = None"
      "r = (if k (next_stmt d) = 0 then Some (Sentinel CodesErrNotFound) else None)"
      "d' = snd (st (pg_tick d) (next_stmt d))"
  | (before) e where "pg_error E (pg_tick d) = Some e" "r = Some (Wrap msg e)" "d' = next_stmt d"
  | (after) e where "pg_error E (pg_tick d) = Some e" "r = Some (Wrap msg e)"
      "d' = snd (st (pg_tick d) (next_stmt d))"
proof -
  obtain x d1 where x: "run_stmt E st d = (x, d1)" by (rule prod.exhaust)
  from x show thesis
  proof (cases rule: run_stmt_cases)
    case ok
    with assms(2) have "x = Inr (k (next_stmt d))" by (metis fst_conv)
    with ok assms(1) x ran show thesis by (auto simp: affected_def split: if_splits)
  next
    case (before e)
    with assms(1) x that(2) show thesis by (auto simp: affected_def)
  next
    case (after e)
    with assms(1) x that(3) show thesis by (auto simp: affected_def)
  qed
qed

lemma owned_view:
  "owned u (code_view d i) = None \<longleftrightarrow>
   (\<forall>c. lookup cr_id (t_codes d) i = Some c \<longrightarrow> cr_user_id c \<noteq> u)"
  by (auto simp: owned_def code_view_def split: option.splits if_splits)

lemma filter_key_owner:
  assumes "codes_ok us cs"
  shows "filter (\<lambda>r. cr_id r = i \<and> cr_user_id r = u) cs =
    (case lookup cr_id cs i of None \<Rightarrow> [] | Some c \<Rightarrow> if cr_user_id c = u then [c] else [])"
  by (simp add: filter_key_and lookup_filter_key [where f = cr_id, OF codes_ok_distinct [OF assms]]
      split: option.split)

lemma update_label_effect:
  assumes ok: "db_ok E d" and run: "update_label_stmt E u i label n d = (Inr k, d')"
  shows "db_ok E d'" "slug_view d' = slug_view d" "k = (if owned u (code_view d i) = None then 0 else 1)"
    "code_view d' = set_label u i label (pg_now E n) (code_view d)"
proof -
  let ?g = "\<lambda>r. if cr_id r = i \<and> cr_user_id r = u then r\<lparr>cr_label := label, cr_updated_at := pg_now E n\<rparr> else r"
  have d': "d' = d\<lparr>t_codes := map ?g (t_codes d)\<rparr>"
    using run by (auto simp: update_label_stmt_def Let_def)
  note keep = codes_ok_map [of ?g] dyn_ok_map_codes [of ?g] marks_ok_map [of ?g id, simplified]
  show "db_ok E d'" unfolding d'
    using db_ok_codes [OF ok] db_ok_dyn [OF ok] db_ok_marks [OF ok]
    by (intro db_ok_upd_codes [OF ok]) (simp_all add: keep)
  show "slug_view d' = slug_view d" unfolding d' by (rule slug_view_same) simp
  show "k = (if owned u (code_view d i) = None then 0 else 1)"
    using run unfolding owned_view
    by (auto simp: update_label_stmt_def Let_def filter_key_owner [OF db_ok_codes [OF ok]] split: option.splits)
  have "code_view d' j = set_label u i label (pg_now E n) (code_view d) j" for j
  proof (cases "lookup cr_id (t_codes d) j")
    case None
    then show ?thesis unfolding d' by (cases "j = i") (simp_all add: code_view_def set_label_apply lookup_map)
  next
    case (Some c)
    then have "cr_id c = j" by (rule lookup_key)
    with Some show ?thesis unfolding d'
      by (cases "j = i") (simp_all add: code_view_def set_label_apply lookup_map scanCode_def join_row_def)
  qed
  then show "code_view d' = set_label u i label (pg_now E n) (code_view d)" by (rule ext)
qed

lemma dyn_view_iff:
  assumes "db_ok E d"
  shows "lookup dr_code_id (t_dyn d) i = None \<longleftrightarrow> (\<forall>c. code_view d i = Some c \<longrightarrow> code_Dynamic c = None)"
proof (cases "lookup cr_id (t_codes d) i")
  case None
  then have "i \<notin> dr_code_id ` set (t_dyn d)"
    using db_ok_dyn [OF assms] by (auto simp: lookup_None_iff dest: dyn_ok_code)
  then have "lookup dr_code_id (t_dyn d) i = None" by (simp add: lookup_None_iff)
  with None show ?thesis by (simp add: code_view_def)
next
  case (Some c)
  then have "cr_id c = i" by (rule lookup_key)
  with Some show ?thesis by (simp add: code_view_def scanCode_def join_row_def)
qed

definition has_dynamic :: "(uuid \<Rightarrow> code option) \<Rightarrow> uuid \<Rightarrow> bool" where
  "has_dynamic v i = (case v i of Some c \<Rightarrow> code_Dynamic c \<noteq> None | None \<Rightarrow> False)"

lemma has_dynamic_view: "db_ok E d \<Longrightarrow> has_dynamic (code_view d) i \<longleftrightarrow> lookup dr_code_id (t_dyn d) i \<noteq> None"
  using dyn_view_iff [of E d i] by (auto simp: has_dynamic_def split: option.split)

lemma update_destination_count:
  assumes "db_ok E d" "update_destination_stmt E i dest n d = (Inr k, d')"
  shows "k = (if has_dynamic (code_view d) i then 1 else 0)"
  using assms(2) unfolding has_dynamic_view [OF assms(1)]
  by (auto simp: update_destination_stmt_def split: option.splits
      simp: lookup_filter_key [where f = dr_code_id, OF dyn_ok_distinct [OF db_ok_dyn [OF assms(1)]]])

lemma update_destination_effect:
  assumes ok: "db_ok E d" and run: "update_destination_stmt E i dest n d = (Inr k, d')" and dest: "pg_text dest"
  shows "db_ok E d'"
    "code_view d' = set_code_destination i dest (pg_now E n) (code_view d)"
    "slug_view d' = set_slug_destination i dest (slug_view d)"
proof -
  let ?g = "\<lambda>r. if dr_code_id r = i then r\<lparr>dr_destination := dest, dr_updated_at := pg_now E n\<rparr> else r"
  have d': "d' = d\<lparr>t_dyn := map ?g (t_dyn d)\<rparr>"
    using run by (auto simp: update_destination_stmt_def)
  note keep = dyn_ok_map [of ?g] marks_ok_map [of id ?g, simplified]
  have "dyn_texts (map ?g (t_dyn d))" using db_ok_texts [OF ok] dest by (auto simp: dyn_texts_def)
  then show "db_ok E d'" unfolding d'
    using db_ok_dyn [OF ok] db_ok_marks [OF ok]
    by (intro db_ok_upd_dyn [OF ok]) (simp_all add: keep)
  have dl: "lookup dr_code_id (map ?g (t_dyn d)) j = map_option ?g (lookup dr_code_id (t_dyn d) j)"
    "lookup dr_slug (map ?g (t_dyn d)) s = map_option ?g (lookup dr_slug (t_dyn d) s)" for j s
    by (rule lookup_map; simp)+
  have "code_view d' j = set_code_destination i dest (pg_now E n) (code_view d) j" for j
  proof (cases "lookup cr_id (t_codes d) j")
    case None
    then show ?thesis unfolding d' by (cases "j = i") (simp_all add: code_view_def set_code_destination_apply)
  next
    case (Some c)
    then have "cr_id c = j" by (rule lookup_key)
    with Some lookup_SomeD [of dr_code_id "t_dyn d" j] show ?thesis unfolding d'
      by (cases "lookup dr_code_id (t_dyn d) j"; cases "j = i")
        (simp_all add: code_view_def set_code_destination_apply scanCode_def join_row_def dl)
  qed
  then show "code_view d' = set_code_destination i dest (pg_now E n) (code_view d)" by (rule ext)
  have "slug_view d' s = set_slug_destination i dest (slug_view d) s" for s
    unfolding d' by (cases "lookup dr_slug (t_dyn d) s") (simp_all add: slug_view_def set_slug_destination_def dl)
  then show "slug_view d' = set_slug_destination i dest (slug_view d)" by (rule ext)
qed

lemma delete_effect:
  assumes ok: "db_ok E d" and run: "delete_code_stmt u i n d = (Inr k, d')"
  shows "db_ok E d'" "k = (if owned u (code_view d i) = None then 0 else 1)"
    "code_view d' = drop_code u i (code_view d)"
    "slug_view d' = (if owned u (code_view d i) = None then slug_view d else drop_slugs i (slug_view d))"
proof -
  define hit :: "code_row \<Rightarrow> bool" where "hit = (\<lambda>r. cr_id r = i \<and> cr_user_id r = u)"
  have d': "d' = d\<lparr>t_codes := filter (\<lambda>r. \<not> hit r) (t_codes d),
      t_dyn := filter (\<lambda>r. dr_code_id r \<notin> cr_id ` set (filter hit (t_codes d))) (t_dyn d)\<rparr>"
    using run by (auto simp: delete_code_stmt_def Let_def hit_def)
  have filter_hit: "filter hit (t_codes d) =
      (case lookup cr_id (t_codes d) i of None \<Rightarrow> [] | Some c \<Rightarrow> if cr_user_id c = u then [c] else [])"
    unfolding hit_def by (rule filter_key_owner [OF db_ok_codes [OF ok]])
  have "dyn_texts (filter P (t_dyn d))" for P using db_ok_texts [OF ok] by (simp add: dyn_texts_def)
  then show "db_ok E d'" unfolding d'
    using db_ok_dyn [OF ok] db_ok_marks [OF ok] db_ok_codes [OF ok]
    by (intro db_ok_upd_codes_dyn [OF ok] codes_ok_filter dyn_ok_delete marks_ok_delete codes_ok_distinct) auto
  show k: "k = (if owned u (code_view d i) = None then 0 else 1)"
    using run unfolding owned_view
    by (auto simp: delete_code_stmt_def Let_def hit_def [symmetric] filter_hit split: option.splits)
  have gone: "cr_id ` set (filter hit (t_codes d)) = (if owned u (code_view d i) = None then {} else {i})"
    unfolding filter_hit owned_view by (auto split: option.split dest: lookup_SomeD)
  have cl: "lookup cr_id (filter (\<lambda>r. \<not> hit r) (t_codes d)) j =
      (case lookup cr_id (t_codes d) j of None \<Rightarrow> None | Some x \<Rightarrow> if \<not> hit x then Some x else None)" for j
    by (rule lookup_filter [OF codes_ok_distinct [OF db_ok_codes [OF ok]]])
  have dl: "lookup dr_code_id (filter (\<lambda>r. dr_code_id r \<notin> K) (t_dyn d)) j =
      (case lookup dr_code_id (t_dyn d) j of None \<Rightarrow> None | Some x \<Rightarrow> if dr_code_id x \<notin> K then Some x else None)" for j K
    by (rule lookup_filter [OF dyn_ok_distinct [OF db_ok_dyn [OF ok]]])
  have sl: "lookup dr_slug (filter (\<lambda>r. dr_code_id r \<notin> K) (t_dyn d)) s =
      (case lookup dr_slug (t_dyn d) s of None \<Rightarrow> None | Some x \<Rightarrow> if dr_code_id x \<notin> K then Some x else None)" for s K
    by (rule lookup_filter [OF dyn_ok_slugs [OF db_ok_dyn [OF ok]]])
  have "code_view d' j = drop_code u i (code_view d) j" for j
  proof (cases "lookup cr_id (t_codes d) j")
    case None
    then show ?thesis unfolding d' by (simp add: code_view_def drop_code_apply cl)
  next
    case (Some c)
    then have c: "cr_id c = j" by (rule lookup_key)
    show ?thesis
    proof (cases "hit c")
      case True
      then have "drop_code u i (code_view d) j = None"
        using Some c by (simp add: drop_code_apply owned_def code_view_def hit_def)
      with True Some show ?thesis unfolding d' by (simp add: code_view_def cl)
    next
      case False
      with c gone have "j \<notin> cr_id ` set (filter hit (t_codes d))"
        using Some by (auto simp: owned_view hit_def)
      then have "lookup dr_code_id (filter (\<lambda>r. dr_code_id r \<notin> cr_id ` set (filter hit (t_codes d))) (t_dyn d)) j =
          lookup dr_code_id (t_dyn d) j"
        unfolding dl using lookup_SomeD [of dr_code_id "t_dyn d" j]
        by (cases "lookup dr_code_id (t_dyn d) j") auto
      moreover have "drop_code u i (code_view d) j = code_view d j"
        using Some c False by (auto simp: drop_code_apply owned_view hit_def)
      ultimately show ?thesis using Some c False unfolding d'
        by (simp add: code_view_def cl join_row_def)
    qed
  qed
  then show "code_view d' = drop_code u i (code_view d)" by (rule ext)
  have "slug_view d' s = (if owned u (code_view d i) = None then slug_view d s else drop_slugs i (slug_view d) s)" for s
    unfolding d' by (cases "lookup dr_slug (t_dyn d) s") (simp_all add: slug_view_def drop_slugs_def sl gone del: set_filter)
  then show "slug_view d' = (if owned u (code_view d i) = None then slug_view d else drop_slugs i (slug_view d))"
    by (auto simp: fun_eq_iff)
qed

text \<open>
  What each method then promises: its success is the whole update, \<open>ErrNotFound\<close> means that nothing
  was there to update, and after any other error the update happened or it did not.
\<close>

definition write_result ::
  "db \<Rightarrow> err option \<Rightarrow> bool \<Rightarrow> (db \<Rightarrow> bool) \<Rightarrow> db \<Rightarrow> bool" where
  "write_result d r present upd d' \<longleftrightarrow>
     (case r of
        None \<Rightarrow> present \<and> upd d'
      | Some e \<Rightarrow> if errors_is e CodesErrNotFound then \<not> present \<and> upd d' else same_tables d d' \<or> upd d')"

lemma write_resultI:
  assumes E: "pg_ok E" and run: "affected msg (run_stmt E (with_text ts st) d) = (r, d')"
    and k: "\<And>n d. fst (st n d) = Inr (k d)" and present: "present \<longleftrightarrow> k (next_stmt d) \<noteq> 0"
    and upd: "\<And>d'. texts_ok ts \<Longrightarrow> snd (st (pg_tick d) (next_stmt d)) = d' \<Longrightarrow> upd d'"
  shows "write_result d r present upd d'"
proof (cases "texts_ok ts")
  case True
  with run have "affected msg (run_stmt E st d) = (r, d')" by simp
  from this k show ?thesis
  proof (cases rule: affected_cases)
    case ran
    with present upd True show ?thesis by (simp add: write_result_def)
  next
    case (before e)
    with pg_okD [OF E] foreign_errD(1) have "\<not> errors_is e CodesErrNotFound" by blast
    with before show ?thesis by (simp add: write_result_def)
  next
    case (after e)
    with pg_okD [OF E] foreign_errD(1) have "\<not> errors_is e CodesErrNotFound" by blast
    with after upd True show ?thesis by (simp add: write_result_def)
  qed
next
  case False
  obtain x d1 where x: "run_stmt E (with_text ts st) d = (x, d1)" by (rule prod.exhaust)
  obtain e where e: "x = Inl e"
  proof (cases x)
    case (Inr k)
    with False run_with_text_Inr [OF x [unfolded Inr]] show thesis by simp
  qed
  from x e False have "pg_error E (pg_tick d) = Some e \<or> e = PgError invalid_encoding" "d1 = next_stmt d"
    using run_with_text_Inl by metis+
  with pg_okD [OF E] foreign_errD(1) have "\<not> errors_is e CodesErrNotFound" by auto
  with \<open>d1 = next_stmt d\<close> x e run show ?thesis by (auto simp: affected_def write_result_def)
qed

text \<open>\<open>DELETE\<close> has no text parameter.\<close>

lemma write_resultI_no_text:
  assumes "pg_ok E" "affected msg (run_stmt E st d) = (r, d')"
    and "\<And>n d. fst (st n d) = Inr (k d)" "present \<longleftrightarrow> k (next_stmt d) \<noteq> 0"
    and "\<And>d'. snd (st (pg_tick d) (next_stmt d)) = d' \<Longrightarrow> upd d'"
  shows "write_result d r present upd d'"
  using write_resultI [of E msg "[]" st d r d' k present upd] assms by simp

lemma write_result_prop:
  "write_result d r b upd d' \<Longrightarrow> (same_tables d d' \<Longrightarrow> P d') \<Longrightarrow> (upd d' \<Longrightarrow> P d') \<Longrightarrow> P d'"
  by (auto simp: write_result_def split: option.splits if_splits)

lemma repo_UpdateLabel_spec:
  assumes ok: "db_ok E d" and E: "pg_ok E" and run: "repo_UpdateLabel E u i label d = (r, d')"
  shows "write_result d r (owned u (code_view d i) \<noteq> None)
    (\<lambda>d'. db_ok E d' \<and> slug_view d' = slug_view d \<and>
       (\<exists>t. code_view d' = set_label u i label t (code_view d))) d'"
proof (rule write_resultI [OF E run [unfolded repo_UpdateLabel_def]])
  let ?k = "\<lambda>d. length (filter (\<lambda>r. cr_id r = i \<and> cr_user_id r = u) (t_codes d))"
  show "fst (update_label_stmt E u i label n d) = Inr (?k d)" for n d
    by (simp add: update_label_stmt_def Let_def)
  have ok': "db_ok E (next_stmt d)" using ok by simp
  obtain k d1 where u: "update_label_stmt E u i label (pg_tick d) (next_stmt d) = (Inr k, d1)"
    by (simp add: update_label_stmt_def Let_def)
  then have "k = ?k (next_stmt d)" by (auto simp: update_label_stmt_def Let_def)
  with update_label_effect(3) [OF ok' u] show "owned u (code_view d i) \<noteq> None \<longleftrightarrow> ?k (next_stmt d) \<noteq> 0"
    by (metis next_stmt_simps(7) zero_neq_one)
  show "db_ok E d' \<and> slug_view d' = slug_view d \<and> (\<exists>t. code_view d' = set_label u i label t (code_view d))"
    if "texts_ok [label]" "snd (update_label_stmt E u i label (pg_tick d) (next_stmt d)) = d'" for d'
    using that update_label_effect(1,2,4) [OF ok' u] u by auto
qed

lemma repo_UpdateDestination_spec:
  assumes ok: "db_ok E d" and E: "pg_ok E" and run: "repo_UpdateDestination E i dest d = (r, d')"
  shows "write_result d r (has_dynamic (code_view d) i)
    (\<lambda>d'. db_ok E d' \<and> slug_view d' = set_slug_destination i dest (slug_view d) \<and>
       (\<exists>t. code_view d' = set_code_destination i dest t (code_view d))) d'"
proof (rule write_resultI [OF E run [unfolded repo_UpdateDestination_def]])
  let ?k = "\<lambda>d. length (filter (\<lambda>r. dr_code_id r = i) (t_dyn d))"
  show "fst (update_destination_stmt E i dest n d) = Inr (?k d)" for n d
    by (simp add: update_destination_stmt_def)
  have ok': "db_ok E (next_stmt d)" using ok by simp
  obtain k d1 where u: "update_destination_stmt E i dest (pg_tick d) (next_stmt d) = (Inr k, d1)"
    by (simp add: update_destination_stmt_def)
  then have "k = ?k (next_stmt d)" by (auto simp: update_destination_stmt_def)
  with update_destination_count [OF ok' u] show "has_dynamic (code_view d) i \<longleftrightarrow> ?k (next_stmt d) \<noteq> 0"
    by (metis next_stmt_simps(7) zero_neq_one)
  show "db_ok E d' \<and> slug_view d' = set_slug_destination i dest (slug_view d) \<and>
      (\<exists>t. code_view d' = set_code_destination i dest t (code_view d))"
    if "texts_ok [Some dest]" "snd (update_destination_stmt E i dest (pg_tick d) (next_stmt d)) = d'" for d'
    using that update_destination_effect(1,2,3) [OF ok' u] u by auto
qed

lemma repo_Delete_spec:
  assumes ok: "db_ok E d" and E: "pg_ok E" and run: "repo_Delete E u i d = (r, d')"
  shows "write_result d r (owned u (code_view d i) \<noteq> None)
    (\<lambda>d'. db_ok E d' \<and> code_view d' = drop_code u i (code_view d) \<and>
       slug_view d' = (if owned u (code_view d i) = None then slug_view d else drop_slugs i (slug_view d))) d'"
proof (rule write_resultI_no_text [OF E run [unfolded repo_Delete_def]])
  let ?k = "\<lambda>d. length (filter (\<lambda>r. cr_id r = i \<and> cr_user_id r = u) (t_codes d))"
  show "fst (delete_code_stmt u i n d) = Inr (?k d)" for n d
    by (simp add: delete_code_stmt_def Let_def)
  have ok': "db_ok E (next_stmt d)" using ok by simp
  obtain k d1 where u: "delete_code_stmt u i (pg_tick d) (next_stmt d) = (Inr k, d1)"
    by (simp add: delete_code_stmt_def Let_def)
  then have "k = ?k (next_stmt d)" by (auto simp: delete_code_stmt_def Let_def)
  with delete_effect(2) [OF ok' u] show "owned u (code_view d i) \<noteq> None \<longleftrightarrow> ?k (next_stmt d) \<noteq> 0"
    by (metis next_stmt_simps(7) zero_neq_one)
  show "db_ok E d' \<and> code_view d' = drop_code u i (code_view d) \<and>
      slug_view d' = (if owned u (code_view d i) = None then slug_view d else drop_slugs i (slug_view d))"
    if "snd (delete_code_stmt u i (pg_tick d) (next_stmt d)) = d'" for d'
    using that delete_effect(1,3,4) [OF ok' u] u by auto
qed

subsection \<open>What the reading methods return\<close>

lemma repo_ResolveSlug_eq:
  assumes "db_ok E d"
  shows "repo_ResolveSlug E slug d =
    (map_sum (scan_err ''resolving slug'') id
       (stmt_read E d
          (if pg_text slug then
             (case slug_view d slug of None \<Rightarrow> Inl (Sentinel PgErrNoRows) | Some r \<Rightarrow> Inr r)
           else Inl (PgError invalid_encoding))), next_stmt d)"
proof -
  have "select_slug slug d = (case slug_view d slug of None \<Rightarrow> Inl (Sentinel PgErrNoRows) | Some r \<Rightarrow> Inr r)"
    if "db_ok E d" for d
    using lookup_filter_key [OF dyn_ok_slugs [OF db_ok_dyn [OF that]], of slug]
    by (simp add: select_slug_def slug_view_def split: option.split)
  moreover have "select_slug slug (d\<lparr>pg_tick := n\<rparr>) = select_slug slug d" for d n
    by (simp add: select_slug_def)
  ultimately show ?thesis using assms
    by (cases "pg_text slug")
      (simp_all add: repo_ResolveSlug_def run_read run_refuse scan_err_def stmt_read_def split: pg_outcome.split option.split)
qed

lemma insert_scan_db_ok:
  assumes "db_ok E d" shows "db_ok E (snd (insert_scan_stmt E e n d))"
proof (cases "list_ex (\<lambda>r. scan_ID r = pg_uuid E n) (t_scans d)")
  case True
  with assms show ?thesis by (simp add: insert_scan_stmt_def Let_def)
next
  case False
  then have "pg_uuid E n \<notin> scan_ID ` set (t_scans d)" by (simp add: list_ex_key)
  then have "distinct (map scan_ID (t_scans d @ [e\<lparr>scan_ID := pg_uuid E n, scan_ScannedAt := pg_now E n\<rparr>]))"
    using db_ok_scans [OF assms] by simp
  from db_ok_upd_scans [OF assms this] False show ?thesis by (simp add: insert_scan_stmt_def Let_def)
qed

lemma insert_scan_frame:
  "t_codes (snd (insert_scan_stmt E e n d)) = t_codes d" "t_dyn (snd (insert_scan_stmt E e n d)) = t_dyn d"
  by (simp_all add: insert_scan_stmt_def Let_def)

text \<open>A scan is appended once, as it was given, or (after an error) perhaps not.\<close>

definition scan_appended :: "scan_event \<Rightarrow> scan_event list \<Rightarrow> scan_event list \<Rightarrow> bool" where
  "scan_appended e ss ss' \<longleftrightarrow> (\<exists>i t. ss' = ss @ [e\<lparr>scan_ID := i, scan_ScannedAt := t\<rparr>])"

lemma scan_appendedI: "scan_appended e ss (ss @ [e\<lparr>scan_ID := i, scan_ScannedAt := t\<rparr>])"
  by (auto simp: scan_appended_def)

lemma repo_InsertScanEvent_spec:
  assumes ok: "db_ok E d" and run: "repo_InsertScanEvent E e d = (r, d')"
  shows "db_ok E d' \<and> code_view d' = code_view d \<and> slug_view d' = slug_view d \<and>
    (case r of
       Inr e' \<Rightarrow> t_scans d' = t_scans d @ [e']\<and> scan_appended e (t_scans d) (t_scans d')
     | Inl _ \<Rightarrow> t_scans d' = t_scans d \<or> scan_appended e (t_scans d) (t_scans d'))"
proof -
  let ?st = "with_text [Some (scan_Slug e), scan_IPHash e, scan_UserAgent e] (insert_scan_stmt E e)"
  obtain x d1 where x: "run_stmt E ?st d = (x, d1)" by (rule prod.exhaust)
  have d1: "d' = d1" and r: "r = (case x of Inl y \<Rightarrow> Inl (Wrap ''inserting scan event'' y)
      | Inr (i, t) \<Rightarrow> Inr (e\<lparr>scan_ID := i, scan_ScannedAt := t\<rparr>))"
    using run x by (auto simp: repo_InsertScanEvent_def split: sum.splits)
  let ?s = "?st (pg_tick d) (next_stmt d)"
  have frame: "t_codes (snd ?s) = t_codes d" "t_dyn (snd ?s) = t_dyn d"
    by (simp_all add: with_text_def refuse_def insert_scan_frame)
  have ok1: "db_ok E (snd ?s)"
    using with_text_inv [of "db_ok E" "insert_scan_stmt E e"] insert_scan_db_ok ok by simp
  have same: "code_view (snd ?s) = code_view d" "slug_view (snd ?s) = slug_view d"
    using code_view_same [of "snd ?s" "next_stmt d"] slug_view_same [of "snd ?s" "next_stmt d"]
    by (simp_all add: frame)
  have scans: "case fst ?s of
      Inl _ \<Rightarrow> t_scans (snd ?s) = t_scans d
    | Inr (i, t) \<Rightarrow> t_scans (snd ?s) = t_scans d @ [e\<lparr>scan_ID := i, scan_ScannedAt := t\<rparr>]"
    by (simp add: with_text_def refuse_def insert_scan_stmt_def Let_def)
  from x show ?thesis
  proof (cases rule: run_stmt_cases)
    case okay: ok
    then have "fst ?s = x" "snd ?s = d1" by simp_all
    with ok1 same scans r show ?thesis unfolding d1
      by (cases x) (auto intro: scan_appendedI)
  next
    case before
    with ok r show ?thesis unfolding d1 by simp
  next
    case after
    with ok1 same scans r show ?thesis unfolding d1
      by (cases "fst ?s") (auto intro: scan_appendedI)
  qed
qed

subsection \<open>Pages\<close>

text \<open>All codes of a user, newest first: what the pages of \<open>List\<close> are cut from.\<close>

definition row_key :: "code_row \<Rightarrow> cursor" where
  "row_key c = Cursor (cr_created_at c) (cr_id c)"

definition code_cursor :: "code \<Rightarrow> cursor" where
  "code_cursor c = Cursor (code_CreatedAt c) (code_ID c)"

definition user_codes :: "db \<Rightarrow> uuid \<Rightarrow> code list" where
  "user_codes d u =
     map (\<lambda>c. scanCode (join_row (t_dyn d) c))
       (rev (sort_key row_key (filter (\<lambda>c. cr_user_id c = u) (t_codes d))))"

definition before_cursor :: "cursor option \<Rightarrow> code \<Rightarrow> bool" where
  "before_cursor cur c = (case cur of None \<Rightarrow> True | Some k \<Rightarrow> code_cursor c < k)"

lemma insort_key_map: "insort_key f (g x) (map g xs) = map g (insort_key (f \<circ> g) x xs)"
  by (induction xs) simp_all

lemma sort_key_map: "sort_key f (map g xs) = map g (sort_key (f \<circ> g) xs)"
  by (induction xs) (simp_all add: insort_key_map [unfolded comp_def] comp_def)

lemma row_cursor_join [simp]: "row_cursor (join_row ds c) = row_key c"
  by (simp add: row_cursor_def row_key_def)

lemma code_cursor_join [simp]: "code_cursor (scanCode (join_row ds c)) = row_key c"
  by (simp add: code_cursor_def row_key_def)

lemma select_page_eq:
  assumes "db_ok E d" "0 \<le> limit"
  shows "map_sum id (map scanCode) (select_page u cur limit d) =
    Inr (take (nat limit) (filter (before_cursor cur) (user_codes d u)))"
proof -
  let ?P = "\<lambda>c. cr_user_id c = u \<and> (case cur of None \<Rightarrow> True | Some k \<Rightarrow> row_key c < k)"
  have "filter (\<lambda>r. cr_user_id (fst r) = u \<and> (case cur of None \<Rightarrow> True | Some k \<Rightarrow> row_cursor r < k)) (left_join d) =
      map (join_row (t_dyn d)) (filter ?P (t_codes d))"
    using left_join_rows [OF db_ok_dyn [OF assms(1)]] by (simp add: filter_map comp_def cong: option.case_cong)
  then have "map_sum id (map scanCode) (select_page u cur limit d) =
      Inr (take (nat limit) (map (\<lambda>c. scanCode (join_row (t_dyn d) c)) (rev (sort_key row_key (filter ?P (t_codes d))))))"
    using assms(2) by (simp add: select_page_def sort_key_map comp_def rev_map take_map)
  also have "map (\<lambda>c. scanCode (join_row (t_dyn d) c)) (rev (sort_key row_key (filter ?P (t_codes d)))) =
      filter (before_cursor cur) (user_codes d u)"
    by (simp add: user_codes_def filter_map comp_def before_cursor_def rev_filter [symmetric] filter_sort
        cong: option.case_cong)
  finally show ?thesis .
qed

lemma select_page_tick [simp]: "select_page u cur limit (d\<lparr>pg_tick := n\<rparr>) = select_page u cur limit d"
  by (simp add: select_page_def left_join_def)

lemma repo_List_eq:
  assumes "db_ok E d" "0 \<le> limit"
  shows "repo_List E u cur limit d =
    (case pg_out E (pg_tick d) of
       Done \<Rightarrow> Inr (take (nat limit) (filter (before_cursor cur) (user_codes d u)))
     | LostBefore e \<Rightarrow> Inl (Wrap ''querying codes'' e)
     | LostAfter e \<Rightarrow> Inl (Wrap ''iterating codes'' e), next_stmt d)"
proof -
  obtain rs where rs: "select_page u cur limit d = Inr rs"
      "map scanCode rs = take (nat limit) (filter (before_cursor cur) (user_codes d u))"
    using select_page_eq [OF assms, of u cur] by (cases "select_page u cur limit d") auto
  then show ?thesis
    by (simp add: repo_List_def run_query_def Let_def next_stmt_def split: pg_outcome.split)
qed

lemma user_codes_view:
  assumes "db_ok E d"
  shows "c \<in> set (user_codes d u) \<longleftrightarrow> (\<exists>i. owned u (code_view d i) = Some c)"
proof
  assume "c \<in> set (user_codes d u)"
  then obtain r where r: "r \<in> set (t_codes d)" "cr_user_id r = u" "c = scanCode (join_row (t_dyn d) r)"
    by (auto simp: user_codes_def)
  from lookup_SomeI [OF codes_ok_distinct [OF db_ok_codes [OF assms]] r(1)]
  have "owned u (code_view d (cr_id r)) = Some c" using r by (simp add: code_view_def owned_def)
  then show "\<exists>i. owned u (code_view d i) = Some c" ..
next
  assume "\<exists>i. owned u (code_view d i) = Some c"
  then obtain i r where "lookup cr_id (t_codes d) i = Some r" "cr_user_id r = u" "c = scanCode (join_row (t_dyn d) r)"
    by (auto simp: code_view_def owned_def split: option.splits if_splits)
  then show "c \<in> set (user_codes d u)" by (auto simp: user_codes_def dest: lookup_mem)
qed

lemma user_codes_sorted:
  assumes "db_ok E d"
  shows "sorted_wrt (\<lambda>a b. code_cursor b < code_cursor a) (user_codes d u)"
proof -
  let ?xs = "sort_key row_key (filter (\<lambda>c. cr_user_id c = u) (t_codes d))"
  have "distinct (map cr_id (t_codes d))" by (rule codes_ok_distinct [OF db_ok_codes [OF assms]])
  then have "distinct (t_codes d)" "inj_on cr_id (set (t_codes d))" by (simp_all add: distinct_map)
  then have "distinct ?xs" "inj_on row_key (set ?xs)"
    by (auto simp: inj_on_def row_key_def)
  then have "distinct (map row_key ?xs)" by (simp add: distinct_map)
  moreover have "sorted (map row_key ?xs)" by simp
  ultimately have "sorted_wrt (<) (map row_key ?xs)" by (simp add: strict_sorted_iff)
  then show ?thesis by (simp add: user_codes_def sorted_wrt_map sorted_wrt_rev)
qed

lemma filter_below_nth:
  assumes "sorted_wrt (\<lambda>a b. f b < f a) xs" "j < length xs"
  shows "filter (\<lambda>x. f x < (f (xs ! j) :: 'k :: linorder)) xs = drop (Suc j) xs"
  using assms
proof (induction xs arbitrary: j)
  case Nil
  then show ?case by simp
next
  case (Cons x xs)
  show ?case
  proof (cases j)
    case 0
    with Cons.prems show ?thesis by (auto simp: filter_id_conv)
  next
    case (Suc i)
    with Cons show ?thesis by (auto simp: not_less dest: nth_mem intro: less_imp_le)
  qed
qed

subsection \<open>Counting scans\<close>

lemma counts_of_le: "snd (counts_of es) \<le> fst (counts_of es)"
proof -
  have "length (remdups (List.map_filter f xs)) \<le> length (List.map_filter f xs)" for f :: "'a \<Rightarrow> 'b option" and xs
    by (rule length_remdups_leq)
  also have "length (List.map_filter f xs) \<le> length xs" for f :: "'a \<Rightarrow> 'b option" and xs
    by (simp add: map_filter_def)
  finally show ?thesis by (simp add: counts_of_def)
qed

lemma daily_of_total: "sum_list (map dc_Count (daily_of es)) = length es"
proof -
  have "sum_list (map (\<lambda>k. length (filter (\<lambda>x. scan_day x = k) es)) (sort (remdups (map scan_day es)))) = length es"
    by (rule sum_list_count_eq) simp_all
  then show ?thesis by (simp add: daily_of_def comp_def)
qed

lemma daily_of_sorted: "sorted_wrt (<) (map dc_Date (daily_of es))"
  by (simp add: daily_of_def comp_def strict_sorted_iff)

lemma daily_of_count:
  "r \<in> set (daily_of es) \<Longrightarrow>
   0 < dc_Count r \<and> dc_Count r = length (filter (\<lambda>e. scan_day e = dc_Date r) es)"
  by (auto simp: daily_of_def filter_empty_conv)

lemma set_ranked_agents:
  "set (ranked_agents f es) =
   (\<lambda>u. \<lparr>uac_UserAgent = u, uac_Count = count_list (agents_of es) u\<rparr>) ` set (agents_of es)"
  by (simp add: ranked_agents_def)

lemma sorted_ranked_agents: "sorted_wrt (\<lambda>a b. uac_Count b \<le> uac_Count a) (ranked_agents f es)"
proof -
  have "sorted (map top_rank (ranked_agents f es))" unfolding ranked_agents_def by simp
  then have "sorted_wrt (\<lambda>a b. top_rank a \<le> top_rank b) (ranked_agents f es)" by (simp add: sorted_map)
  then show ?thesis by (rule sorted_wrt_mono_rel [rotated]) (simp add: top_rank_def)
qed

lemma distinct_ranked_agents: "distinct (map uac_UserAgent (ranked_agents f es))"
proof -
  have "distinct (ranked_agents f es)"
    by (simp add: ranked_agents_def distinct_map inj_on_def)
  moreover have "inj_on uac_UserAgent (set (ranked_agents f es))"
    by (auto simp: set_ranked_agents inj_on_def)
  ultimately show ?thesis by (simp add: distinct_map)
qed

lemma sorted_wrt_take_top:
  assumes "sorted_wrt R xs" "x \<in> set (take n xs)" "y \<in> set (drop n xs)"
  shows "R x y"
  using assms by (metis append_take_drop_id sorted_wrt_append)

text \<open>The three queries of the analytics read the scans of a slug and change nothing.\<close>

lemma scans_of_tick [simp]: "scans_of slug (d\<lparr>pg_tick := n\<rparr>) = scans_of slug d"
  by (simp add: scans_of_def)

lemma repo_ScanCounts_eq:
  "repo_ScanCounts E slug d =
    (map_sum (Wrap ''counting scans'') id
       (stmt_read E d (if pg_text slug then Inr (counts_of (scans_of slug d)) else Inl (PgError invalid_encoding))),
     next_stmt d)"
  by (cases "pg_text slug")
    (simp_all add: repo_ScanCounts_def run_read run_refuse select_counts_def stmt_read_def split: pg_outcome.split)

lemma repo_ScanCounts_spec:
  "repo_ScanCounts E slug d = (r, d') \<Longrightarrow>
   d' = next_stmt d \<and> (\<forall>x. r = Inr x \<longrightarrow> x = counts_of (scans_of slug d))"
  unfolding repo_ScanCounts_eq by (auto simp: stmt_read_def split: pg_outcome.splits if_splits)

lemma run_query_spec:
  assumes "run_query E q m1 m2 d = (r, d')" "\<And>n. q (d\<lparr>pg_tick := n\<rparr>) = q d"
  shows "d' = next_stmt d \<and> (\<forall>x. r = Inr x \<longrightarrow> q d = Inr x)"
  using assms by (simp add: run_query_def Let_def next_stmt_def split: pg_outcome.splits sum.splits)
    (metis Inl_Inr_False)+

lemma repo_ScanDaily_spec:
  "repo_ScanDaily E slug d = (r, d') \<Longrightarrow>
   d' = next_stmt d \<and> (\<forall>x. r = Inr x \<longrightarrow> x = daily_of (scans_of slug d))"
  unfolding repo_ScanDaily_def
  by (drule run_query_spec) (auto simp: text_query_def select_daily_def split: if_splits)

lemma repo_ScanTopUserAgents_spec:
  "repo_ScanTopUserAgents E slug limit d = (r, d') \<Longrightarrow>
   d' = next_stmt d \<and> (\<forall>x. r = Inr x \<longrightarrow> x = take limit (ranked_agents (pg_collate E) (scans_of slug d)))"
  unfolding repo_ScanTopUserAgents_def
  by (drule run_query_spec) (auto simp: text_query_def select_top_agents_def split: if_splits)

subsection \<open>Properties\<close>

lemma pg_ok_sample: "pg_ok sample_env"
  by (simp add: pg_ok_def pg_error_def sample_env_def)

definition sample_code :: code where
  "sample_code = \<lparr>code_ID = 0, code_UserID = 1, code_Type = TypeURL, code_Payload = ''{}'',
     code_IsDynamic = True, code_Label = None, code_CreatedAt = 0, code_UpdatedAt = 0, code_Dynamic = None\<rparr>"

text \<open>
  C34. The transaction of \<open>CreateDynamic\<close> is atomic, on every outcome of its statements and of the
  commit. Success inserts exactly one code and its slug: the slug was free, the id is new, and no
  other code or slug changes. \<open>ErrSlugTaken\<close> means that the slug was in use and that the tables are
  as they were, so that the caller may try again with another slug. After any other error the
  tables are as they were, or hold the whole code (a commit whose answer was lost).
\<close>

theorem repo_CreateDynamic_atomic:
  assumes "db_ok E d" "pg_ok E" "code_Type c = TypeURL"
    and "repo_CreateDynamic E c slug dest d = ((eo, c'), d')"
  shows "db_ok E d' \<and>
    (case eo of
       None \<Rightarrow> created_dynamic E d c slug dest c' d'
     | Some e \<Rightarrow>
         if errors_is e ErrSlugTaken then same_tables d d' \<and> slug_view d slug \<noteq> None
         else same_tables d d' \<or> (\<exists>c''. created_dynamic E d c slug dest c'' d'))"
  using repo_CreateDynamic_spec [OF assms] by (simp add: create_dynamic_result_def)

theorem repo_CreateDynamic_atomic_witness:
  "(case repo_CreateDynamic sample_env sample_code ''new'' ''https://x.y'' sample_db of
      ((eo, c'), d') \<Rightarrow> eo = None \<and> db_ok sample_env d' \<and>
        created_dynamic sample_env sample_db sample_code ''new'' ''https://x.y'' c' d') \<and>
   (case repo_CreateDynamic sample_env sample_code ''taken'' ''https://x.y'' sample_db of
      ((eo, c'), d') \<Rightarrow> eo = Some (Sentinel ErrSlugTaken) \<and> same_tables sample_db d')"
proof -
  have url: "code_Type sample_code = TypeURL" by (simp add: sample_code_def)
  note atomic = repo_CreateDynamic_atomic [OF sample_db_ok pg_ok_sample url]
  have new: "fst (fst (repo_CreateDynamic sample_env sample_code ''new'' ''https://x.y'' sample_db)) = None"
    and taken: "fst (fst (repo_CreateDynamic sample_env sample_code ''taken'' ''https://x.y'' sample_db)) =
      Some (Sentinel ErrSlugTaken)"
    by code_simp+
  show ?thesis
  proof
    obtain c' d' where "repo_CreateDynamic sample_env sample_code ''new'' ''https://x.y'' sample_db = ((None, c'), d')"
      using new by (metis prod.collapse)
    with atomic [OF this] show "case repo_CreateDynamic sample_env sample_code ''new'' ''https://x.y'' sample_db of
      ((eo, c'), d') \<Rightarrow> eo = None \<and> db_ok sample_env d' \<and>
        created_dynamic sample_env sample_db sample_code ''new'' ''https://x.y'' c' d'" by simp
  next
    obtain c' d' where "repo_CreateDynamic sample_env sample_code ''taken'' ''https://x.y'' sample_db =
        ((Some (Sentinel ErrSlugTaken), c'), d')"
      using taken by (metis prod.collapse)
    with atomic [OF this] show "case repo_CreateDynamic sample_env sample_code ''taken'' ''https://x.y'' sample_db of
      ((eo, c'), d') \<Rightarrow> eo = Some (Sentinel ErrSlugTaken) \<and> same_tables sample_db d'" by simp
  qed
qed

end
