(* ===== verification/RedirectService.thy ===== *)
theory RedirectService
  imports RedirectCache Uuid GoCrypto CodesRepository
begin

text \<open>
  \<open>RedirectService\<close> of \<open>internal/codes/redirect.go\<close>: it resolves a slug through the cache first and
  the repository second, and records scans. It works on any state on which a cache and a
  \<open>slugResolver\<close> operate; the locale \<open>redirect_parts\<close> is the contract of the two together. Log lines
  are no part of the state.
\<close>

record 'w slug_resolver =
  sr_ResolveSlug :: "string \<Rightarrow> ('w, string \<times> uuid) act"
  sr_InsertScanEvent :: "scan_event \<Rightarrow> ('w, scan_event) act"

record 'w redirect_service =
  rs_repo :: "'w slug_resolver"
  rs_cache :: "'w cache"
  rs_uuid :: uuid_lib

definition target_for :: "uuid_lib \<Rightarrow> string \<times> uuid \<Rightarrow> cached_target" where
  "target_for U x = \<lparr>ct_Destination = fst x, ct_CodeID = uuid_String U (snd x)\<rparr>"

text \<open>An error of the cache counts as a miss, and an error of storing is ignored.\<close>

definition Resolve :: "'w redirect_service \<Rightarrow> string \<Rightarrow> ('w, string) act" where
  "Resolve S slug w =
     (case ca_Lookup (rs_cache S) slug w of
        (Inr (Some t), w1) \<Rightarrow> (Inr (ct_Destination t), w1)
      | (_, w1) \<Rightarrow>
          (case sr_ResolveSlug (rs_repo S) slug w1 of
             (Inl e, w2) \<Rightarrow> (Inl e, w2)
           | (Inr (dest, codeID), w2) \<Rightarrow>
               (Inr dest, snd (ca_Store (rs_cache S) slug (target_for (rs_uuid S) (dest, codeID)) w2))))"

definition new_scan :: "string \<Rightarrow> string \<Rightarrow> string \<Rightarrow> scan_event" where
  "new_scan slug ipHash userAgent =
     \<lparr>scan_ID = 0, scan_Slug = slug,
      scan_IPHash = (if ipHash \<noteq> [] then Some ipHash else None),
      scan_UserAgent = (if userAgent \<noteq> [] then Some userAgent else None), scan_ScannedAt = 0\<rparr>"

definition RecordScan :: "'w redirect_service \<Rightarrow> string \<Rightarrow> string \<Rightarrow> string \<Rightarrow> 'w \<Rightarrow> 'w" where
  "RecordScan S slug ipHash userAgent w =
     snd (sr_InsertScanEvent (rs_repo S) (new_scan slug ipHash userAgent) w)"

definition HashIP :: "string \<Rightarrow> string" where
  "HashIP ip = (if ip = [] then [] else hex_encode (sha256 ip))"

subsection \<open>Coherence\<close>

text \<open>
  The cache is coherent with the repository if every entry is the current target of its slug. An
  entry is stale if it is not.
\<close>

definition coherent_map ::
  "uuid_lib \<Rightarrow> (string \<Rightarrow> cached_target option) \<Rightarrow> (string \<Rightarrow> (string \<times> uuid) option) \<Rightarrow> bool" where
  "coherent_map U tg sl \<longleftrightarrow>
     (\<forall>slug t. tg slug = Some t \<longrightarrow> (\<exists>x. sl slug = Some x \<and> t = target_for U x))"

lemma coherent_mapI:
  "(\<And>slug t. tg slug = Some t \<Longrightarrow> \<exists>x. sl slug = Some x \<and> t = target_for U x) \<Longrightarrow> coherent_map U tg sl"
  unfolding coherent_map_def by blast

lemma coherent_mapD:
  assumes "coherent_map U tg sl" "tg slug = Some t"
  obtains x where "sl slug = Some x" "t = target_for U x"
  using assms unfolding coherent_map_def by blast

lemma coherent_map_shrink: "coherent_map U tg sl \<Longrightarrow> tg' \<subseteq>\<^sub>m tg \<Longrightarrow> coherent_map U tg' sl"
  unfolding coherent_map_def by (metis map_leD)

lemma coherent_map_upd:
  assumes "coherent_map U tg sl" "tg' \<subseteq>\<^sub>m tg(slug \<mapsto> target_for U x)" "sl slug = Some x"
  shows "coherent_map U tg' sl"
proof (rule coherent_mapI)
  fix k t assume "tg' k = Some t"
  from map_leD [OF assms(2) this] show "\<exists>x. sl k = Some x \<and> t = target_for U x"
    using assms(1,3) by (cases "k = slug") (auto elim: coherent_mapD)
qed

text \<open>The repository may change where the cache has no entry.\<close>

lemma coherent_map_change:
  assumes "coherent_map U tg sl" "tg' \<subseteq>\<^sub>m tg" "\<And>s. tg' s \<noteq> None \<Longrightarrow> sl' s = sl s"
  shows "coherent_map U tg' sl'"
proof (rule coherent_mapI)
  fix k t assume t: "tg' k = Some t"
  from map_leD [OF assms(2) this] obtain x where "sl k = Some x" "t = target_for U x"
    using assms(1) by (auto elim: coherent_mapD)
  with assms(3) [of k] t show "\<exists>x. sl' k = Some x \<and> t = target_for U x" by simp
qed

subsection \<open>The contract of the parts\<close>

text \<open>
  \<open>slugs\<close> is what the repository knows: the destination and code of each slug. The operations of
  the cache leave it alone, and those of the repository leave the entries of the cache alone. All
  destinations are UTF-8, as Postgres keeps them.
\<close>

locale redirect_parts = redirect_cache "rs_cache S" targets
  for S :: "'w redirect_service" and targets :: "'w \<Rightarrow> string \<Rightarrow> cached_target option" +
  fixes slugs :: "'w \<Rightarrow> string \<Rightarrow> (string \<times> uuid) option" and inv :: "'w \<Rightarrow> bool"
  assumes lookup_frame: "inv w \<Longrightarrow> inv (snd (ca_Lookup (rs_cache S) slug w)) \<and>
      slugs (snd (ca_Lookup (rs_cache S) slug w)) = slugs w"
    and store_frame: "inv w \<Longrightarrow> inv (snd (ca_Store (rs_cache S) slug t w)) \<and>
      slugs (snd (ca_Store (rs_cache S) slug t w)) = slugs w"
    and resolve: "inv w \<Longrightarrow> sr_ResolveSlug (rs_repo S) slug w = (r, w') \<Longrightarrow>
      inv w' \<and> slugs w' = slugs w \<and> targets w' = targets w \<and>
      (case r of
         Inr x \<Rightarrow> slugs w slug = Some x \<and> utf8_valid (fst x)
       | Inl e \<Rightarrow> errors_is e CodesErrNotFound \<longrightarrow> slugs w slug = None)"
    and insert_scan: "inv w \<Longrightarrow> sr_InsertScanEvent (rs_repo S) e w = (q, w') \<Longrightarrow>
      inv w' \<and> slugs w' = slugs w \<and> targets w' = targets w"
    and uuid_text: "utf8_valid (uuid_String (rs_uuid S) i)"
begin

definition coherent :: "'w \<Rightarrow> bool" where
  "coherent w \<longleftrightarrow> coherent_map (rs_uuid S) (targets w) (slugs w)"

lemma Resolve_cases:
  assumes "inv w" "Resolve S slug w = (r, w')"
  obtains (hit) t where "targets w slug = Some t" "r = Inr (ct_Destination t)" "inv w'"
      "slugs w' = slugs w" "targets w' \<subseteq>\<^sub>m targets w"
  | (error) e where "r = Inl e" "errors_is e CodesErrNotFound \<longrightarrow> slugs w slug = None" "inv w'"
      "slugs w' = slugs w" "targets w' \<subseteq>\<^sub>m targets w"
  | (miss) x where "slugs w slug = Some x" "r = Inr (fst x)" "inv w'" "slugs w' = slugs w"
      "targets w' \<subseteq>\<^sub>m targets w \<or> targets w' \<subseteq>\<^sub>m (targets w)(slug \<mapsto> target_for (rs_uuid S) x)"
proof -
  obtain l w1 where l: "ca_Lookup (rs_cache S) slug w = (l, w1)" by (rule prod.exhaust)
  have w1: "inv w1" "slugs w1 = slugs w" "targets w1 \<subseteq>\<^sub>m targets w"
    using lookup_frame [OF assms(1), of slug] lookup [OF l] l by simp_all
  show thesis
  proof (cases "\<exists>t. l = Inr (Some t)")
    case True
    then obtain t where t: "l = Inr (Some t)" by blast
    with l lookup_hit have "targets w slug = Some t" by blast
    moreover have "r = Inr (ct_Destination t)" "w' = w1" using assms(2) l t by (simp_all add: Resolve_def)
    ultimately show thesis using w1 by (intro hit) simp_all
  next
    case False
    obtain q w2 where q: "sr_ResolveSlug (rs_repo S) slug w1 = (q, w2)" by (rule prod.exhaust)
    note law = resolve [OF w1(1) q]
    have run: "Resolve S slug w = (case q of Inl e \<Rightarrow> (Inl e, w2)
        | Inr (dest, codeID) \<Rightarrow> (Inr dest, snd (ca_Store (rs_cache S) slug (target_for (rs_uuid S) (dest, codeID)) w2)))"
      using False l q by (auto simp: Resolve_def split: sum.split option.split)
    show thesis
    proof (cases q)
      case (Inl e)
      with run assms(2) law w1 show thesis by (intro error [of e]) auto
    next
      case (Inr x)
      obtain y w3 where y: "ca_Store (rs_cache S) slug (target_for (rs_uuid S) x) w2 = (y, w3)" by (rule prod.exhaust)
      have w3: "r = Inr (fst x)" "w' = w3" using run assms(2) Inr y by (auto split: prod.splits)
      have "target_text (target_for (rs_uuid S) x)"
        using law Inr uuid_text by (simp add: target_text_def target_for_def)
      from store [OF y this] law w1(3)
      have "targets w3 \<subseteq>\<^sub>m targets w \<or> targets w3 \<subseteq>\<^sub>m (targets w)(slug \<mapsto> target_for (rs_uuid S) x)"
        by (auto intro: map_le_trans map_le_upd)
      moreover have "inv w3" "slugs w3 = slugs w"
        using store_frame [of w2 slug "target_for (rs_uuid S) x"] law w1 y by simp_all
      ultimately show thesis using w3 law Inr w1 by (intro miss) simp_all
    qed
  qed
qed

lemma Resolve_coherent:
  assumes "inv w" "coherent w" "Resolve S slug w = (r, w')"
  shows "coherent w' \<and>
    (case r of
       Inr dest \<Rightarrow> (\<exists>i. slugs w slug = Some (dest, i))
     | Inl e \<Rightarrow> errors_is e CodesErrNotFound \<longrightarrow> slugs w slug = None)"
  using assms(1,3)
proof (cases rule: Resolve_cases)
  case (hit t)
  from coherent_mapD [OF assms(2) [unfolded coherent_def] hit(1)]
  obtain x where "slugs w slug = Some x" "t = target_for (rs_uuid S) x" .
  with hit assms(2) show ?thesis
    by (cases x) (auto simp: target_for_def coherent_def intro: coherent_map_shrink)
next
  case (error e)
  with assms(2) show ?thesis by (auto simp: coherent_def intro: coherent_map_shrink)
next
  case (miss x)
  with assms(2) have "coherent w'"
    by (auto simp: coherent_def intro: coherent_map_shrink coherent_map_upd)
  with miss show ?thesis by (cases x) auto
qed

text \<open>
  An unknown slug that the cache does not hold is not resolved; whatever the cache does, the
  repository decides.
\<close>

lemma Resolve_uncached:
  assumes "inv w" "targets w slug = None" "Resolve S slug w = (Inr dest, w')"
  shows "\<exists>i. slugs w slug = Some (dest, i)"
  using assms(1,3)
proof (cases rule: Resolve_cases)
  case (hit t)
  with assms(2) show ?thesis by simp
next
  case (error e)
  then show ?thesis by simp
next
  case (miss x)
  then show ?thesis by (cases x) auto
qed

lemma RecordScan_frame:
  "inv w \<Longrightarrow> inv (RecordScan S slug h ua w) \<and> slugs (RecordScan S slug h ua w) = slugs w \<and>
   targets (RecordScan S slug h ua w) = targets w"
  using insert_scan [of w "new_scan slug h ua"] by (metis RecordScan_def surjective_pairing)

end

end
