(* ===== verification/SafetyModel.thy ===== *)
theory SafetyModel
  imports Prelude
begin

text \<open>
  The data of the package \<open>safety\<close> (\<open>internal/safety/safety.go\<close>): verdicts, which are strings, the
  codes of the reasons, the result of a check, and the ranking of verdicts.
\<close>

definition VerdictSafe :: string where "VerdictSafe = ''safe''"
definition VerdictSuspicious :: string where "VerdictSuspicious = ''suspicious''"
definition VerdictMalicious :: string where "VerdictMalicious = ''malicious''"

definition ReasonDisallowedScheme :: string where "ReasonDisallowedScheme = ''disallowed_scheme''"
definition ReasonUncommonScheme :: string where "ReasonUncommonScheme = ''uncommon_scheme''"
definition ReasonMissingHost :: string where "ReasonMissingHost = ''missing_host''"
definition ReasonEmbeddedCredentials :: string where "ReasonEmbeddedCredentials = ''embedded_credentials''"
definition ReasonIPLiteralHost :: string where "ReasonIPLiteralHost = ''ip_literal_host''"
definition ReasonPunycodeHost :: string where "ReasonPunycodeHost = ''punycode_host''"
definition ReasonLongHost :: string where "ReasonLongHost = ''long_host''"
definition ReasonBlocklistedHost :: string where "ReasonBlocklistedHost = ''blocklisted_host''"
definition ReasonURLShortener :: string where "ReasonURLShortener = ''url_shortener''"
definition ReasonUnparseableURL :: string where "ReasonUnparseableURL = ''unparseable_url''"

record reason =
  re_Code :: string
  re_Message :: string

record safety_result =
  sr_URL :: string
  sr_Verdict :: string
  sr_Reasons :: "reason list"
  sr_Cached :: bool

text \<open>The severities are the constants 0, 1 and 2 in this order.\<close>

definition sevSafe :: int where "sevSafe = 0"
definition sevSuspicious :: int where "sevSuspicious = 1"
definition sevMalicious :: int where "sevMalicious = 2"

definition verdictForSeverity :: "int \<Rightarrow> string" where
  "verdictForSeverity sev =
     (if sev \<ge> sevMalicious then VerdictMalicious
      else if sev \<ge> sevSuspicious then VerdictSuspicious
      else VerdictSafe)"

lemmas reason_defs =
  ReasonDisallowedScheme_def ReasonUncommonScheme_def ReasonMissingHost_def ReasonEmbeddedCredentials_def
  ReasonIPLiteralHost_def ReasonPunycodeHost_def ReasonLongHost_def ReasonBlocklistedHost_def
  ReasonURLShortener_def ReasonUnparseableURL_def

lemmas severity_defs = sevSafe_def sevSuspicious_def sevMalicious_def

lemma verdict_distinct [simp]:
  "VerdictSafe \<noteq> VerdictSuspicious" "VerdictSafe \<noteq> VerdictMalicious" "VerdictSuspicious \<noteq> VerdictMalicious"
  "VerdictSuspicious \<noteq> VerdictSafe" "VerdictMalicious \<noteq> VerdictSafe" "VerdictMalicious \<noteq> VerdictSuspicious"
  by (simp_all add: VerdictSafe_def VerdictSuspicious_def VerdictMalicious_def)

lemma verdict_malicious_iff [simp]: "verdictForSeverity sev = VerdictMalicious \<longleftrightarrow> sevMalicious \<le> sev"
  by (simp add: verdictForSeverity_def)

lemma verdict_safe_iff [simp]: "verdictForSeverity sev = VerdictSafe \<longleftrightarrow> sev < sevSuspicious"
  by (simp add: verdictForSeverity_def severity_defs)

end
