(* ===== verification/CodesService.thy ===== *)
theory CodesService
  imports RedirectService SafetyModel
begin

text \<open>
  The service of \<open>internal/codes/service.go\<close> on the interfaces it is given: a repository, a redirect
  cache, an optional destination checker and a generator of slugs, all acting on one state. The
  locale \<open>codes_parts\<close> is the contract of these parts; the lemmas about the operations are proved
  in it and hold for every implementation that meets it.
\<close>

subsection \<open>The service\<close>

definition DefaultListLimit :: int where "DefaultListLimit = 20"
definition MaxListLimit :: int where "MaxListLimit = 100"
definition maxSlugAttempts :: nat where "maxSlugAttempts = 5"
definition topUserAgentsLimit :: nat where "topUserAgentsLimit = 10"

record 'w repository =
  rp_Create :: "code \<Rightarrow> ('w, code) act"
  rp_CreateDynamic :: "code \<Rightarrow> string \<Rightarrow> string \<Rightarrow> 'w \<Rightarrow> (err option \<times> code) \<times> 'w"
  rp_GetByID :: "uuid \<Rightarrow> uuid \<Rightarrow> ('w, code) act"
  rp_List :: "uuid \<Rightarrow> cursor option \<Rightarrow> int \<Rightarrow> ('w, code list) act"
  rp_UpdateLabel :: "uuid \<Rightarrow> uuid \<Rightarrow> string option \<Rightarrow> 'w eact"
  rp_UpdateDestination :: "uuid \<Rightarrow> string \<Rightarrow> 'w eact"
  rp_Delete :: "uuid \<Rightarrow> uuid \<Rightarrow> 'w eact"
  rp_ScanCounts :: "string \<Rightarrow> ('w, nat \<times> nat) act"
  rp_ScanDaily :: "string \<Rightarrow> ('w, day_count list) act"
  rp_ScanTopUserAgents :: "string \<Rightarrow> nat \<Rightarrow> ('w, user_agent_count list) act"

record 'w codes_service =
  cs_repo :: "'w repository"
  cs_cache :: "'w cache"
  cs_checker :: "(string \<Rightarrow> ('w, safety_result) act) option"
  cs_newSlug :: "('w, string) act"
  cs_uuid :: uuid_lib

text \<open>A missing checker disables the check, and an error of the checker lets the destination pass.\<close>

definition guardDestination :: "'w codes_service \<Rightarrow> string \<Rightarrow> 'w eact" where
  "guardDestination S rawURL w =
     (case cs_checker S of
        None \<Rightarrow> (None, w)
      | Some check \<Rightarrow>
          (case check rawURL w of
             (Inl e, w1) \<Rightarrow> (None, w1)
           | (Inr res, w1) \<Rightarrow>
               (if sr_Verdict res = VerdictMalicious then Some (Sentinel ErrUnsafeDestination) else None, w1)))"

text \<open>An empty URL counts as none.\<close>

definition extractURL :: "string \<Rightarrow> string option" where
  "extractURL payload =
     (case unmarshal_url payload of None \<Rightarrow> None | Some u \<Rightarrow> if u = [] then None else Some u)"

record create_input =
  ci_UserID :: uuid
  ci_Type :: string
  ci_Payload :: string
  ci_Label :: "string option"
  ci_IsDynamic :: bool

text \<open>The zero \<open>time.Time\<close> is the start of the year 1.\<close>

definition zero_time :: instant where "zero_time = -62135596800 * 10 ^ 9"

definition new_code :: "create_input \<Rightarrow> code" where
  "new_code inp =
     \<lparr>code_ID = 0, code_UserID = ci_UserID inp, code_Type = ci_Type inp, code_Payload = ci_Payload inp,
      code_IsDynamic = ci_IsDynamic inp, code_Label = ci_Label inp, code_CreatedAt = zero_time,
      code_UpdatedAt = zero_time, code_Dynamic = None\<rparr>"

text \<open>The loop over at most so many slugs; the code carries over from one attempt to the next.\<close>

fun create_attempts :: "'w codes_service \<Rightarrow> nat \<Rightarrow> code \<Rightarrow> string \<Rightarrow> ('w, code) act" where
  "create_attempts S 0 c dest w = (Inl (Sentinel ErrSlugGenerationFailed), w)"
| "create_attempts S (Suc k) c dest w =
     (case cs_newSlug S w of
        (Inl e, w1) \<Rightarrow> (Inl (Wrap ''generating slug'' e), w1)
      | (Inr slug, w1) \<Rightarrow>
          (case rp_CreateDynamic (cs_repo S) c slug dest w1 of
             ((None, c1), w2) \<Rightarrow> (Inr c1, w2)
           | ((Some e, c1), w2) \<Rightarrow>
               if errors_is e ErrSlugTaken then create_attempts S k c1 dest w2
               else (Inl (Wrap ''creating dynamic code'' e), w2)))"

definition codes_Create :: "'w codes_service \<Rightarrow> create_input \<Rightarrow> ('w, code) act" where
  "codes_Create S inp w =
     (if ci_IsDynamic inp \<and> ci_Type inp \<noteq> TypeURL then (Inl (Sentinel ErrDynamicUnsupported), w)
      else if \<not> ci_IsDynamic inp then
        (case rp_Create (cs_repo S) (new_code inp) w of
           (Inl e, w1) \<Rightarrow> (Inl (Wrap ''creating static code'' e), w1)
         | (Inr c, w1) \<Rightarrow> (Inr c, w1))
      else (case extractURL (ci_Payload inp) of
          None \<Rightarrow> (Inl (Sentinel ErrDynamicURLRequired), w)
        | Some dest \<Rightarrow>
            (case guardDestination S dest w of
               (Some e, w1) \<Rightarrow> (Inl e, w1)
             | (None, w1) \<Rightarrow> create_attempts S maxSlugAttempts (new_code inp) dest w1)))"

definition codes_Get :: "'w codes_service \<Rightarrow> uuid \<Rightarrow> uuid \<Rightarrow> ('w, code) act" where
  "codes_Get S userID i = rp_GetByID (cs_repo S) userID i"

text \<open>The opaque token of a cursor.\<close>

definition encodeCursor :: "uuid_lib \<Rightarrow> cursor \<Rightarrow> string" where
  "encodeCursor U c =
     b64_encode url_alphabet (time_Format (cur_CreatedAt c) @ ''|'' @ uuid_String U (cur_ID c))"

definition decodeCursor :: "uuid_lib \<Rightarrow> string \<Rightarrow> err + cursor" where
  "decodeCursor U token =
     (case b64_decode url_alphabet token of
        None \<Rightarrow> Inl (Err ''illegal base64 data'')
      | Some b \<Rightarrow>
          (case split2 CHR ''|'' b of
             [ts, idt] \<Rightarrow>
               (case time_Parse ts of
                  None \<Rightarrow> Inl (Err ''parsing time'')
                | Some t \<Rightarrow>
                    (case uuid_Parse U idt of
                       Inl e \<Rightarrow> Inl e
                     | Inr i \<Rightarrow> Inr (Cursor t i)))
           | _ \<Rightarrow> Inl (Err ''malformed cursor'')))"

record list_result =
  lr_Codes :: "code list"
  lr_NextCursor :: string

definition clamp_limit :: "int \<Rightarrow> int" where
  "clamp_limit limit =
     (let l = (if limit \<le> 0 then DefaultListLimit else limit) in if l > MaxListLimit then MaxListLimit else l)"

definition list_page :: "uuid_lib \<Rightarrow> int \<Rightarrow> code list \<Rightarrow> list_result" where
  "list_page U limit items =
     (if int (length items) > limit then
        let last = items ! nat (limit - 1) in
        \<lparr>lr_Codes = take (nat limit) items,
         lr_NextCursor = encodeCursor U (Cursor (code_CreatedAt last) (code_ID last))\<rparr>
      else \<lparr>lr_Codes = items, lr_NextCursor = []\<rparr>)"

definition codes_List :: "'w codes_service \<Rightarrow> uuid \<Rightarrow> string \<Rightarrow> int \<Rightarrow> ('w, list_result) act" where
  "codes_List S userID cursorToken limit w =
     (let l = clamp_limit limit in
      case (if cursorToken = [] then Inr None else map_sum id Some (decodeCursor (cs_uuid S) cursorToken)) of
        Inl e \<Rightarrow> (Inl (Wrap ''invalid pagination cursor'' (Sentinel ErrInvalidCursor)), w)
      | Inr cur \<Rightarrow>
          (case rp_List (cs_repo S) userID cur (l + 1) w of
             (Inl e, w1) \<Rightarrow> (Inl (Wrap ''listing codes'' e), w1)
           | (Inr items, w1) \<Rightarrow> (Inr (list_page (cs_uuid S) l items), w1)))"

record update_input =
  ui_Label :: "string option"
  ui_Destination :: "string option"

text \<open>The two optional parts of a PATCH; the first looks at the code read before.\<close>

definition update_destination_part :: "'w codes_service \<Rightarrow> code \<Rightarrow> string \<Rightarrow> 'w eact" where
  "update_destination_part S c dest w =
     (case (if code_IsDynamic c then code_Dynamic c else None) of
        None \<Rightarrow> (Some (Sentinel ErrNotDynamic), w)
      | Some dyn \<Rightarrow>
          (case guardDestination S dest w of
             (Some e, w1) \<Rightarrow> (Some e, w1)
           | (None, w1) \<Rightarrow>
               (case rp_UpdateDestination (cs_repo S) (code_ID c) dest w1 of
                  (Some e, w2) \<Rightarrow> (Some (Wrap ''updating destination'' e), w2)
                | (None, w2) \<Rightarrow> (None, snd (ca_Invalidate (cs_cache S) (dyn_Slug dyn) w2)))))"

definition update_label_part :: "'w codes_service \<Rightarrow> uuid \<Rightarrow> uuid \<Rightarrow> string option \<Rightarrow> 'w eact" where
  "update_label_part S userID i label w =
     (case rp_UpdateLabel (cs_repo S) userID i label w of
        (Some e, w1) \<Rightarrow> (Some (Wrap ''updating label'' e), w1)
      | (None, w1) \<Rightarrow> (None, w1))"

definition codes_Update :: "'w codes_service \<Rightarrow> uuid \<Rightarrow> uuid \<Rightarrow> update_input \<Rightarrow> ('w, code) act" where
  "codes_Update S userID i inp w =
     (case rp_GetByID (cs_repo S) userID i w of
        (Inl e, w1) \<Rightarrow> (Inl e, w1)
      | (Inr c, w1) \<Rightarrow>
          (case (case ui_Destination inp of None \<Rightarrow> (None, w1) | Some dest \<Rightarrow> update_destination_part S c dest w1) of
             (Some e, w2) \<Rightarrow> (Inl e, w2)
           | (None, w2) \<Rightarrow>
               (case (case ui_Label inp of None \<Rightarrow> (None, w2)
                      | Some label \<Rightarrow> update_label_part S userID i (Some label) w2) of
                  (Some e, w3) \<Rightarrow> (Inl e, w3)
                | (None, w3) \<Rightarrow> rp_GetByID (cs_repo S) userID i w3)))"

definition codes_Delete :: "'w codes_service \<Rightarrow> uuid \<Rightarrow> uuid \<Rightarrow> 'w eact" where
  "codes_Delete S userID i w =
     (case rp_GetByID (cs_repo S) userID i w of
        (Inl e, w1) \<Rightarrow> (Some e, w1)
      | (Inr c, w1) \<Rightarrow>
          (case rp_Delete (cs_repo S) userID i w1 of
             (Some e, w2) \<Rightarrow> (Some e, w2)
           | (None, w2) \<Rightarrow>
               (case (if code_IsDynamic c then code_Dynamic c else None) of
                  None \<Rightarrow> (None, w2)
                | Some dyn \<Rightarrow> (None, snd (ca_Invalidate (cs_cache S) (dyn_Slug dyn) w2)))))"

definition codes_Analytics :: "'w codes_service \<Rightarrow> uuid \<Rightarrow> uuid \<Rightarrow> ('w, analytics) act" where
  "codes_Analytics S userID i w =
     (case rp_GetByID (cs_repo S) userID i w of
        (Inl e, w1) \<Rightarrow> (Inl e, w1)
      | (Inr c, w1) \<Rightarrow>
          (case code_Dynamic c of
             None \<Rightarrow> (Inr \<lparr>an_CodeID = i, an_TotalScans = 0, an_UniqueVisitors = 0, an_Daily = [],
                          an_TopUserAgents = []\<rparr>, w1)
           | Some dyn \<Rightarrow>
               (case rp_ScanCounts (cs_repo S) (dyn_Slug dyn) w1 of
                  (Inl e, w2) \<Rightarrow> (Inl (Wrap ''scan counts'' e), w2)
                | (Inr (tot, uniq), w2) \<Rightarrow>
                    (case rp_ScanDaily (cs_repo S) (dyn_Slug dyn) w2 of
                       (Inl e, w3) \<Rightarrow> (Inl (Wrap ''daily scans'' e), w3)
                     | (Inr daily, w3) \<Rightarrow>
                         (case rp_ScanTopUserAgents (cs_repo S) (dyn_Slug dyn) topUserAgentsLimit w3 of
                            (Inl e, w4) \<Rightarrow> (Inl (Wrap ''top user agents'' e), w4)
                          | (Inr uas, w4) \<Rightarrow>
                              (Inr \<lparr>an_CodeID = i, an_TotalScans = tot, an_UniqueVisitors = uniq,
                                    an_Daily = daily, an_TopUserAgents = uas\<rparr>, w4))))))"

subsection \<open>Isolation\<close>

text \<open>
  What an operation of the user \<open>u\<close> may do to the codes: those of the other users stay as they are,
  and none appears among them.
\<close>

definition isolated :: "uuid \<Rightarrow> (uuid \<Rightarrow> code option) \<Rightarrow> (uuid \<Rightarrow> code option) \<Rightarrow> bool" where
  "isolated u m m' \<longleftrightarrow> (\<forall>i c. code_UserID c \<noteq> u \<longrightarrow> (m i = Some c \<longleftrightarrow> m' i = Some c))"

lemma isolated_refl [simp]: "isolated u m m"
  by (simp add: isolated_def)

lemma isolated_trans: "isolated u m m' \<Longrightarrow> isolated u m' m'' \<Longrightarrow> isolated u m m''"
  by (simp add: isolated_def)

lemma isolated_add: "m i = None \<Longrightarrow> code_UserID c = u \<Longrightarrow> isolated u m (m(i \<mapsto> c))"
  by (auto simp: isolated_def)

lemma isolated_upd: "m i = Some c \<Longrightarrow> code_UserID c = u \<Longrightarrow> code_UserID c' = u \<Longrightarrow> isolated u m (m(i \<mapsto> c'))"
  by (auto simp: isolated_def)

lemma isolated_static: "static_added norm m c c' m' \<Longrightarrow> isolated (code_UserID c) m m'"
  by (auto simp: static_added_def static_result_def stored_def intro!: isolated_add)

lemma isolated_dynamic: "dynamic_added norm m sl c slug dest c' m' sl' \<Longrightarrow> isolated (code_UserID c) m m'"
  by (auto simp: dynamic_added_def dynamic_result_def stored_def intro!: isolated_add)

lemma isolated_label: "isolated u m (set_label u i label t m)"
  by (auto simp: set_label_def owned_def intro: isolated_upd split: option.split)

lemma isolated_destination: "owned u (m i) \<noteq> None \<Longrightarrow> isolated u m (set_code_destination i dest t m)"
  by (auto simp: set_code_destination_def owned_def intro: isolated_upd split: option.split option.splits if_splits)

lemma isolated_drop: "isolated u m (drop_code u i m)"
  by (auto simp: drop_code_def owned_def isolated_def split: option.split)

subsection \<open>The contract of the parts\<close>

text \<open>The outcome of an update: done, refused because there is nothing to update, or unknown.\<close>

definition write_law :: "err option \<Rightarrow> bool \<Rightarrow> bool \<Rightarrow> bool \<Rightarrow> bool" where
  "write_law r present same upd \<longleftrightarrow>
     (case r of
        None \<Rightarrow> present \<and> upd
      | Some e \<Rightarrow> if errors_is e CodesErrNotFound then \<not> present \<and> upd else same \<or> upd)"

lemma write_law_cases:
  assumes "write_law r present same upd"
  obtains (updated) "upd" | (same) "same" "r \<noteq> None"
  using assms by (auto simp: write_law_def split: option.splits if_splits)

lemma write_law_None: "write_law None present same upd \<Longrightarrow> present \<and> upd"
  by (simp add: write_law_def)

definition slug_ok :: "string \<Rightarrow> bool" where
  "slug_ok s \<longleftrightarrow> length s = SlugLength \<and> set s \<subseteq> set slugAlphabet"

text \<open>
  \<open>codes\<close> and \<open>slugs\<close> are what the repository holds, \<open>mine\<close> the codes of a user newest first,
  \<open>scans\<close> the scans of a slug; \<open>targets\<close> is the redirect cache. \<open>norm\<close> is what storing does to a
  payload.
\<close>

locale codes_parts = redirect_cache "cs_cache S" targets
  for S :: "'w codes_service" and targets :: "'w \<Rightarrow> string \<Rightarrow> cached_target option" +
  fixes inv :: "'w \<Rightarrow> bool"
    and codes :: "'w \<Rightarrow> uuid \<Rightarrow> code option"
    and slugs :: "'w \<Rightarrow> string \<Rightarrow> (string \<times> uuid) option"
    and mine :: "'w \<Rightarrow> uuid \<Rightarrow> code list"
    and scans :: "'w \<Rightarrow> string \<Rightarrow> scan_event list"
    and norm :: "string \<Rightarrow> string option"
    and collate :: "string \<Rightarrow> string"
  assumes invalidate_frame: "inv w \<Longrightarrow> ca_Invalidate (cs_cache S) slug w = (x, w') \<Longrightarrow>
      inv w' \<and> codes w' = codes w \<and> slugs w' = slugs w"
    and checker_frame: "inv w \<Longrightarrow> cs_checker S = Some check \<Longrightarrow> check url w = (res, w') \<Longrightarrow>
      inv w' \<and> codes w' = codes w \<and> slugs w' = slugs w \<and> targets w' \<subseteq>\<^sub>m targets w"
    and newSlug: "inv w \<Longrightarrow> cs_newSlug S w = (q, w') \<Longrightarrow>
      inv w' \<and> codes w' = codes w \<and> slugs w' = slugs w \<and> targets w' = targets w \<and>
      (\<forall>slug. q = Inr slug \<longrightarrow> slug_ok slug)"
    and create: "inv w \<Longrightarrow> \<not> code_IsDynamic c \<Longrightarrow> code_Dynamic c = None \<Longrightarrow>
      rp_Create (cs_repo S) c w = (r, w') \<Longrightarrow>
      inv w' \<and> slugs w' = slugs w \<and> targets w' = targets w \<and>
      (case r of
         Inr c' \<Rightarrow> static_added norm (codes w) c c' (codes w')
       | Inl e \<Rightarrow> codes w' = codes w \<or> (\<exists>c'. static_added norm (codes w) c c' (codes w')))"
    and createDynamic: "inv w \<Longrightarrow> code_Type c = TypeURL \<Longrightarrow>
      rp_CreateDynamic (cs_repo S) c slug dest w = ((eo, c1), w') \<Longrightarrow>
      inv w' \<and> targets w' = targets w \<and> same_input c c1 \<and>
      (case eo of
         None \<Rightarrow> dynamic_added norm (codes w) (slugs w) c slug dest c1 (codes w') (slugs w')
       | Some e \<Rightarrow>
           if errors_is e ErrSlugTaken then codes w' = codes w \<and> slugs w' = slugs w \<and> slugs w slug \<noteq> None
           else codes w' = codes w \<and> slugs w' = slugs w \<or>
             (\<exists>c2. dynamic_added norm (codes w) (slugs w) c slug dest c2 (codes w') (slugs w')))"
    and getByID: "inv w \<Longrightarrow> rp_GetByID (cs_repo S) u i w = (g, w') \<Longrightarrow>
      inv w' \<and> codes w' = codes w \<and> slugs w' = slugs w \<and> targets w' = targets w \<and> scans w' = scans w \<and>
      (case g of
         Inr c \<Rightarrow> owned u (codes w i) = Some c
       | Inl e \<Rightarrow> errors_is e CodesErrNotFound \<longrightarrow> owned u (codes w i) = None)"
    and list: "inv w \<Longrightarrow> 0 \<le> limit \<Longrightarrow> rp_List (cs_repo S) u cur limit w = (l, w') \<Longrightarrow>
      inv w' \<and> codes w' = codes w \<and> slugs w' = slugs w \<and> targets w' = targets w \<and> mine w' = mine w \<and>
      (\<forall>items. l = Inr items \<longrightarrow> items = take (nat limit) (filter (before_cursor cur) (mine w u)))"
    and mine: "inv w \<Longrightarrow> sorted_wrt (\<lambda>a b. code_cursor b < code_cursor a) (mine w u) \<and>
      set (mine w u) = {c. \<exists>i. owned u (codes w i) = Some c}"
    and updateLabel: "inv w \<Longrightarrow> rp_UpdateLabel (cs_repo S) u i label w = (x, w') \<Longrightarrow>
      inv w' \<and> targets w' = targets w \<and> slugs w' = slugs w \<and>
      write_law x (owned u (codes w i) \<noteq> None) (codes w' = codes w) (\<exists>t. codes w' = set_label u i label t (codes w))"
    and updateDestination: "inv w \<Longrightarrow> rp_UpdateDestination (cs_repo S) i dest w = (x, w') \<Longrightarrow>
      inv w' \<and> targets w' = targets w \<and>
      write_law x (has_dynamic (codes w) i) (codes w' = codes w \<and> slugs w' = slugs w)
        (slugs w' = set_slug_destination i dest (slugs w) \<and>
         (\<exists>t. codes w' = set_code_destination i dest t (codes w)))"
    and delete: "inv w \<Longrightarrow> rp_Delete (cs_repo S) u i w = (x, w') \<Longrightarrow>
      inv w' \<and> targets w' = targets w \<and>
      write_law x (owned u (codes w i) \<noteq> None) (codes w' = codes w \<and> slugs w' = slugs w)
        (codes w' = drop_code u i (codes w) \<and>
         slugs w' = (if owned u (codes w i) = None then slugs w else drop_slugs i (slugs w)))"
    and scanCounts: "inv w \<Longrightarrow> rp_ScanCounts (cs_repo S) slug w = (k, w') \<Longrightarrow>
      inv w' \<and> codes w' = codes w \<and> slugs w' = slugs w \<and> targets w' = targets w \<and> scans w' = scans w \<and>
      (\<forall>v. k = Inr v \<longrightarrow> v = counts_of (scans w slug))"
    and scanDaily: "inv w \<Longrightarrow> rp_ScanDaily (cs_repo S) slug w = (y, w') \<Longrightarrow>
      inv w' \<and> codes w' = codes w \<and> slugs w' = slugs w \<and> targets w' = targets w \<and> scans w' = scans w \<and>
      (\<forall>v. y = Inr v \<longrightarrow> v = daily_of (scans w slug))"
    and scanTop: "inv w \<Longrightarrow> rp_ScanTopUserAgents (cs_repo S) slug n w = (z, w') \<Longrightarrow>
      inv w' \<and> codes w' = codes w \<and> slugs w' = slugs w \<and> targets w' = targets w \<and> scans w' = scans w \<and>
      (\<forall>v. z = Inr v \<longrightarrow> v = take n (ranked_agents collate (scans w slug)))"
    and view_slugs: "inv w \<Longrightarrow> codes w i = Some c \<Longrightarrow> code_Dynamic c = Some dyn \<Longrightarrow>
      slugs w (dyn_Slug dyn) = Some (dyn_Destination dyn, i)"
    and slugs_view: "inv w \<Longrightarrow> slugs w s = Some (d, i) \<Longrightarrow>
      \<exists>c dyn. codes w i = Some c \<and> code_IsDynamic c \<and> code_Dynamic c = Some dyn \<and> dyn_Slug dyn = s"
    and code_id: "inv w \<Longrightarrow> codes w i = Some c \<Longrightarrow> code_ID c = i"
begin

text \<open>The guard: a destination is refused or not, and nothing else changes.\<close>

lemma guard:
  assumes "inv w" "guardDestination S url w = (x, w')"
  shows "inv w' \<and> codes w' = codes w \<and> slugs w' = slugs w \<and> targets w' \<subseteq>\<^sub>m targets w \<and>
    (x = None \<or> x = Some (Sentinel ErrUnsafeDestination))"
proof (cases "cs_checker S")
  case None
  with assms show ?thesis by (simp add: guardDestination_def)
next
  case (Some check)
  obtain r w1 where r: "check url w = (r, w1)" by (rule prod.exhaust)
  from checker_frame [OF assms(1) Some r] assms(2) r Some show ?thesis
    by (auto simp: guardDestination_def split: sum.splits if_splits)
qed

text \<open>What the loop of \<open>Create\<close> ends with.\<close>

definition attempts_result ::
  "code \<Rightarrow> string \<Rightarrow> 'w \<Rightarrow> err + code \<Rightarrow> 'w \<Rightarrow> bool" where
  "attempts_result c dest w r w' \<longleftrightarrow>
     inv w' \<and> targets w' = targets w \<and>
     (case r of
        Inr c' \<Rightarrow> (\<exists>slug. slug_ok slug \<and>
          dynamic_added norm (codes w) (slugs w) c slug dest c' (codes w') (slugs w'))
      | Inl e \<Rightarrow> codes w' = codes w \<and> slugs w' = slugs w \<or>
          (\<exists>m e'. e = Wrap m e') \<and> (\<exists>slug c'. slug_ok slug \<and>
            dynamic_added norm (codes w) (slugs w) c slug dest c' (codes w') (slugs w')))"

lemma dynamic_added_input:
  "same_input c0 c \<Longrightarrow> dynamic_added norm v sv c slug dest c' v' sv' = dynamic_added norm v sv c0 slug dest c' v' sv'"
  using dynamic_result_input [of c0 c] by (simp add: dynamic_added_def same_input_def)

lemma attempts_result_cong:
  "same_input c0 c \<Longrightarrow> codes w1 = codes w \<Longrightarrow> slugs w1 = slugs w \<Longrightarrow> targets w1 = targets w \<Longrightarrow>
   attempts_result c dest w1 r w' \<Longrightarrow> attempts_result c0 dest w r w'"
  by (cases r) (simp_all add: attempts_result_def dynamic_added_input [of c0 c])

lemma attempts_resultI:
  assumes "inv w'" "targets w' = targets w"
    and "\<And>c'. r = Inr c' \<Longrightarrow> \<exists>slug. slug_ok slug \<and>
      dynamic_added norm (codes w) (slugs w) c slug dest c' (codes w') (slugs w')"
    and "\<And>e. r = Inl e \<Longrightarrow> codes w' = codes w \<and> slugs w' = slugs w \<or>
      (\<exists>m e'. e = Wrap m e') \<and> (\<exists>slug c'. slug_ok slug \<and>
        dynamic_added norm (codes w) (slugs w) c slug dest c' (codes w') (slugs w'))"
  shows "attempts_result c dest w r w'"
  unfolding attempts_result_def using assms by (cases r) simp_all

lemma create_attempts_spec:
  "inv w \<Longrightarrow> code_Type c = TypeURL \<Longrightarrow> create_attempts S k c dest w = (r, w') \<Longrightarrow> attempts_result c dest w r w'"
proof (induction k arbitrary: c w)
  case 0
  then show ?case by (intro attempts_resultI) simp_all
next
  case (Suc k)
  obtain q w1 where q: "cs_newSlug S w = (q, w1)" by (rule prod.exhaust)
  note slug = newSlug [OF Suc.prems(1) q]
  then have w1: "inv w1" "codes w1 = codes w" "slugs w1 = slugs w" "targets w1 = targets w" by simp_all
  show ?case
  proof (cases q)
    case (Inl e)
    then have "r = Inl (Wrap ''generating slug'' e)" "w' = w1" using Suc.prems(3) q by simp_all
    with w1 show ?thesis by (intro attempts_resultI) simp_all
  next
    case (Inr s)
    with slug have ok: "slug_ok s" by simp
    obtain eo c1 w2 where d: "rp_CreateDynamic (cs_repo S) c s dest w1 = ((eo, c1), w2)"
      by (metis prod.collapse)
    note dyn = createDynamic [OF w1(1) Suc.prems(2) d, unfolded w1(2-4)]
    then have w2: "inv w2" "targets w2 = targets w" "same_input c c1" by simp_all
    show ?thesis
    proof (cases eo)
      case None
      then have "r = Inr c1" "w' = w2" using Suc.prems(3) q Inr d by simp_all
      with None dyn w2 ok show ?thesis by (intro attempts_resultI) auto
    next
      case (Some e)
      show ?thesis
      proof (cases "errors_is e ErrSlugTaken")
        case True
        then have rest: "create_attempts S k c1 dest w2 = (r, w')" using Suc.prems(3) q Inr d Some by simp
        have "code_Type c1 = TypeURL" using w2(3) Suc.prems(2) by (simp add: same_input_def)
        from Suc.IH [OF w2(1) this rest] have res: "attempts_result c1 dest w2 r w'" .
        have "codes w2 = codes w" "slugs w2 = slugs w" using dyn True Some by simp_all
        from attempts_result_cong [OF w2(3) this w2(2) res] show ?thesis .
      next
        case False
        have "r = Inl (Wrap ''creating dynamic code'' e)" "w' = w2" using Suc.prems(3) q Inr d Some False by simp_all
        with Some False dyn w2 ok show ?thesis by (intro attempts_resultI) auto
      qed
    qed
  qed
qed

end

end
