(* ===== verification/Qr.thy ===== *)
theory Qr
  imports CodesService
begin

text \<open>
  \<open>internal/qr/qr.go\<close>. The renderer \<open>github.com/skip2/go-qrcode\<close> is a parameter, a function of the
  content, its recovery level and the size.
\<close>

definition ECCLow :: string where "ECCLow = ''low''"
definition ECCMedium :: string where "ECCMedium = ''medium''"
definition ECCHigh :: string where "ECCHigh = ''high''"
definition ECCHighest :: string where "ECCHighest = ''highest''"

definition DefaultSize :: int where "DefaultSize = 256"
definition MinSize :: int where "MinSize = 64"
definition MaxSize :: int where "MaxSize = 2048"
definition DefaultECC :: string where "DefaultECC = ECCMedium"

definition ValidECC :: "string \<Rightarrow> bool" where
  "ValidECC e \<longleftrightarrow> List.member [ECCLow, ECCMedium, ECCHigh, ECCHighest] e"

definition Content :: "string \<Rightarrow> string \<Rightarrow> err + string" where
  "Content codeType payload =
     (if codeType = ''url'' then
        (case unmarshal_url payload of
           None \<Rightarrow> Inl (Wrap ''decoding url payload'' (Err ''json''))
         | Some u \<Rightarrow> if u = [] then Inl (Sentinel ErrMissingURL) else Inr u)
      else Inl (Sentinel ErrUnsupportedType))"

datatype recovery_level = QrLow | QrMedium | QrHigh | QrHighest

type_synonym qrcode = "string \<Rightarrow> recovery_level \<Rightarrow> int \<Rightarrow> err + string"

definition recoveryLevel :: "string \<Rightarrow> recovery_level" where
  "recoveryLevel e =
     (if e = ECCLow then QrLow else if e = ECCHigh then QrHigh else if e = ECCHighest then QrHighest else QrMedium)"

definition PNG :: "qrcode \<Rightarrow> string \<Rightarrow> int \<Rightarrow> string \<Rightarrow> err + string" where
  "PNG encode content sz ecc =
     (if content = [] then Inl (Err ''empty qr content'')
      else (case encode content (recoveryLevel ecc) sz of
          Inl e \<Rightarrow> Inl (Wrap ''encoding qr png'' e)
        | Inr png \<Rightarrow> Inr png))"

definition ClampSize :: "int \<Rightarrow> int" where
  "ClampSize sz = (if sz < MinSize then MinSize else if sz > MaxSize then MaxSize else sz)"

lemma ClampSize_bounds: "MinSize \<le> ClampSize sz \<and> ClampSize sz \<le> MaxSize"
  by (simp add: ClampSize_def MinSize_def MaxSize_def)

lemma ClampSize_median: "ClampSize sz = max MinSize (min MaxSize sz)"
  by (simp add: ClampSize_def MinSize_def MaxSize_def)

lemma ECC_distinct: "distinct [ECCLow, ECCMedium, ECCHigh, ECCHighest]"
  by (simp add: ECCLow_def ECCMedium_def ECCHigh_def ECCHighest_def)

text \<open>The levels are told apart.\<close>

lemma recoveryLevel_inj: "inj_on recoveryLevel (Collect ValidECC)"
  using ECC_distinct by (auto simp: inj_on_def ValidECC_def recoveryLevel_def)

text \<open>The content of a URL code is what the service stores as the destination of a dynamic code.\<close>

lemma Content_url: "Content ''url'' payload = Inr u \<longleftrightarrow> extractURL payload = Some u"
  by (auto simp: Content_def extractURL_def split: option.splits)

lemma Content_other: "t \<noteq> ''url'' \<Longrightarrow> Content t payload = Inl (Sentinel ErrUnsupportedType)"
  by (simp add: Content_def)

lemma Content_nonempty: "Content t payload = Inr u \<Longrightarrow> u \<noteq> [] \<and> t = ''url''"
  by (auto simp: Content_def split: option.splits if_splits)

lemma PNG_of_content:
  "Content t payload = Inr u \<Longrightarrow>
   PNG encode u sz ecc = (case encode u (recoveryLevel ecc) sz of Inl e \<Rightarrow> Inl (Wrap ''encoding qr png'' e) | Inr p \<Rightarrow> Inr p)"
  using Content_nonempty [of t payload u] by (simp add: PNG_def)

end
