(* ===== verification/SafetyChecker.thy ===== *)
theory SafetyChecker
  imports SafetyModel GoNet
begin

text \<open>
  The local heuristics of \<open>internal/safety/checker.go\<close>. The set-like maps are lists of their keys, and
  the closure \<open>add\<close> is a function on the pair of its variables \<open>sev\<close> and \<open>res.Reasons\<close>. The parameter
  \<open>ul\<close> is \<open>strings.ToLower\<close> on hosts with bytes above 127.
\<close>

subsection \<open>The checker\<close>

definition dangerousSchemes :: "string list" where
  "dangerousSchemes = [''javascript'', ''data'', ''vbscript'', ''file'', ''blob'']"

definition defaultBlocklist :: "string list" where
  "defaultBlocklist =
     [''malware.test'', ''phishing.test'', ''evil.example'', ''malware.example'', ''phishing.example'']"

definition defaultShorteners :: "string list" where
  "defaultShorteners =
     [''bit.ly'', ''tinyurl.com'', ''t.co'', ''goo.gl'', ''ow.ly'', ''is.gd'', ''buff.ly'', ''rebrand.ly'']"

record heuristic_checker =
  hc_blocklist :: "string list"
  hc_shorteners :: "string list"

definition NewHeuristicChecker :: heuristic_checker where
  "NewHeuristicChecker = \<lparr>hc_blocklist = defaultBlocklist, hc_shorteners = defaultShorteners\<rparr>"

definition isBlocklisted :: "heuristic_checker \<Rightarrow> string \<Rightarrow> bool" where
  "isBlocklisted C host \<longleftrightarrow>
     List.member (hc_blocklist C) host \<or> list_ex (\<lambda>bad. has_suffix host (''.'' @ bad)) (hc_blocklist C)"

type_synonym findings = "int \<times> reason list"

definition add_reason :: "int \<Rightarrow> string \<Rightarrow> string \<Rightarrow> findings \<Rightarrow> findings" where
  "add_reason s code msg = (\<lambda>(sev, rs).
     (if s > sev then s else sev, rs @ [\<lparr>re_Code = code, re_Message = msg\<rparr>]))"

definition add_if :: "bool \<Rightarrow> int \<Rightarrow> string \<Rightarrow> string \<Rightarrow> findings \<Rightarrow> findings" where
  "add_if b s code msg f = (if b then add_reason s code msg f else f)"

definition is_web :: "string \<Rightarrow> bool" where
  "is_web scheme \<longleftrightarrow> scheme = ''http'' \<or> scheme = ''https''"

definition check_scheme :: "string \<Rightarrow> findings \<Rightarrow> findings" where
  "check_scheme scheme f =
     (if is_web scheme then f
      else if scheme = [] then add_reason sevMalicious ReasonDisallowedScheme ''URL has no scheme'' f
      else if List.member dangerousSchemes scheme
      then add_reason sevMalicious ReasonDisallowedScheme (''scheme is not allowed for web links: '' @ scheme) f
      else add_reason sevSuspicious ReasonUncommonScheme (''uncommon URL scheme: '' @ scheme) f)"

definition check_host :: "heuristic_checker \<Rightarrow> bool \<Rightarrow> string \<Rightarrow> findings \<Rightarrow> findings" where
  "check_host C has_user host f =
     (if host = [] then add_reason sevMalicious ReasonMissingHost ''URL has no host'' f
      else
        let f = add_if has_user sevSuspicious ReasonEmbeddedCredentials ''URL contains embedded credentials'' f;
            f = add_if (is_ip host) sevSuspicious ReasonIPLiteralHost ''host is a raw IP address'' f;
            f = add_if (contains host ''xn--'') sevSuspicious ReasonPunycodeHost
              ''host uses punycode (possible homograph attack)'' f;
            f = add_if (length host > 100) sevSuspicious ReasonLongHost ''host is unusually long'' f;
            f = add_if (isBlocklisted C host) sevMalicious ReasonBlocklistedHost ''host is on the blocklist'' f
        in add_if (List.member (hc_shorteners C) host) sevSuspicious ReasonURLShortener
             ''host is a URL shortener; final destination is hidden'' f)"

definition check_url :: "(string \<Rightarrow> string) \<Rightarrow> heuristic_checker \<Rightarrow> string \<Rightarrow> findings" where
  "check_url ul C rawURL =
     (case url_Parse (trim_space rawURL) of
        None \<Rightarrow> add_reason sevMalicious ReasonUnparseableURL ''URL could not be parsed'' (sevSafe, [])
      | Some u \<Rightarrow>
          (let scheme = to_lower ul (url_Scheme u); f = check_scheme scheme (sevSafe, []) in
           if is_web scheme then check_host C (url_User u \<noteq> None) (to_lower ul (url_Hostname u)) f else f))"

definition Check :: "(string \<Rightarrow> string) \<Rightarrow> heuristic_checker \<Rightarrow> string \<Rightarrow> safety_result" where
  "Check ul C rawURL =
     (case check_url ul C rawURL of
        (sev, rs) \<Rightarrow> \<lparr>sr_URL = rawURL, sr_Verdict = verdictForSeverity sev, sr_Reasons = rs, sr_Cached = False\<rparr>)"

subsection \<open>The worst reason decides\<close>

text \<open>The severity that belongs to the code of a reason.\<close>

definition malicious_codes :: "string list" where
  "malicious_codes = [ReasonUnparseableURL, ReasonDisallowedScheme, ReasonMissingHost, ReasonBlocklistedHost]"

definition severity_of :: "reason \<Rightarrow> int" where
  "severity_of r = (if List.member malicious_codes (re_Code r) then sevMalicious else sevSuspicious)"

text \<open>
  \<open>graded f\<close>: the severity of the findings is the greatest of their reasons, and no code appears twice.
\<close>

fun worst :: "reason list \<Rightarrow> int" where
  "worst [] = sevSafe"
| "worst (r # rs) = max (severity_of r) (worst rs)"

definition graded :: "findings \<Rightarrow> bool" where
  "graded f \<longleftrightarrow> fst f = worst (snd f) \<and> distinct (map re_Code (snd f))"

lemma worst_nonneg: "sevSafe \<le> worst rs"
  by (induction rs) auto

lemma worst_snoc: "worst (rs @ [x]) = max (severity_of x) (worst rs)"
  by (induction rs) (auto simp: severity_of_def severity_defs)

lemma graded_add:
  assumes "graded f" "severity_of \<lparr>re_Code = code, re_Message = msg\<rparr> = s" "code \<notin> re_Code ` set (snd f)"
  shows "graded (add_reason s code msg f)"
  using assms by (cases f) (auto simp: graded_def add_reason_def worst_snoc)

lemma codes_add: "re_Code ` set (snd (add_if b s code msg f)) \<subseteq> insert code (re_Code ` set (snd f))"
  by (cases f) (auto simp: add_if_def add_reason_def)

lemma graded_add_if:
  "graded f \<Longrightarrow> severity_of \<lparr>re_Code = code, re_Message = msg\<rparr> = s \<Longrightarrow> code \<notin> re_Code ` set (snd f) \<Longrightarrow>
   graded (add_if b s code msg f)"
  by (simp add: add_if_def graded_add)

lemma graded_empty: "graded (sevSafe, [])"
  by (simp add: graded_def)

lemma severity_codes:
  "severity_of \<lparr>re_Code = ReasonUnparseableURL, re_Message = m\<rparr> = sevMalicious"
  "severity_of \<lparr>re_Code = ReasonDisallowedScheme, re_Message = m\<rparr> = sevMalicious"
  "severity_of \<lparr>re_Code = ReasonMissingHost, re_Message = m\<rparr> = sevMalicious"
  "severity_of \<lparr>re_Code = ReasonBlocklistedHost, re_Message = m\<rparr> = sevMalicious"
  "severity_of \<lparr>re_Code = ReasonUncommonScheme, re_Message = m\<rparr> = sevSuspicious"
  "severity_of \<lparr>re_Code = ReasonEmbeddedCredentials, re_Message = m\<rparr> = sevSuspicious"
  "severity_of \<lparr>re_Code = ReasonIPLiteralHost, re_Message = m\<rparr> = sevSuspicious"
  "severity_of \<lparr>re_Code = ReasonPunycodeHost, re_Message = m\<rparr> = sevSuspicious"
  "severity_of \<lparr>re_Code = ReasonLongHost, re_Message = m\<rparr> = sevSuspicious"
  "severity_of \<lparr>re_Code = ReasonURLShortener, re_Message = m\<rparr> = sevSuspicious"
  by (simp_all add: severity_of_def malicious_codes_def reason_defs)

lemma reason_codes_distinct:
  "distinct [ReasonDisallowedScheme, ReasonUncommonScheme, ReasonMissingHost, ReasonEmbeddedCredentials,
     ReasonIPLiteralHost, ReasonPunycodeHost, ReasonLongHost, ReasonBlocklistedHost, ReasonURLShortener,
     ReasonUnparseableURL]"
  by (simp add: reason_defs)

lemma graded_scheme: "graded (check_scheme scheme (sevSafe, []))"
  by (simp add: check_scheme_def graded_add graded_empty severity_codes)

lemma graded_host: "graded (check_host C usr host (sevSafe, []))"
proof -
  let ?e = "(sevSafe, [] :: reason list)"
  let ?f1 = "add_if usr sevSuspicious ReasonEmbeddedCredentials ''URL contains embedded credentials'' ?e"
  let ?f2 = "add_if (is_ip host) sevSuspicious ReasonIPLiteralHost ''host is a raw IP address'' ?f1"
  let ?f3 = "add_if (contains host ''xn--'') sevSuspicious ReasonPunycodeHost
    ''host uses punycode (possible homograph attack)'' ?f2"
  let ?f4 = "add_if (length host > 100) sevSuspicious ReasonLongHost ''host is unusually long'' ?f3"
  let ?f5 = "add_if (isBlocklisted C host) sevMalicious ReasonBlocklistedHost ''host is on the blocklist'' ?f4"
  have c1: "re_Code ` set (snd ?f1) \<subseteq> {ReasonEmbeddedCredentials}" by (rule order_trans [OF codes_add]) simp
  have c2: "re_Code ` set (snd ?f2) \<subseteq> {ReasonEmbeddedCredentials, ReasonIPLiteralHost}"
    by (rule order_trans [OF codes_add]) (use c1 in auto)
  have c3: "re_Code ` set (snd ?f3) \<subseteq> {ReasonEmbeddedCredentials, ReasonIPLiteralHost, ReasonPunycodeHost}"
    by (rule order_trans [OF codes_add]) (use c2 in auto)
  have c4: "re_Code ` set (snd ?f4) \<subseteq> {ReasonEmbeddedCredentials, ReasonIPLiteralHost, ReasonPunycodeHost, ReasonLongHost}"
    by (rule order_trans [OF codes_add]) (use c3 in auto)
  have c5: "re_Code ` set (snd ?f5) \<subseteq> {ReasonEmbeddedCredentials, ReasonIPLiteralHost, ReasonPunycodeHost,
      ReasonLongHost, ReasonBlocklistedHost}"
    by (rule order_trans [OF codes_add]) (use c4 in auto)
  have "graded ?f1" by (rule graded_add_if [OF graded_empty]) (simp_all add: severity_codes)
  then have "graded ?f2" by (rule graded_add_if) (use c1 reason_codes_distinct in \<open>auto simp: severity_codes\<close>)
  then have "graded ?f3" by (rule graded_add_if) (use c2 reason_codes_distinct in \<open>auto simp: severity_codes\<close>)
  then have "graded ?f4" by (rule graded_add_if) (use c3 reason_codes_distinct in \<open>auto simp: severity_codes\<close>)
  then have "graded ?f5" by (rule graded_add_if) (use c4 reason_codes_distinct in \<open>auto simp: severity_codes\<close>)
  then have "graded (add_if (List.member (hc_shorteners C) host) sevSuspicious ReasonURLShortener
      ''host is a URL shortener; final destination is hidden'' ?f5)"
    by (rule graded_add_if) (use c5 reason_codes_distinct in \<open>auto simp: severity_codes\<close>)
  then show ?thesis by (simp add: check_host_def Let_def graded_add graded_empty severity_codes)
qed

lemma check_url_graded: "graded (check_url ul C raw)"
proof (cases "url_Parse (trim_space raw)")
  case None
  then show ?thesis by (simp add: check_url_def graded_add graded_empty severity_codes)
next
  case (Some u)
  have "check_scheme scheme (sevSafe, []) = (sevSafe, [])" if "is_web scheme" for scheme
    using that by (simp add: check_scheme_def)
  then show ?thesis using Some by (simp add: check_url_def Let_def graded_scheme graded_host)
qed

lemma worst_le: "sevSafe \<le> k \<Longrightarrow> worst rs \<le> k \<longleftrightarrow> (\<forall>r \<in> set rs. severity_of r \<le> k)"
  by (induction rs) auto

lemma severity_bounds: "sevSuspicious \<le> severity_of r" "severity_of r \<le> sevMalicious"
  by (simp_all add: severity_of_def severity_defs)

lemma severity_malicious: "sevMalicious \<le> severity_of r \<longleftrightarrow> re_Code r \<in> set malicious_codes"
  by (simp add: severity_of_def severity_defs)

lemma worst_malicious: "sevMalicious \<le> worst rs \<longleftrightarrow> (\<exists>r \<in> set rs. re_Code r \<in> set malicious_codes)"
proof -
  have code: "\<not> severity_of r \<le> sevSuspicious \<longleftrightarrow> re_Code r \<in> set malicious_codes" for r
    using severity_malicious [of r] unfolding severity_defs by linarith
  have "sevMalicious \<le> worst rs \<longleftrightarrow> \<not> worst rs \<le> sevSuspicious" by (simp add: severity_defs) linarith
  also have "\<dots> \<longleftrightarrow> (\<exists>r \<in> set rs. \<not> severity_of r \<le> sevSuspicious)" by (simp add: worst_le severity_defs)
  finally show ?thesis unfolding code .
qed

lemma worst_safe: "worst rs < sevSuspicious \<longleftrightarrow> rs = []"
  using severity_bounds(1) [of "hd rs"] by (cases rs) (auto simp: severity_defs)

text \<open>What the findings of a URL are, by its parts.\<close>

lemma findings_add_if: "snd (add_if b s code msg f) = snd f @ (if b then [\<lparr>re_Code = code, re_Message = msg\<rparr>] else [])"
  by (cases f) (simp add: add_if_def add_reason_def)

lemma findings_scheme:
  "(\<exists>r \<in> set (snd (check_scheme s (sevSafe, []))). re_Code r \<in> set malicious_codes) \<longleftrightarrow> s = [] \<or> s \<in> set dangerousSchemes"
  "snd (check_scheme s (sevSafe, [])) = [] \<longleftrightarrow> is_web s"
  by (auto simp: check_scheme_def add_reason_def malicious_codes_def reason_defs is_web_def dangerousSchemes_def)

lemma findings_host:
  "(\<exists>r \<in> set (snd (check_host C usr h (sevSafe, []))). re_Code r \<in> set malicious_codes) \<longleftrightarrow> h = [] \<or> isBlocklisted C h"
  "snd (check_host C usr h (sevSafe, [])) = [] \<longleftrightarrow>
     h \<noteq> [] \<and> \<not> usr \<and> \<not> is_ip h \<and> \<not> contains h ''xn--'' \<and> length h \<le> 100 \<and> \<not> isBlocklisted C h \<and> h \<notin> set (hc_shorteners C)"
  by (auto simp: check_host_def Let_def findings_add_if add_reason_def malicious_codes_def reason_defs)

text \<open>The parts of a URL that make it malicious, and those that make it safe.\<close>

definition malicious_parts :: "(string \<Rightarrow> string) \<Rightarrow> heuristic_checker \<Rightarrow> url \<Rightarrow> bool" where
  "malicious_parts ul C u =
     (let scheme = to_lower ul (url_Scheme u); host = to_lower ul (url_Hostname u) in
      if scheme = ''http'' \<or> scheme = ''https''
      then host = [] \<or> (\<exists>bad \<in> set (hc_blocklist C). host = bad \<or> has_suffix host (''.'' @ bad))
      else scheme \<in> {[], ''javascript'', ''data'', ''vbscript'', ''file'', ''blob''})"

definition safe_parts :: "(string \<Rightarrow> string) \<Rightarrow> heuristic_checker \<Rightarrow> url \<Rightarrow> bool" where
  "safe_parts ul C u =
     (let host = to_lower ul (url_Hostname u) in
      to_lower ul (url_Scheme u) \<in> {''http'', ''https''} \<and> \<not> malicious_parts ul C u \<and> url_User u = None \<and> \<not> is_ip host \<and>
      \<not> contains host ''xn--'' \<and> length host \<le> 100 \<and> host \<notin> set (hc_shorteners C))"

lemma isBlocklisted_iff:
  "isBlocklisted C host \<longleftrightarrow> (\<exists>bad \<in> set (hc_blocklist C). host = bad \<or> has_suffix host (''.'' @ bad))"
  by (auto simp: isBlocklisted_def list_ex_iff)

lemma check_url_web:
  assumes "url_Parse (trim_space raw) = Some u"
  shows "check_url ul C raw =
    (if is_web (to_lower ul (url_Scheme u)) then check_host C (url_User u \<noteq> None) (to_lower ul (url_Hostname u)) (sevSafe, [])
     else check_scheme (to_lower ul (url_Scheme u)) (sevSafe, []))"
  using assms by (simp add: check_url_def Let_def check_scheme_def)

lemma malicious_parts_eq:
  "malicious_parts ul C u \<longleftrightarrow>
     (if is_web (to_lower ul (url_Scheme u)) then to_lower ul (url_Hostname u) = [] \<or> isBlocklisted C (to_lower ul (url_Hostname u))
      else to_lower ul (url_Scheme u) = [] \<or> to_lower ul (url_Scheme u) \<in> set dangerousSchemes)"
  unfolding malicious_parts_def Let_def isBlocklisted_iff is_web_def dangerousSchemes_def by simp

lemma findings_url:
  "(\<exists>r \<in> set (snd (check_url ul C raw)). re_Code r \<in> set malicious_codes) \<longleftrightarrow>
     (case url_Parse (trim_space raw) of None \<Rightarrow> True | Some u \<Rightarrow> malicious_parts ul C u)"
  "snd (check_url ul C raw) = [] \<longleftrightarrow>
     (case url_Parse (trim_space raw) of None \<Rightarrow> False | Some u \<Rightarrow> safe_parts ul C u)"
proof -
  have none: "snd (check_url ul C raw) = [\<lparr>re_Code = ReasonUnparseableURL, re_Message = ''URL could not be parsed''\<rparr>]"
    if "url_Parse (trim_space raw) = None"
    using that by (simp add: check_url_def add_reason_def)
  have code: "ReasonUnparseableURL \<in> set malicious_codes" by (simp add: malicious_codes_def)
  show "(\<exists>r \<in> set (snd (check_url ul C raw)). re_Code r \<in> set malicious_codes) \<longleftrightarrow>
     (case url_Parse (trim_space raw) of None \<Rightarrow> True | Some u \<Rightarrow> malicious_parts ul C u)"
    using none code by (cases "url_Parse (trim_space raw)")
      (simp_all add: check_url_web malicious_parts_eq findings_host(1) findings_scheme(1))
  show "snd (check_url ul C raw) = [] \<longleftrightarrow>
     (case url_Parse (trim_space raw) of None \<Rightarrow> False | Some u \<Rightarrow> safe_parts ul C u)"
  proof (cases "url_Parse (trim_space raw)")
    case (Some u)
    have "safe_parts ul C u \<longleftrightarrow> is_web (to_lower ul (url_Scheme u)) \<and>
        snd (check_host C (url_User u \<noteq> None) (to_lower ul (url_Hostname u)) (sevSafe, [])) = []"
      unfolding safe_parts_def Let_def malicious_parts_eq findings_host(2) by (cases "url_User u") (auto simp: is_web_def)
    with Some show ?thesis by (simp add: check_url_web findings_scheme(2))
  qed (simp add: none)
qed

lemma malicious_verdict:
  "sr_Verdict (Check ul C raw) = VerdictMalicious \<longleftrightarrow>
     (case url_Parse (trim_space raw) of None \<Rightarrow> True | Some u \<Rightarrow> malicious_parts ul C u)"
  using check_url_graded [of ul C raw] findings_url(1) [of ul C raw]
  by (simp add: Check_def case_prod_beta graded_def worst_malicious)

lemma safe_verdict:
  "sr_Verdict (Check ul C raw) = VerdictSafe \<longleftrightarrow>
     (case url_Parse (trim_space raw) of None \<Rightarrow> False | Some u \<Rightarrow> safe_parts ul C u)"
proof -
  have "fst (check_url ul C raw) = worst (snd (check_url ul C raw))"
    using check_url_graded [of ul C raw] by (simp add: graded_def)
  then have "sr_Verdict (Check ul C raw) = VerdictSafe \<longleftrightarrow> snd (check_url ul C raw) = []"
    using worst_safe [of "snd (check_url ul C raw)"] by (simp add: Check_def case_prod_beta)
  then show ?thesis unfolding findings_url(2) .
qed

text \<open>
  C35. What the verdict of a check says of the URL, over all texts. It is \<open>malicious\<close> exactly if the text
  is no URL, or its scheme is missing or one of the five that run or embed content, or it is a web
  URL (\<open>http\<close>, \<open>https\<close>) without host or with a blocklisted host (a listed name or a subdomain of one). It
  is \<open>safe\<close> exactly if it is a web URL that is not malicious and has no user information, no address or
  punycode as host, a host of at most 100 bytes, and none that shortens URLs. It is \<open>suspicious\<close> otherwise. The
  reasons are empty exactly for a safe one, no reason is given twice, the URL is echoed as it was given,
  and a fresh result is not marked as cached.
\<close>

theorem Check_verdict:
  "(sr_Verdict (Check ul C raw) = VerdictMalicious \<longleftrightarrow>
      (case url_Parse (trim_space raw) of None \<Rightarrow> True | Some u \<Rightarrow> malicious_parts ul C u)) \<and>
   (sr_Verdict (Check ul C raw) = VerdictSafe \<longleftrightarrow>
      (case url_Parse (trim_space raw) of None \<Rightarrow> False | Some u \<Rightarrow> safe_parts ul C u)) \<and>
   (sr_Verdict (Check ul C raw) = VerdictSafe \<longleftrightarrow> sr_Reasons (Check ul C raw) = []) \<and>
   sr_Verdict (Check ul C raw) \<in> {VerdictSafe, VerdictSuspicious, VerdictMalicious} \<and>
   distinct (map re_Code (sr_Reasons (Check ul C raw))) \<and>
   sr_URL (Check ul C raw) = raw \<and> \<not> sr_Cached (Check ul C raw)"
proof -
  have "sr_Verdict (Check ul C raw) = VerdictSafe \<longleftrightarrow> sr_Reasons (Check ul C raw) = []"
    unfolding safe_verdict findings_url(2) [symmetric] by (simp add: Check_def case_prod_beta)
  moreover have "sr_Verdict (Check ul C raw) \<in> {VerdictSafe, VerdictSuspicious, VerdictMalicious}"
    by (simp add: Check_def case_prod_beta verdictForSeverity_def)
  moreover have "distinct (map re_Code (sr_Reasons (Check ul C raw)))" "sr_URL (Check ul C raw) = raw" "\<not> sr_Cached (Check ul C raw)"
    using check_url_graded [of ul C raw] by (simp_all add: Check_def case_prod_beta graded_def)
  ultimately show ?thesis using malicious_verdict safe_verdict by blast
qed

subsection \<open>The blocklist\<close>

lemma to_lower_ascii: "is_ascii s \<Longrightarrow> to_lower ul s = map ascii_lower s"
  by (simp add: to_lower_def)

lemma lower_web:
  assumes "web_url_ok p"
  obtains u where "url_Parse (web_url p) = Some u" "is_web (to_lower ul (url_Scheme u))"
    "to_lower ul (url_Hostname u) = map ascii_lower (up_host p)" "url_User u = None \<longleftrightarrow> up_user p = None"
proof -
  obtain u where u: "url_Parse (web_url p) = Some u" "url_Scheme u = map ascii_lower (up_scheme p)"
    "url_Hostname u = up_host p" "url_User u = None \<longleftrightarrow> up_user p = None"
    using url_Parse_web [OF assms] .
  have "is_web (map ascii_lower (up_scheme p))" using web_url_okD(1) [OF assms] by (simp add: is_web_def)
  moreover from this have "to_lower ul (map ascii_lower (up_scheme p)) = map ascii_lower (up_scheme p)"
    by (auto simp: is_web_def to_lower_def is_ascii_def ascii_lower_def byte_def)
  moreover have "is_ascii (up_host p)"
    using web_url_okD(2) [OF assms] any_case_host_char by (force simp: plain_host_def is_ascii_def list_all_iff)
  ultimately show thesis using that [OF u(1)] u(2-4) to_lower_ascii by metis
qed

text \<open>
  C36. The blocklist is effective: a web URL whose host is on it, or is a subdomain of such a host, is
  malicious, whatever else the check finds: in upper or lower case, with user information, a port, a
  path, a query or a fragment, and however it is padded with white space.
\<close>

theorem Check_blocklisted:
  assumes "bad \<in> set (hc_blocklist C)" and "map ascii_lower (up_host p) = bad \<or> has_suffix (map ascii_lower (up_host p)) (''.'' @ bad)"
    and "web_url_ok p" and "trim_space raw = web_url p"
  shows "sr_Verdict (Check ul C raw) = VerdictMalicious"
proof -
  obtain u where u: "url_Parse (web_url p) = Some u" "is_web (to_lower ul (url_Scheme u))"
    "to_lower ul (url_Hostname u) = map ascii_lower (up_host p)"
    using lower_web [OF assms(3)] .
  have "isBlocklisted C (map ascii_lower (up_host p))" using assms(1,2) by (auto simp: isBlocklisted_iff)
  with u have "malicious_parts ul C u" by (simp add: malicious_parts_eq)
  with u(1) show ?thesis unfolding malicious_verdict assms(4) by simp
qed

definition sample_bad_url :: url_parts where
  "sample_bad_url = \<lparr>up_scheme = ''HTTPS'', up_user = Some ''bob:pw'', up_host = ''Login.Evil.example'', up_port = '':8443'',
     up_path = ''/pay'', up_query = Some ''a=b'', up_fragment = Some ''top''\<rparr>"

theorem Check_blocklisted_witness:
  "sr_Verdict (Check (\<lambda>s. s) NewHeuristicChecker ''  HTTPS://bob:pw@Login.Evil.example:8443/pay?a=b#top'') = VerdictMalicious"
  by (rule Check_blocklisted [where bad = "''evil.example''" and p = sample_bad_url]) code_simp+

subsection \<open>Fully qualified names\<close>









end
