(* ===== verification/SafetyService.thy ===== *)
theory SafetyService
  imports SafetyChecker Redis GoJsonEncode GoCrypto
begin

text \<open>
  \<open>internal/safety/service.go\<close>: the verdict cache as an interface with its contract (locale
  \<open>verdict_cache\<close>), its implementation on Redis (\<open>sublocale\<close>), and the service that runs the checker
  behind it. Log lines are no part of the state. A nil slice of reasons is the empty one.
\<close>

subsection \<open>The interface\<close>

record 'w safety_cache =
  sc_Get :: "string \<Rightarrow> ('w, safety_result option) act"
  sc_Set :: "string \<Rightarrow> safety_result \<Rightarrow> 'w eact"

definition result_text :: "safety_result \<Rightarrow> bool" where
  "result_text r \<longleftrightarrow> utf8_valid (sr_URL r) \<and> utf8_valid (sr_Verdict r) \<and>
     list_all (\<lambda>x. utf8_valid (re_Code x) \<and> utf8_valid (re_Message x)) (sr_Reasons r)"

text \<open>
  \<open>verdicts\<close> is what a state of the cache can answer for a URL, and \<open>key\<close> what URLs are told apart by.
\<close>

locale verdict_cache =
  fixes C :: "'w safety_cache" and key :: "string \<Rightarrow> string"
    and verdicts :: "'w \<Rightarrow> string \<Rightarrow> safety_result option"
  assumes get: "sc_Get C u w = (r, w') \<Longrightarrow>
      verdicts w' \<subseteq>\<^sub>m verdicts w \<and> (\<forall>x. r = Inr (Some x) \<longrightarrow> verdicts w u = Some x)"
    and set: "sc_Set C u x w = (e, w') \<Longrightarrow> result_text x \<Longrightarrow>
      verdicts w' \<subseteq>\<^sub>m (\<lambda>v. if key v = key u then Some x else verdicts w v) \<or> verdicts w' \<subseteq>\<^sub>m verdicts w"
begin

text \<open>Every verdict in the cache is that of the checker for some URL that was checked.\<close>

definition sound :: "(string \<Rightarrow> safety_result) \<Rightarrow> string set \<Rightarrow> 'w \<Rightarrow> bool" where
  "sound check X w \<longleftrightarrow>
     (\<forall>u r. verdicts w u = Some r \<longrightarrow> (\<exists>v \<in> X. key v = key u \<and> r = check v))"

lemma soundD: "sound check X w \<Longrightarrow> verdicts w u = Some r \<Longrightarrow> \<exists>v \<in> X. key v = key u \<and> r = check v"
  by (simp add: sound_def)

lemma sound_shrink: "sound check X w \<Longrightarrow> verdicts w' \<subseteq>\<^sub>m verdicts w \<Longrightarrow> X \<subseteq> Y \<Longrightarrow> sound check Y w'"
  unfolding sound_def by (meson map_leD subsetD)

end

subsection \<open>The Redis implementation\<close>

definition safetyKeyPrefix :: string where "safetyKeyPrefix = ''safety:''"

definition safetyTTL :: duration where "safetyTTL = 6 * 3600 * 10 ^ 9"

definition safetyKey :: "string \<Rightarrow> string" where
  "safetyKey rawURL = safetyKeyPrefix @ hex_encode (sha256 rawURL)"

definition reason_json :: "reason \<Rightarrow> jout" where
  "reason_json r = OObj [(''code'', OStr (re_Code r)), (''message'', OStr (re_Message r))]"

definition result_json :: "safety_result \<Rightarrow> jout" where
  "result_json r = OObj
     [(''url'', OStr (sr_URL r)), (''verdict'', OStr (sr_Verdict r)),
      (''reasons'', OArr (map reason_json (sr_Reasons r))), (''cached'', OBool (sr_Cached r))]"

text \<open>
  \<open>json.Unmarshal\<close> into a fresh \<open>Result\<close>. An element of the array is stored over the one that the
  slice held at its place before, which a second member of the same name brings to light.
\<close>

definition reason_into :: "json \<Rightarrow> reason \<Rightarrow> reason option" where
  "reason_into v old =
     Option.bind (struct_of [''code'', ''message''] v) (\<lambda>ms.
     Option.bind (string_field ''code'' ms (re_Code old)) (\<lambda>c.
     map_option (\<lambda>m. \<lparr>re_Code = c, re_Message = m\<rparr>) (string_field ''message'' ms (re_Message old))))"

fun reasons_into :: "json list \<Rightarrow> reason list \<Rightarrow> reason list option" where
  "reasons_into [] olds = Some []"
| "reasons_into (v # vs) olds =
     Option.bind (reason_into v (case olds of [] \<Rightarrow> \<lparr>re_Code = [], re_Message = []\<rparr> | r # _ \<Rightarrow> r)) (\<lambda>r.
     map_option ((#) r) (reasons_into vs (tl olds)))"

fun reasons_field :: "string \<Rightarrow> members \<Rightarrow> reason list \<times> reason list \<Rightarrow> reason list option" where
  "reasons_field n [] (rs, rest) = Some rs"
| "reasons_field n ((k, raw, v) # ms) (rs, rest) =
     (if k = n then
        (case v of
           JArr [] \<Rightarrow> reasons_field n ms ([], [])
         | JArr vs \<Rightarrow>
             (case reasons_into vs (rs @ rest) of
                None \<Rightarrow> None
              | Some rs' \<Rightarrow> reasons_field n ms (rs', drop (length rs') (rs @ rest)))
         | JNull \<Rightarrow> reasons_field n ms ([], [])
         | _ \<Rightarrow> None)
      else reasons_field n ms (rs, rest))"

definition result_of_json :: "string \<Rightarrow> safety_result option" where
  "result_of_json s =
     Option.bind (json_unmarshal s) (\<lambda>v.
     Option.bind (struct_of [''url'', ''verdict'', ''reasons'', ''cached''] v) (\<lambda>ms.
     Option.bind (string_field ''url'' ms []) (\<lambda>u.
     Option.bind (string_field ''verdict'' ms []) (\<lambda>d.
     Option.bind (reasons_field ''reasons'' ms ([], [])) (\<lambda>rs.
     map_option (\<lambda>c. \<lparr>sr_URL = u, sr_Verdict = d, sr_Reasons = rs, sr_Cached = c\<rparr>)
       (bool_field ''cached'' ms False))))))"

definition safety_Get :: "'r redis \<Rightarrow> string \<Rightarrow> ('r, safety_result option) act" where
  "safety_Get R rawURL s =
     (case rd_Get R (safetyKey rawURL) s of
        (Inl e, s1) \<Rightarrow> (if errors_is e RedisNil then Inr None else Inl (Wrap ''redis get'' e), s1)
      | (Inr val, s1) \<Rightarrow>
          (case result_of_json val of
             None \<Rightarrow> (Inl (Wrap ''decoding cached verdict'' (Err ''json'')), s1)
           | Some r \<Rightarrow> (Inr (Some r), s1)))"

definition safety_Set :: "'r redis \<Rightarrow> string \<Rightarrow> safety_result \<Rightarrow> 'r eact" where
  "safety_Set R rawURL r s =
     (case json_encode (result_json r) of
        None \<Rightarrow> (Some (Wrap ''encoding verdict'' (Err ''json'')), s)
      | Some b \<Rightarrow>
          (case rd_Set R (safetyKey rawURL) b safetyTTL s of
             (Some e, s1) \<Rightarrow> (Some (Wrap ''redis set'' e), s1)
           | (None, s1) \<Rightarrow> (None, s1)))"

definition redis_safety_cache :: "'r redis \<Rightarrow> 'r safety_cache" where
  "redis_safety_cache R = \<lparr>sc_Get = safety_Get R, sc_Set = safety_Set R\<rparr>"

subsection \<open>The service\<close>

record 'w safety_service =
  ss_checker :: "string \<Rightarrow> safety_result"
  ss_cache :: "'w safety_cache"

definition safety_Check :: "'w safety_service \<Rightarrow> string \<Rightarrow> ('w, safety_result) act" where
  "safety_Check S rawURL w =
     (case sc_Get (ss_cache S) rawURL w of
        (Inr (Some r), w1) \<Rightarrow> (Inr (r\<lparr>sr_Cached := True\<rparr>), w1)
      | (_, w1) \<Rightarrow>
          (let res = ss_checker S rawURL in (Inr res, snd (sc_Set (ss_cache S) rawURL res w1))))"

lemma safety_Check_never_fails: "\<exists>res. fst (safety_Check S raw w) = Inr res"
  by (simp add: safety_Check_def Let_def split: prod.split sum.split option.split)

context verdict_cache
begin

text \<open>
  A check answers with the verdict of the checker for a URL of the same key, its own unless the key
  is shared; and the cache stays sound.
\<close>

lemma safety_Check_spec:
  assumes S: "ss_cache S = C" and plain: "result_text (ss_checker S raw)"
    and sound: "sound (ss_checker S) X w" and run: "safety_Check S raw w = (x, w')"
  shows "sound (ss_checker S) (insert raw X) w' \<and>
    (\<exists>v \<in> insert raw X. key v = key raw \<and> (x = Inr (ss_checker S v) \<or> x = Inr (ss_checker S v\<lparr>sr_Cached := True\<rparr>)))"
proof -
  obtain q w1 where q: "sc_Get C raw w = (q, w1)" by (rule prod.exhaust)
  note law = get [OF q]
  have w1: "sound (ss_checker S) (insert raw X) w1" using law by (intro sound_shrink [OF sound]) auto
  show ?thesis
  proof (cases "\<exists>r. q = Inr (Some r)")
    case True
    then obtain r where r: "q = Inr (Some r)" by blast
    then have "x = Inr (r\<lparr>sr_Cached := True\<rparr>)" "w' = w1" using run q S by (simp_all add: safety_Check_def)
    moreover have "verdicts w raw = Some r" using law r by blast
    ultimately show ?thesis using soundD [OF sound] w1 by blast
  next
    case False
    obtain e w2 where e: "sc_Set C raw (ss_checker S raw) w1 = (e, w2)" by (rule prod.exhaust)
    then have x: "x = Inr (ss_checker S raw)" "w' = w2"
      using False run q S by (auto simp: safety_Check_def Let_def split: sum.splits option.splits)
    from set [OF e plain] have "sound (ss_checker S) (insert raw X) w2"
    proof
      assume le: "verdicts w2 \<subseteq>\<^sub>m (\<lambda>v. if key v = key raw then Some (ss_checker S raw) else verdicts w1 v)"
      show ?thesis unfolding sound_def
      proof (intro allI impI)
        fix u r assume "verdicts w2 u = Some r"
        from map_leD [OF le this] show "\<exists>v \<in> insert raw X. key v = key u \<and> r = ss_checker S v"
          using soundD [OF w1, of u r] by (cases "key u = key raw") auto
      qed
    qed (rule sound_shrink [OF w1], auto)
    with x show ?thesis by blast
  qed
qed

text \<open>Where keys tell the URLs apart, the verdict is the checker's for this URL.\<close>

lemma safety_Check_verdict:
  assumes "ss_cache S = C" "result_text (ss_checker S raw)" "sound (ss_checker S) X w"
    and "inj_on key (insert raw X)" "safety_Check S raw w = (x, w')"
  shows "\<exists>res. x = Inr res \<and> sr_Verdict res = sr_Verdict (ss_checker S raw)"
proof -
  from safety_Check_spec [OF assms(1-3,5)] obtain v where v: "v \<in> insert raw X" "key v = key raw"
    "x = Inr (ss_checker S v) \<or> x = Inr (ss_checker S v\<lparr>sr_Cached := True\<rparr>)" by blast
  moreover have "v = raw" using inj_onD [OF assms(4) v(2) v(1)] by simp
  ultimately show ?thesis by auto
qed

end

subsection \<open>The implementation meets the contract\<close>

lemma struct_reason: "reason_into (json_of (reason_json r)) old = Some r"
  by (simp add: reason_json_def reason_into_def struct_of_def struct_members_def field_for_def map_filter_simps)

lemma reasons_into_json: "reasons_into (map (\<lambda>r. json_of (reason_json r)) rs) olds = Some rs"
  by (induction rs arbitrary: olds) (simp_all add: struct_reason)

lemma result_round_trip:
  assumes "result_text r"
  shows "\<exists>b. json_encode (result_json r) = Some b \<and> result_of_json b = Some r"
proof -
  have names: "utf8_valid ''url'' \<and> utf8_valid ''verdict'' \<and> utf8_valid ''reasons'' \<and> utf8_valid ''cached'' \<and>
      utf8_valid ''code'' \<and> utf8_valid ''message''"
    by (simp add: utf8_valid.simps utf8_len_def byte_at_def lead_len_def second_ok_def cont_byte_def byte_def)
  have "text_value (result_json r)"
    using assms names by (auto simp: result_json_def reason_json_def result_text_def list_all_iff)
  moreover have "json_depth (reason_json x) = 1" for x by (simp add: reason_json_def)
  then have "json_depth (result_json r) \<le> 10000" by (simp add: result_json_def comp_def)
  ultimately obtain b where b: "json_encode (result_json r) = Some b" "json_unmarshal b = Some (json_of (result_json r))"
    using json_round_trip by blast
  have rs: "reasons_field ''reasons'' [(''reasons'', t, JArr (map (\<lambda>r. json_of (reason_json r)) rs)), (''cached'', t', v)]
      ([], []) = Some rs" for t t' v rs
    using reasons_into_json [of rs "[]"] by (cases rs) auto
  have "result_of_json b = Some r" unfolding result_of_json_def b(2)
    using rs by (simp add: result_json_def struct_of_def struct_members_def field_for_def map_filter_simps comp_def)
  with b(1) show ?thesis by blast
qed

context redis_server
begin

definition judged :: "'r \<Rightarrow> string \<Rightarrow> safety_result option" where
  "judged s u = Option.bind (readable s (safetyKey u)) result_of_json"

lemma judged_mono: "readable s' \<subseteq>\<^sub>m readable s \<Longrightarrow> judged s' \<subseteq>\<^sub>m judged s"
  by (auto simp: map_le_def judged_def dom_def bind_eq_Some_conv)

end

lemma safetyTTL_pos: "0 < safetyTTL"
  by (simp add: safetyTTL_def)

sublocale redis_server \<subseteq> vc: verdict_cache "redis_safety_cache R" safetyKey judged
proof
  fix u s s' x e and r :: "err + safety_result option"
  show "sc_Get (redis_safety_cache R) u s = (r, s') \<Longrightarrow>
      judged s' \<subseteq>\<^sub>m judged s \<and> (\<forall>x. r = Inr (Some x) \<longrightarrow> judged s u = Some x)"
  proof -
    assume run: "sc_Get (redis_safety_cache R) u s = (r, s')"
    obtain q s1 where g: "rd_Get R (safetyKey u) s = (q, s1)" by (rule prod.exhaust)
    then have s1: "s1 = s'"
      using run by (auto simp: redis_safety_cache_def safety_Get_def split: sum.splits option.splits)
    have le: "readable s' \<subseteq>\<^sub>m readable s" using get_readable(1) [OF g] s1 by simp
    have "judged s u = Some x" if hit: "r = Inr (Some x)" for x
    proof -
      have "\<exists>v. q = Inr v \<and> result_of_json v = Some x"
        using run g hit by (auto simp: redis_safety_cache_def safety_Get_def split: sum.splits option.splits if_splits)
      then obtain v where v: "q = Inr v" "result_of_json v = Some x" by blast
      have "readable s (safetyKey u) = Some v" using get_readable(2) [OF g v(1)] map_leD [OF le] s1 by simp
      with v(2) show ?thesis by (simp add: judged_def)
    qed
    with judged_mono [OF le] show ?thesis by blast
  qed
  show "sc_Set (redis_safety_cache R) u x s = (e, s') \<Longrightarrow> result_text x \<Longrightarrow>
      judged s' \<subseteq>\<^sub>m (\<lambda>v. if safetyKey v = safetyKey u then Some x else judged s v) \<or> judged s' \<subseteq>\<^sub>m judged s"
  proof -
    assume run: "sc_Set (redis_safety_cache R) u x s = (e, s')" and x: "result_text x"
    obtain b where b: "json_encode (result_json x) = Some b" "result_of_json b = Some x"
      using result_round_trip [OF x] by blast
    obtain y s1 where y: "rd_Set R (safetyKey u) b safetyTTL s = (y, s1)" by (rule prod.exhaust)
    then have "s1 = s'"
      using run b by (auto simp: redis_safety_cache_def safety_Set_def split: option.splits)
    with set_readable [OF y safetyTTL_pos]
    consider "readable s' \<subseteq>\<^sub>m (readable s)(safetyKey u \<mapsto> b)" | "readable s' \<subseteq>\<^sub>m readable s" by blast
    then show ?thesis
    proof cases
      case 1
      have "judged s' \<subseteq>\<^sub>m (\<lambda>v. if safetyKey v = safetyKey u then Some x else judged s v)"
      proof (rule map_leI)
        fix v r assume "judged s' v = Some r"
        then obtain t where t: "readable s' (safetyKey v) = Some t" "result_of_json t = Some r"
          by (auto simp: judged_def bind_eq_Some_conv)
        from map_leD [OF 1 t(1)] t(2) b(2)
        show "(if safetyKey v = safetyKey u then Some x else judged s v) = Some r"
          by (auto simp: judged_def split: if_splits)
      qed
      then show ?thesis ..
    qed (simp add: judged_mono)
  qed
qed

end
