(* ===== verification/Password.thy ===== *)
theory Password
  imports GoCrypto GoJson
begin

text \<open>
  \<open>internal/auth/password.go\<close>: the PHC string of a password hash and its verification. The
  derivation function \<open>golang.org/x/crypto/argon2\<close> is a parameter; it panics on some costs, and
  \<^const>\<open>None\<close> stands for a panic. \<open>fmt.Sscanf\<close> is modelled for the formats used here.
\<close>

definition argonTime :: int where "argonTime = 1"
definition argonMemory :: int where "argonMemory = 64 * 1024"
definition argonThreads :: int where "argonThreads = 4"
definition argonKeyLen :: nat where "argonKeyLen = 32"
definition argonSaltLen :: nat where "argonSaltLen = 16"

text \<open>\<open>ar_IDKey password salt time memory threads keyLen\<close>.\<close>

record argon2 =
  ar_Version :: int
  ar_IDKey :: "string \<Rightarrow> string \<Rightarrow> int \<Rightarrow> int \<Rightarrow> int \<Rightarrow> nat \<Rightarrow> string option"

locale argon2_laws =
  fixes A :: argon2
  assumes derives: "1 \<le> t \<Longrightarrow> 1 \<le> p \<Longrightarrow> \<exists>h. ar_IDKey A pw salt t m p n = Some h \<and> length h = n"
    and version_fits: "0 \<le> ar_Version A" "ar_Version A < 2 ^ 31"

subsection \<open>Sscanf\<close>

datatype piece = Lit string | IntVerb | UintVerb nat

text \<open>Verbs skip white space, but not a newline.\<close>

definition skip_space :: "string \<Rightarrow> string" where
  "skip_space s = trim_with (removeAll [CHR 0x0A] space_runes) s"

text \<open>\<open>scanNumber\<close> takes underscores along, and the conversion refuses them.\<close>

definition scan_token :: "string \<Rightarrow> string \<times> string" where
  "scan_token s =
     (takeWhile (\<lambda>c. is_digit c \<or> c = CHR ''_'') s, dropWhile (\<lambda>c. is_digit c \<or> c = CHR ''_'') s)"

definition scan_uint :: "nat \<Rightarrow> string \<Rightarrow> (int \<times> string) option" where
  "scan_uint bits s =
     (let (tok, r) = scan_token (skip_space s) in
      if tok = [] \<or> \<not> list_all is_digit tok \<or> int (digits_val tok) \<ge> 2 ^ bits then None
      else Some (int (digits_val tok), r))"

definition scan_sint :: "string \<Rightarrow> (int \<times> string) option" where
  "scan_sint s =
     (let s1 = skip_space s;
          (sg, s2) = (case s1 of c # t \<Rightarrow> if c = CHR ''+'' \<or> c = CHR ''-'' then ([c], t) else ([], s1) | [] \<Rightarrow> ([], s1));
          (tok, r) = scan_token s2 in
      if tok = [] then None else map_option (\<lambda>v. (v, r)) (atoi (sg @ tok)))"

fun sscanf :: "piece list \<Rightarrow> string \<Rightarrow> int list option" where
  "sscanf [] s = Some []"
| "sscanf (Lit l # ps) s = (if has_prefix s l then sscanf ps (drop (length l) s) else None)"
| "sscanf (IntVerb # ps) s =
     (case scan_sint s of None \<Rightarrow> None | Some (v, r) \<Rightarrow> map_option ((#) v) (sscanf ps r))"
| "sscanf (UintVerb b # ps) s =
     (case scan_uint b s of None \<Rightarrow> None | Some (v, r) \<Rightarrow> map_option ((#) v) (sscanf ps r))"

definition version_format :: "piece list" where
  "version_format = [Lit ''v='', IntVerb]"

definition params_format :: "piece list" where
  "params_format = [Lit ''m='', UintVerb 32, Lit '',t='', UintVerb 32, Lit '',p='', UintVerb 8]"

subsection \<open>Hashing and verifying\<close>

definition phc_string :: "int \<Rightarrow> string \<Rightarrow> string \<Rightarrow> string" where
  "phc_string version salt hash =
     ''$argon2id$v='' @ itoa version @ ''$m='' @ itoa argonMemory @ '',t='' @ itoa argonTime @ '',p='' @
     itoa argonThreads @ ''$'' @ b64_encode std_alphabet salt @ ''$'' @ b64_encode std_alphabet hash"

text \<open>\<open>salt\<close> is what \<open>rand.Read\<close> gave; the outer option is a panic of the library.\<close>

definition HashPassword :: "argon2 \<Rightarrow> err + string \<Rightarrow> string \<Rightarrow> (err + string) option" where
  "HashPassword A salt password =
     (case salt of
        Inl e \<Rightarrow> Some (Inl (Wrap ''generating salt'' e))
      | Inr salt \<Rightarrow>
          map_option (\<lambda>hash. Inr (phc_string (ar_Version A) salt hash))
            (ar_IDKey A password salt argonTime argonMemory argonThreads argonKeyLen))"

definition VerifyPassword :: "argon2 \<Rightarrow> string \<Rightarrow> string \<Rightarrow> (err + bool) option" where
  "VerifyPassword A password encodedHash =
     (case split_on (CHR ''$'') encodedHash of
        [p0, p1, p2, p3, p4, p5] \<Rightarrow>
          if p0 \<noteq> [] \<or> p1 \<noteq> ''argon2id'' then Some (Inl (Sentinel ErrInvalidHash))
          else (case sscanf version_format p2 of
              Some [version] \<Rightarrow>
                if version \<noteq> ar_Version A then Some (Inl (Sentinel ErrIncompatibleVersion))
                else (case sscanf params_format p3 of
                    Some [memory, time, threads] \<Rightarrow>
                      (case b64_decode std_alphabet p4 of
                         None \<Rightarrow> Some (Inl (Wrap ''decoding salt'' (Err ''base64'')))
                       | Some salt \<Rightarrow>
                           (case b64_decode std_alphabet p5 of
                              None \<Rightarrow> Some (Inl (Wrap ''decoding hash'' (Err ''base64'')))
                            | Some expected \<Rightarrow>
                                map_option (\<lambda>computed. Inr (computed = expected))
                                  (ar_IDKey A password salt time memory threads (length expected))))
                  | _ \<Rightarrow> Some (Inl (Wrap ''parsing argon2 params'' (Err ''scanf''))))
            | _ \<Rightarrow> Some (Inl (Wrap ''parsing argon2 version'' (Err ''scanf''))))
      | _ \<Rightarrow> Some (Inl (Sentinel ErrInvalidHash)))"

subsection \<open>A hash is read back\<close>

lemma std_no_dollar: "CHR ''$'' \<notin> set (b64_encode std_alphabet s)"
proof -
  have "CHR ''$'' \<notin> set std_alphabet" "length std_alphabet = 64" by (simp_all add: std_alphabet_def)
  then show ?thesis using b64_encode_set by blast
qed

lemma itoa_pos: "0 \<le> i \<Longrightarrow> itoa i = dec_nat (nat i)"
  by (simp add: itoa_def)

lemma dec_nat_no_dollar: "CHR ''$'' \<notin> set (dec_nat n)"
  by (auto simp: is_digit_def byte_def dest: dec_nat_set)

lemma split_six:
  "\<lbrakk>c \<notin> set p0; c \<notin> set p1; c \<notin> set p2; c \<notin> set p3; c \<notin> set p4; c \<notin> set p5\<rbrakk> \<Longrightarrow>
   split_on c (p0 @ c # p1 @ c # p2 @ c # p3 @ c # p4 @ c # p5) = [p0, p1, p2, p3, p4, p5]"
  by (simp add: split_on_append split_on_no_sep)

lemma phc_split:
  assumes "0 \<le> v"
  shows "split_on (CHR ''$'') (phc_string v salt hash) =
    [[], ''argon2id'', ''v='' @ itoa v, ''m='' @ itoa argonMemory @ '',t='' @ itoa argonTime @ '',p='' @ itoa argonThreads,
     b64_encode std_alphabet salt, b64_encode std_alphabet hash]"
proof -
  let ?v = "''v='' @ itoa v"
  let ?m = "''m='' @ itoa argonMemory @ '',t='' @ itoa argonTime @ '',p='' @ itoa argonThreads"
  have phc: "phc_string v salt hash = [] @ CHR ''$'' # ''argon2id'' @ CHR ''$'' # ?v @ CHR ''$'' # ?m @ CHR ''$'' #
      b64_encode std_alphabet salt @ CHR ''$'' # b64_encode std_alphabet hash"
    by (simp add: phc_string_def)
  have "CHR ''$'' \<notin> set ?v" "CHR ''$'' \<notin> set ?m"
    using assms dec_nat_no_dollar
    by (simp_all add: itoa_pos argonMemory_def argonTime_def argonThreads_def)
  then show ?thesis
    unfolding phc by (intro split_six std_no_dollar) simp_all
qed

text \<open>A verb reads a number up to the next byte that continues none.\<close>

definition ends_number :: "string \<Rightarrow> bool" where
  "ends_number r \<longleftrightarrow> (case r of [] \<Rightarrow> True | c # _ \<Rightarrow> \<not> is_digit c \<and> c \<noteq> CHR ''_'')"

lemma space_runes_no_digit: "list_all (\<lambda>w. \<not> is_digit (hd w)) space_runes"
  by (simp add: space_runes_def is_digit_def byte_def)

lemma find_space_digit:
  assumes "is_digit c"
  shows "find (\<lambda>w. w \<noteq> [] \<and> has_prefix (c # s) w) (removeAll [CHR 0x0A] space_runes) = None"
proof -
  have "\<not> has_prefix (c # s) w" if "w \<in> set space_runes" "w \<noteq> []" for w
    using assms that space_runes_no_digit by (cases w) (auto simp: has_prefix_def list_all_iff)
  then show ?thesis by (auto simp: find_None_iff)
qed

lemma skip_space_digit: "is_digit c \<Longrightarrow> skip_space (c # s) = c # s"
  by (simp add: skip_space_def trim_with.simps [of _ "c # s"] find_space_digit)

lemma scan_token_dec:
  assumes "ends_number r" shows "scan_token (dec_nat n @ r) = (dec_nat n, r)"
proof -
  let ?P = "\<lambda>c. is_digit c \<or> c = CHR ''_''"
  have all: "\<And>c. c \<in> set (dec_nat n) \<Longrightarrow> ?P c" using dec_nat_set by blast
  have "takeWhile ?P r = []" "dropWhile ?P r = r" using assms by (cases r; simp add: ends_number_def)+
  then show ?thesis unfolding scan_token_def
    using takeWhile_append2 [of "dec_nat n" ?P r] dropWhile_append2 [of "dec_nat n" ?P r] all by simp
qed

lemma skip_space_dec: "skip_space (dec_nat n @ r) = dec_nat n @ r"
  using dec_nat_set [of "hd (dec_nat n)" n] by (cases "dec_nat n") (simp_all add: skip_space_digit)

lemma scan_uint_dec: "ends_number r \<Longrightarrow> int n < 2 ^ b \<Longrightarrow> scan_uint b (dec_nat n @ r) = Some (int n, r)"
  by (simp add: scan_uint_def skip_space_dec scan_token_dec dec_nat_digits not_le)

lemma scan_sint_dec:
  assumes "ends_number r" "int n < 2 ^ 63" shows "scan_sint (dec_nat n @ r) = Some (int n, r)"
proof -
  obtain c t where ct: "dec_nat n = c # t" by (cases "dec_nat n") auto
  then have "c \<noteq> CHR ''+''" "c \<noteq> CHR ''-''"
    using dec_nat_set [of c n] by (auto simp: is_digit_def byte_def)
  moreover have "atoi (dec_nat n) = Some (int n)" using atoi_itoa [of "int n"] assms(2) by (simp add: itoa_def)
  ultimately show ?thesis
    using scan_token_dec [OF assms(1), of n] skip_space_dec [of n r] ct by (simp add: scan_sint_def Let_def)
qed

context argon2_laws
begin

lemma read_phc:
  "sscanf version_format (''v='' @ itoa (ar_Version A)) = Some [ar_Version A]"
  "sscanf params_format (''m='' @ itoa argonMemory @ '',t='' @ itoa argonTime @ '',p='' @ itoa argonThreads) =
     Some [argonMemory, argonTime, argonThreads]"
proof -
  have ends: "ends_number []" "ends_number (CHR '','' # r)" for r by (simp_all add: ends_number_def is_digit_def byte_def)
  show "sscanf version_format (''v='' @ itoa (ar_Version A)) = Some [ar_Version A]"
    using scan_sint_dec [OF ends(1), of "nat (ar_Version A)"] version_fits
    by (simp add: version_format_def has_prefix_def itoa_pos)
  have "scan_uint 32 (dec_nat 65536 @ r) = Some (65536, r)" "scan_uint 32 (dec_nat 1 @ r) = Some (1, r)"
    "scan_uint 8 (dec_nat 4 @ r) = Some (4, r)" if "ends_number r" for r
    using scan_uint_dec [OF that, of 65536 32] scan_uint_dec [OF that, of 1 32] scan_uint_dec [OF that, of 4 8] by simp_all
  note scans = this [OF ends(2)] this(3) [OF ends(1)]
  show "sscanf params_format (''m='' @ itoa argonMemory @ '',t='' @ itoa argonTime @ '',p='' @ itoa argonThreads) =
      Some [argonMemory, argonTime, argonThreads]"
    using scans
    by (simp add: params_format_def has_prefix_def itoa_pos argonMemory_def argonTime_def argonThreads_def)
qed

text \<open>
  Hashing gives a text that verifies: any password is accepted exactly if it derives the same key
  from the salt as the password that was hashed. In particular that password is accepted.
\<close>

lemma Verify_Hash:
  assumes "HashPassword A (Inr salt) pw = Some (Inr encoded)"
  shows "VerifyPassword A pw' encoded =
    Some (Inr (ar_IDKey A pw' salt argonTime argonMemory argonThreads argonKeyLen =
      ar_IDKey A pw salt argonTime argonMemory argonThreads argonKeyLen))"
proof -
  have costs: "1 \<le> argonTime" "1 \<le> argonThreads" by (simp_all add: argonTime_def argonThreads_def)
  obtain h where h: "ar_IDKey A pw salt argonTime argonMemory argonThreads argonKeyLen = Some h" "length h = argonKeyLen"
    using derives [OF costs] by blast
  obtain h' where h': "ar_IDKey A pw' salt argonTime argonMemory argonThreads argonKeyLen = Some h'"
    using derives [OF costs] by blast
  have "encoded = phc_string (ar_Version A) salt h" using assms h by (simp add: HashPassword_def)
  then show ?thesis
    unfolding VerifyPassword_def using h h'
    by (simp only: phc_split [OF version_fits(1)] list.case read_phc option.case) (simp add: b64_std_round_trip)
qed

lemma Hash_total: "\<exists>encoded. HashPassword A (Inr salt) pw = Some (Inr encoded)"
  using derives [of argonTime argonThreads pw salt argonMemory argonKeyLen]
  by (auto simp: HashPassword_def argonTime_def argonThreads_def)

end

subsection \<open>A sample library\<close>

text \<open>A derivation that pads or cuts salt and password to the length asked for.\<close>

definition sample_argon2 :: argon2 where
  "sample_argon2 = \<lparr>ar_Version = 19, ar_IDKey = (\<lambda>pw salt t m p n.
     if t < 1 \<or> p < 1 then None else Some (take n (pw @ salt @ replicate n (CHR ''x''))))\<rparr>"

interpretation sample_argon2: argon2_laws sample_argon2
  by unfold_locales (simp_all add: sample_argon2_def)

end
