(* ===== verification/AuthService.thy ===== *)
theory AuthService
  imports UsersRepository Jwt Password CodesService
begin

text \<open>
  \<open>internal/auth/service.go\<close> on the interfaces it is given: a repository of users, the token manager,
  a clock and the random source of the salts, on one state. The locale \<open>auth_parts\<close> is their
  contract. A panic of the password library is \<^const>\<open>None\<close>.
\<close>

subsection \<open>The service\<close>

record 'w auth_repo =
  ar_Create :: "user \<Rightarrow> ('w, user) act"
  ar_GetByID :: "uuid \<Rightarrow> ('w, user) act"
  ar_GetByEmail :: "string \<Rightarrow> ('w, user) act"
  ar_Update :: "user \<Rightarrow> ('w, user) act"

record auth_result =
  au_User :: user
  au_Token :: string
  au_ExpiresAt :: instant

record 'w auth_service =
  as_repo :: "'w auth_repo"
  as_tokens :: token_manager
  as_now :: "'w \<Rightarrow> instant"
  as_argon2 :: argon2
  as_rand :: "nat \<Rightarrow> ('w, string) act"

definition auth_issue :: "'w auth_service \<Rightarrow> user \<Rightarrow> ('w, auth_result) act" where
  "auth_issue S u w =
     (case Issue (as_tokens S) (user_ID u) (user_IsGuest u) (as_now S w) of
        Inl e \<Rightarrow> (Inl (Wrap ''issuing token'' e), w)
      | Inr (token, expiresAt) \<Rightarrow> (Inr \<lparr>au_User = u, au_Token = token, au_ExpiresAt = expiresAt\<rparr>, w))"

definition guest_user :: user where
  "guest_user = \<lparr>user_ID = 0, user_Email = None, user_PasswordHash = None, user_IsGuest = True,
     user_CreatedAt = zero_time, user_UpdatedAt = zero_time\<rparr>"

definition CreateGuest :: "'w auth_service \<Rightarrow> ('w, auth_result) act" where
  "CreateGuest S w =
     (case ar_Create (as_repo S) guest_user w of
        (Inl e, w1) \<Rightarrow> (Inl (Wrap ''creating guest user'' e), w1)
      | (Inr u, w1) \<Rightarrow> auth_issue S u w1)"

definition upgraded :: "user \<Rightarrow> string \<Rightarrow> string \<Rightarrow> user" where
  "upgraded u email hash = u\<lparr>user_Email := Some email, user_PasswordHash := Some hash, user_IsGuest := False\<rparr>"

definition UpgradeToAccount ::
  "'w auth_service \<Rightarrow> uuid \<Rightarrow> string \<Rightarrow> string \<Rightarrow> 'w \<Rightarrow> (err + auth_result) option \<times> 'w" where
  "UpgradeToAccount S userID email password w =
     (case ar_GetByID (as_repo S) userID w of
        (Inl e, w1) \<Rightarrow> (Some (Inl (Wrap ''fetching user for upgrade'' e)), w1)
      | (Inr u, w1) \<Rightarrow>
          if \<not> user_IsGuest u then (Some (Inl (Sentinel ErrAlreadyUpgraded)), w1)
          else
            (case as_rand S argonSaltLen w1 of (salt, w2) \<Rightarrow>
              (case HashPassword (as_argon2 S) salt password of
                 None \<Rightarrow> (None, w2)
               | Some (Inl e) \<Rightarrow> (Some (Inl (Wrap ''hashing password'' e)), w2)
               | Some (Inr hash) \<Rightarrow>
                   (case ar_Update (as_repo S) (upgraded u email hash) w2 of
                      (Inl e, w3) \<Rightarrow> (Some (Inl (Wrap ''updating user for upgrade'' e)), w3)
                    | (Inr u', w3) \<Rightarrow> (case auth_issue S u' w3 of (r, w4) \<Rightarrow> (Some r, w4))))))"

definition Login :: "'w auth_service \<Rightarrow> string \<Rightarrow> string \<Rightarrow> 'w \<Rightarrow> (err + auth_result) option \<times> 'w" where
  "Login S email password w =
     (case ar_GetByEmail (as_repo S) email w of
        (Inl e, w1) \<Rightarrow>
          (Some (Inl (if errors_is e UsersErrNotFound then Sentinel ErrInvalidCredentials
             else Wrap ''fetching user for login'' e)), w1)
      | (Inr u, w1) \<Rightarrow>
          (case user_PasswordHash u of
             None \<Rightarrow> (Some (Inl (Sentinel ErrInvalidCredentials)), w1)
           | Some hash \<Rightarrow>
               (case VerifyPassword (as_argon2 S) password hash of
                  None \<Rightarrow> (None, w1)
                | Some (Inl e) \<Rightarrow> (Some (Inl (Wrap ''verifying password'' e)), w1)
                | Some (Inr ok) \<Rightarrow>
                    if \<not> ok then (Some (Inl (Sentinel ErrInvalidCredentials)), w1)
                    else (case auth_issue S u w1 of (r, w2) \<Rightarrow> (Some r, w2)))))"

subsection \<open>The contract of the parts\<close>

text \<open>
  \<open>people\<close> is what the repository holds, and \<open>ekey\<close> the key that emails are compared by. Storing may
  fail after it took effect.
\<close>

definition created_user :: "(uuid \<Rightarrow> user option) \<Rightarrow> user \<Rightarrow> user \<Rightarrow> (uuid \<Rightarrow> user option) \<Rightarrow> bool" where
  "created_user m u u' m' \<longleftrightarrow>
     (\<exists>i t. u' = u\<lparr>user_ID := i, user_CreatedAt := t, user_UpdatedAt := t\<rparr> \<and> m i = None \<and> m' = m(i \<mapsto> u'))"

definition saved_user :: "(uuid \<Rightarrow> user option) \<Rightarrow> user \<Rightarrow> user \<Rightarrow> (uuid \<Rightarrow> user option) \<Rightarrow> bool" where
  "saved_user m u u' m' \<longleftrightarrow>
     (\<exists>t old. u' = u\<lparr>user_UpdatedAt := t\<rparr> \<and> m (user_ID u) = Some old \<and>
        m' = m(user_ID u \<mapsto> u'\<lparr>user_CreatedAt := user_CreatedAt old\<rparr>))"

definition email_of :: "(string \<Rightarrow> string) \<Rightarrow> user \<Rightarrow> string option" where
  "email_of ekey u = map_option ekey (user_Email u)"

locale auth_parts = tokens "as_tokens S" bears + argon2_laws "as_argon2 S"
  for S :: "'w auth_service" and bears :: "signing_method \<Rightarrow> string \<Rightarrow> string \<Rightarrow> claims \<Rightarrow> bool" +
  fixes inv :: "'w \<Rightarrow> bool" and people :: "'w \<Rightarrow> uuid \<Rightarrow> user option" and ekey :: "string \<Rightarrow> string"
  assumes create: "inv w \<Longrightarrow> ar_Create (as_repo S) u w = (r, w') \<Longrightarrow> user_Email u = None \<Longrightarrow>
      inv w' \<and> (case r of Inr u' \<Rightarrow> created_user (people w) u u' (people w')
        | Inl e \<Rightarrow> people w' = people w \<or> (\<exists>u'. created_user (people w) u u' (people w')))"
    and getByID: "inv w \<Longrightarrow> ar_GetByID (as_repo S) i w = (r, w') \<Longrightarrow>
      inv w' \<and> people w' = people w \<and>
      (case r of Inr u \<Rightarrow> people w i = Some u | Inl e \<Rightarrow> errors_is e UsersErrNotFound \<longrightarrow> people w i = None)"
    and getByEmail: "inv w \<Longrightarrow> ar_GetByEmail (as_repo S) em w = (r, w') \<Longrightarrow>
      inv w' \<and> people w' = people w \<and>
      (case r of Inr u \<Rightarrow> people w (user_ID u) = Some u \<and> email_of ekey u = Some (ekey em)
       | Inl e \<Rightarrow> errors_is e UsersErrNotFound \<longrightarrow> (\<forall>i u. people w i = Some u \<longrightarrow> email_of ekey u \<noteq> Some (ekey em)))"
    and update: "inv w \<Longrightarrow> ar_Update (as_repo S) u w = (r, w') \<Longrightarrow>
      inv w' \<and> (case r of Inr u' \<Rightarrow> saved_user (people w) u u' (people w')
        | Inl e \<Rightarrow> people w' = people w \<or>
            \<not> errors_is e ErrEmailTaken \<and> (\<exists>u'. saved_user (people w) u u' (people w')))"
    and rand: "inv w \<Longrightarrow> as_rand S n w = (q, w') \<Longrightarrow> inv w' \<and> people w' = people w"
    and people_id: "inv w \<Longrightarrow> people w i = Some u \<Longrightarrow> user_ID u = i"
    and unique_email: "inv w \<Longrightarrow> people w i = Some u \<Longrightarrow> people w j = Some v \<Longrightarrow>
      email_of ekey u = Some k \<Longrightarrow> email_of ekey v = Some k \<Longrightarrow> i = j"
begin

lemma auth_issue_result:
  "auth_issue S u w = (Inr \<lparr>au_User = u, au_Token = t, au_ExpiresAt = x\<rparr>, w') \<longleftrightarrow>
   Issue (as_tokens S) (user_ID u) (user_IsGuest u) (as_now S w) = Inr (t, x) \<and> w' = w"
  by (auto simp: auth_issue_def split: sum.splits)

lemma auth_issue_ok:
  obtains t where "auth_issue S u w =
      (Inr \<lparr>au_User = u, au_Token = t, au_ExpiresAt = as_now S w + tm_ttl (as_tokens S)\<rparr>, w)"
    "Issue (as_tokens S) (user_ID u) (user_IsGuest u) (as_now S w) = Inr (t, as_now S w + tm_ttl (as_tokens S))"
  using Issue_total [of "user_ID u" "user_IsGuest u" "as_now S w"] by (auto simp: auth_issue_def)

text \<open>A token in a result is accepted until it expires, and names the user.\<close>

definition grants :: "auth_result \<Rightarrow> bool" where
  "grants a \<longleftrightarrow> (\<forall>later. later < au_ExpiresAt a div 10 ^ 9 * 10 ^ 9 \<longrightarrow>
     (\<exists>c. Verify (as_tokens S) later (au_Token a) = Inr c \<and> cl_IsGuest c = user_IsGuest (au_User a) \<and>
        uuid_Parse (tm_uuid (as_tokens S)) (cl_Subject c) = Inr (user_ID (au_User a))))"

lemma grantsI: "Issue (as_tokens S) (user_ID u) (user_IsGuest u) now = Inr (t, x) \<Longrightarrow>
  grants \<lparr>au_User = u, au_Token = t, au_ExpiresAt = x\<rparr>"
  unfolding grants_def using Verify_Issue by auto

lemma CreateGuest_spec:
  assumes w: "inv w" and run: "CreateGuest S w = (r, w')"
  shows "inv w' \<and>
    (case r of
       Inr a \<Rightarrow> created_user (people w) guest_user (au_User a) (people w') \<and> grants a \<and>
         au_ExpiresAt a = as_now S w' + tm_ttl (as_tokens S)
     | Inl e \<Rightarrow> people w' = people w \<or> (\<exists>u. created_user (people w) guest_user u (people w')))"
proof -
  obtain q w1 where q: "ar_Create (as_repo S) guest_user w = (q, w1)" by (rule prod.exhaust)
  have "user_Email guest_user = None" by (simp add: guest_user_def)
  note law = create [OF w q this]
  show ?thesis
  proof (cases q)
    case (Inl e)
    then have "r = Inl (Wrap ''creating guest user'' e)" "w' = w1" using run q by (simp_all add: CreateGuest_def)
    with law Inl show ?thesis by simp
  next
    case (Inr u)
    obtain t where t: "auth_issue S u w1 =
        (Inr \<lparr>au_User = u, au_Token = t, au_ExpiresAt = as_now S w1 + tm_ttl (as_tokens S)\<rparr>, w1)"
      "Issue (as_tokens S) (user_ID u) (user_IsGuest u) (as_now S w1) = Inr (t, as_now S w1 + tm_ttl (as_tokens S))"
      by (rule auth_issue_ok)
    then have "r = Inr \<lparr>au_User = u, au_Token = t, au_ExpiresAt = as_now S w1 + tm_ttl (as_tokens S)\<rparr>" "w' = w1"
      using run q Inr by (auto simp: CreateGuest_def)
    with law Inr grantsI [OF t(2)] show ?thesis by simp
  qed
qed

lemma Upgrade_spec:
  assumes w: "inv w" and run: "UpgradeToAccount S i email password w = (r, w')" and some: "r = Some q"
  shows "inv w' \<and>
    (case q of
       Inr a \<Rightarrow> \<exists>old salt hash t. people w i = Some old \<and> user_IsGuest old \<and>
         HashPassword (as_argon2 S) salt password = Some (Inr hash) \<and>
         au_User a = upgraded old email hash\<lparr>user_UpdatedAt := t\<rparr> \<and>
         people w' = (people w)(i \<mapsto> au_User a) \<and> grants a \<and> au_ExpiresAt a = as_now S w' + tm_ttl (as_tokens S)
     | Inl e \<Rightarrow> people w' = people w \<or>
         \<not> errors_is e ErrEmailTaken \<and> e \<noteq> Sentinel ErrAlreadyUpgraded \<and>
         (\<exists>old salt hash t. people w i = Some old \<and> user_IsGuest old \<and>
           HashPassword (as_argon2 S) salt password = Some (Inr hash) \<and>
           people w' = (people w)(i \<mapsto> upgraded old email hash\<lparr>user_UpdatedAt := t\<rparr>)))"
proof -
  obtain p w1 where p: "ar_GetByID (as_repo S) i w = (p, w1)" by (rule prod.exhaust)
  note law1 = getByID [OF w p]
  then have w1: "inv w1" "people w1 = people w" by simp_all
  show ?thesis
  proof (cases p)
    case (Inl e)
    with run p some w1 show ?thesis by (auto simp: UpgradeToAccount_def)
  next
    case (Inr u)
    then have u: "people w i = Some u" "user_ID u = i" using law1 people_id [OF w] by simp_all
    show ?thesis
    proof (cases "user_IsGuest u")
      case False
      with run p some w1 Inr show ?thesis by (auto simp: UpgradeToAccount_def)
    next
      case guest: True
      obtain salt w2 where salt: "as_rand S argonSaltLen w1 = (salt, w2)" by (rule prod.exhaust)
      from rand [OF w1(1) salt] w1 have w2: "inv w2" "people w2 = people w" by simp_all
      show ?thesis
      proof (cases "HashPassword (as_argon2 S) salt password")
        case None
        with run p some Inr guest salt show ?thesis by (simp add: UpgradeToAccount_def)
      next
        case (Some h)
        show ?thesis
        proof (cases h)
          case Inl': (Inl e)
          with run p some w2 Inr guest salt Some show ?thesis by (auto simp: UpgradeToAccount_def)
        next
          case hash: (Inr hash)
          obtain q' w3 where q': "ar_Update (as_repo S) (upgraded u email hash) w2 = (q', w3)" by (rule prod.exhaust)
          note law3 = update [OF w2(1) q']
          have saved: "\<exists>t. u' = upgraded u email hash\<lparr>user_UpdatedAt := t\<rparr> \<and> m' = (people w)(i \<mapsto> u')"
            if "saved_user (people w2) (upgraded u email hash) u' m'" for u' m'
            using that u w2 by (auto simp: saved_user_def upgraded_def)
          note sofar = run p some Inr guest salt Some hash q'
          show ?thesis
          proof (cases q')
            case Inl'': (Inl e)
            with sofar have "q = Inl (Wrap ''updating user for upgrade'' e)" "w' = w3"
              by (simp_all add: UpgradeToAccount_def)
            moreover have "people w3 = people w \<or> \<not> errors_is e ErrEmailTaken \<and>
                (\<exists>t. people w3 = (people w)(i \<mapsto> upgraded u email hash\<lparr>user_UpdatedAt := t\<rparr>))"
              using law3 Inl'' w2 saved by auto
            ultimately show ?thesis
              using law3 u guest Some hash by auto
          next
            case Inr'': (Inr u')
            then obtain t where t: "u' = upgraded u email hash\<lparr>user_UpdatedAt := t\<rparr>" "people w3 = (people w)(i \<mapsto> u')"
              using law3 saved by auto
            obtain tok where tok: "auth_issue S u' w3 =
                (Inr \<lparr>au_User = u', au_Token = tok, au_ExpiresAt = as_now S w3 + tm_ttl (as_tokens S)\<rparr>, w3)"
              "Issue (as_tokens S) (user_ID u') (user_IsGuest u') (as_now S w3) =
                Inr (tok, as_now S w3 + tm_ttl (as_tokens S))"
              by (rule auth_issue_ok)
            with sofar Inr'' have "q = Inr \<lparr>au_User = u', au_Token = tok, au_ExpiresAt = as_now S w3 + tm_ttl (as_tokens S)\<rparr>"
              "w' = w3" by (auto simp: UpgradeToAccount_def)
            then show ?thesis
              using law3 u guest Some hash t grantsI [OF tok(2)] by auto
          qed
        qed
      qed
    qed
  qed
qed

text \<open>
  Logging in changes no user and answers with the user who has the email and whose stored hash the
  password verifies against; if it says the credentials are invalid, there is none.
\<close>

lemma Login_spec:
  assumes w: "inv w" and run: "Login S email password w = (Some q, w')"
  shows "inv w' \<and> people w' = people w \<and>
    (case q of
       Inr a \<Rightarrow> people w (user_ID (au_User a)) = Some (au_User a) \<and>
         email_of ekey (au_User a) = Some (ekey email) \<and>
         (\<exists>hash. user_PasswordHash (au_User a) = Some hash \<and>
           VerifyPassword (as_argon2 S) password hash = Some (Inr True)) \<and> grants a
     | Inl e \<Rightarrow> e = Sentinel ErrInvalidCredentials \<longrightarrow>
         \<not> (\<exists>i u hash. people w i = Some u \<and> email_of ekey u = Some (ekey email) \<and>
           user_PasswordHash u = Some hash \<and> VerifyPassword (as_argon2 S) password hash = Some (Inr True)))"
proof -
  obtain p w1 where p: "ar_GetByEmail (as_repo S) email w = (p, w1)" by (rule prod.exhaust)
  note law = getByEmail [OF w p]
  then have w1: "inv w1" "people w1 = people w" by simp_all
  show ?thesis
  proof (cases p)
    case (Inl e)
    with run p law show ?thesis by (auto simp: Login_def split: if_splits)
  next
    case (Inr u)
    with law have u: "people w (user_ID u) = Some u" "email_of ekey u = Some (ekey email)" by simp_all
    have only: "v = u" if "people w i = Some v" "email_of ekey v = Some (ekey email)" for i v
      using unique_email [OF w that(1) u(1) that(2) u(2)] that(1) u(1) by simp
    show ?thesis
    proof (cases "user_PasswordHash u")
      case None
      with run p Inr have "q = Inl (Sentinel ErrInvalidCredentials)" "w' = w1" by (auto simp: Login_def)
      with w1 None only show ?thesis by auto
    next
      case (Some hash)
      note sofar = run p Inr Some
      show ?thesis
      proof (cases "VerifyPassword (as_argon2 S) password hash")
        case None
        with sofar show ?thesis by (simp add: Login_def)
      next
        case v: (Some v)
        show ?thesis
        proof (cases v)
          case Inl': (Inl e)
          with sofar v w1 show ?thesis by (auto simp: Login_def)
        next
          case ok: (Inr b)
          show ?thesis
          proof (cases b)
            case False
            with sofar v ok have "q = Inl (Sentinel ErrInvalidCredentials)" "w' = w1" by (auto simp: Login_def)
            with w1 Some v ok False only show ?thesis by auto
          next
            case True
            obtain t where t: "auth_issue S u w1 =
                (Inr \<lparr>au_User = u, au_Token = t, au_ExpiresAt = as_now S w1 + tm_ttl (as_tokens S)\<rparr>, w1)"
              "Issue (as_tokens S) (user_ID u) (user_IsGuest u) (as_now S w1) =
                Inr (t, as_now S w1 + tm_ttl (as_tokens S))"
              by (rule auth_issue_ok)
            with sofar v ok True have
              "q = Inr \<lparr>au_User = u, au_Token = t, au_ExpiresAt = as_now S w1 + tm_ttl (as_tokens S)\<rparr>" "w' = w1"
              by (auto simp: Login_def)
            with w1 u Some v ok True grantsI [OF t(2)] show ?thesis by auto
          qed
        qed
      qed
    qed
  qed
qed

end

end
