(* ===== verification/Handlers.thy ===== *)
theory Handlers
  imports Response Validator Middleware Qr SafetyService RedirectService AuthService
begin

text \<open>
  \<open>internal/http/handlers\<close> except the handlers of codes: health, QR images, safety checks,
  authentication and the public redirect. A handler has the operations of the service behind it as
  an interface record.
\<close>

subsection \<open>Requests in JSON\<close>

text \<open>
  \<open>json.NewDecoder(r.Body).Decode\<close> into a struct with these fields: the members that it stores, from
  the first value of the body.
\<close>

definition body_members :: "string list \<Rightarrow> request \<Rightarrow> members option" where
  "body_members names r = Option.bind (json_decode (rq_Body r)) (struct_of names)"

definition opt2 :: "('a \<Rightarrow> 'b \<Rightarrow> 'c) \<Rightarrow> 'a option \<Rightarrow> 'b option \<Rightarrow> 'c option" where
  "opt2 f x y = (case (x, y) of (Some a, Some b) \<Rightarrow> Some (f a b) | _ \<Rightarrow> None)"

definition url_types :: tag where
  "url_types = Oneof [''url'', ''wifi'', ''vcard'', ''email'', ''text'', ''sms'']"

definition validation_error :: "string \<Rightarrow> rw \<Rightarrow> rw" where
  "validation_error message = response_Error 400 ''validation_error'' message"

subsection \<open>Health\<close>

type_synonym 'w pinger = "'w eact"

record health_response =
  hr_Status :: string
  hr_DB :: string
  hr_Redis :: string
  hr_Version :: string

definition Version :: string where "Version = ''0.1.0''"

definition health_json :: "health_response \<Rightarrow> jout" where
  "health_json b = OObj [(''status'', OStr (hr_Status b)), (''db'', OStr (hr_DB b)),
     (''redis'', OStr (hr_Redis b)), (''version'', OStr (hr_Version b))]"

definition Health :: "'w pinger \<Rightarrow> 'w pinger \<Rightarrow> 'w handler" where
  "Health db redis r Ww =
     (case Ww of (W, w) \<Rightarrow>
        let body = \<lparr>hr_Status = ''ok'', hr_DB = ''ok'', hr_Redis = ''ok'', hr_Version = Version\<rparr> in
        case db w of (e1, w1) \<Rightarrow>
        let (body1, status1) = (if e1 \<noteq> None then (body\<lparr>hr_DB := ''error'', hr_Status := ''degraded''\<rparr>, 503) else (body, 200)) in
        case redis w1 of (e2, w2) \<Rightarrow>
        let (body2, status2) = (if e2 \<noteq> None then (body1\<lparr>hr_Redis := ''error'', hr_Status := ''degraded''\<rparr>, 503) else (body1, status1)) in
        (Returned, response_JSON status2 (Some (health_json body2)) W, w2))"

subsection \<open>QR images\<close>

record qr_request =
  qq_Type :: string
  qq_Payload :: string

definition decode_qr :: "request \<Rightarrow> qr_request option" where
  "decode_qr r =
     Option.bind (body_members [''type'', ''payload''] r) (\<lambda>ms.
       map_option (\<lambda>t. \<lparr>qq_Type = t, qq_Payload = raw_field ''payload'' ms []\<rparr>) (string_field ''type'' ms []))"

definition qr_tags :: "qr_request \<Rightarrow> (tag list \<times> field) list" where
  "qr_tags q = [([Required, url_types], FString (qq_Type q)), ([Required], FRaw (qq_Payload q))]"

definition query_size :: "request \<Rightarrow> int option" where
  "query_size r =
     (let q = query_Get (rq_Query r) ''size'' in
      if q \<noteq> [] then map_option ClampSize (atoi q) else Some DefaultSize)"

definition query_ecc :: "request \<Rightarrow> string option" where
  "query_ecc r =
     (let q = query_Get (rq_Query r) ''ecc'' in
      if q \<noteq> [] then (if ValidECC q then Some q else None) else Some DefaultECC)"

definition write_png :: "string \<Rightarrow> rw \<Rightarrow> rw" where
  "write_png png W =
     write_body png (WriteHeader 200
       (set_header ''Cache-Control'' ''no-store''
         (set_header ''Content-Length'' (itoa (int (length png)))
           (set_header ''Content-Type'' ''image/png'' W))))"

definition QRHandler_Generate :: "validator \<Rightarrow> qrcode \<Rightarrow> 'w handler" where
  "QRHandler_Generate V encode r Ww =
     (case Ww of (W, w) \<Rightarrow>
        (Returned,
         (case decode_qr r of
            None \<Rightarrow> validation_error ''invalid request body'' W
          | Some q \<Rightarrow>
              if \<not> V (qr_tags q) then
                validation_error ''type must be one of url/wifi/vcard/email/text/sms and payload is required'' W
              else if \<not> IsJSONObject (qq_Payload q) then validation_error ''payload must be a JSON object'' W
              else (case query_size r of
                  None \<Rightarrow> validation_error ''size must be an integer'' W
                | Some sz \<Rightarrow>
                    (case query_ecc r of
                       None \<Rightarrow> validation_error ''ecc must be one of low/medium/high/highest'' W
                     | Some ecc \<Rightarrow>
                         (case Content (qq_Type q) (qq_Payload q) of
                            Inl e \<Rightarrow>
                              if errors_is e ErrUnsupportedType
                              then response_Error 400 ''unsupported_type'' ''qr generation currently supports only url codes'' W
                              else if errors_is e ErrMissingURL
                              then validation_error ''a url code requires a non-empty payload.url'' W
                              else validation_error ''could not build qr content'' W
                          | Inr content \<Rightarrow>
                              (case PNG encode content sz ecc of
                                 Inl e \<Rightarrow> response_Error 500 ''internal_error'' ''could not render qr image'' W
                               | Inr png \<Rightarrow> write_png png W))))),
         w))"

subsection \<open>Safety checks\<close>

definition decode_check :: "request \<Rightarrow> string option" where
  "decode_check r = Option.bind (body_members [''url''] r) (\<lambda>ms. string_field ''url'' ms [])"

definition SafetyHandler_Check :: "validator \<Rightarrow> (string \<Rightarrow> ('w, safety_result) act) \<Rightarrow> 'w handler" where
  "SafetyHandler_Check V check r Ww =
     (case Ww of (W, w) \<Rightarrow>
        (case decode_check r of
           None \<Rightarrow> (Returned, validation_error ''invalid request body'' W, w)
         | Some u \<Rightarrow>
             if \<not> V [([Required, MaxLen 2048], FString u)] then
               (Returned, validation_error ''url is required and must be at most 2048 characters'' W, w)
             else (case check u w of
                 (Inl e, w1) \<Rightarrow> (Returned, response_Error 500 ''internal_error'' ''could not check url'' W, w1)
               | (Inr res, w1) \<Rightarrow> (Returned, response_JSON 200 (Some (result_json res)) W, w1))))"

subsection \<open>Authentication\<close>

record 'w auth_api =
  aa_CreateGuest :: "('w, auth_result) act"
  aa_UpgradeToAccount :: "uuid \<Rightarrow> string \<Rightarrow> string \<Rightarrow> 'w \<Rightarrow> (err + auth_result) option \<times> 'w"

record 'w auth_handler =
  ah_svc :: "'w auth_api"
  ah_validate :: validator
  ah_uuid :: uuid_lib

definition user_json :: "uuid_lib \<Rightarrow> user \<Rightarrow> jout" where
  "user_json U u =
     OObj ([(''id'', OStr (uuid_String U (user_ID u)))] @
       (case user_Email u of None \<Rightarrow> [] | Some e \<Rightarrow> [(''email'', OStr e)]) @
       [(''is_guest'', OBool (user_IsGuest u)), (''created_at'', time_json (user_CreatedAt u))])"

definition toAuthResponse :: "uuid_lib \<Rightarrow> auth_result \<Rightarrow> jout" where
  "toAuthResponse U a =
     OObj [(''user'', user_json U (au_User a)), (''token'', OStr (au_Token a)),
       (''expires_at'', time_json (au_ExpiresAt a))]"

definition AuthHandler_Guest :: "'w auth_handler \<Rightarrow> 'w handler" where
  "AuthHandler_Guest H r Ww =
     (case Ww of (W, w) \<Rightarrow>
        (case aa_CreateGuest (ah_svc H) w of
           (Inl e, w1) \<Rightarrow> (Returned, response_Error 500 ''internal_error'' ''could not create guest user'' W, w1)
         | (Inr a, w1) \<Rightarrow> (Returned, response_JSON 201 (Some (toAuthResponse (ah_uuid H) a)) W, w1)))"

record upgrade_request =
  uq_Email :: string
  uq_Password :: string

definition decode_upgrade :: "request \<Rightarrow> upgrade_request option" where
  "decode_upgrade r =
     Option.bind (body_members [''email'', ''password''] r) (\<lambda>ms.
       opt2 (\<lambda>e p. \<lparr>uq_Email = e, uq_Password = p\<rparr>) (string_field ''email'' ms []) (string_field ''password'' ms []))"

definition upgrade_tags :: "upgrade_request \<Rightarrow> (tag list \<times> field) list" where
  "upgrade_tags q = [([Required, Email], FString (uq_Email q)), ([Required, MinLen 8], FString (uq_Password q))]"

definition upgrade_error :: "err \<Rightarrow> rw \<Rightarrow> rw" where
  "upgrade_error e =
     (if errors_is e ErrAlreadyUpgraded
      then response_Error 403 ''already_upgraded'' ''this account has already been upgraded''
      else if errors_is e ErrEmailTaken then response_Error 409 ''email_taken'' ''that email is already in use''
      else response_Error 500 ''internal_error'' ''could not upgrade account'')"

definition unauthenticated :: "rw \<Rightarrow> rw" where
  "unauthenticated = response_Error 401 ''unauthorized'' ''missing authenticated user''"

definition AuthHandler_Upgrade :: "'w auth_handler \<Rightarrow> 'w handler" where
  "AuthHandler_Upgrade H r Ww =
     (case Ww of (W, w) \<Rightarrow>
        (case UserIDFromContext (rq_Context r) of
           None \<Rightarrow> (Returned, unauthenticated W, w)
         | Some userID \<Rightarrow>
             (case decode_upgrade r of
                None \<Rightarrow> (Returned, validation_error ''invalid request body'' W, w)
              | Some q \<Rightarrow>
                  if \<not> ah_validate H (upgrade_tags q) then
                    (Returned, validation_error ''email must be valid and password at least 8 characters'' W, w)
                  else (case aa_UpgradeToAccount (ah_svc H) userID (uq_Email q) (uq_Password q) w of
                      (None, w1) \<Rightarrow> (Panicked, W, w1)
                    | (Some (Inl e), w1) \<Rightarrow> (Returned, upgrade_error e W, w1)
                    | (Some (Inr a), w1) \<Rightarrow> (Returned, response_JSON 200 (Some (toAuthResponse (ah_uuid H) a)) W, w1)))))"

subsection \<open>The public redirect\<close>

text \<open>
  \<open>rh_Go\<close> starts the goroutine that records a scan (slug, hashed address, user agent).
\<close>

record 'w redirect_handler =
  rh_Resolve :: "string \<Rightarrow> ('w, string) act"
  rh_Go :: "string \<Rightarrow> string \<Rightarrow> string \<Rightarrow> 'w \<Rightarrow> 'w"

definition notActiveHTML :: string where
  "notActiveHTML =
     ''<!doctype html>'' @ [CHR 0x0A] @ ''<html lang='' @ [CHR 0x22] @ ''en'' @ [CHR 0x22] @ ''>'' @ [CHR 0x0A] @
     ''<head><meta charset='' @ [CHR 0x22] @ ''utf-8'' @ [CHR 0x22] @ ''><title>Code not active</title></head>'' @ [CHR 0x0A] @
     ''<body><h1>This code is no longer active</h1></body>'' @ [CHR 0x0A] @ ''</html>'' @ [CHR 0x0A]"

text \<open>The package \<open>handlers\<close> has its own copy of \<open>clientIP\<close>.\<close>

definition redirect_clientIP :: "request \<Rightarrow> string" where
  "redirect_clientIP r =
     (let xff = header_Get (rq_Header r) ''X-Forwarded-For'' in
      if xff \<noteq> [] then
        (case index_byte xff (CHR '','') of
           Some i \<Rightarrow> trim_space (take i xff)
         | None \<Rightarrow> trim_space xff)
      else (case SplitHostPort (rq_RemoteAddr r) of
          None \<Rightarrow> rq_RemoteAddr r
        | Some (host, _) \<Rightarrow> host))"

definition Redirect :: "'w redirect_handler \<Rightarrow> 'w handler" where
  "Redirect H r Ww =
     (case Ww of (W, w) \<Rightarrow>
        let slug = URLParam r ''slug'' in
        (case rh_Resolve H slug w of
           (Inl e, w1) \<Rightarrow>
             (Returned, write_body notActiveHTML (WriteHeader 404 (set_header ''Content-Type'' ''text/html; charset=utf-8'' W)), w1)
         | (Inr dest, w1) \<Rightarrow>
             (let ipHash = HashIP (redirect_clientIP r);
                  userAgent = header_Get (rq_Header r) ''User-Agent'';
                  w2 = rh_Go H slug ipHash userAgent w1 in
              (Returned, http_Redirect r dest 302 W, w2))))"

subsection \<open>What the handlers answer\<close>

text \<open>The two copies of \<open>clientIP\<close> agree: scans and rate limits see the same client.\<close>

lemma redirect_clientIP_eq: "redirect_clientIP r = clientIP r"
  by (simp add: redirect_clientIP_def clientIP_def)

lemma validation_error_fails:
  "fresh W \<Longrightarrow> is_ascii m \<Longrightarrow> fails (validation_error m W) 400 ''validation_error''"
  unfolding validation_error_def
  by (rule response_Error_fails) (simp_all add: is_ascii_def byte_def body_allowed_def)

lemma Redirect_missing:
  assumes "rh_Resolve H (URLParam r ''slug'') w = (Inl e, w1)" "fresh W"
  shows "\<exists>W'. Redirect H r (W, w) = (Returned, W', w1) \<and> status_of W' = 404 \<and>
    rw_Body W' = notActiveHTML \<and> header_of W' ''Location'' = (rw_Header W) ''Location''"
proof -
  have "canonical_key ''Location'' = ''Location''" by code_simp
  with assms show ?thesis
    by (simp add: Redirect_def Let_def status_of_def header_of_def fresh_def body_allowed_def)
qed

lemma Redirect_found:
  assumes "rh_Resolve H (URLParam r ''slug'') w = (Inr dest, w1)" "fresh W"
  shows "\<exists>W'. Redirect H r (W, w) =
      (Returned, W', rh_Go H (URLParam r ''slug'') (HashIP (clientIP r)) (header_Get (rq_Header r) ''User-Agent'') w1) \<and>
    status_of W' = 302 \<and> header_of W' ''Location'' = Some (hexEscapeNonASCII (redirect_target (rq_Path r) dest))"
proof -
  have "canonical_key ''Location'' = ''Location''" by code_simp
  with assms show ?thesis
    by (simp add: Redirect_def Let_def http_Redirect_def status_of_def header_of_def fresh_def redirect_clientIP_eq)
qed

end
