(* ===== verification/CodesLaws.thy ===== *)
theory CodesLaws
  imports CodesService
begin

text \<open>
  What the operations of the codes service do, proved once from the contract of its parts
  (\<open>codes_parts\<close>): their results on every branch, the isolation of the users from each other, the
  pages of a listing, and what a change means for the redirect cache.
\<close>

subsection \<open>Cursors\<close>

lemma uuid_no_bar: "list_all uuid_char s \<Longrightarrow> CHR ''|'' \<notin> set s"
proof
  assume "list_all uuid_char s" "CHR ''|'' \<in> set s"
  then have "uuid_char (CHR ''|'')" by (simp add: list_all_iff)
  then show False by (simp add: uuid_char_def is_hex_def hex_val_def byte_def)
qed

lemma b64_encode_empty: "b64_encode a s = [] \<longleftrightarrow> s = []"
  by (cases "map byte s" rule: sextets.cases) (auto simp: b64_encode_def)

lemma encodeCursor_nonempty [simp]: "encodeCursor U c \<noteq> []"
  by (simp add: encodeCursor_def b64_encode_empty)

text \<open>The position a listing starts at: the beginning, or after the cursor of the token.\<close>

definition starts_at :: "uuid_lib \<Rightarrow> string \<Rightarrow> cursor option \<Rightarrow> bool" where
  "starts_at U tok cur \<longleftrightarrow>
     (if tok = [] then Inr None else map_sum id Some (decodeCursor U tok)) = Inr cur"

lemma starts_at_empty [simp]: "starts_at U [] cur \<longleftrightarrow> cur = None"
  by (auto simp: starts_at_def)

lemma starts_at_token: "tok \<noteq> [] \<Longrightarrow> decodeCursor U tok = Inr k \<Longrightarrow> starts_at U tok cur \<longleftrightarrow> cur = Some k"
  by (auto simp: starts_at_def)

context uuid_laws
begin

lemma decode_encode_cursor:
  assumes "year4 (cur_CreatedAt c)" shows "decodeCursor U (encodeCursor U c) = Inr c"
proof -
  have "split2 CHR ''|'' (time_Format (cur_CreatedAt c) @ ''|'' @ uuid_String U (cur_ID c)) =
      [time_Format (cur_CreatedAt c), uuid_String U (cur_ID c)]"
    using split2_append [OF time_Format_no_bar] by simp
  then show ?thesis
    by (simp add: decodeCursor_def encodeCursor_def b64_url_round_trip time_Parse_Format [OF assms] parse_string)
qed

text \<open>
  A page cut from a list that is sorted by the cursors of its codes, and the cursor of the rest.
\<close>

lemma list_page_spec:
  assumes sorted: "sorted_wrt (\<lambda>a b. code_cursor b < code_cursor a) cs"
    and years: "\<forall>c \<in> set cs. year4 (code_CreatedAt c)" and l: "0 < l"
    and xs: "xs = filter (before_cursor cur) cs" and p: "p = list_page U l (take (nat (l + 1)) xs)"
  shows "lr_Codes p = take (nat l) xs \<and>
    (if length xs \<le> nat l then lr_NextCursor p = []
     else lr_NextCursor p \<noteq> [] \<and> (\<exists>k. decodeCursor U (lr_NextCursor p) = Inr k \<and>
       filter (before_cursor (Some k)) cs = drop (nat l) xs))"
proof (cases "length xs \<le> nat l")
  case True
  with l have "take (nat (l + 1)) xs = xs" "\<not> int (length xs) > l" by simp_all
  with p True show ?thesis by (simp add: list_page_def)
next
  case False
  let ?c = "xs ! nat (l - 1)"
  have len: "int (length (take (nat (l + 1)) xs)) > l" using False l by (simp add: min_def) linarith
  have in_xs: "?c \<in> set xs" using False l by (intro nth_mem) linarith
  have nth: "take (nat (l + 1)) xs ! nat (l - 1) = ?c" using l by simp
  have "min (nat l) (nat (l + 1)) = nat l" using l by simp
  then have codes: "lr_Codes p = take (nat l) xs" using len p by (simp add: list_page_def Let_def)
  have token: "lr_NextCursor p = encodeCursor U (code_cursor ?c)"
    using len p nth by (simp add: list_page_def Let_def code_cursor_def)
  have "year4 (code_CreatedAt ?c)" using in_xs xs years by simp
  then have dec: "decodeCursor U (lr_NextCursor p) = Inr (code_cursor ?c)"
    unfolding token by (intro decode_encode_cursor) (simp add: code_cursor_def)
  have before: "before_cursor cur c" if "code_cursor c < code_cursor ?c" for c
    using in_xs that unfolding xs by (auto simp: before_cursor_def split: option.splits)
  have "filter (before_cursor (Some (code_cursor ?c))) cs = filter (\<lambda>c. code_cursor c < code_cursor ?c) xs"
    unfolding xs filter_filter using before [unfolded xs] by (intro filter_cong) (auto simp: before_cursor_def)
  also have "\<dots> = drop (Suc (nat (l - 1))) xs"
    using sorted False l unfolding xs by (intro filter_below_nth sorted_wrt_filter) auto
  also have "Suc (nat (l - 1)) = nat l" using l by simp
  finally show ?thesis using codes False dec token by simp
qed

end

subsection \<open>Creating\<close>

context codes_parts
begin

text \<open>
  \<open>added inp w c w'\<close>: one code is in \<open>w'\<close> and was not in \<open>w\<close>, the code of the request, with a
  fresh slug that leads to the URL of the payload if it is dynamic.
\<close>

definition added :: "create_input \<Rightarrow> 'w \<Rightarrow> code \<Rightarrow> 'w \<Rightarrow> bool" where
  "added inp w c w' \<longleftrightarrow>
     (if ci_IsDynamic inp then
        ci_Type inp = TypeURL \<and> (\<exists>dest slug. extractURL (ci_Payload inp) = Some dest \<and> slug_ok slug \<and>
          dynamic_added norm (codes w) (slugs w) (new_code inp) slug dest c (codes w') (slugs w'))
      else static_added norm (codes w) (new_code inp) c (codes w') \<and> slugs w' = slugs w)"

definition unchanged :: "'w \<Rightarrow> 'w \<Rightarrow> bool" where
  "unchanged w w' \<longleftrightarrow> codes w' = codes w \<and> slugs w' = slugs w"

lemma unchanged_refl [simp]: "unchanged w w"
  by (simp add: unchanged_def)

lemma added_cong: "unchanged w w1 \<Longrightarrow> added inp w1 c w' = added inp w c w'"
  by (simp add: added_def unchanged_def)

lemma added_isolated: "added inp w c w' \<Longrightarrow> isolated (ci_UserID inp) (codes w) (codes w')"
  by (auto simp: added_def new_code_def dest!: isolated_static isolated_dynamic split: if_splits)

lemma added_slugs: "added inp w c w' \<Longrightarrow> slugs w \<subseteq>\<^sub>m slugs w'"
proof (cases "ci_IsDynamic inp")
  case False
  then show "added inp w c w' \<Longrightarrow> ?thesis" by (simp add: added_def)
next
  case True
  assume "added inp w c w'"
  then obtain slug x where "slugs w slug = None" "slugs w' = (slugs w)(slug \<mapsto> x)"
    using True unfolding added_def dynamic_added_def by (simp only: if_True) blast
  then show ?thesis by (simp add: map_le_upd_fresh)
qed

lemma Create_spec:
  assumes w: "inv w" and run: "codes_Create S inp w = (r, w')"
  shows "inv w' \<and> targets w' \<subseteq>\<^sub>m targets w \<and>
    (case r of
       Inr c \<Rightarrow> added inp w c w'
     | Inl e \<Rightarrow> unchanged w w' \<or> (\<exists>m e'. e = Wrap m e') \<and> (\<exists>c. added inp w c w'))"
proof (cases "ci_IsDynamic inp")
  case False
  obtain q w1 where q: "rp_Create (cs_repo S) (new_code inp) w = (q, w1)" by (rule prod.exhaust)
  have "\<not> code_IsDynamic (new_code inp)" "code_Dynamic (new_code inp) = None"
    using False by (simp_all add: new_code_def)
  note law = create [OF w this q]
  have w': "w' = w1" "r = map_sum (Wrap ''creating static code'') id q"
    using run False q by (auto simp: codes_Create_def split: sum.splits)
  show ?thesis using law False unfolding w' by (cases q) (auto simp: added_def unchanged_def)
next
  case True
  show ?thesis
  proof (cases "ci_Type inp = TypeURL \<and> extractURL (ci_Payload inp) \<noteq> None")
    case False
    with True run w show ?thesis by (auto simp: codes_Create_def split: if_splits option.splits)
  next
    case url: True
    then obtain dest where dest: "extractURL (ci_Payload inp) = Some dest" by blast
    obtain g w1 where g: "guardDestination S dest w = (g, w1)" by (rule prod.exhaust)
    note guarded = guard [OF w g]
    show ?thesis
    proof (cases g)
      case (Some e)
      with run True url dest g have "r = Inl e" "w' = w1" by (simp_all add: codes_Create_def)
      with guarded show ?thesis by (simp add: unchanged_def)
    next
      case None
      then have "create_attempts S maxSlugAttempts (new_code inp) dest w1 = (r, w')"
        using run True url dest g by (simp add: codes_Create_def)
      from create_attempts_spec [OF _ _ this] guarded url
      have res: "attempts_result (new_code inp) dest w1 r w'" by (simp add: new_code_def)
      have new: "added inp w c w'" if "slug_ok slug"
        "dynamic_added norm (codes w) (slugs w) (new_code inp) slug dest c (codes w') (slugs w')" for slug c
        using that True url dest by (auto simp: added_def)
      from res guarded show ?thesis
        unfolding attempts_result_def by (cases r) (auto simp: unchanged_def intro!: new)
    qed
  qed
qed

lemma unsafe_not_created:
  assumes "ci_IsDynamic inp" "ci_Type inp = TypeURL" "extractURL (ci_Payload inp) = Some dest"
    and "guardDestination S dest w = (Some e, w1)"
  shows "codes_Create S inp w = (Inl e, w1)"
  using assms by (simp add: codes_Create_def)

subsection \<open>Reading\<close>

lemma Get_spec:
  assumes "inv w" "codes_Get S u i w = (r, w')"
  shows "inv w' \<and> unchanged w w' \<and> targets w' = targets w \<and>
    (case r of
       Inr c \<Rightarrow> codes w i = Some c \<and> code_UserID c = u \<and> code_ID c = i
     | Inl e \<Rightarrow> errors_is e CodesErrNotFound \<longrightarrow> owned u (codes w i) = None)"
  using getByID [OF assms(1) assms(2) [unfolded codes_Get_def]] code_id [OF assms(1), of i]
  by (cases r) (auto simp: unchanged_def owned_def split: option.splits if_splits)

lemma List_spec:
  assumes w: "inv w" and run: "codes_List S u tok limit w = (r, w')"
  shows "inv w' \<and> unchanged w w' \<and> targets w' = targets w \<and> mine w' = mine w \<and>
    (\<forall>res. r = Inr res \<longrightarrow>
       (\<exists>cur. starts_at (cs_uuid S) tok cur \<and>
         res = list_page (cs_uuid S) (clamp_limit limit)
           (take (nat (clamp_limit limit + 1)) (filter (before_cursor cur) (mine w u)))))"
proof -
  define l where "l = clamp_limit limit"
  have l: "0 \<le> l + 1" by (simp add: l_def clamp_limit_def DefaultListLimit_def MaxListLimit_def Let_def)
  define start where
    "start = (if tok = [] then Inr None else map_sum id Some (decodeCursor (cs_uuid S) tok))"
  note run' = run [unfolded codes_List_def Let_def, folded l_def start_def]
  show ?thesis
  proof (cases start)
    case (Inl e)
    with run' w show ?thesis by auto
  next
    case (Inr cur)
    obtain q w1 where q: "rp_List (cs_repo S) u cur (l + 1) w = (q, w1)" by (rule prod.exhaust)
    note law = list [OF w l q]
    have cur: "starts_at (cs_uuid S) tok cur" using Inr by (simp add: starts_at_def start_def)
    show ?thesis
    proof (cases q)
      case (Inl e)
      with run' Inr q law show ?thesis by (auto simp: unchanged_def)
    next
      case items: (Inr items)
      with run' Inr q have r: "r = Inr (list_page (cs_uuid S) l items)" "w' = w1" by simp_all
      have "items = take (nat (l + 1)) (filter (before_cursor cur) (mine w u))" using law items by blast
      with law cur show ?thesis unfolding r l_def [symmetric] by (auto simp: unchanged_def)
    qed
  qed
qed

end

subsection \<open>Updating\<close>

text \<open>
  What a PATCH does to the codes and to the slugs, as functions on the two maps; and the requests
  that are part of another one.
\<close>

definition patched ::
  "uuid \<Rightarrow> uuid \<Rightarrow> update_input \<Rightarrow> instant \<Rightarrow> instant \<Rightarrow> (uuid \<Rightarrow> code option) \<Rightarrow> uuid \<Rightarrow> code option" where
  "patched u i inp t t' m =
     (case ui_Label inp of None \<Rightarrow> \<lambda>m. m | Some l \<Rightarrow> set_label u i (Some l) t')
       ((case ui_Destination inp of None \<Rightarrow> m | Some d \<Rightarrow> set_code_destination i d t m))"

definition patched_slugs ::
  "uuid \<Rightarrow> update_input \<Rightarrow> (string \<Rightarrow> (string \<times> uuid) option) \<Rightarrow> string \<Rightarrow> (string \<times> uuid) option" where
  "patched_slugs i inp m = (case ui_Destination inp of None \<Rightarrow> m | Some d \<Rightarrow> set_slug_destination i d m)"

definition part_of :: "update_input \<Rightarrow> update_input \<Rightarrow> bool" where
  "part_of inp' inp \<longleftrightarrow>
     (ui_Label inp' = None \<or> ui_Label inp' = ui_Label inp) \<and>
     (ui_Destination inp' = None \<or> ui_Destination inp' = ui_Destination inp)"

lemma patched_nothing [simp]:
  "patched u i \<lparr>ui_Label = None, ui_Destination = None\<rparr> t t' m = m"
  "patched_slugs i \<lparr>ui_Label = None, ui_Destination = None\<rparr> sm = sm"
  by (simp_all add: patched_def patched_slugs_def)

lemma patched_slugs_other: "patched_slugs i inp m s \<noteq> m s \<Longrightarrow> \<exists>x. m s = Some (x, i)"
  by (cases "m s") (auto simp: patched_slugs_def set_slug_destination_def split: option.splits if_splits)

lemma owned_destination:
  "owned u (set_code_destination i d t m i) = None \<longleftrightarrow> owned u (m i) = None"
  by (cases "m i") (simp_all add: owned_def set_code_destination_apply)

lemma patched_isolated: "owned u (m i) \<noteq> None \<Longrightarrow> isolated u m (patched u i inp t t' m)"
  unfolding patched_def
  by (cases "ui_Label inp"; cases "ui_Destination inp")
    (auto intro: isolated_label isolated_destination isolated_trans)

text \<open>The code after a PATCH: the fields asked for are set, and the others are as they were.\<close>

lemma patched_code:
  assumes "owned u (m i) = Some c"
  shows "\<exists>c'. owned u (patched u i inp t t' m i) = Some c' \<and>
    code_Label c' = (case ui_Label inp of None \<Rightarrow> code_Label c | Some l \<Rightarrow> Some l) \<and>
    map_option dyn_Destination (code_Dynamic c') =
      (case ui_Destination inp of None \<Rightarrow> map_option dyn_Destination (code_Dynamic c)
       | Some d \<Rightarrow> map_option (\<lambda>_. d) (code_Dynamic c)) \<and>
    map_option dyn_Slug (code_Dynamic c') = map_option dyn_Slug (code_Dynamic c) \<and>
    code_ID c' = code_ID c \<and> code_UserID c' = code_UserID c \<and> code_Type c' = code_Type c \<and>
    code_Payload c' = code_Payload c \<and> code_IsDynamic c' = code_IsDynamic c"
  using assms unfolding patched_def
  by (cases "ui_Label inp"; cases "ui_Destination inp"; cases "code_Dynamic c")
    (auto simp: owned_def set_label_apply set_code_destination_apply split: option.splits if_splits)

context codes_parts
begin

definition coherent :: "'w \<Rightarrow> bool" where
  "coherent w \<longleftrightarrow> coherent_map (cs_uuid S) (targets w) (slugs w)"

lemma coherent_change:
  "coherent w \<Longrightarrow> targets w' \<subseteq>\<^sub>m targets w \<Longrightarrow> (\<And>s. targets w' s \<noteq> None \<Longrightarrow> slugs w' s = slugs w s) \<Longrightarrow> coherent w'"
  unfolding coherent_def by (rule coherent_map_change)

lemma slug_of_code:
  assumes "inv w" "codes w i = Some c" "code_Dynamic c = Some dyn" "slugs w s = Some (d, i)"
  shows "s = dyn_Slug dyn"
  using slugs_view [OF assms(1,4)] assms(2,3) by auto

text \<open>
  \<open>redirected\<close> and \<open>relabelled\<close>: the effect of the two writes of a PATCH. The invalidation after the
  first concerns the slug of the code.
\<close>

definition redirected :: "uuid \<Rightarrow> string \<Rightarrow> 'w \<Rightarrow> 'w \<Rightarrow> bool" where
  "redirected i d w w' \<longleftrightarrow>
     (\<exists>t. codes w' = set_code_destination i d t (codes w)) \<and> slugs w' = set_slug_destination i d (slugs w)"

definition relabelled :: "uuid \<Rightarrow> uuid \<Rightarrow> string option \<Rightarrow> 'w \<Rightarrow> 'w \<Rightarrow> bool" where
  "relabelled u i l w w' \<longleftrightarrow> (\<exists>t. codes w' = set_label u i l t (codes w)) \<and> slugs w' = slugs w"

definition always_invalidates :: bool where
  "always_invalidates \<longleftrightarrow> (\<forall>s w. fst (ca_Invalidate (cs_cache S) s w) = None)"

lemma destination_part:
  assumes w: "inv w" and c: "codes w i = Some c" and run: "update_destination_part S c dest w = (x, w')"
  obtains (refused) e where "x = Some e" "inv w'" "targets w' \<subseteq>\<^sub>m targets w" "unchanged w w'"
  | (failed) m e where "x = Some (Wrap m e)" "inv w'" "targets w' \<subseteq>\<^sub>m targets w" "redirected i dest w w'"
  | (success) dyn where "x = None" "inv w'" "targets w' \<subseteq>\<^sub>m targets w" "redirected i dest w w'"
      "code_IsDynamic c" "code_Dynamic c = Some dyn" "always_invalidates \<Longrightarrow> targets w' (dyn_Slug dyn) = None"
proof (cases "if code_IsDynamic c then code_Dynamic c else None")
  case None
  with run w refused show thesis by (auto simp: update_destination_part_def)
next
  case (Some dyn)
  then have dyn: "code_IsDynamic c" "code_Dynamic c = Some dyn" by (simp_all split: if_splits)
  have id: "code_ID c = i" using code_id [OF w c] .
  obtain g w1 where g: "guardDestination S dest w = (g, w1)" by (rule prod.exhaust)
  note guarded = guard [OF w g]
  show thesis
  proof (cases g)
    case (Some e)
    with run dyn g guarded refused show thesis by (auto simp: update_destination_part_def unchanged_def)
  next
    case None
    obtain y w2 where y: "rp_UpdateDestination (cs_repo S) i dest w1 = (y, w2)" by (rule prod.exhaust)
    have w1: "inv w1" "codes w1 = codes w" "slugs w1 = slugs w" "targets w1 \<subseteq>\<^sub>m targets w"
      using guarded by simp_all
    note law = updateDestination [OF w1(1) y, unfolded w1(2,3)]
    have w2: "inv w2" "targets w2 \<subseteq>\<^sub>m targets w" using law w1 by simp_all
    show thesis
    proof (cases y)
      case (Some e)
      then have x: "x = Some (Wrap ''updating destination'' e)" "w' = w2"
        using run dyn g \<open>g = None\<close> y id by (simp_all add: update_destination_part_def)
      from law have "write_law y (has_dynamic (codes w) i) (codes w2 = codes w \<and> slugs w2 = slugs w)
        (slugs w2 = set_slug_destination i dest (slugs w) \<and> (\<exists>t. codes w2 = set_code_destination i dest t (codes w)))"
        by simp
      then show thesis
      proof (cases rule: write_law_cases)
        case updated
        then have "redirected i dest w w2" by (simp add: redirected_def)
        with x w2 show thesis by (intro failed) simp_all
      next
        case same
        with x w2 show thesis by (intro refused) (simp_all add: unchanged_def)
      qed
    next
      case None
      from law None have red: "redirected i dest w w2" by (simp add: write_law_def redirected_def)
      obtain z w3 where z: "ca_Invalidate (cs_cache S) (dyn_Slug dyn) w2 = (z, w3)" by (rule prod.exhaust)
      then have x: "x = None" "w' = w3"
        using run dyn g \<open>g = None\<close> y None id by (simp_all add: update_destination_part_def)
      note inval = invalidate [OF z] invalidate_frame [OF w2(1) z]
      have "always_invalidates \<Longrightarrow> z = None" using z by (metis always_invalidates_def fst_conv)
      then show thesis
        using x inval red w2 dyn by (intro success) (auto simp: redirected_def intro: map_le_trans)
    qed
  qed
qed

lemma label_part:
  assumes w: "inv w" and run: "update_label_part S u i l w = (x, w')"
  obtains (refused) e where "x = Some e" "inv w'" "targets w' = targets w" "unchanged w w'"
  | (failed) m e where "x = Some (Wrap m e)" "inv w'" "targets w' = targets w" "relabelled u i l w w'"
  | (success) "x = None" "inv w'" "targets w' = targets w" "relabelled u i l w w'"
proof -
  obtain y w1 where y: "rp_UpdateLabel (cs_repo S) u i l w = (y, w1)" by (rule prod.exhaust)
  then have x: "x = map_option (Wrap ''updating label'') y" "w' = w1"
    using run by (auto simp: update_label_part_def split: option.splits)
  note law = updateLabel [OF w y]
  then have w1: "inv w1" "targets w1 = targets w" "slugs w1 = slugs w" by simp_all
  from law have "write_law y (owned u (codes w i) \<noteq> None) (codes w1 = codes w)
      (\<exists>t. codes w1 = set_label u i l t (codes w))" by simp
  then show thesis
  proof (cases rule: write_law_cases)
    case updated
    then have "relabelled u i l w w'" using w1 x by (simp add: relabelled_def)
    with w1 x show thesis by (cases y) (auto intro: failed success)
  next
    case same
    with w1 x show thesis by (auto simp: unchanged_def intro: refused)
  qed
qed

text \<open>
  The whole PATCH. \<open>patched_state\<close> is a state in which the given fields are set; after an error some
  of them may be.
\<close>

definition patched_state :: "uuid \<Rightarrow> uuid \<Rightarrow> update_input \<Rightarrow> 'w \<Rightarrow> 'w \<Rightarrow> bool" where
  "patched_state u i inp w w' \<longleftrightarrow>
     (\<exists>t t'. codes w' = patched u i inp t t' (codes w)) \<and> slugs w' = patched_slugs i inp (slugs w)"

lemma patched_stateI:
  assumes "case ui_Destination inp of None \<Rightarrow> unchanged w w1 | Some d \<Rightarrow> redirected i d w w1"
    and "case ui_Label inp of None \<Rightarrow> unchanged w1 w' | Some l \<Rightarrow> relabelled u i (Some l) w1 w'"
  shows "patched_state u i inp w w'"
  using assms unfolding patched_state_def patched_def patched_slugs_def
  by (cases "ui_Destination inp"; cases "ui_Label inp")
    (auto simp: unchanged_def redirected_def relabelled_def, blast)

lemma patched_state_none: "unchanged w w' \<Longrightarrow> patched_state u i \<lparr>ui_Label = None, ui_Destination = None\<rparr> w w'"
  by (simp add: patched_state_def unchanged_def)

definition update_result :: "uuid \<Rightarrow> uuid \<Rightarrow> update_input \<Rightarrow> 'w \<Rightarrow> err + code \<Rightarrow> 'w \<Rightarrow> bool" where
  "update_result u i inp w r w' \<longleftrightarrow>
     inv w' \<and> targets w' \<subseteq>\<^sub>m targets w \<and>
     (case r of
        Inr c \<Rightarrow> owned u (codes w i) \<noteq> None \<and> owned u (codes w' i) = Some c \<and>
          patched_state u i inp w w' \<and> (ui_Destination inp \<noteq> None \<longrightarrow> code_Dynamic c \<noteq> None) \<and>
          (always_invalidates \<longrightarrow> ui_Destination inp \<noteq> None \<longrightarrow>
             (\<forall>s x. slugs w s = Some (x, i) \<longrightarrow> targets w' s = None))
      | Inl e \<Rightarrow> unchanged w w' \<or> owned u (codes w i) \<noteq> None \<and>
          (\<exists>inp'. part_of inp' inp \<and> patched_state u i inp' w w'))"

lemma update_result_error:
  assumes "inv w'" "targets w' \<subseteq>\<^sub>m targets w" "owned u (codes w i) \<noteq> None" "part_of inp' inp"
    "patched_state u i inp' w w'"
  shows "update_result u i inp w (Inl e) w'"
  using assms unfolding update_result_def by auto

lemma owned_redirected: "redirected i d w w1 \<Longrightarrow> owned u (codes w1 i) = None \<longleftrightarrow> owned u (codes w i) = None"
  by (auto simp: redirected_def owned_destination)

text \<open>The two optional steps, each with its outcome.\<close>

definition destination_step :: "update_input \<Rightarrow> code \<Rightarrow> 'w eact" where
  "destination_step inp c w =
     (case ui_Destination inp of None \<Rightarrow> (None, w) | Some d \<Rightarrow> update_destination_part S c d w)"

definition label_step :: "uuid \<Rightarrow> uuid \<Rightarrow> update_input \<Rightarrow> 'w eact" where
  "label_step u i inp w =
     (case ui_Label inp of None \<Rightarrow> (None, w) | Some l \<Rightarrow> update_label_part S u i (Some l) w)"

lemma codes_Update_steps:
  "codes_Update S u i inp w =
     (case rp_GetByID (cs_repo S) u i w of
        (Inl e, w1) \<Rightarrow> (Inl e, w1)
      | (Inr c, w1) \<Rightarrow>
          (case destination_step inp c w1 of
             (Some e, w2) \<Rightarrow> (Inl e, w2)
           | (None, w2) \<Rightarrow>
               (case label_step u i inp w2 of
                  (Some e, w3) \<Rightarrow> (Inl e, w3)
                | (None, w3) \<Rightarrow> rp_GetByID (cs_repo S) u i w3)))"
  unfolding codes_Update_def destination_step_def label_step_def by (rule refl)

lemma destination_step_spec:
  assumes "inv w" "codes w i = Some c" "destination_step inp c w = (x, w2)"
  shows "inv w2 \<and> targets w2 \<subseteq>\<^sub>m targets w \<and>
    (case x of
       Some e \<Rightarrow> unchanged w w2 \<or> (\<exists>d. ui_Destination inp = Some d \<and> redirected i d w w2)
     | None \<Rightarrow> (case ui_Destination inp of None \<Rightarrow> unchanged w w2
         | Some d \<Rightarrow> redirected i d w w2 \<and> (\<exists>dyn. code_Dynamic c = Some dyn \<and>
             (always_invalidates \<longrightarrow> targets w2 (dyn_Slug dyn) = None))))"
proof (cases "ui_Destination inp")
  case None
  with assms show ?thesis by (auto simp: destination_step_def)
next
  case (Some d)
  with assms have "update_destination_part S c d w = (x, w2)" by (simp add: destination_step_def)
  from assms(1,2) this show ?thesis
    by (cases rule: destination_part) (auto simp: Some)
qed

lemma label_step_spec:
  assumes "inv w" "label_step u i inp w = (y, w3)"
  shows "inv w3 \<and> targets w3 = targets w \<and>
    (case y of
       Some e \<Rightarrow> unchanged w w3 \<or> (\<exists>l. ui_Label inp = Some l \<and> relabelled u i (Some l) w w3)
     | None \<Rightarrow> (case ui_Label inp of None \<Rightarrow> unchanged w w3 | Some l \<Rightarrow> relabelled u i (Some l) w w3))"
proof (cases "ui_Label inp")
  case None
  with assms show ?thesis by (auto simp: label_step_def)
next
  case (Some l)
  with assms have "update_label_part S u i (Some l) w = (y, w3)" by (simp add: label_step_def)
  from assms(1) this show ?thesis by (cases rule: label_part) (auto simp: Some)
qed

text \<open>An error of the second step leaves the first one done.\<close>

lemma label_step_failed:
  assumes dest: "case ui_Destination inp of None \<Rightarrow> unchanged w w2 | Some d \<Rightarrow> redirected i d w w2"
    and fail: "unchanged w2 w3 \<or> (\<exists>l. ui_Label inp = Some l \<and> relabelled u i (Some l) w2 w3)"
  shows "\<exists>inp'. part_of inp' inp \<and> patched_state u i inp' w w3"
proof -
  define inp' where "inp' = \<lparr>ui_Label = None, ui_Destination = ui_Destination inp\<rparr>"
  have "patched_state u i (if unchanged w2 w3 then inp' else inp) w w3"
    using dest fail by (intro patched_stateI [where ?w1.0 = w2]) (auto simp: inp'_def)
  moreover have "part_of (if unchanged w2 w3 then inp' else inp) inp" by (simp add: part_of_def inp'_def)
  ultimately show ?thesis by blast
qed

text \<open>The second read finds what the two steps left.\<close>

lemma update_reread:
  assumes w: "inv w" "owned u (codes w i) = Some c" and w3: "inv w3" "targets w3 \<subseteq>\<^sub>m targets w"
    and all: "patched_state u i inp w w3"
    and dyn: "ui_Destination inp \<noteq> None \<Longrightarrow> \<exists>dyn. code_Dynamic c = Some dyn \<and>
      (always_invalidates \<longrightarrow> targets w3 (dyn_Slug dyn) = None)"
    and run: "rp_GetByID (cs_repo S) u i w3 = (r, w')"
  shows "update_result u i inp w r w'"
proof -
  note reread = getByID [OF w3(1) run]
  then have same: "inv w'" "codes w' = codes w3" "slugs w' = slugs w3" "targets w' = targets w3" by simp_all
  have all': "patched_state u i inp w w'" using all same by (simp add: patched_state_def)
  show ?thesis
  proof (cases r)
    case (Inl e)
    with all' same w3 w(2) show ?thesis
      by (auto simp: part_of_def intro!: update_result_error [of w' w u i inp])
  next
    case r: (Inr c')
    with reread same have c': "owned u (codes w' i) = Some c'" by simp
    from all' obtain t t' where "codes w' = patched u i inp t t' (codes w)" unfolding patched_state_def by blast
    with patched_code [of u "codes w" i c inp t t'] w(2) c'
    have slug: "map_option dyn_Slug (code_Dynamic c') = map_option dyn_Slug (code_Dynamic c)" by auto
    have c: "codes w i = Some c" using w(2) by (auto simp: owned_def split: option.splits if_splits)
    have gone: "targets w' s = None"
      if "always_invalidates" "ui_Destination inp \<noteq> None" "slugs w s = Some (z, i)" for s z
      using dyn [OF that(2)] that(1) slug_of_code [OF w(1) c _ that(3)] same by auto
    have "ui_Destination inp \<noteq> None \<longrightarrow> code_Dynamic c' \<noteq> None" using dyn slug by auto
    with r w c' all' same w3 gone show ?thesis by (auto simp: update_result_def)
  qed
qed

lemma Update_spec:
  assumes w: "inv w" and run: "codes_Update S u i inp w = (r, w')"
  shows "update_result u i inp w r w'"
proof -
  obtain g w1 where g: "rp_GetByID (cs_repo S) u i w = (g, w1)" by (rule prod.exhaust)
  note read = getByID [OF w g]
  then have w1: "inv w1" "codes w1 = codes w" "slugs w1 = slugs w" "targets w1 = targets w" by simp_all
  show ?thesis
  proof (cases g)
    case (Inl e)
    then have "r = Inl e" "w' = w1" using run g by (simp_all add: codes_Update_def)
    with w1 show ?thesis by (simp add: update_result_def unchanged_def)
  next
    case (Inr c)
    with read have c: "owned u (codes w i) = Some c" by simp
    then have c1: "codes w1 i = Some c" unfolding w1(2) by (auto simp: owned_def split: option.splits if_splits)
    obtain x w2 where x: "destination_step inp c w1 = (x, w2)" by (rule prod.exhaust)
    have "unchanged w w1" using w1 by (simp add: unchanged_def)
    with destination_step_spec [OF w1(1) c1 x] w1 have first: "inv w2 \<and> targets w2 \<subseteq>\<^sub>m targets w \<and>
      (case x of
         Some e \<Rightarrow> unchanged w w2 \<or> (\<exists>d. ui_Destination inp = Some d \<and> redirected i d w w2)
       | None \<Rightarrow> (case ui_Destination inp of None \<Rightarrow> unchanged w w2
           | Some d \<Rightarrow> redirected i d w w2 \<and> (\<exists>dyn. code_Dynamic c = Some dyn \<and>
               (always_invalidates \<longrightarrow> targets w2 (dyn_Slug dyn) = None))))"
      by (cases x; cases "ui_Destination inp") (simp_all add: unchanged_def redirected_def)
    note run2 = run [unfolded codes_Update_steps g Inr prod.case sum.case x]
    show ?thesis
    proof (cases x)
      case (Some e)
      then have r: "r = Inl e" "w' = w2" using run2 by simp_all
      show ?thesis
      proof (cases "unchanged w w2")
        case True
        with first show ?thesis unfolding r by (simp add: update_result_def)
      next
        case False
        with first Some obtain d where d: "ui_Destination inp = Some d" "redirected i d w w2" by auto
        then have "patched_state u i \<lparr>ui_Label = None, ui_Destination = Some d\<rparr> w w2"
          by (intro patched_stateI [where ?w1.0 = w2]) simp_all
        then show ?thesis unfolding r
          using first c d by (intro update_result_error) (auto simp: part_of_def)
      qed
    next
      case None
      obtain y w3 where y: "label_step u i inp w2 = (y, w3)" by (rule prod.exhaust)
      have w2: "inv w2" "targets w2 \<subseteq>\<^sub>m targets w" using first by simp_all
      have dest: "case ui_Destination inp of None \<Rightarrow> unchanged w w2 | Some d \<Rightarrow> redirected i d w w2"
        using first None by (simp split: option.splits)
      note second = label_step_spec [OF w2(1) y]
      then have w3: "inv w3" "targets w3 \<subseteq>\<^sub>m targets w" using w2 by simp_all
      show ?thesis
      proof (cases y)
        case (Some e)
        then have r: "r = Inl e" "w' = w3" using run2 None y by simp_all
        from second Some have "unchanged w2 w3 \<or> (\<exists>l. ui_Label inp = Some l \<and> relabelled u i (Some l) w2 w3)"
          by simp
        from label_step_failed [OF dest this] obtain inp' where "part_of inp' inp" "patched_state u i inp' w w3"
          by blast
        with w3 c show ?thesis unfolding r by (intro update_result_error) simp_all
      next
        case y0: None
        have "patched_state u i inp w w3" using dest second y0 by (intro patched_stateI [where ?w1.0 = w2]) simp_all
        moreover have "rp_GetByID (cs_repo S) u i w3 = (r, w')" using run2 None y y0 by simp
        moreover have "\<exists>dyn. code_Dynamic c = Some dyn \<and> (always_invalidates \<longrightarrow> targets w3 (dyn_Slug dyn) = None)"
          if "ui_Destination inp \<noteq> None" using that first None second by auto
        ultimately show ?thesis using w c w3 by (intro update_reread) simp_all
      qed
    qed
  qed
qed

subsection \<open>Deleting and counting\<close>

lemma Delete_spec:
  assumes w: "inv w" and run: "codes_Delete S u i w = (x, w')"
  shows "inv w' \<and> targets w' \<subseteq>\<^sub>m targets w \<and>
    (x = None \<longrightarrow> owned u (codes w i) \<noteq> None \<and> codes w' = drop_code u i (codes w) \<and>
       slugs w' = drop_slugs i (slugs w) \<and>
       (always_invalidates \<longrightarrow> (\<forall>s d. slugs w s = Some (d, i) \<longrightarrow> targets w' s = None))) \<and>
    (x \<noteq> None \<longrightarrow> unchanged w w' \<or> owned u (codes w i) \<noteq> None \<and>
       codes w' = drop_code u i (codes w) \<and> slugs w' = drop_slugs i (slugs w))"
proof -
  obtain g w1 where g: "rp_GetByID (cs_repo S) u i w = (g, w1)" by (rule prod.exhaust)
  note read = getByID [OF w g]
  then have w1: "inv w1" "codes w1 = codes w" "slugs w1 = slugs w" "targets w1 = targets w" by simp_all
  show ?thesis
  proof (cases g)
    case (Inl e)
    then have "x = Some e" "w' = w1" using run g by (simp_all add: codes_Delete_def)
    with w1 show ?thesis by (simp add: unchanged_def)
  next
    case (Inr c)
    with read have c: "owned u (codes w i) = Some c" by simp
    obtain y w2 where y: "rp_Delete (cs_repo S) u i w1 = (y, w2)" by (rule prod.exhaust)
    note law = delete [OF w1(1) y, unfolded w1]
    then have w2: "inv w2" "targets w2 = targets w" by simp_all
    show ?thesis
    proof (cases y)
      case (Some e)
      then have x: "x = Some e" "w' = w2" using run g Inr y by (simp_all add: codes_Delete_def)
      from law have "write_law y (owned u (codes w i) \<noteq> None) (codes w2 = codes w \<and> slugs w2 = slugs w)
        (codes w2 = drop_code u i (codes w) \<and>
         slugs w2 = (if owned u (codes w i) = None then slugs w else drop_slugs i (slugs w)))" by blast
      then show ?thesis by (cases rule: write_law_cases) (use x w2 c in \<open>simp_all add: unchanged_def\<close>)
    next
      case None
      from law None have gone: "codes w2 = drop_code u i (codes w)" "slugs w2 = drop_slugs i (slugs w)"
        using c by (simp_all add: write_law_def)
      have ci: "codes w i = Some c" using c by (auto simp: owned_def split: option.splits if_splits)
      show ?thesis
      proof (cases "if code_IsDynamic c then code_Dynamic c else None")
        case no: None
        then have x: "x = None" "w' = w2" using run g Inr y None by (simp_all add: codes_Delete_def)
        have "slugs w s \<noteq> Some (d, i)" for s d using slugs_view [OF w, of s d i] ci no by (auto split: if_splits)
        with x w2 gone c show ?thesis by simp
      next
        case (Some dyn)
        obtain z w3 where z: "ca_Invalidate (cs_cache S) (dyn_Slug dyn) w2 = (z, w3)" by (rule prod.exhaust)
        then have x: "x = None" "w' = w3" using run g Inr y None Some by (simp_all add: codes_Delete_def)
        note inval = invalidate [OF z] invalidate_frame [OF w2(1) z]
        have "targets w3 s = None" if "always_invalidates" "slugs w s = Some (d, i)" for s d
        proof -
          have "s = dyn_Slug dyn" using slug_of_code [OF w ci _ that(2)] Some by (simp split: if_splits)
          moreover have "z = None" using that(1) z by (metis always_invalidates_def fst_conv)
          ultimately show ?thesis using inval by simp
        qed
        with x w2 gone c inval show ?thesis by simp
      qed
    qed
  qed
qed

lemma Delete_isolated:
  assumes "inv w" "codes_Delete S u i w = (x, w')"
  shows "isolated u (codes w) (codes w')"
  using Delete_spec [OF assms] by (cases x) (auto simp: unchanged_def isolated_drop)

lemma update_result_state:
  assumes "update_result u i inp w r w'"
  obtains "unchanged w w'" | inp' where "owned u (codes w i) \<noteq> None" "part_of inp' inp" "patched_state u i inp' w w'"
proof -
  have "part_of inp inp" by (simp add: part_of_def)
  with assms that show thesis unfolding update_result_def by (cases r) auto
qed

lemma Update_isolated:
  assumes "inv w" "codes_Update S u i inp w = (r, w')"
  shows "isolated u (codes w) (codes w')"
  using Update_spec [OF assms]
proof (cases rule: update_result_state)
  case 1
  then show ?thesis by (simp add: unchanged_def)
next
  case (2 inp')
  then show ?thesis using patched_isolated [of u "codes w" i inp'] by (auto simp: patched_state_def)
qed

lemma Create_isolated:
  assumes "inv w" "codes_Create S inp w = (r, w')"
  shows "isolated (ci_UserID inp) (codes w) (codes w')"
  using Create_spec [OF assms] by (cases r) (auto simp: unchanged_def intro: added_isolated)

text \<open>The counts of a dynamic code are those of the scans of its slug; a static code has none.\<close>

lemma Analytics_spec:
  assumes w: "inv w" and run: "codes_Analytics S u i w = (r, w')"
  shows "inv w' \<and> unchanged w w' \<and> targets w' = targets w \<and>
    (\<forall>a. r = Inr a \<longrightarrow> (\<exists>c. owned u (codes w i) = Some c \<and> an_CodeID a = i \<and>
      (case code_Dynamic c of
         None \<Rightarrow> a = \<lparr>an_CodeID = i, an_TotalScans = 0, an_UniqueVisitors = 0, an_Daily = [], an_TopUserAgents = []\<rparr>
       | Some dyn \<Rightarrow> (let es = scans w (dyn_Slug dyn) in
           (an_TotalScans a, an_UniqueVisitors a) = counts_of es \<and> an_Daily a = daily_of es \<and>
           an_TopUserAgents a = take topUserAgentsLimit (ranked_agents collate es)))))"
proof -
  obtain g w1 where g: "rp_GetByID (cs_repo S) u i w = (g, w1)" by (rule prod.exhaust)
  note w1 = getByID [OF w g]
  show ?thesis
  proof (cases g)
    case (Inl e)
    with run g w1 show ?thesis by (auto simp: codes_Analytics_def unchanged_def)
  next
    case (Inr c)
    then have c: "owned u (codes w i) = Some c" using w1 by simp
    show ?thesis
    proof (cases "code_Dynamic c")
      case None
      with run g w1 Inr c show ?thesis by (auto simp: codes_Analytics_def unchanged_def)
    next
      case (Some dyn)
      let ?s = "dyn_Slug dyn"
      obtain k w2 where k: "rp_ScanCounts (cs_repo S) ?s w1 = (k, w2)" by (rule prod.exhaust)
      have "inv w1" using w1 by simp
      note w2 = scanCounts [OF this k]
      obtain y w3 where y: "rp_ScanDaily (cs_repo S) ?s w2 = (y, w3)" by (rule prod.exhaust)
      have "inv w2" using w2 by simp
      note w3 = scanDaily [OF this y]
      obtain z w4 where z: "rp_ScanTopUserAgents (cs_repo S) ?s topUserAgentsLimit w3 = (z, w4)" by (rule prod.exhaust)
      have "inv w3" using w3 by simp
      note w4 = scanTop [OF this z]
      note steps = run [unfolded codes_Analytics_def g Inr prod.case sum.case Some option.case k]
      show ?thesis
      proof (cases k)
        case (Inl e)
        with steps w1 w2 show ?thesis by (auto simp: unchanged_def)
      next
        case k': (Inr tu)
        obtain t q where tu: "tu = (t, q)" by (rule prod.exhaust)
        show ?thesis
        proof (cases y)
          case (Inl e)
          with steps w1 w2 w3 k' tu y show ?thesis by (auto simp: unchanged_def)
        next
          case y': (Inr daily)
          show ?thesis
          proof (cases z)
            case (Inl e)
            with steps w1 w2 w3 w4 k' tu y y' z show ?thesis by (auto simp: unchanged_def)
          next
            case z': (Inr top)
            with steps k' tu y y' z have r: "r = Inr \<lparr>an_CodeID = i, an_TotalScans = t, an_UniqueVisitors = q,
                an_Daily = daily, an_TopUserAgents = top\<rparr>" "w' = w4" by simp_all
            have "(t, q) = counts_of (scans w ?s)" "daily = daily_of (scans w ?s)"
              "top = take topUserAgentsLimit (ranked_agents collate (scans w ?s))"
              using w1 w2 w3 w4 k' tu y' z' by simp_all
            with c Some w1 w2 w3 w4 show ?thesis unfolding r by (simp add: unchanged_def Let_def)
          qed
        qed
      qed
    qed
  qed
qed

subsection \<open>Coherence with the redirect cache\<close>

lemma Create_coherent:
  assumes w: "inv w" "coherent w" and run: "codes_Create S inp w = (r, w')"
  shows "coherent w'"
proof -
  note spec = Create_spec [OF w(1) run]
  then have "unchanged w w' \<or> (\<exists>c. added inp w c w')" by (cases r) auto
  then have "slugs w \<subseteq>\<^sub>m slugs w'"
    by (auto simp: unchanged_def dest: added_slugs)
  with spec w(2) show ?thesis
    by (intro coherent_change [of w w']) (auto simp: coherent_def map_le_def dom_def elim!: coherent_mapD)
qed

lemma coherent_present:
  "coherent w \<Longrightarrow> targets w' \<subseteq>\<^sub>m targets w \<Longrightarrow> targets w' s \<noteq> None \<Longrightarrow> slugs w s \<noteq> None"
  by (auto simp: coherent_def dest!: map_leD elim: coherent_mapD)

lemma Update_coherent:
  assumes w: "inv w" "coherent w" and ok: "always_invalidates" and run: "codes_Update S u i inp w = (Inr c, w')"
  shows "coherent w'"
proof -
  note spec = Update_spec [OF w(1) run, unfolded update_result_def sum.case]
  have "slugs w' s = slugs w s" if "targets w' s \<noteq> None" for s
  proof (rule ccontr)
    assume "slugs w' s \<noteq> slugs w s"
    then have diff: "patched_slugs i inp (slugs w) s \<noteq> slugs w s" using spec by (simp add: patched_state_def)
    then have "ui_Destination inp \<noteq> None" by (auto simp: patched_slugs_def split: option.splits)
    moreover obtain x where "slugs w s = Some (x, i)" using patched_slugs_other [OF diff] by blast
    ultimately have "targets w' s = None" using spec ok by auto
    with that show False ..
  qed
  with spec w(2) show ?thesis by (intro coherent_change [of w w']) simp_all
qed

lemma Delete_coherent:
  assumes w: "inv w" "coherent w" and ok: "always_invalidates" and run: "codes_Delete S u i w = (None, w')"
  shows "coherent w'"
proof -
  note spec = Delete_spec [OF w(1) run]
  have "slugs w' s = slugs w s" if "targets w' s \<noteq> None" for s
  proof (rule ccontr)
    assume "slugs w' s \<noteq> slugs w s"
    then obtain d where "slugs w s = Some (d, i)"
      using spec by (auto simp: drop_slugs_def split: option.splits if_splits)
    then have "targets w' s = None" using spec ok by auto
    with that show False ..
  qed
  with spec w(2) show ?thesis by (intro coherent_change [of w w']) simp_all
qed

end

subsection \<open>Listing everything\<close>

text \<open>
  A client that follows the cursors from page to page, at most \<open>n\<close> of them.
\<close>

fun fetch_all :: "'w codes_service \<Rightarrow> uuid \<Rightarrow> int \<Rightarrow> nat \<Rightarrow> string \<Rightarrow> ('w, code list) act" where
  "fetch_all S u limit 0 tok w = (Inl (Err ''more pages''), w)"
| "fetch_all S u limit (Suc n) tok w =
     (case codes_List S u tok limit w of
        (Inl e, w1) \<Rightarrow> (Inl e, w1)
      | (Inr p, w1) \<Rightarrow>
          if lr_NextCursor p = [] then (Inr (lr_Codes p), w1)
          else (case fetch_all S u limit n (lr_NextCursor p) w1 of
              (Inl e, w2) \<Rightarrow> (Inl e, w2)
            | (Inr cs, w2) \<Rightarrow> (Inr (lr_Codes p @ cs), w2)))"

lemma clamp_limit_bounds: "1 \<le> clamp_limit limit" "clamp_limit limit \<le> MaxListLimit"
  by (simp_all add: clamp_limit_def DefaultListLimit_def MaxListLimit_def Let_def)

locale codes_pages = codes_parts + uuid_laws "cs_uuid S"
begin

text \<open>
  Following the cursors yields the codes of the user from the start position on, each once and in
  order, if no query fails; a bound on the number of pages is the number of codes.
\<close>

lemma fetch_all_spec:
  assumes years: "\<forall>c \<in> set (mine w u). year4 (code_CreatedAt c)"
    and works: "\<And>cur limit w. inv w \<Longrightarrow> 0 \<le> limit \<Longrightarrow> \<exists>items w'. rp_List (cs_repo S) u cur limit w = (Inr items, w')"
  shows "inv w1 \<Longrightarrow> mine w1 = mine w \<Longrightarrow> starts_at (cs_uuid S) tok cur \<Longrightarrow>
    length (filter (before_cursor cur) (mine w u)) \<le> n \<Longrightarrow>
    \<exists>w'. fetch_all S u limit (Suc n) tok w1 = (Inr (filter (before_cursor cur) (mine w u)), w') \<and>
      inv w' \<and> codes w' = codes w1"
proof (induction n arbitrary: tok cur w1 rule: less_induct)
  case (less n)
  let ?l = "clamp_limit limit" and ?xs = "filter (before_cursor cur) (mine w u)"
  obtain r w2 where run: "codes_List S u tok limit w1 = (r, w2)" by (rule prod.exhaust)
  note spec = List_spec [OF less.prems(1) run]
  have l: "0 < ?l" "0 \<le> ?l + 1" using clamp_limit_bounds(1) [of limit] by simp_all
  have "\<exists>p. r = Inr p"
    using run works [OF less.prems(1) l(2), of cur] less.prems(3)
    by (auto simp: codes_List_def Let_def starts_at_def)
  then obtain p where p: "r = Inr p" by blast
  then have page: "p = list_page (cs_uuid S) ?l (take (nat (?l + 1)) ?xs)"
    using spec less.prems(2,3) by (auto simp: starts_at_def)
  have w2: "inv w2" "mine w2 = mine w" "codes w2 = codes w1" using spec less.prems(2) by (simp_all add: unchanged_def)
  have sorted: "sorted_wrt (\<lambda>a b. code_cursor b < code_cursor a) (mine w u)"
    using mine [OF less.prems(1), of u] less.prems(2) by simp
  note cut = list_page_spec [OF sorted years l(1) refl page]
  show ?case
  proof (cases "length ?xs \<le> nat ?l")
    case True
    with cut run p w2 show ?thesis by simp
  next
    case False
    with cut obtain k where k: "lr_NextCursor p \<noteq> []" "decodeCursor (cs_uuid S) (lr_NextCursor p) = Inr k"
      "filter (before_cursor (Some k)) (mine w u) = drop (nat ?l) ?xs" by auto
    have n: "0 < n" "length (drop (nat ?l) ?xs) \<le> n - 1" using less.prems(4) False l(1) by auto
    have "starts_at (cs_uuid S) (lr_NextCursor p) (Some k)" using k by (simp add: starts_at_token)
    from less.IH [OF _ w2(1,2) this] n k(3) obtain w' where rest:
      "fetch_all S u limit (Suc (n - 1)) (lr_NextCursor p) w2 = (Inr (drop (nat ?l) ?xs), w')" "inv w'"
      "codes w' = codes w2"
      by (metis diff_less zero_less_one)
    have "Suc (n - 1) = n" using n(1) by simp
    with rest have "fetch_all S u limit n (lr_NextCursor p) w2 = (Inr (drop (nat ?l) ?xs), w')" by simp
    then have "fetch_all S u limit (Suc n) tok w1 = (Inr (take (nat ?l) ?xs @ drop (nat ?l) ?xs), w')"
      using run p k(1) cut by simp
    then show ?thesis using rest w2(3) by simp
  qed
qed

end

end
