(* ===== verification/CodesHandler.thy ===== *)
theory CodesHandler
  imports Handlers CodesLaws
begin

text \<open>
  \<open>internal/http/handlers/codes.go\<close>: the endpoints of codes, on the interface of the codes service.
\<close>

subsection \<open>The handler\<close>

record 'w codes_api =
  api_Create :: "create_input \<Rightarrow> ('w, code) act"
  api_Get :: "uuid \<Rightarrow> uuid \<Rightarrow> ('w, code) act"
  api_List :: "uuid \<Rightarrow> string \<Rightarrow> int \<Rightarrow> ('w, list_result) act"
  api_Update :: "uuid \<Rightarrow> uuid \<Rightarrow> update_input \<Rightarrow> ('w, code) act"
  api_Delete :: "uuid \<Rightarrow> uuid \<Rightarrow> 'w eact"
  api_Analytics :: "uuid \<Rightarrow> uuid \<Rightarrow> ('w, analytics) act"

record 'w codes_handler =
  ch_svc :: "'w codes_api"
  ch_validate :: validator
  ch_baseURL :: string
  ch_uuid :: uuid_lib

definition NewCodesHandler :: "'w codes_api \<Rightarrow> string \<Rightarrow> validator \<Rightarrow> uuid_lib \<Rightarrow> 'w codes_handler" where
  "NewCodesHandler svc baseURL V U =
     \<lparr>ch_svc = svc, ch_validate = V, ch_baseURL = trim_right_byte baseURL (CHR ''/''), ch_uuid = U\<rparr>"

subsection \<open>Requests\<close>

record create_request =
  cq_Type :: string
  cq_Payload :: string
  cq_Label :: "string option"
  cq_IsDynamic :: bool

definition decode_create :: "request \<Rightarrow> create_request option" where
  "decode_create r =
     Option.bind (body_members [''type'', ''payload'', ''label'', ''is_dynamic''] r) (\<lambda>ms.
       case (string_field ''type'' ms [], string_ptr_field ''label'' ms None, bool_field ''is_dynamic'' ms False) of
         (Some t, Some l, Some d) \<Rightarrow>
           Some \<lparr>cq_Type = t, cq_Payload = raw_field ''payload'' ms [], cq_Label = l, cq_IsDynamic = d\<rparr>
       | _ \<Rightarrow> None)"

definition create_tags :: "create_request \<Rightarrow> (tag list \<times> field) list" where
  "create_tags q =
     [([Required, url_types], FString (cq_Type q)), ([Required], FRaw (cq_Payload q)),
      ([Omitempty, MaxLen 100], FStringPtr (cq_Label q))]"

record update_request =
  pq_Label :: "string option"
  pq_Destination :: "string option"

definition decode_update :: "request \<Rightarrow> update_request option" where
  "decode_update r =
     Option.bind (body_members [''label'', ''destination''] r) (\<lambda>ms.
       opt2 (\<lambda>l d. \<lparr>pq_Label = l, pq_Destination = d\<rparr>)
         (string_ptr_field ''label'' ms None) (string_ptr_field ''destination'' ms None))"

definition update_tags :: "update_request \<Rightarrow> (tag list \<times> field) list" where
  "update_tags q =
     [([Omitempty, MaxLen 100], FStringPtr (pq_Label q)), ([Omitempty, MinLen 1], FStringPtr (pq_Destination q))]"

subsection \<open>Responses\<close>

definition code_json :: "uuid_lib \<Rightarrow> code \<Rightarrow> jout" where
  "code_json U c =
     OObj [(''id'', OStr (uuid_String U (code_ID c))), (''type'', OStr (code_Type c)),
       (''payload'', ORaw (code_Payload c)), (''label'', string_ptr_json (code_Label c)),
       (''is_dynamic'', OBool (code_IsDynamic c)), (''created_at'', time_json (code_CreatedAt c)),
       (''updated_at'', time_json (code_UpdatedAt c))]"

definition redirect_url :: "'w codes_handler \<Rightarrow> string \<Rightarrow> string" where
  "redirect_url H slug = ch_baseURL H @ ''/r/'' @ slug"

definition dynamic_json :: "'w codes_handler \<Rightarrow> dynamic_code \<Rightarrow> jout" where
  "dynamic_json H d =
     OObj [(''slug'', OStr (dyn_Slug d)), (''destination'', OStr (dyn_Destination d)),
       (''redirect_url'', OStr (redirect_url H (dyn_Slug d)))]"

definition toEnvelope :: "'w codes_handler \<Rightarrow> code \<Rightarrow> jout" where
  "toEnvelope H c =
     OObj ([(''code'', code_json (ch_uuid H) c)] @
       (case code_Dynamic c of None \<Rightarrow> [] | Some d \<Rightarrow> [(''dynamic'', dynamic_json H d)]))"

definition list_json :: "'w codes_handler \<Rightarrow> list_result \<Rightarrow> jout" where
  "list_json H l =
     OObj [(''codes'', OArr (map (toEnvelope H) (lr_Codes l))),
       (''next_cursor'', string_ptr_json (if lr_NextCursor l \<noteq> [] then Some (lr_NextCursor l) else None))]"

definition toAnalyticsEnvelope :: "uuid_lib \<Rightarrow> analytics \<Rightarrow> jout" where
  "toAnalyticsEnvelope U a =
     OObj [(''analytics'', OObj [(''code_id'', OStr (uuid_String U (an_CodeID a))),
       (''total_scans'', OInt (int (an_TotalScans a))), (''unique_visitors'', OInt (int (an_UniqueVisitors a))),
       (''daily'', OArr (map (\<lambda>d. OObj [(''date'', OStr (dc_Date d)), (''count'', OInt (int (dc_Count d)))]) (an_Daily a))),
       (''top_user_agents'', OArr (map (\<lambda>u. OObj [(''user_agent'', OStr (uac_UserAgent u)),
          (''count'', OInt (int (uac_Count u)))]) (an_TopUserAgents a)))])]"

definition writeServiceError :: "err \<Rightarrow> rw \<Rightarrow> rw" where
  "writeServiceError e =
     (if errors_is e CodesErrNotFound then response_Error 404 ''not_found'' ''code not found''
      else if errors_is e ErrDynamicUnsupported
      then response_Error 400 ''dynamic_unsupported'' ''dynamic codes are only supported for url type''
      else if errors_is e ErrDynamicURLRequired
      then response_Error 400 ''validation_error'' ''a dynamic url code requires payload.url''
      else if errors_is e ErrNotDynamic
      then response_Error 400 ''not_dynamic'' ''destination can only be set on a dynamic code''
      else if errors_is e ErrUnsafeDestination
      then response_Error 400 ''unsafe_destination'' ''destination was flagged as unsafe''
      else if errors_is e ErrInvalidCursor
      then response_Error 400 ''validation_error'' ''invalid pagination cursor''
      else if errors_is e ErrSlugGenerationFailed
      then response_Error 500 ''slug_generation_failed'' ''could not generate a unique slug''
      else response_Error 500 ''internal_error'' ''something went wrong'')"

subsection \<open>Endpoints\<close>

text \<open>The two checks that the endpoints begin with: an authenticated user, and an id in the path.\<close>

definition with_user :: "request \<Rightarrow> rw \<times> 'w \<Rightarrow> (uuid \<Rightarrow> ending \<times> rw \<times> 'w) \<Rightarrow> ending \<times> rw \<times> 'w" where
  "with_user r Ww k =
     (case UserIDFromContext (rq_Context r) of
        None \<Rightarrow> (Returned, unauthenticated (fst Ww), snd Ww)
      | Some u \<Rightarrow> k u)"

definition with_id :: "'w codes_handler \<Rightarrow> request \<Rightarrow> rw \<times> 'w \<Rightarrow> (uuid \<Rightarrow> ending \<times> rw \<times> 'w) \<Rightarrow> ending \<times> rw \<times> 'w" where
  "with_id H r Ww k =
     (case uuid_Parse (ch_uuid H) (URLParam r ''id'') of
        Inl _ \<Rightarrow> (Returned, response_Error 404 ''not_found'' ''code not found'' (fst Ww), snd Ww)
      | Inr i \<Rightarrow> k i)"

text \<open>The end of an endpoint: the error of the service, or its result as JSON.\<close>

definition reply :: "int \<Rightarrow> ('a \<Rightarrow> jout) \<Rightarrow> rw \<Rightarrow> (err + 'a) \<times> 'w \<Rightarrow> ending \<times> rw \<times> 'w" where
  "reply status json W res =
     (case res of
        (Inl e, w1) \<Rightarrow> (Returned, writeServiceError e W, w1)
      | (Inr x, w1) \<Rightarrow> (Returned, response_JSON status (Some (json x)) W, w1))"

definition CodesHandler_Create :: "'w codes_handler \<Rightarrow> 'w handler" where
  "CodesHandler_Create H r Ww = with_user r Ww (\<lambda>userID.
     case Ww of (W, w) \<Rightarrow>
       (case decode_create r of
          None \<Rightarrow> (Returned, validation_error ''invalid request body'' W, w)
        | Some q \<Rightarrow>
            if \<not> ch_validate H (create_tags q) then
              (Returned, validation_error
                 ''type must be one of url/wifi/vcard/email/text/sms, payload is required, label at most 100 chars'' W, w)
            else if \<not> IsJSONObject (cq_Payload q) then
              (Returned, validation_error ''payload must be a JSON object'' W, w)
            else reply 201 (toEnvelope H) W
              (api_Create (ch_svc H)
                 \<lparr>ci_UserID = userID, ci_Type = cq_Type q, ci_Payload = cq_Payload q, ci_Label = cq_Label q,
                  ci_IsDynamic = cq_IsDynamic q\<rparr> w)))"

definition query_limit :: "request \<Rightarrow> int option" where
  "query_limit r =
     (let q = query_Get (rq_Query r) ''limit'' in
      if q \<noteq> [] then (case atoi q of None \<Rightarrow> None | Some n \<Rightarrow> if n < 1 then None else Some n) else Some 0)"

definition CodesHandler_List :: "'w codes_handler \<Rightarrow> 'w handler" where
  "CodesHandler_List H r Ww = with_user r Ww (\<lambda>userID.
     case Ww of (W, w) \<Rightarrow>
       (case query_limit r of
          None \<Rightarrow> (Returned, validation_error ''limit must be a positive integer'' W, w)
        | Some limit \<Rightarrow>
            reply 200 (list_json H) W
              (api_List (ch_svc H) userID (query_Get (rq_Query r) ''cursor'') limit w)))"

definition CodesHandler_Get :: "'w codes_handler \<Rightarrow> 'w handler" where
  "CodesHandler_Get H r Ww = with_user r Ww (\<lambda>userID. with_id H r Ww (\<lambda>i.
     reply 200 (toEnvelope H) (fst Ww) (api_Get (ch_svc H) userID i (snd Ww))))"

definition CodesHandler_Update :: "'w codes_handler \<Rightarrow> 'w handler" where
  "CodesHandler_Update H r Ww = with_user r Ww (\<lambda>userID. with_id H r Ww (\<lambda>i.
     case Ww of (W, w) \<Rightarrow>
       (case decode_update r of
          None \<Rightarrow> (Returned, validation_error ''invalid request body'' W, w)
        | Some q \<Rightarrow>
            if \<not> ch_validate H (update_tags q) then
              (Returned, validation_error ''label at most 100 chars, destination must be non-empty'' W, w)
            else reply 200 (toEnvelope H) W
              (api_Update (ch_svc H) userID i \<lparr>ui_Label = pq_Label q, ui_Destination = pq_Destination q\<rparr> w))))"

definition CodesHandler_Delete :: "'w codes_handler \<Rightarrow> 'w handler" where
  "CodesHandler_Delete H r Ww = with_user r Ww (\<lambda>userID. with_id H r Ww (\<lambda>i.
     case api_Delete (ch_svc H) userID i (snd Ww) of
       (Some e, w1) \<Rightarrow> (Returned, writeServiceError e (fst Ww), w1)
     | (None, w1) \<Rightarrow> (Returned, response_JSON 204 None (fst Ww), w1)))"

definition CodesHandler_Analytics :: "'w codes_handler \<Rightarrow> 'w handler" where
  "CodesHandler_Analytics H r Ww = with_user r Ww (\<lambda>userID. with_id H r Ww (\<lambda>i.
     reply 200 (toAnalyticsEnvelope (ch_uuid H)) (fst Ww) (api_Analytics (ch_svc H) userID i (snd Ww))))"

subsection \<open>What the endpoints answer\<close>

text \<open>The status and code of each error, as a table.\<close>

definition service_error :: "err \<Rightarrow> int \<times> string" where
  "service_error e =
     (if errors_is e CodesErrNotFound then (404, ''not_found'')
      else if errors_is e ErrDynamicUnsupported then (400, ''dynamic_unsupported'')
      else if errors_is e ErrDynamicURLRequired then (400, ''validation_error'')
      else if errors_is e ErrNotDynamic then (400, ''not_dynamic'')
      else if errors_is e ErrUnsafeDestination then (400, ''unsafe_destination'')
      else if errors_is e ErrInvalidCursor then (400, ''validation_error'')
      else if errors_is e ErrSlugGenerationFailed then (500, ''slug_generation_failed'')
      else (500, ''internal_error''))"

lemma fails_if:
  "(b \<Longrightarrow> fails (f W) (fst p) (snd p)) \<Longrightarrow> (\<not> b \<Longrightarrow> fails (g W) (fst q) (snd q)) \<Longrightarrow>
   fails ((if b then f else g) W) (fst (if b then p else q)) (snd (if b then p else q))"
  by simp

lemma writeServiceError_fails:
  assumes "fresh W" shows "fails (writeServiceError e W) (fst (service_error e)) (snd (service_error e))"
proof -
  have f: "fails (response_Error s c m W) s c" if "s \<in> {400, 404, 500}" "is_ascii c" "is_ascii m" for s c m
    using that response_Error_fails [OF assms] by (auto simp: body_allowed_def)
  show ?thesis unfolding writeServiceError_def service_error_def
    by (intro fails_if; unfold fst_conv snd_conv; rule f; simp add: is_ascii_def byte_def)
qed

lemma baseURL_no_slash: "\<not> has_suffix (ch_baseURL (NewCodesHandler svc base V U)) [CHR ''/'']"
  by (simp add: NewCodesHandler_def trim_right_byte_no_suffix)

text \<open>Without a user in the context, or with a malformed id, the service is not asked.\<close>

lemma with_user_none:
  assumes "UserIDFromContext (rq_Context r) = None" "fresh W"
  shows "\<exists>W'. with_user r (W, w) k = (Returned, W', w) \<and> fails W' 401 ''unauthorized''"
proof -
  have "fails (unauthenticated W) 401 ''unauthorized''"
    unfolding unauthenticated_def
    by (rule response_Error_fails [OF assms(2)]) (simp_all add: is_ascii_def byte_def body_allowed_def)
  with assms(1) show ?thesis by (simp add: with_user_def)
qed

lemma with_user_some: "UserIDFromContext (rq_Context r) = Some u \<Longrightarrow> with_user r Ww k = k u"
  by (simp add: with_user_def)

lemma with_id_malformed:
  assumes "uuid_Parse (ch_uuid H) (URLParam r ''id'') = Inl e" "fresh W"
  shows "\<exists>W'. with_id H r (W, w) k = (Returned, W', w) \<and> fails W' 404 ''not_found''"
proof -
  have "fails (response_Error 404 ''not_found'' ''code not found'' W) 404 ''not_found''"
    by (rule response_Error_fails [OF assms(2)]) (simp_all add: is_ascii_def byte_def body_allowed_def)
  with assms(1) show ?thesis by (simp add: with_id_def)
qed

lemma with_id_parsed: "uuid_Parse (ch_uuid H) (URLParam r ''id'') = Inr i \<Longrightarrow> with_id H r Ww k = k i"
  by (simp add: with_id_def)

end
