(* ===== verification/Server.thy ===== *)
theory Server
  imports CodesHandler
begin

text \<open>
  \<open>internal/http/server.go\<close>: the table of routes and middlewares, and the server around it. The
  router \<open>github.com/go-chi/chi\<close> and the middleware \<open>github.com/go-chi/cors\<close> are libraries: the router
  is a parameter that serves such a table, with the documented dispatch as the locale \<open>chi_laws\<close>;
  \<open>cors\<close> is one that handles a request before or instead of the next handler.
\<close>

subsection \<open>Routers\<close>

type_synonym 'w middleware = "'w handler \<Rightarrow> 'w handler"

text \<open>
  What a router is told: a handler for a method and a pattern; a router mounted at a prefix
  (\<open>Route\<close>), with the middlewares it uses; a group of inline middlewares (\<open>Group\<close>).
\<close>

datatype 'h node =
    Endpoint string string 'h
  | Mount string "('h \<Rightarrow> 'h) list" "'h node list"
  | Group "('h \<Rightarrow> 'h) list" "'h node list"

text \<open>\<open>chi_serve mws nodes\<close> is the handler of a router that uses the middlewares \<open>mws\<close>.\<close>

type_synonym 'w chi = "'w middleware list \<Rightarrow> 'w handler node list \<Rightarrow> 'w handler"

fun chain :: "('h \<Rightarrow> 'h) list \<Rightarrow> 'h \<Rightarrow> 'h" where
  "chain [] h = h"
| "chain (m # ms) h = m (chain ms h)"

text \<open>The endpoints of a router: method, full pattern, middlewares from the outside in, handler.\<close>

record 'h endpoint =
  ep_Method :: string
  ep_Pattern :: string
  ep_Mws :: "('h \<Rightarrow> 'h) list"
  ep_Handler :: 'h

fun endpoints :: "string \<Rightarrow> ('h \<Rightarrow> 'h) list \<Rightarrow> 'h node \<Rightarrow> 'h endpoint list" where
  "endpoints prefix ms (Endpoint m p h) = [\<lparr>ep_Method = m, ep_Pattern = prefix @ p, ep_Mws = ms, ep_Handler = h\<rparr>]"
| "endpoints prefix ms (Mount p ns nodes) = concat (map (endpoints (prefix @ p) (ms @ ns)) nodes)"
| "endpoints prefix ms (Group ns nodes) = concat (map (endpoints prefix (ms @ ns)) nodes)"

definition all_endpoints :: "'h node list \<Rightarrow> 'h endpoint list" where
  "all_endpoints nodes = concat (map (endpoints [] []) nodes)"

text \<open>
  The middlewares of the mounted routers that a path leads into, which run also where no endpoint
  matches.
\<close>

definition under :: "string \<Rightarrow> string \<Rightarrow> bool" where
  "under path prefix \<longleftrightarrow> path = prefix \<or> has_prefix path (prefix @ ''/'')"

fun mounted :: "string \<Rightarrow> string \<Rightarrow> 'h node \<Rightarrow> ('h \<Rightarrow> 'h) list" where
  "mounted path prefix (Endpoint m p h) = []"
| "mounted path prefix (Mount p ns nodes) =
     (if under path (prefix @ p) then ns @ concat (map (mounted path (prefix @ p)) nodes) else [])"
| "mounted path prefix (Group ns nodes) = concat (map (mounted path prefix) nodes)"

definition all_mounted :: "string \<Rightarrow> 'h node list \<Rightarrow> ('h \<Rightarrow> 'h) list" where
  "all_mounted path nodes = concat (map (mounted path []) nodes)"

text \<open>
  A pattern matches a path segment by segment; \<open>{name}\<close> matches any segment and binds it. Whether a
  parameter may be empty is the router's affair.
\<close>

definition param_name :: "string \<Rightarrow> string option" where
  "param_name seg = (if has_prefix seg [CHR 0x7B] \<and> has_suffix seg [CHR 0x7D] then Some (butlast (tl seg)) else None)"

fun match_segments :: "string list \<Rightarrow> string list \<Rightarrow> (string \<times> string) list option" where
  "match_segments [] [] = Some []"
| "match_segments (p # ps) (s # ss) =
     (case param_name p of
        Some x \<Rightarrow> map_option ((#) (x, s)) (match_segments ps ss)
      | None \<Rightarrow> if p = s then match_segments ps ss else None)"
| "match_segments _ _ = None"

definition match_pattern :: "string \<Rightarrow> string \<Rightarrow> (string \<times> string) list option" where
  "match_pattern pattern path = match_segments (split_on (CHR ''/'') pattern) (split_on (CHR ''/'') path)"

text \<open>Routing looks at the escaped path where the URL has one.\<close>

definition routing_path :: "request \<Rightarrow> string" where
  "routing_path r = (if rq_RawPath r \<noteq> [] then rq_RawPath r else rq_Path r)"

text \<open>
  A request is dispatched to an endpoint of its method that matches its path, with the parameters
  bound, through the middlewares around it; a match without empty parameters is not missed.
  Otherwise the router answers itself (404 or 405), behind the middlewares of the routers that the
  path leads into.
\<close>

locale chi_laws =
  fixes serve :: "'w chi"
  assumes dispatch: "\<exists>answer.
      (\<exists>e \<in> set (all_endpoints nodes). \<exists>ps. ep_Method e = rq_Method r \<and>
         match_pattern (ep_Pattern e) (routing_path r) = Some ps \<and>
         (\<forall>Ww. serve mws nodes r Ww = chain (mws @ ep_Mws e) (ep_Handler e) (r\<lparr>rq_Params := map_of ps\<rparr>) Ww)) \<or>
      (\<not> (\<exists>e \<in> set (all_endpoints nodes). \<exists>ps. ep_Method e = rq_Method r \<and>
         match_pattern (ep_Pattern e) (routing_path r) = Some ps \<and> list_all (\<lambda>p. snd p \<noteq> []) ps) \<and>
       (\<forall>Ww. serve mws nodes r Ww =
          chain (mws @ all_mounted (routing_path r) nodes) (\<lambda>r Ww. (Returned, answer (fst Ww), snd Ww)) r Ww))"

text \<open>
  \<open>cors_Handler\<close>: with the options and the request, what it does to the response, and whether the
  next handler is called. It adds headers only, and answers itself only a preflight request.
\<close>

record cors_options =
  co_AllowedOrigins :: "string list"
  co_AllowedMethods :: "string list"
  co_AllowedHeaders :: "string list"
  co_ExposedHeaders :: "string list"
  co_AllowCredentials :: bool
  co_MaxAge :: int

type_synonym cors = "cors_options \<Rightarrow> request \<Rightarrow> rw \<Rightarrow> rw \<times> bool"

definition cors_Handler :: "cors \<Rightarrow> cors_options \<Rightarrow> 'w middleware" where
  "cors_Handler C opts nxt r Ww =
     (case C opts r (fst Ww) of
        (W1, True) \<Rightarrow> nxt r (W1, snd Ww)
      | (W1, False) \<Rightarrow> (Returned, W1, snd Ww))"

locale cors_laws =
  fixes C :: cors
  assumes passes: "C opts r W = (W1, True) \<Longrightarrow> fresh W \<Longrightarrow> fresh W1"
    and answers: "C opts r W = (W1, False) \<Longrightarrow> rq_Method r = ''OPTIONS''"

subsection \<open>The routes\<close>

record 'w handlers =
  hs_Health :: "'w pinger \<times> 'w pinger"
  hs_Auth :: "'w auth_handler"
  hs_Codes :: "'w codes_handler"
  hs_Redirect :: "'w redirect_handler"
  hs_Safety :: "validator \<times> (string \<Rightarrow> ('w, safety_result) act)"
  hs_QR :: "validator \<times> qrcode"

definition cors_config :: "string list \<Rightarrow> cors_options" where
  "cors_config corsAllowedOrigins =
     \<lparr>co_AllowedOrigins = corsAllowedOrigins,
      co_AllowedMethods = [''GET'', ''POST'', ''PATCH'', ''PUT'', ''DELETE'', ''OPTIONS''],
      co_AllowedHeaders = [''Authorization'', ''Content-Type'', ''Accept'', ''X-Requested-With''],
      co_ExposedHeaders = [''X-RateLimit-Limit'', ''X-RateLimit-Remaining'', ''X-RateLimit-Reset'', ''Retry-After''],
      co_AllowCredentials = False, co_MaxAge = 86400\<rparr>"

definition protected_routes :: "'w handlers \<Rightarrow> 'w handler node list" where
  "protected_routes h =
     [Endpoint ''POST'' ''/codes'' (CodesHandler_Create (hs_Codes h)),
      Endpoint ''GET'' ''/codes'' (CodesHandler_List (hs_Codes h)),
      Endpoint ''GET'' ''/codes/{id}'' (CodesHandler_Get (hs_Codes h)),
      Endpoint ''PATCH'' ''/codes/{id}'' (CodesHandler_Update (hs_Codes h)),
      Endpoint ''DELETE'' ''/codes/{id}'' (CodesHandler_Delete (hs_Codes h)),
      Endpoint ''GET'' ''/codes/{id}/analytics'' (CodesHandler_Analytics (hs_Codes h)),
      Endpoint ''POST'' ''/scan/check'' (SafetyHandler_Check (fst (hs_Safety h)) (snd (hs_Safety h))),
      Endpoint ''POST'' ''/qr'' (QRHandler_Generate (fst (hs_QR h)) (snd (hs_QR h)))]"

definition routes ::
  "token_manager \<Rightarrow> ('w \<Rightarrow> instant) \<Rightarrow> 'w handlers \<Rightarrow> 'w rate_limiter option \<Rightarrow> 'w handler node list" where
  "routes tm now h rateLimiter =
     [Endpoint ''GET'' ''/health'' (Health (fst (hs_Health h)) (snd (hs_Health h))),
      Endpoint ''GET'' ''/r/{slug}'' (Redirect (hs_Redirect h)),
      Mount ''/api/v1'' (case rateLimiter of None \<Rightarrow> [] | Some L \<Rightarrow> [RateLimit_mw L])
        [Mount ''/auth'' []
           [Endpoint ''POST'' ''/guest'' (AuthHandler_Guest (hs_Auth h)),
            Group [Auth tm now] [Endpoint ''POST'' ''/upgrade'' (AuthHandler_Upgrade (hs_Auth h))]],
         Group [Auth tm now] (protected_routes h)]]"

record 'w server =
  sv_Addr :: string
  sv_Handler :: "'w handler"
  sv_ReadHeaderTimeout :: duration

definition NewServer ::
  "'w chi \<Rightarrow> cors \<Rightarrow> ('w \<Rightarrow> instant) \<Rightarrow> string \<Rightarrow> (log_entry \<Rightarrow> 'w \<Rightarrow> 'w) \<Rightarrow> token_manager \<Rightarrow> 'w handlers \<Rightarrow>
   'w rate_limiter option \<Rightarrow> string list \<Rightarrow> 'w server" where
  "NewServer serve C now addr log tm h rateLimiter corsAllowedOrigins =
     \<lparr>sv_Addr = addr,
      sv_Handler = serve [Recover, Logger log, cors_Handler C (cors_config corsAllowedOrigins)]
        (routes tm now h rateLimiter),
      sv_ReadHeaderTimeout = 10 * 10 ^ 9\<rparr>"

text \<open>
  \<open>Start\<close> and \<open>Shutdown\<close> pass on what \<open>ListenAndServe\<close> and \<open>Shutdown\<close> of \<open>net/http\<close> return; a server
  that was closed has not failed.
\<close>

definition server_Start :: "err option \<Rightarrow> err option" where
  "server_Start served =
     (case served of
        None \<Rightarrow> None
      | Some e \<Rightarrow> if errors_is e ErrServerClosed then None else Some (Wrap ''http server'' e))"

definition server_Shutdown :: "err option \<Rightarrow> err option" where
  "server_Shutdown closed = map_option (Wrap ''shutting down http server'') closed"

subsection \<open>A sample router\<close>

text \<open>A router that takes the first endpoint that matches, and answers 404 otherwise.\<close>

definition sample_chi :: "'w chi" where
  "sample_chi mws nodes r Ww =
     (case List.map_filter (\<lambda>e. if ep_Method e = rq_Method r then
          map_option (Pair e) (match_pattern (ep_Pattern e) (routing_path r)) else None) (all_endpoints nodes) of
        (e, ps) # _ \<Rightarrow> chain (mws @ ep_Mws e) (ep_Handler e) (r\<lparr>rq_Params := map_of ps\<rparr>) Ww
      | [] \<Rightarrow> chain (mws @ all_mounted (routing_path r) nodes)
          (\<lambda>r Ww. (Returned, write_body ''404 page not found'' (WriteHeader 404 (fst Ww)), snd Ww)) r Ww)"

lemma map_filter_member: "x \<in> set (List.map_filter f xs) \<longleftrightarrow> (\<exists>y \<in> set xs. f y = Some x)"
  by (force simp: List.map_filter_def)

interpretation sample_chi: chi_laws sample_chi
proof
  fix nodes :: "'a handler node list" and r mws
  let ?found = "List.map_filter (\<lambda>e. if ep_Method e = rq_Method r then
          map_option (Pair e) (match_pattern (ep_Pattern e) (routing_path r)) else None) (all_endpoints nodes)"
  show "\<exists>answer.
      (\<exists>e \<in> set (all_endpoints nodes). \<exists>ps. ep_Method e = rq_Method r \<and>
         match_pattern (ep_Pattern e) (routing_path r) = Some ps \<and>
         (\<forall>Ww. sample_chi mws nodes r Ww = chain (mws @ ep_Mws e) (ep_Handler e) (r\<lparr>rq_Params := map_of ps\<rparr>) Ww)) \<or>
      (\<not> (\<exists>e \<in> set (all_endpoints nodes). \<exists>ps. ep_Method e = rq_Method r \<and>
         match_pattern (ep_Pattern e) (routing_path r) = Some ps \<and> list_all (\<lambda>p. snd p \<noteq> []) ps) \<and>
       (\<forall>Ww. sample_chi mws nodes r Ww =
          chain (mws @ all_mounted (routing_path r) nodes) (\<lambda>r Ww. (Returned, answer (fst Ww), snd Ww)) r Ww))"
  proof (cases ?found)
    case Nil
    then have "\<not> (\<exists>x. x \<in> set ?found)" by simp
    then have "\<not> (\<exists>e \<in> set (all_endpoints nodes). \<exists>ps. ep_Method e = rq_Method r \<and>
        match_pattern (ep_Pattern e) (routing_path r) = Some ps \<and> list_all (\<lambda>p. snd p \<noteq> []) ps)"
      unfolding map_filter_member by force
    with Nil show ?thesis
      by (intro exI [of _ "\<lambda>W. write_body ''404 page not found'' (WriteHeader 404 W)"]) (simp add: sample_chi_def)
  next
    case (Cons x xs)
    obtain e ps where x: "x = (e, ps)" by (rule prod.exhaust)
    with Cons have "(e, ps) \<in> set ?found" by simp
    then have "e \<in> set (all_endpoints nodes)" "ep_Method e = rq_Method r"
      "match_pattern (ep_Pattern e) (routing_path r) = Some ps"
      unfolding map_filter_member by (auto split: if_splits)
    moreover have "\<forall>Ww. sample_chi mws nodes r Ww = chain (mws @ ep_Mws e) (ep_Handler e) (r\<lparr>rq_Params := map_of ps\<rparr>) Ww"
      using Cons x by (simp add: sample_chi_def)
    ultimately show ?thesis by blast
  qed
qed

text \<open>One that adds no header and answers preflight requests.\<close>

definition sample_cors :: cors where
  "sample_cors opts r W =
     (if rq_Method r = ''OPTIONS'' \<and> header_Get (rq_Header r) ''Access-Control-Request-Method'' \<noteq> []
      then (WriteHeader 200 W, False) else (W, True))"

interpretation sample_cors: cors_laws sample_cors
  by unfold_locales (auto simp: sample_cors_def split: if_splits)

end
