(* ===== verification/UsersLaws.thy ===== *)
theory UsersLaws
  imports AuthService CodesRepository
begin

text \<open>
  What the methods of \<open>internal/users/repository.go\<close> do to the map from ids to users, on every outcome
  of their statement: the laws that the auth service asks of its repository.
\<close>

definition user_view :: "db \<Rightarrow> uuid \<Rightarrow> user option" where
  "user_view d = lookup user_ID (t_users d)"

lemma user_view_tick [simp]: "user_view (d\<lparr>pg_tick := n\<rparr>) = user_view d" "user_view (next_stmt d) = user_view d"
  by (simp_all add: user_view_def)

lemma user_view_Some: "db_ok E d \<Longrightarrow> user_view d i = Some u \<longleftrightarrow> u \<in> set (t_users d) \<and> user_ID u = i"
  using lookup_Some_iff [OF users_ok_distinct [OF db_ok_users]] by (simp add: user_view_def)

lemma user_view_unique_email:
  "db_ok E d \<Longrightarrow> user_view d i = Some u \<Longrightarrow> user_view d j = Some v \<Longrightarrow>
   email_key E u = Some k \<Longrightarrow> email_key E v = Some k \<Longrightarrow> i = j"
  using users_okD [OF db_ok_users, of E d u v k] by (auto simp: user_view_Some)

lemma email_of_key: "email_of (pg_citext E) = email_key E"
  by (auto simp: email_of_def email_key_def fun_eq_iff)

subsection \<open>Inserting\<close>

lemma insert_user_cases:
  assumes "insert_user_stmt E u n d = (r, d')"
  obtains (taken) "r = Inl (PgError unique_violation)" "d' = d"
  | (stored) i t where "r = Inr (i, t, t)"
      "created_user (user_view d) u (u\<lparr>user_ID := i, user_CreatedAt := t, user_UpdatedAt := t\<rparr>) (user_view d')"
proof (cases "list_ex (\<lambda>r. user_ID r = pg_uuid E n) (t_users d) \<or> email_taken E (user_Email u) (t_users d)")
  case True
  then show thesis using assms by (intro taken) (simp_all add: insert_user_stmt_def Let_def)
next
  case False
  let ?u = "u\<lparr>user_ID := pg_uuid E n, user_CreatedAt := pg_now E n, user_UpdatedAt := pg_now E n\<rparr>"
  have d': "r = Inr (pg_uuid E n, pg_now E n, pg_now E n)" "t_users d' = t_users d @ [?u]"
    using False assms by (auto simp: insert_user_stmt_def Let_def)
  from False have "user_ID ?u \<notin> user_ID ` set (t_users d)" by (auto simp: list_ex_iff)
  then have "user_view d (pg_uuid E n) = None" "user_view d' = (user_view d)(pg_uuid E n \<mapsto> ?u)"
    using lookup_snoc [of user_ID ?u "t_users d"] by (simp_all add: user_view_def d' lookup_None_iff)
  then have "created_user (user_view d) u ?u (user_view d')"
    unfolding created_user_def by (intro exI [of _ "pg_uuid E n"] exI [of _ "pg_now E n"]) simp
  then show thesis by (rule stored [OF d'(1)])
qed

lemma users_Create_spec:
  assumes "users_Create E u d = (r, d')"
  shows "case r of
      Inr u' \<Rightarrow> created_user (user_view d) u u' (user_view d')
    | Inl e \<Rightarrow> user_view d' = user_view d \<or> (\<exists>u'. created_user (user_view d) u u' (user_view d'))"
proof -
  let ?ts = "[user_Email u, user_PasswordHash u]"
  obtain q d1 where q: "run_stmt E (with_text ?ts (insert_user_stmt E u)) d = (q, d1)" by (rule prod.exhaust)
  have d1: "d' = d1" using assms q by (auto simp: users_Create_def split: sum.splits)
  show ?thesis
  proof (cases q)
    case (Inl e)
    have "user_view d1 = user_view d \<or> (\<exists>u'. created_user (user_view d) u u' (user_view d1))"
      using q [unfolded Inl]
    proof (cases rule: run_with_text_Inl)
      case ran
      obtain p d2 where p: "insert_user_stmt E u (pg_tick d) (next_stmt d) = (p, d2)" by (rule prod.exhaust)
      from ran(2) have "d1 = next_stmt d \<or> d1 = d2" by (cases rule: run_stmt_cases) (simp_all add: p)
      moreover from p have "user_view d2 = user_view d \<or> (\<exists>u'. created_user (user_view d) u u' (user_view d2))"
        by (cases rule: insert_user_cases) auto
      ultimately show ?thesis by auto
    qed simp
    then show ?thesis using assms q Inl d1 by (auto simp: users_Create_def)
  next
    case (Inr x)
    from run_with_text_Inr [OF q [unfolded Inr]]
    have "insert_user_stmt E u (pg_tick d) (next_stmt d) = (Inr x, d1)"
      by (simp add: run_stmt_Inr next_stmt_def)
    then show ?thesis
      by (cases rule: insert_user_cases) (use assms q Inr d1 in \<open>auto simp: users_Create_def\<close>)
  qed
qed

subsection \<open>Selecting\<close>

lemma select_user_spec:
  assumes E: "pg_ok E" and run: "run_stmt E (with_text ts (select_user_stmt P)) d = (q, d')"
  shows "user_view d' = user_view d \<and>
    (case q of Inr u \<Rightarrow> u \<in> set (t_users d) \<and> P u
     | Inl e \<Rightarrow> errors_is e PgErrNoRows \<longrightarrow> (\<forall>u \<in> set (t_users d). \<not> P u))"
proof -
  have "snd (with_text ts (select_user_stmt P) n d) = d" for n d
    by (rule with_text_read) (rule select_user_read)
  then have d': "user_view d' = user_view d"
    using run_stmt_read [where st = "with_text ts (select_user_stmt P)" and E = E and d = d] run by simp
  show ?thesis
  proof (cases q)
    case (Inl e)
    have "\<forall>u \<in> set (t_users d). \<not> P u" if "errors_is e PgErrNoRows"
    proof -
      from run [unfolded Inl] have "filter P (t_users d) = []"
      proof (cases rule: run_with_text_Inl)
        case ran
        from ran(2) show ?thesis
          by (cases rule: run_stmt_cases)
            (use that pg_okD [OF E] foreign_errD in \<open>auto simp: select_user_stmt_def split: list.splits\<close>)
      next
        case refused
        with that pg_okD [OF E] foreign_errD show ?thesis by auto
      qed
      then show ?thesis by (simp add: filter_empty_conv)
    qed
    with d' Inl show ?thesis by simp
  next
    case (Inr u)
    from run_with_text_Inr [OF run [unfolded Inr]]
    have "select_user_stmt P (pg_tick d) (next_stmt d) = (Inr u, d')" by (simp add: run_stmt_Inr next_stmt_def)
    then obtain us where "filter P (t_users d) = u # us" by (auto simp: select_user_stmt_def split: list.splits)
    then have "u \<in> set (filter P (t_users d))" by simp
    with d' Inr show ?thesis by simp
  qed
qed

lemma select_err_not_found: "pg_ok E \<Longrightarrow> errors_is (select_err m e) UsersErrNotFound \<Longrightarrow>
  (\<And>s. errors_is e s \<Longrightarrow> s = PgErrNoRows) \<Longrightarrow> errors_is e PgErrNoRows"
  by (auto simp: select_err_def split: if_splits)

lemma select_user_sentinel:
  assumes E: "pg_ok E" and run: "run_stmt E (with_text ts (select_user_stmt P)) d = (Inl e, d')" and "errors_is e s"
  shows "s = PgErrNoRows"
proof (rule ccontr)
  assume s: "s \<noteq> PgErrNoRows"
  have "\<not> errors_is e' s" if "fst (select_user_stmt P n d) = Inl e'" for n d e'
    using that s by (auto simp: select_user_stmt_def split: list.splits)
  from run_no_sentinel [OF E run this] assms(3) show False by simp
qed

lemma users_select_spec:
  assumes E: "pg_ok E" and run: "run_stmt E (with_text ts (select_user_stmt P)) d = (q, d1)"
    and r: "(r, d') = (case (q, d1) of (Inl e, d1) \<Rightarrow> (Inl (select_err m e), d1) | (Inr u, d1) \<Rightarrow> (Inr u, d1))"
  shows "user_view d' = user_view d \<and>
    (case r of Inr u \<Rightarrow> u \<in> set (t_users d) \<and> P u
     | Inl e \<Rightarrow> errors_is e UsersErrNotFound \<longrightarrow> (\<forall>u \<in> set (t_users d). \<not> P u))"
proof (cases q)
  case (Inl e)
  with r have "r = Inl (select_err m e)" "d' = d1" by simp_all
  with select_user_spec [OF E run] select_err_not_found [OF E, of m e] select_user_sentinel [OF E run [unfolded Inl]]
  show ?thesis using Inl by auto
next
  case (Inr u)
  with r select_user_spec [OF E run] show ?thesis by simp
qed

lemma users_GetByID_spec:
  assumes ok: "db_ok E d" and E: "pg_ok E" and run: "users_GetByID E i d = (r, d')"
  shows "user_view d' = user_view d \<and>
    (case r of Inr u \<Rightarrow> user_view d i = Some u | Inl e \<Rightarrow> errors_is e UsersErrNotFound \<longrightarrow> user_view d i = None)"
proof -
  let ?P = "\<lambda>u. user_ID u = i"
  obtain q d1 where q: "run_stmt E (with_text [] (select_user_stmt ?P)) d = (q, d1)" by (rule prod.exhaust)
  have "(r, d') = (case (q, d1) of (Inl e, d1) \<Rightarrow> (Inl (select_err ''selecting user by id'' e), d1) | (Inr u, d1) \<Rightarrow> (Inr u, d1))"
    using run q by (simp add: users_GetByID_def)
  from users_select_spec [OF E q this] show ?thesis
    using user_view_Some [OF ok, of i] by (cases r) (auto simp: user_view_def lookup_None_iff)
qed

lemma users_GetByEmail_spec:
  assumes ok: "db_ok E d" and E: "pg_ok E" and run: "users_GetByEmail E em d = (r, d')"
  shows "user_view d' = user_view d \<and>
    (case r of Inr u \<Rightarrow> user_view d (user_ID u) = Some u \<and> email_key E u = Some (pg_citext E em)
     | Inl e \<Rightarrow> errors_is e UsersErrNotFound \<longrightarrow>
         (\<forall>i u. user_view d i = Some u \<longrightarrow> email_key E u \<noteq> Some (pg_citext E em)))"
proof -
  let ?P = "\<lambda>u. email_key E u = Some (pg_citext E em)"
  obtain q d1 where q: "run_stmt E (with_text [Some em] (select_user_stmt ?P)) d = (q, d1)" by (rule prod.exhaust)
  have "(r, d') = (case (q, d1) of (Inl e, d1) \<Rightarrow> (Inl (select_err ''selecting user by email'' e), d1) | (Inr u, d1) \<Rightarrow> (Inr u, d1))"
    using run q by (simp add: users_GetByEmail_def)
  from users_select_spec [OF E q this] show ?thesis
    using user_view_Some [OF ok] by (cases r) auto
qed

subsection \<open>Updating\<close>

lemma update_user_cases:
  assumes "db_ok E d" "update_user_stmt E u n d = (r, d')"
  obtains (missing) "r = Inl (Sentinel PgErrNoRows)" "d' = d"
  | (taken) "r = Inl (PgError unique_violation)" "d' = d"
  | (stored) t where "r = Inr t" "saved_user (user_view d) u (u\<lparr>user_UpdatedAt := t\<rparr>) (user_view d')"
proof (cases "list_ex (\<lambda>r. user_ID r = user_ID u) (t_users d)")
  case False
  then show thesis using assms(2) by (intro missing) (simp_all add: update_user_stmt_def)
next
  case present: True
  show thesis
  proof (cases "email_taken E (user_Email u) (filter (\<lambda>r. user_ID r \<noteq> user_ID u) (t_users d))")
    case True
    then show thesis using assms(2) present by (intro taken) (simp_all add: update_user_stmt_def)
  next
    case False
    let ?g = "\<lambda>r. r\<lparr>user_Email := user_Email u, user_PasswordHash := user_PasswordHash u,
      user_IsGuest := user_IsGuest u, user_UpdatedAt := pg_now E n\<rparr>"
    let ?f = "\<lambda>r. if user_ID r = user_ID u then ?g r else r"
    have d': "r = Inr (pg_now E n)" "t_users d' = map ?f (t_users d)"
      using False present assms(2) by (auto simp: update_user_stmt_def)
    from present obtain old where mem: "old \<in> set (t_users d)" and id: "user_ID old = user_ID u"
      unfolding list_ex_iff by (elim bexE)
    then have old: "user_view d (user_ID u) = Some old" by (simp add: user_view_Some [OF assms(1)])
    have view: "user_view d' j = map_option ?f (user_view d j)" for j
      unfolding user_view_def d' by (rule lookup_map) simp
    have "user_view d' = (user_view d)(user_ID u \<mapsto> ?g old)"
    proof
      fix j
      show "user_view d' j = ((user_view d)(user_ID u \<mapsto> ?g old)) j"
      proof (cases "j = user_ID u")
        case True
        with old id show ?thesis by (simp add: view)
      next
        case False
        then have "user_ID r \<noteq> user_ID u" if "user_view d j = Some r" for r
          using that by (simp add: user_view_Some [OF assms(1)])
        with False show ?thesis by (cases "user_view d j") (simp_all add: view)
      qed
    qed
    moreover have "?g old = u\<lparr>user_UpdatedAt := pg_now E n\<rparr>\<lparr>user_CreatedAt := user_CreatedAt old\<rparr>"
      using id by simp
    ultimately have "saved_user (user_view d) u (u\<lparr>user_UpdatedAt := pg_now E n\<rparr>) (user_view d')"
      unfolding saved_user_def using old by auto
    then show thesis by (rule stored [OF d'(1)])
  qed
qed

lemma users_Update_spec:
  assumes ok: "db_ok E d" and E: "pg_ok E" and run: "users_Update E u d = (r, d')"
  shows "case r of
      Inr u' \<Rightarrow> saved_user (user_view d) u u' (user_view d')
    | Inl e \<Rightarrow> user_view d' = user_view d \<or>
        \<not> errors_is e ErrEmailTaken \<and> (\<exists>u'. saved_user (user_view d) u u' (user_view d'))"
proof -
  let ?ts = "[user_Email u, user_PasswordHash u]"
  have ok': "db_ok E (next_stmt d)" using ok by simp
  obtain q d1 where q: "run_stmt E (with_text ?ts (update_user_stmt E u)) d = (q, d1)" by (rule prod.exhaust)
  have d1: "d' = d1" using run q by (auto simp: users_Update_def split: sum.splits)
  show ?thesis
  proof (cases q)
    case (Inl e)
    then have r: "r = Inl (if errors_is e PgErrNoRows then Sentinel UsersErrNotFound
        else if isUniqueViolation e then Sentinel ErrEmailTaken else Wrap ''updating user'' e)"
      using run q by (simp add: users_Update_def)
    obtain p d2 where p: "update_user_stmt E u (pg_tick d) (next_stmt d) = (p, d2)" by (rule prod.exhaust)
    from ok' p have eff: "user_view d2 = user_view d \<or> (\<exists>u'. saved_user (user_view d) u u' (user_view d2))"
      by (cases rule: update_user_cases) auto
    have foreign: "\<not> errors_is (Wrap ''updating user'' e) ErrEmailTaken"
      "\<not> errors_is e PgErrNoRows" "\<not> isUniqueViolation e" if "pg_error E (pg_tick d) = Some e"
      using pg_okD [OF E that] foreign_errD by auto
    have "user_view d1 = user_view d \<or>
        pg_error E (pg_tick d) = Some e \<and> (\<exists>u'. saved_user (user_view d) u u' (user_view d1))"
      using q [unfolded Inl]
    proof (cases rule: run_with_text_Inl)
      case ran
      from ran(2) show ?thesis
      proof (cases rule: run_stmt_cases)
        case ok
        with ok' show ?thesis using p by (cases rule: update_user_cases [OF ok' ok(2)]) auto
      next
        case (after e')
        with eff p show ?thesis by auto
      qed simp
    qed simp
    then show ?thesis using r d1 foreign by auto
  next
    case (Inr x)
    from run_with_text_Inr [OF q [unfolded Inr]]
    have "update_user_stmt E u (pg_tick d) (next_stmt d) = (Inr x, d1)" by (simp add: run_stmt_Inr next_stmt_def)
    with ok' show ?thesis
      by (cases rule: update_user_cases) (use run q Inr d1 in \<open>auto simp: users_Update_def\<close>)
  qed
qed

end
