(* ===== verification/Config.thy ===== *)
theory Config
  imports RedirectCache
begin

text \<open>
  \<open>internal/config/config.go\<close>. The environment is a function to the value of a variable, empty if it
  is not set, as \<open>os.Getenv\<close> has it. A \<open>time.Duration\<close> is a 64-bit integer, and the product that gives
  the lifetime of tokens wraps around.
\<close>

definition defaultCORSAllowedOrigins :: string where
  "defaultCORSAllowedOrigins =
     ''https://app.qrsafe.flemby.com,http://localhost:3000,http://localhost:8000''"

record config =
  cfg_Port :: string
  cfg_Env :: string
  cfg_PublicBaseURL :: string
  cfg_DatabaseURL :: string
  cfg_RedisAddr :: string
  cfg_RedisPassword :: string
  cfg_RedisDB :: int
  cfg_JWTSecret :: string
  cfg_JWTTTL :: duration
  cfg_RateLimitRPM :: int
  cfg_CORSAllowedOrigins :: "string list"

definition getEnv :: "(string \<Rightarrow> string) \<Rightarrow> string \<Rightarrow> string \<Rightarrow> string" where
  "getEnv env key fallback = (if env key \<noteq> [] then env key else fallback)"

definition parseCSV :: "string \<Rightarrow> string list" where
  "parseCSV s = filter (\<lambda>t. t \<noteq> []) (map trim_space (split_on (CHR '','') s))"

definition int64 :: "int \<Rightarrow> int" where
  "int64 i = (i + 2 ^ 63) mod 2 ^ 64 - 2 ^ 63"

definition Load :: "(string \<Rightarrow> string) \<Rightarrow> err + config" where
  "Load env =
     (if env ''DATABASE_URL'' = [] then Inl (Err ''DATABASE_URL is required'')
      else if env ''JWT_SECRET'' = [] then Inl (Err ''JWT_SECRET is required'')
      else if length (env ''JWT_SECRET'') < 16 then Inl (Err ''JWT_SECRET must be at least 16 characters'')
      else (case atoi (getEnv env ''REDIS_DB'' ''0'') of
          None \<Rightarrow> Inl (Wrap ''parsing REDIS_DB'' (Err ''strconv''))
        | Some redisDB \<Rightarrow>
            (case atoi (getEnv env ''JWT_TTL_HOURS'' ''168'') of
               None \<Rightarrow> Inl (Wrap ''parsing JWT_TTL_HOURS'' (Err ''strconv''))
             | Some ttlHours \<Rightarrow>
                 if ttlHours \<le> 0 then Inl (Err ''JWT_TTL_HOURS must be positive'')
                 else (case atoi (getEnv env ''RATE_LIMIT_RPM'' ''60'') of
                     None \<Rightarrow> Inl (Wrap ''parsing RATE_LIMIT_RPM'' (Err ''strconv''))
                   | Some rpm \<Rightarrow>
                       Inr \<lparr>cfg_Port = getEnv env ''PORT'' ''8080'',
                            cfg_Env = getEnv env ''ENV'' ''development'',
                            cfg_PublicBaseURL = getEnv env ''PUBLIC_BASE_URL'' ''http://localhost:8080'',
                            cfg_DatabaseURL = env ''DATABASE_URL'',
                            cfg_RedisAddr = getEnv env ''REDIS_ADDR'' ''localhost:6379'',
                            cfg_RedisPassword = env ''REDIS_PASSWORD'',
                            cfg_RedisDB = redisDB,
                            cfg_JWTSecret = env ''JWT_SECRET'',
                            cfg_JWTTTL = int64 (ttlHours * hour),
                            cfg_RateLimitRPM = rpm,
                            cfg_CORSAllowedOrigins =
                              parseCSV (getEnv env ''CORS_ALLOWED_ORIGINS'' defaultCORSAllowedOrigins)\<rparr>))))"

subsection \<open>Trimmed texts\<close>

lemma trim_with_done: "find (\<lambda>w. w \<noteq> [] \<and> has_prefix (trim_with ws s) w) ws = None"
proof (induction ws s rule: trim_with.induct)
  case (1 ws s)
  then show ?case
    by (cases "find (\<lambda>w. w \<noteq> [] \<and> has_prefix s w) ws") (simp_all add: trim_with.simps [of ws s])
qed

lemma trim_with_none: "find (\<lambda>w. w \<noteq> [] \<and> has_prefix s w) ws = None \<Longrightarrow> trim_with ws s = s"
  by (simp add: trim_with.simps [of ws s])

lemma trim_with_suffix: "\<exists>p. s = p @ trim_with ws s"
proof (induction ws s rule: trim_with.induct)
  case (1 ws s)
  show ?case
  proof (cases "find (\<lambda>w. w \<noteq> [] \<and> has_prefix s w) ws")
    case None
    then show ?thesis by (simp add: trim_with_none)
  next
    case (Some w)
    then have "has_prefix s w" by (auto simp: find_Some_iff)
    then have "s = w @ drop (length w) s" by (metis append_take_drop_id has_prefix_def)
    moreover obtain p where "drop (length w) s = p @ trim_with ws (drop (length w) s)" using 1 [OF Some] by blast
    ultimately have "s = (w @ p) @ trim_with ws s" using Some by (simp add: trim_with.simps [of ws s])
    then show ?thesis ..
  qed
qed

lemma find_prefix_shorter:
  assumes "find (\<lambda>w. w \<noteq> [] \<and> has_prefix s w) ws = None" "s = t @ u"
  shows "find (\<lambda>w. w \<noteq> [] \<and> has_prefix t w) ws = None"
  using assms by (auto simp: find_None_iff has_prefix_iff)

lemma trim_space_idem: "trim_space (trim_space s) = trim_space s"
proof -
  let ?a = "trim_with space_runes s" and ?R = "map rev space_runes"
  let ?b = "trim_with ?R (rev ?a)"
  obtain p where "rev ?a = p @ ?b" using trim_with_suffix by blast
  then have a: "?a = rev ?b @ rev p" by (metis rev_append rev_rev_ident)
  have "find (\<lambda>w. w \<noteq> [] \<and> has_prefix (rev ?b) w) space_runes = None"
    by (rule find_prefix_shorter [OF trim_with_done a])
  then have "trim_with space_runes (rev ?b) = rev ?b" by (rule trim_with_none)
  moreover have "trim_with ?R ?b = ?b" by (rule trim_with_none [OF trim_with_done])
  ultimately show ?thesis by (simp add: trim_space_def)
qed

lemma trim_space_set: "set (trim_space s) \<subseteq> set s"
proof -
  obtain p where "s = p @ trim_with space_runes s" using trim_with_suffix by blast
  then have "set (trim_with space_runes s) \<subseteq> set s" by (metis set_append sup_ge2)
  moreover obtain q where "rev (trim_with space_runes s) = q @ trim_with (map rev space_runes) (rev (trim_with space_runes s))"
    using trim_with_suffix by blast
  then have "set (trim_with (map rev space_runes) (rev (trim_with space_runes s))) \<subseteq> set (trim_with space_runes s)"
    by (metis set_append set_rev sup_ge2)
  ultimately show ?thesis by (auto simp: trim_space_def)
qed

lemma parseCSV_item: "t \<in> set (parseCSV s) \<Longrightarrow> t \<noteq> [] \<and> trim_space t = t \<and> CHR '','' \<notin> set t"
  using trim_space_set by (auto simp: parseCSV_def trim_space_idem dest: split_on_pieces)

subsection \<open>The lifetime of tokens\<close>

lemma int64_id: "- (2 ^ 63) \<le> i \<Longrightarrow> i < 2 ^ 63 \<Longrightarrow> int64 i = i"
  by (simp add: int64_def)

lemma ttl_exact: "0 < h \<Longrightarrow> h \<le> 2562047 \<Longrightarrow> int64 (h * hour) = h * hour"
  by (rule int64_id) (simp_all add: hour_def)

lemma LoadE:
  assumes "Load env = Inr cfg"
  obtains h rpm where "atoi (getEnv env ''JWT_TTL_HOURS'' ''168'') = Some h" "0 < h"
    "cfg_JWTTTL cfg = int64 (h * hour)" "cfg_DatabaseURL cfg \<noteq> []" "16 \<le> length (cfg_JWTSecret cfg)"
    "cfg_JWTSecret cfg = env ''JWT_SECRET''" "cfg_Port cfg \<noteq> []" "cfg_RedisAddr cfg \<noteq> []" "cfg_PublicBaseURL cfg \<noteq> []"
    "cfg_CORSAllowedOrigins cfg = parseCSV (getEnv env ''CORS_ALLOWED_ORIGINS'' defaultCORSAllowedOrigins)"
    "atoi (getEnv env ''RATE_LIMIT_RPM'' ''60'') = Some rpm" "cfg_RateLimitRPM cfg = rpm"
proof -
  from assms have "env ''DATABASE_URL'' \<noteq> []" "env ''JWT_SECRET'' \<noteq> []" "\<not> length (env ''JWT_SECRET'') < 16"
    by (auto simp: Load_def split: if_splits)
  moreover from assms this obtain r h rpm where v: "atoi (getEnv env ''REDIS_DB'' ''0'') = Some r"
    "atoi (getEnv env ''JWT_TTL_HOURS'' ''168'') = Some h" "\<not> h \<le> 0"
    "atoi (getEnv env ''RATE_LIMIT_RPM'' ''60'') = Some rpm"
    by (simp add: Load_def split: option.splits if_splits)
  ultimately have cfg: "cfg = \<lparr>cfg_Port = getEnv env ''PORT'' ''8080'', cfg_Env = getEnv env ''ENV'' ''development'',
      cfg_PublicBaseURL = getEnv env ''PUBLIC_BASE_URL'' ''http://localhost:8080'',
      cfg_DatabaseURL = env ''DATABASE_URL'', cfg_RedisAddr = getEnv env ''REDIS_ADDR'' ''localhost:6379'',
      cfg_RedisPassword = env ''REDIS_PASSWORD'', cfg_RedisDB = r, cfg_JWTSecret = env ''JWT_SECRET'',
      cfg_JWTTTL = int64 (h * hour), cfg_RateLimitRPM = rpm,
      cfg_CORSAllowedOrigins = parseCSV (getEnv env ''CORS_ALLOWED_ORIGINS'' defaultCORSAllowedOrigins)\<rparr>"
    using assms by (simp add: Load_def)
  have nonempty: "getEnv env k d \<noteq> []" if "d \<noteq> []" for k d using that by (simp add: getEnv_def)
  show thesis
    by (rule that [OF v(2)])
      (use v in \<open>simp_all add: cfg nonempty \<open>env ''DATABASE_URL'' \<noteq> []\<close> not_less [symmetric]
        \<open>\<not> length (env ''JWT_SECRET'') < 16\<close>\<close>)
qed

subsection \<open>Properties\<close>

text \<open>
  C39. A configuration that loads is usable: the required values are there, the JWT secret has at
  least 16 bytes (the message says characters; fewer of them are enough outside ASCII), every CORS
  origin is a non-empty trimmed text without commas, and for up to 2562047 hours, the greatest number
  that fits a \<open>time.Duration\<close>, the lifetime of tokens is the configured number of hours, positive and
  exact. Beyond, the product wraps around.
\<close>

theorem Load_valid:
  assumes "Load env = Inr cfg"
  shows "cfg_DatabaseURL cfg \<noteq> [] \<and> cfg_Port cfg \<noteq> [] \<and> cfg_RedisAddr cfg \<noteq> [] \<and> cfg_PublicBaseURL cfg \<noteq> [] \<and>
    16 \<le> length (cfg_JWTSecret cfg) \<and>
    (\<forall>t \<in> set (cfg_CORSAllowedOrigins cfg). t \<noteq> [] \<and> trim_space t = t \<and> CHR '','' \<notin> set t) \<and>
    (\<exists>h. atoi (getEnv env ''JWT_TTL_HOURS'' ''168'') = Some h \<and> 0 < h \<and>
       (h \<le> 2562047 \<longrightarrow> cfg_JWTTTL cfg = h * hour \<and> 0 < cfg_JWTTTL cfg))"
proof -
  from assms obtain h rpm where h: "atoi (getEnv env ''JWT_TTL_HOURS'' ''168'') = Some h" "0 < h"
    and cfg: "cfg_JWTTTL cfg = int64 (h * hour)" "cfg_DatabaseURL cfg \<noteq> []" "16 \<le> length (cfg_JWTSecret cfg)"
      "cfg_Port cfg \<noteq> []" "cfg_RedisAddr cfg \<noteq> []" "cfg_PublicBaseURL cfg \<noteq> []"
      "cfg_CORSAllowedOrigins cfg = parseCSV (getEnv env ''CORS_ALLOWED_ORIGINS'' defaultCORSAllowedOrigins)"
    by (rule LoadE)
  have "\<forall>t \<in> set (cfg_CORSAllowedOrigins cfg). t \<noteq> [] \<and> trim_space t = t \<and> CHR '','' \<notin> set t"
    unfolding cfg(7) using parseCSV_item by blast
  moreover have "cfg_JWTTTL cfg = h * hour \<and> 0 < cfg_JWTTTL cfg" if "h \<le> 2562047"
    using ttl_exact [OF h(2) that] h(2) cfg(1) by (simp add: hour_def)
  ultimately show ?thesis using h cfg(2-6) by blast
qed

text \<open>The environment of the compose file, with the lifetime of tokens as an argument.\<close>

definition sample_config_env :: "string \<Rightarrow> string \<Rightarrow> string" where
  "sample_config_env ttl k =
     (if k = ''DATABASE_URL'' then ''postgres://db''
      else if k = ''JWT_SECRET'' then ''0123456789abcdef''
      else if k = ''JWT_TTL_HOURS'' then ttl else [])"

lemma Load_sample: "\<exists>cfg. Load (sample_config_env ''24'') = Inr cfg"
proof -
  have "atoi ''24'' = Some 24" "atoi ''0'' = Some 0" "atoi ''60'' = Some 60"
    by (simp_all add: atoi_def is_digit_def byte_def digits_val_def)
  then show ?thesis by (simp add: Load_def sample_config_env_def getEnv_def)
qed

theorem Load_valid_witness:
  "\<exists>cfg. Load (sample_config_env ''24'') = Inr cfg \<and> cfg_JWTTTL cfg = 24 * hour"
proof -
  obtain cfg where cfg: "Load (sample_config_env ''24'') = Inr cfg" using Load_sample by blast
  have "atoi (getEnv (sample_config_env ''24'') ''JWT_TTL_HOURS'' ''168'') = Some 24"
    by (simp add: getEnv_def sample_config_env_def atoi_def is_digit_def byte_def digits_val_def)
  with Load_valid [OF cfg] cfg show ?thesis by auto
qed

lemma ttl_wraps:
  assumes "2562047 < h" shows "int64 (h * hour) < h * hour"
proof -
  have "h * hour + 2 ^ 63 \<ge> 2 ^ 64" using assms by (simp add: hour_def)
  moreover have "(h * hour + 2 ^ 63) mod 2 ^ 64 < 2 ^ 64" by simp
  ultimately show ?thesis unfolding int64_def by linarith
qed

lemma ttl_negative:
  assumes "2562047 < h" "h \<le> 5124095" shows "int64 (h * hour) = h * hour - 2 ^ 64" "h * hour < 2 ^ 64"
proof -
  have range: "2 ^ 64 \<le> h * hour + 2 ^ 63" "h * hour + 2 ^ 63 < 2 * 2 ^ 64" "h * hour < 2 ^ 64"
    using assms by (simp_all add: hour_def)
  then have "(h * hour + 2 ^ 63) mod 2 ^ 64 = h * hour + 2 ^ 63 - 2 ^ 64"
    using mod_add_self2 [of "h * hour + 2 ^ 63 - 2 ^ 64" "2 ^ 64"] by (simp add: add.commute)
  then show "int64 (h * hour) = h * hour - 2 ^ 64" by (simp add: int64_def)
  show "h * hour < 2 ^ 64" by (rule range(3))
qed

text \<open>
  C40. The lifetime of tokens can overflow. Every configuration with more than 2562047 hours that loads, which
  the check of a positive number does not prevent, has a lifetime of tokens that is less than the
  configured one; and up to 5124095 hours it is negative, so that a token has expired when it is issued.
\<close>

theorem Load_ttl_overflow:
  assumes "Load env = Inr cfg" and "atoi (getEnv env ''JWT_TTL_HOURS'' ''168'') = Some h" and "2562047 < h"
  shows "cfg_JWTTTL cfg < h * hour \<and> (h \<le> 5124095 \<longrightarrow> cfg_JWTTTL cfg = h * hour - 2 ^ 64 \<and> cfg_JWTTTL cfg < 0)"
proof -
  have ttl: "cfg_JWTTTL cfg = int64 (h * hour)" using assms(1,2) by (auto elim: LoadE)
  have "cfg_JWTTTL cfg = h * hour - 2 ^ 64 \<and> cfg_JWTTTL cfg < 0" if "h \<le> 5124095"
    using ttl_negative [OF assms(3) that] ttl by simp
  moreover have "cfg_JWTTTL cfg < h * hour" using ttl_wraps [OF assms(3)] ttl by simp
  ultimately show ?thesis by blast
qed

theorem Load_ttl_overflow_witness:
  "\<exists>cfg. Load (sample_config_env ''3000000'') = Inr cfg \<and> cfg_JWTTTL cfg < 0"
proof -
  have atoi: "atoi ''3000000'' = Some 3000000" "atoi ''0'' = Some 0" "atoi ''60'' = Some 60"
    by (simp_all add: atoi_def is_digit_def byte_def digits_val_def)
  then obtain cfg where cfg: "Load (sample_config_env ''3000000'') = Inr cfg"
    by (simp add: Load_def sample_config_env_def getEnv_def)
  have "atoi (getEnv (sample_config_env ''3000000'') ''JWT_TTL_HOURS'' ''168'') = Some 3000000"
    using atoi by (simp add: getEnv_def sample_config_env_def)
  from Load_ttl_overflow [OF cfg this] cfg show ?thesis by auto
qed

end
