(* ===== verification/World.thy ===== *)
theory World
  imports Server UsersLaws Config
begin

text \<open>
  The concrete services of \<open>cmd/api/main.go\<close> on one state of the world: the tables of Postgres, the
  Redis server, the reads of \<open>crypto/rand\<close>, the clock, the request log and the goroutines that are
  yet to record a scan. \<open>env\<close> has what is not the program: the servers and the libraries.
\<close>

subsection \<open>The world\<close>

record 'r world =
  wd_db :: db
  wd_redis :: 'r
  wd_reads :: nat
  wd_now :: instant
  wd_log :: "log_entry list"
  wd_jobs :: "(string \<times> string \<times> string) list"

definition on_db :: "(db \<Rightarrow> 'x \<times> db) \<Rightarrow> 'r world \<Rightarrow> 'x \<times> 'r world" where
  "on_db f w = (case f (wd_db w) of (x, d) \<Rightarrow> (x, w\<lparr>wd_db := d\<rparr>))"

definition on_redis :: "('r \<Rightarrow> 'x \<times> 'r) \<Rightarrow> 'r world \<Rightarrow> 'x \<times> 'r world" where
  "on_redis f w = (case f (wd_redis w) of (x, s) \<Rightarrow> (x, w\<lparr>wd_redis := s\<rparr>))"

text \<open>\<open>ev_random\<close> says what the i-th read of so many bytes gives, \<open>ev_pool\<close> whether a URL makes a pool.\<close>

record 'r env =
  ev_pg :: pg_env
  ev_redis :: "'r redis"
  ev_random :: "nat \<Rightarrow> nat \<Rightarrow> err + string"
  ev_uuid :: uuid_lib
  ev_jwt :: jwt_lib
  ev_argon2 :: argon2
  ev_validator :: validator
  ev_qrcode :: qrcode
  ev_lower :: "string \<Rightarrow> string"
  ev_pool :: "string \<Rightarrow> err option"
  ev_chi :: "'r world chi"
  ev_cors :: cors

definition read_random :: "'r env \<Rightarrow> nat \<Rightarrow> ('r world, string) act" where
  "read_random V n w = (ev_random V (wd_reads w) n, w\<lparr>wd_reads := Suc (wd_reads w)\<rparr>)"

definition new_slug :: "'r env \<Rightarrow> ('r world, string) act" where
  "new_slug V w = (GenerateSlug (ev_random V (wd_reads w)), w\<lparr>wd_reads := Suc (wd_reads w)\<rparr>)"

subsection \<open>The services\<close>

definition users_repo :: "pg_env \<Rightarrow> 'r world auth_repo" where
  "users_repo E = \<lparr>ar_Create = (\<lambda>u. on_db (users_Create E u)), ar_GetByID = (\<lambda>i. on_db (users_GetByID E i)),
     ar_GetByEmail = (\<lambda>em. on_db (users_GetByEmail E em)), ar_Update = (\<lambda>u. on_db (users_Update E u))\<rparr>"

definition codes_repo :: "pg_env \<Rightarrow> 'r world repository" where
  "codes_repo E = \<lparr>rp_Create = (\<lambda>c. on_db (repo_Create E c)),
     rp_CreateDynamic = (\<lambda>c slug dest. on_db (repo_CreateDynamic E c slug dest)),
     rp_GetByID = (\<lambda>u i. on_db (repo_GetByID E u i)),
     rp_List = (\<lambda>u cur limit. on_db (repo_List E u cur limit)),
     rp_UpdateLabel = (\<lambda>u i label. on_db (repo_UpdateLabel E u i label)),
     rp_UpdateDestination = (\<lambda>i dest. on_db (repo_UpdateDestination E i dest)),
     rp_Delete = (\<lambda>u i. on_db (repo_Delete E u i)),
     rp_ScanCounts = (\<lambda>slug. on_db (repo_ScanCounts E slug)),
     rp_ScanDaily = (\<lambda>slug. on_db (repo_ScanDaily E slug)),
     rp_ScanTopUserAgents = (\<lambda>slug n. on_db (repo_ScanTopUserAgents E slug n))\<rparr>"

definition slug_repo :: "pg_env \<Rightarrow> 'r world slug_resolver" where
  "slug_repo E = \<lparr>sr_ResolveSlug = (\<lambda>slug. on_db (repo_ResolveSlug E slug)),
     sr_InsertScanEvent = (\<lambda>e. on_db (repo_InsertScanEvent E e))\<rparr>"

definition target_cache :: "'r redis \<Rightarrow> 'r world cache" where
  "target_cache R = \<lparr>ca_Lookup = (\<lambda>slug. on_redis (cache_Lookup R slug)),
     ca_Store = (\<lambda>slug t. on_redis (cache_Store R slug t)),
     ca_Invalidate = (\<lambda>slug. on_redis (cache_Invalidate R slug))\<rparr>"

definition safety_svc :: "'r env \<Rightarrow> 'r world safety_service" where
  "safety_svc V = \<lparr>ss_checker = Check (ev_lower V) NewHeuristicChecker,
     ss_cache = \<lparr>sc_Get = (\<lambda>u. on_redis (safety_Get (ev_redis V) u)),
                 sc_Set = (\<lambda>u r. on_redis (safety_Set (ev_redis V) u r))\<rparr>\<rparr>"

definition codes_svc :: "'r env \<Rightarrow> 'r world codes_service" where
  "codes_svc V = \<lparr>cs_repo = codes_repo (ev_pg V), cs_cache = target_cache (ev_redis V),
     cs_checker = Some (safety_Check (safety_svc V)), cs_newSlug = new_slug V, cs_uuid = ev_uuid V\<rparr>"

definition redirect_svc :: "'r env \<Rightarrow> 'r world redirect_service" where
  "redirect_svc V = \<lparr>rs_repo = slug_repo (ev_pg V), rs_cache = target_cache (ev_redis V), rs_uuid = ev_uuid V\<rparr>"

definition token_mgr :: "'r env \<Rightarrow> config \<Rightarrow> token_manager" where
  "token_mgr V cfg = \<lparr>tm_secret = cfg_JWTSecret cfg, tm_ttl = cfg_JWTTTL cfg, tm_jwt = ev_jwt V, tm_uuid = ev_uuid V\<rparr>"

definition auth_svc :: "'r env \<Rightarrow> config \<Rightarrow> 'r world auth_service" where
  "auth_svc V cfg = \<lparr>as_repo = users_repo (ev_pg V), as_tokens = token_mgr V cfg, as_now = wd_now,
     as_argon2 = ev_argon2 V, as_rand = read_random V\<rparr>"

subsection \<open>Handlers and server\<close>

definition ping_db :: "pg_env \<Rightarrow> db eact" where
  "ping_db E d = (case run_stmt E (\<lambda>n d. (Inr (), d)) d of (Inl e, d1) \<Rightarrow> (Some e, d1) | (Inr _, d1) \<Rightarrow> (None, d1))"

definition codes_api_of :: "'w codes_service \<Rightarrow> 'w codes_api" where
  "codes_api_of S = \<lparr>api_Create = codes_Create S, api_Get = codes_Get S, api_List = codes_List S,
     api_Update = codes_Update S, api_Delete = codes_Delete S, api_Analytics = codes_Analytics S\<rparr>"

definition auth_api_of :: "'w auth_service \<Rightarrow> 'w auth_api" where
  "auth_api_of S = \<lparr>aa_CreateGuest = CreateGuest S, aa_UpgradeToAccount = UpgradeToAccount S\<rparr>"

definition start_scan :: "string \<Rightarrow> string \<Rightarrow> string \<Rightarrow> 'r world \<Rightarrow> 'r world" where
  "start_scan slug ipHash userAgent w = w\<lparr>wd_jobs := wd_jobs w @ [(slug, ipHash, userAgent)]\<rparr>"

definition log_request :: "log_entry \<Rightarrow> 'r world \<Rightarrow> 'r world" where
  "log_request e w = w\<lparr>wd_log := wd_log w @ [e]\<rparr>"

definition all_handlers :: "'r env \<Rightarrow> config \<Rightarrow> 'r world handlers" where
  "all_handlers V cfg = \<lparr>
     hs_Health = (on_db (ping_db (ev_pg V)), on_redis (rd_Ping (ev_redis V))),
     hs_Auth = \<lparr>ah_svc = auth_api_of (auth_svc V cfg), ah_validate = ev_validator V, ah_uuid = ev_uuid V\<rparr>,
     hs_Codes = NewCodesHandler (codes_api_of (codes_svc V)) (cfg_PublicBaseURL cfg) (ev_validator V) (ev_uuid V),
     hs_Redirect = \<lparr>rh_Resolve = Resolve (redirect_svc V), rh_Go = start_scan\<rparr>,
     hs_Safety = (ev_validator V, safety_Check (safety_svc V)),
     hs_QR = (ev_validator V, ev_qrcode V)\<rparr>"

definition redis_limiter :: "'r env \<Rightarrow> config \<Rightarrow> 'r limiter" where
  "redis_limiter V cfg = \<lparr>li_rdb = ev_redis V, li_limit = cfg_RateLimitRPM cfg, li_window = minute\<rparr>"

definition limiter_of :: "'r env \<Rightarrow> config \<Rightarrow> 'r world rate_limiter option" where
  "limiter_of V cfg =
     (if cfg_RateLimitRPM cfg > 0 then
        Some \<lparr>rl_Allow = (\<lambda>key w. on_redis (limiter_Allow (redis_limiter V cfg) (wd_now w) key) w),
              rl_Limit = limiter_Limit (redis_limiter V cfg)\<rparr>
      else None)"

definition build_server :: "'r env \<Rightarrow> config \<Rightarrow> 'r world server" where
  "build_server V cfg =
     NewServer (ev_chi V) (ev_cors V) wd_now (CHR '':'' # cfg_Port cfg) log_request (token_mgr V cfg)
       (all_handlers V cfg) (limiter_of V cfg) (cfg_CORSAllowedOrigins cfg)"

text \<open>The goroutine of a redirect.\<close>

definition run_job :: "'r env \<Rightarrow> string \<times> string \<times> string \<Rightarrow> 'r world \<Rightarrow> 'r world" where
  "run_job V j w = (case j of (slug, ipHash, userAgent) \<Rightarrow> RecordScan (redirect_svc V) slug ipHash userAgent w)"

subsection \<open>Starting up\<close>

definition NewPostgresPool :: "(string \<Rightarrow> err option) \<Rightarrow> pg_env \<Rightarrow> string \<Rightarrow> db eact" where
  "NewPostgresPool new E databaseURL d =
     (case new databaseURL of
        Some e \<Rightarrow> (Some (Wrap ''creating pgx pool'' e), d)
      | None \<Rightarrow> (case ping_db E d of
            (Some e, d1) \<Rightarrow> (Some (Wrap ''pinging postgres'' e), d1)
          | (None, d1) \<Rightarrow> (None, d1)))"

definition NewRedisClient :: "'r redis \<Rightarrow> 'r eact" where
  "NewRedisClient R s =
     (case rd_Ping R s of
        (Some e, s1) \<Rightarrow> (Some (Wrap ''pinging redis'' e), s1)
      | (None, s1) \<Rightarrow> (None, s1))"

definition run_start :: "'r env \<Rightarrow> (string \<Rightarrow> string) \<Rightarrow> ('r world, 'r world server) act" where
  "run_start V env w =
     (case Load env of
        Inl e \<Rightarrow> (Inl (Wrap ''loading config'' e), w)
      | Inr cfg \<Rightarrow>
          (case on_db (NewPostgresPool (ev_pool V) (ev_pg V) (cfg_DatabaseURL cfg)) w of
             (Some e, w1) \<Rightarrow> (Inl (Wrap ''connecting to postgres'' e), w1)
           | (None, w1) \<Rightarrow>
               (case on_redis (NewRedisClient (ev_redis V)) w1 of
                  (Some e, w2) \<Rightarrow> (Inl (Wrap ''connecting to redis'' e), w2)
                | (None, w2) \<Rightarrow> (Inr (build_server V cfg), w2))))"

text \<open>
  The process: it serves until serving ends or a signal arrives, and shuts the server down after a signal.
  \<open>serving\<close> is what happens meanwhile, with the result of \<open>ListenAndServe\<close> if that comes before a signal;
  \<open>closing\<close> is \<open>http.Server.Shutdown\<close>.
\<close>

definition run_main ::
  "'r env \<Rightarrow> ('r world server \<Rightarrow> 'r world \<Rightarrow> err option option \<times> 'r world) \<Rightarrow> ('r world server \<Rightarrow> 'r world eact) \<Rightarrow>
   (string \<Rightarrow> string) \<Rightarrow> 'r world eact" where
  "run_main V serving closing env w =
     (case run_start V env w of
        (Inl e, w1) \<Rightarrow> (Some e, w1)
      | (Inr srv, w1) \<Rightarrow>
          (case serving srv w1 of
             (Some served, w2) \<Rightarrow> (server_Start served, w2)
           | (None, w2) \<Rightarrow>
               (case closing srv w2 of
                  (closed, w3) \<Rightarrow> (map_option (Wrap ''graceful shutdown'') (server_Shutdown closed), w3))))"

definition exit_status :: "err option \<Rightarrow> int" where
  "exit_status r = (case r of None \<Rightarrow> 0 | Some _ \<Rightarrow> 1)"

subsection \<open>Lifting\<close>

lemma on_db_iff: "on_db f w = (x, w') \<longleftrightarrow> (\<exists>d. f (wd_db w) = (x, d) \<and> w' = w\<lparr>wd_db := d\<rparr>)"
  by (auto simp: on_db_def split: prod.splits)

lemma on_redis_iff: "on_redis f w = (x, w') \<longleftrightarrow> (\<exists>s. f (wd_redis w) = (x, s) \<and> w' = w\<lparr>wd_redis := s\<rparr>)"
  by (auto simp: on_redis_def split: prod.splits)

lemma write_result_law:
  "write_result d r present upd d' \<Longrightarrow> (same_tables d d' \<Longrightarrow> S) \<Longrightarrow> (upd d' \<Longrightarrow> U) \<Longrightarrow> write_law r present S U"
  by (auto simp: write_law_def write_result_def split: option.splits if_splits)

lemma write_result_ok:
  "write_result d r present upd d' \<Longrightarrow> db_ok E d \<Longrightarrow> (upd d' \<Longrightarrow> db_ok E d') \<Longrightarrow> db_ok E d'"
  by (erule write_result_prop) (simp_all add: same_tables_views)

end
