(* ===== verification/Backend.thy ===== *)
theory Backend
  imports World
begin

text \<open>
  The contracts of the components hold for the services of \<open>World\<close>: the locale \<open>backend\<close> has what the
  servers and libraries promise, and each of its sublocales is the contract of a component over one
  state of the world.
\<close>

subsection \<open>The two views of the tables\<close>

lemma view_slugs:
  assumes ok: "db_ok E d" and c: "code_view d i = Some c" "code_Dynamic c = Some dyn"
  shows "slug_view d (dyn_Slug dyn) = Some (dyn_Destination dyn, i)"
proof -
  from c(1) obtain row where row: "lookup cr_id (t_codes d) i = Some row" "scanCode (join_row (t_dyn d) row) = c"
    unfolding code_view_def map_option_eq_Some by (elim exE conjE)
  have id: "cr_id row = i" using row(1) by (rule lookup_key)
  have dyn: "code_Dynamic c = map_option (\<lambda>x. \<lparr>dyn_CodeID = i, dyn_Slug = dr_slug x,
      dyn_Destination = dr_destination x, dyn_UpdatedAt = dr_updated_at x\<rparr>) (lookup dr_code_id (t_dyn d) i)"
    unfolding row(2) [symmetric] scanCode_def join_row_def using id by simp
  obtain r where r: "lookup dr_code_id (t_dyn d) i = Some r"
    using dyn c(2) unfolding map_option_eq_Some by (metis (no_types) map_option_eq_Some)
  with dyn c(2) have fields: "dyn_Slug dyn = dr_slug r" "dyn_Destination dyn = dr_destination r" by auto
  from lookup_SomeD [OF r] have mem: "r \<in> set (t_dyn d)" "dr_code_id r = i" by simp_all
  from lookup_SomeI [OF dyn_ok_slugs [OF db_ok_dyn [OF ok]] mem(1)] fields mem(2)
  show ?thesis by (simp add: slug_view_def)
qed

lemma slugs_view:
  assumes ok: "db_ok E d" and "slug_view d s = Some (x, i)"
  shows "\<exists>c dyn. code_view d i = Some c \<and> code_IsDynamic c \<and> code_Dynamic c = Some dyn \<and> dyn_Slug dyn = s"
proof -
  obtain r where s: "lookup dr_slug (t_dyn d) s = Some r" "dr_code_id r = i"
    using assms(2) unfolding slug_view_def by (cases "lookup dr_slug (t_dyn d) s") simp_all
  from lookup_SomeD [OF s(1)] have r: "r \<in> set (t_dyn d)" "dr_slug r = s" by simp_all
  have dyn: "lookup dr_code_id (t_dyn d) i = Some r"
    using lookup_SomeI [OF dyn_ok_distinct [OF db_ok_dyn [OF ok]] r(1)] s(2) by simp
  have "i \<in> cr_id ` set (t_codes d)" using dyn_ok_code [OF db_ok_dyn [OF ok] r(1)] s(2) by simp
  then obtain c where c: "lookup cr_id (t_codes d) i = Some c"
    using lookup_None_iff [of cr_id "t_codes d" i] by (cases "lookup cr_id (t_codes d) i") simp_all
  from lookup_SomeD [OF c] have mem: "c \<in> set (t_codes d)" "cr_id c = i" by simp_all
  have "i \<in> dr_code_id ` set (t_dyn d)" using r(1) s(2) by blast
  then have "cr_is_dynamic c" using marks_okD(1) [OF db_ok_marks [OF ok] mem(1)] mem(2) by simp
  then have "code_IsDynamic (scanCode (join_row (t_dyn d) c))" by simp
  moreover have "code_Dynamic (scanCode (join_row (t_dyn d) c)) = Some \<lparr>dyn_CodeID = i, dyn_Slug = s,
      dyn_Destination = dr_destination r, dyn_UpdatedAt = dr_updated_at r\<rparr>"
    using dyn mem(2) r(2) by (simp add: scanCode_def join_row_def)
  moreover have "code_view d i = Some (scanCode (join_row (t_dyn d) c))" using c by (simp add: code_view_def)
  ultimately show ?thesis by auto
qed

subsection \<open>The parts\<close>

locale backend = redis_server "ev_redis V" data clock + uuid_laws "ev_uuid V" + jwt_laws "ev_jwt V" bears +
    argon2_laws "ev_argon2 V"
  for V :: "'r env" and data :: "'r \<Rightarrow> kv" and clock :: "'r \<Rightarrow> instant"
    and bears :: "signing_method \<Rightarrow> string \<Rightarrow> string \<Rightarrow> claims \<Rightarrow> bool" +
  assumes pg: "pg_ok (ev_pg V)"
    and random: "ev_random V k n = Inr b \<Longrightarrow> length b = n"
begin

definition sane :: "'r world \<Rightarrow> bool" where
  "sane w \<longleftrightarrow> db_ok (ev_pg V) (wd_db w)"

definition entries :: "'r world \<Rightarrow> string \<Rightarrow> cached_target option" where
  "entries w = cached (wd_redis w)"

subsection \<open>The cache\<close>

text \<open>Other keys than those of targets are no entries.\<close>

lemma safety_key_other: "safetyKey u \<noteq> redirectKey s"
  by (simp add: safetyKey_def redirectKey_def safetyKeyPrefix_def redirectKeyPrefix_def)

lemma safety_Get_entries: "safety_Get (ev_redis V) u s = (r, s') \<Longrightarrow> cached s' \<subseteq>\<^sub>m cached s"
proof -
  assume run: "safety_Get (ev_redis V) u s = (r, s')"
  obtain q s1 where g: "rd_Get (ev_redis V) (safetyKey u) s = (q, s1)" by (rule prod.exhaust)
  then have "s1 = s'" using run by (auto simp: safety_Get_def split: sum.splits option.splits)
  with get_readable(1) [OF g] show ?thesis by (simp add: cached_mono)
qed

lemma safety_Set_entries: "safety_Set (ev_redis V) u x s = (e, s') \<Longrightarrow> cached s' \<subseteq>\<^sub>m cached s"
proof (cases "json_encode (result_json x)")
  case None
  then show "safety_Set (ev_redis V) u x s = (e, s') \<Longrightarrow> ?thesis" by (simp add: safety_Set_def)
next
  case (Some b)
  assume run: "safety_Set (ev_redis V) u x s = (e, s')"
  obtain y s1 where y: "rd_Set (ev_redis V) (safetyKey u) b safetyTTL s = (y, s1)" by (rule prod.exhaust)
  then have s1: "s1 = s'" using run Some by (auto simp: safety_Set_def split: option.splits)
  show ?thesis
  proof (rule map_leI)
    fix slug t assume "cached s' slug = Some t"
    then obtain v where v: "readable s' (redirectKey slug) = Some v" "target_of_json v = Some t"
      by (auto simp: cached_def bind_eq_Some_conv)
    have "readable s (redirectKey slug) = Some v"
      using set_other [OF y safetyTTL_pos _ v(1) [folded s1]] safety_key_other by metis
    with v(2) show "cached s slug = Some t" by (simp add: cached_def)
  qed
qed

lemma checker_entries:
  assumes "safety_Check (safety_svc V) u w = (r, w')"
  shows "wd_db w' = wd_db w \<and> entries w' \<subseteq>\<^sub>m entries w"
proof -
  obtain q s1 where g: "safety_Get (ev_redis V) u (wd_redis w) = (q, s1)" by (rule prod.exhaust)
  let ?res = "Check (ev_lower V) NewHeuristicChecker u"
  obtain e s2 where e: "safety_Set (ev_redis V) u ?res s1 = (e, s2)" by (rule prod.exhaust)
  have "w' = w\<lparr>wd_redis := s1\<rparr> \<or> w' = w\<lparr>wd_redis := s2\<rparr>"
    using assms g e
    by (auto simp: safety_Check_def safety_svc_def on_redis_def Let_def split: sum.splits option.splits)
  then show ?thesis
    using safety_Get_entries [OF g] safety_Set_entries [OF e] by (auto simp: entries_def intro: map_le_trans)
qed

lemma cache_ops:
  "ca_Lookup (target_cache (ev_redis V)) slug w = (r, w') \<longleftrightarrow>
     (\<exists>s. ca_Lookup (redis_cache (ev_redis V)) slug (wd_redis w) = (r, s) \<and> w' = w\<lparr>wd_redis := s\<rparr>)"
  "ca_Store (target_cache (ev_redis V)) slug t w = (x, w') \<longleftrightarrow>
     (\<exists>s. ca_Store (redis_cache (ev_redis V)) slug t (wd_redis w) = (x, s) \<and> w' = w\<lparr>wd_redis := s\<rparr>)"
  "ca_Invalidate (target_cache (ev_redis V)) slug w = (x, w') \<longleftrightarrow>
     (\<exists>s. ca_Invalidate (redis_cache (ev_redis V)) slug (wd_redis w) = (x, s) \<and> w' = w\<lparr>wd_redis := s\<rparr>)"
  by (simp_all add: target_cache_def redis_cache_def on_redis_iff)

lemma world_cache: "redirect_cache (target_cache (ev_redis V)) entries"
proof
  fix slug t x w w' and r :: "err + cached_target option"
  show "ca_Lookup (target_cache (ev_redis V)) slug w = (r, w') \<Longrightarrow>
      entries w' \<subseteq>\<^sub>m entries w \<and> (\<forall>t. r = Inr (Some t) \<longrightarrow> entries w slug = Some t)"
    by (auto simp: cache_ops entries_def dest: rc.lookup)
  show "ca_Store (target_cache (ev_redis V)) slug t w = (x, w') \<Longrightarrow> target_text t \<Longrightarrow>
      entries w' \<subseteq>\<^sub>m (entries w)(slug \<mapsto> t) \<or> entries w' \<subseteq>\<^sub>m entries w"
    by (auto simp: cache_ops entries_def dest: rc.store)
  show "ca_Invalidate (target_cache (ev_redis V)) slug w = (x, w') \<Longrightarrow>
      entries w' \<subseteq>\<^sub>m entries w \<and> (x = None \<longrightarrow> entries w' slug = None)"
    by (auto simp: cache_ops entries_def dest: rc.invalidate)
qed

subsection \<open>The repository of codes\<close>

definition held :: "'r world \<Rightarrow> uuid \<Rightarrow> code option" where
  "held w = code_view (wd_db w)"

definition leads :: "'r world \<Rightarrow> string \<Rightarrow> (string \<times> uuid) option" where
  "leads w = slug_view (wd_db w)"

definition owns :: "'r world \<Rightarrow> uuid \<Rightarrow> code list" where
  "owns w = user_codes (wd_db w)"

definition scanned :: "'r world \<Rightarrow> string \<Rightarrow> scan_event list" where
  "scanned w = (\<lambda>slug. scans_of slug (wd_db w))"

lemmas views = sane_def entries_def held_def leads_def owns_def scanned_def

lemma next_stmt_views [simp]:
  "user_codes (next_stmt d) = user_codes d" "scans_of slug (next_stmt d) = scans_of slug d"
  by (simp_all add: user_codes_def scans_of_def fun_eq_iff)

lemma new_slug_law:
  assumes "new_slug V w = (q, w')"
  shows "wd_db w' = wd_db w \<and> wd_redis w' = wd_redis w \<and> (\<forall>slug. q = Inr slug \<longrightarrow> slug_ok slug)"
proof -
  have "slug_ok slug" if "GenerateSlug (ev_random V (wd_reads w)) = Inr slug" for slug
    using that slug_symbol_in by (auto simp: GenerateSlug_def Let_def slug_ok_def split: sum.splits)
  with assms show ?thesis by (auto simp: new_slug_def)
qed

lemma codes_repo_ops:
  "rp_Create (codes_repo E) c = on_db (repo_Create E c)"
  "rp_CreateDynamic (codes_repo E) c slug dest = on_db (repo_CreateDynamic E c slug dest)"
  "rp_GetByID (codes_repo E) u i = on_db (repo_GetByID E u i)"
  "rp_List (codes_repo E) u cur limit = on_db (repo_List E u cur limit)"
  "rp_UpdateLabel (codes_repo E) u i label = on_db (repo_UpdateLabel E u i label)"
  "rp_UpdateDestination (codes_repo E) i dest = on_db (repo_UpdateDestination E i dest)"
  "rp_Delete (codes_repo E) u i = on_db (repo_Delete E u i)"
  "rp_ScanCounts (codes_repo E) slug = on_db (repo_ScanCounts E slug)"
  "rp_ScanDaily (codes_repo E) slug = on_db (repo_ScanDaily E slug)"
  "rp_ScanTopUserAgents (codes_repo E) slug n = on_db (repo_ScanTopUserAgents E slug n)"
  by (simp_all add: codes_repo_def)

lemma scan_err_not_found:
  "errors_is (scan_err m e) CodesErrNotFound \<Longrightarrow> \<not> foreign_err e"
  by (auto simp: scan_err_def foreign_err_def split: if_splits)

lemma stmt_read_not_found:
  assumes "map_sum (scan_err m) id (stmt_read (ev_pg V) d r) = Inl e" "errors_is e CodesErrNotFound"
  shows "\<exists>x. r = Inl x \<and> (errors_is x PgErrNoRows \<or> errors_is x CodesErrNotFound)"
proof -
  obtain x where x: "stmt_read (ev_pg V) d r = Inl x" "e = scan_err m x"
    using assms(1) by (cases "stmt_read (ev_pg V) d r") simp_all
  have "\<not> foreign_err x" using assms(2) x(2) scan_err_not_found by blast
  then have "pg_error (ev_pg V) (pg_tick d) \<noteq> Some x" using pg_okD [OF pg] by blast
  then have "r = Inl x" using x(1) by (auto simp: stmt_read_def pg_error_def split: pg_outcome.splits)
  with x(2) assms(2) show ?thesis by (auto simp: scan_err_def split: if_splits)
qed

lemma getByID_law:
  assumes "db_ok (ev_pg V) d" "repo_GetByID (ev_pg V) u i d = (g, d')"
  shows "d' = next_stmt d \<and>
    (case g of Inr c \<Rightarrow> owned u (code_view d i) = Some c
     | Inl e \<Rightarrow> errors_is e CodesErrNotFound \<longrightarrow> owned u (code_view d i) = None)"
proof -
  let ?r = "case owned u (code_view d i) of None \<Rightarrow> Inl (Sentinel PgErrNoRows) | Some c \<Rightarrow> Inr c"
  have g: "g = map_sum (scan_err ''scanning code'') id (stmt_read (ev_pg V) d ?r)" "d' = next_stmt d"
    using assms(2) unfolding repo_GetByID_eq [OF assms(1)] by simp_all
  show ?thesis
  proof (cases g)
    case (Inl e)
    have "owned u (code_view d i) = None" if "errors_is e CodesErrNotFound"
      using stmt_read_not_found [OF g(1) [symmetric, unfolded Inl] that] by (simp split: option.splits)
    with Inl g(2) show ?thesis by simp
  next
    case (Inr c)
    have "stmt_read (ev_pg V) d ?r = Inr c"
      using g(1) [unfolded Inr] by (cases "stmt_read (ev_pg V) d ?r") simp_all
    then have "?r = Inr c" by (simp add: stmt_read_def split: pg_outcome.splits)
    with Inr g(2) show ?thesis by (simp split: option.splits)
  qed
qed

lemma resolve_law:
  assumes ok: "db_ok (ev_pg V) d" and run: "repo_ResolveSlug (ev_pg V) slug d = (r, d')"
  shows "d' = next_stmt d \<and>
    (case r of Inr x \<Rightarrow> slug_view d slug = Some x \<and> utf8_valid (fst x)
     | Inl e \<Rightarrow> errors_is e CodesErrNotFound \<longrightarrow> slug_view d slug = None)"
proof -
  let ?q = "if pg_text slug then (case slug_view d slug of None \<Rightarrow> Inl (Sentinel PgErrNoRows) | Some r \<Rightarrow> Inr r)
    else Inl (PgError invalid_encoding)"
  have g: "r = map_sum (scan_err ''resolving slug'') id (stmt_read (ev_pg V) d ?q)" "d' = next_stmt d"
    using run unfolding repo_ResolveSlug_eq [OF ok] by simp_all
  show ?thesis
  proof (cases r)
    case (Inl e)
    have "slug_view d slug = None" if "errors_is e CodesErrNotFound"
      using stmt_read_not_found [OF g(1) [symmetric, unfolded Inl] that] by (simp split: option.splits if_splits)
    with Inl g(2) show ?thesis by simp
  next
    case (Inr x)
    have "stmt_read (ev_pg V) d ?q = Inr x"
      using g(1) [unfolded Inr] by (cases "stmt_read (ev_pg V) d ?q") simp_all
    then have "?q = Inr x" unfolding stmt_read_def by (cases "pg_out (ev_pg V) (pg_tick d)") simp_all
    then have x: "slug_view d slug = Some x" by (cases "pg_text slug") (simp_all split: option.splits)
    then obtain row where row: "lookup dr_slug (t_dyn d) slug = Some row" "x = (dr_destination row, dr_code_id row)"
      unfolding slug_view_def by (cases "lookup dr_slug (t_dyn d) slug") simp_all
    have "row \<in> set (t_dyn d)" using row(1) by (rule lookup_mem)
    then have "utf8_valid (fst x)" using db_ok_texts [OF ok] row(2) by (simp add: dyn_texts_def pg_text_def)
    with Inr g(2) x show ?thesis by simp
  qed
qed

lemma write_law_lift:
  assumes "\<And>d. f (wd_db w) = (x, d) \<Longrightarrow> write_result (wd_db w) x present upd d"
    and "on_db f w = (x, w')" "sane w"
    and "\<And>d. upd d \<Longrightarrow> db_ok (ev_pg V) d \<and> U (w\<lparr>wd_db := d\<rparr>)"
    and "\<And>d. code_view d = held w \<Longrightarrow> slug_view d = leads w \<Longrightarrow> S (w\<lparr>wd_db := d\<rparr>)"
  shows "sane w' \<and> entries w' = entries w \<and> write_law x present (S w') (U w')"
proof -
  from assms(2) obtain d where d: "f (wd_db w) = (x, d)" "w' = w\<lparr>wd_db := d\<rparr>" by (auto simp: on_db_iff)
  note res = assms(1) [OF d(1)]
  have "db_ok (ev_pg V) d"
    using res by (rule write_result_ok) (use assms(3,4) in \<open>auto simp: sane_def\<close>)
  moreover have "write_law x present (S w') (U w')"
    using res by (rule write_result_law) (use assms(4,5) d(2) in \<open>auto simp: same_tables_views views\<close>)
  ultimately show ?thesis by (simp add: views d(2))
qed

lemma updateLabel_law:
  assumes "sane w" "on_db (repo_UpdateLabel (ev_pg V) u i label) w = (x, w')"
  shows "sane w' \<and> entries w' = entries w \<and> leads w' = leads w \<and>
    write_law x (owned u (held w i) \<noteq> None) (held w' = held w) (\<exists>t. held w' = set_label u i label t (held w))"
proof -
  let ?upd = "\<lambda>d. db_ok (ev_pg V) d \<and> slug_view d = leads w \<and> (\<exists>t. code_view d = set_label u i label t (held w))"
  have res: "write_result (wd_db w) x (owned u (held w i) \<noteq> None) ?upd d"
    if "repo_UpdateLabel (ev_pg V) u i label (wd_db w) = (x, d)" for d
    using repo_UpdateLabel_spec [OF _ pg that] assms(1) by (simp add: views)
  from assms(2) obtain d where "repo_UpdateLabel (ev_pg V) u i label (wd_db w) = (x, d)" "w' = w\<lparr>wd_db := d\<rparr>"
    by (auto simp: on_db_iff)
  with write_result_prop [OF res, of d "\<lambda>d. slug_view d = leads w"] have "leads w' = leads w"
    by (simp add: same_tables_views views)
  moreover have "sane w' \<and> entries w' = entries w \<and>
      write_law x (owned u (held w i) \<noteq> None) (held w' = held w) (\<exists>t. held w' = set_label u i label t (held w))"
    by (rule write_law_lift [OF res assms(2,1)]) (simp_all add: views)
  ultimately show ?thesis by simp
qed

lemma updateDestination_law:
  assumes "sane w" "on_db (repo_UpdateDestination (ev_pg V) i dest) w = (x, w')"
  shows "sane w' \<and> entries w' = entries w \<and>
    write_law x (has_dynamic (held w) i) (held w' = held w \<and> leads w' = leads w)
      (leads w' = set_slug_destination i dest (leads w) \<and> (\<exists>t. held w' = set_code_destination i dest t (held w)))"
proof -
  let ?upd = "\<lambda>d. db_ok (ev_pg V) d \<and> slug_view d = set_slug_destination i dest (leads w) \<and>
    (\<exists>t. code_view d = set_code_destination i dest t (held w))"
  have res: "write_result (wd_db w) x (has_dynamic (held w) i) ?upd d"
    if "repo_UpdateDestination (ev_pg V) i dest (wd_db w) = (x, d)" for d
    using repo_UpdateDestination_spec [OF _ pg that] assms(1) by (simp add: views)
  show ?thesis by (rule write_law_lift [OF res assms(2,1)]) (simp_all add: views)
qed

lemma delete_law:
  assumes "sane w" "on_db (repo_Delete (ev_pg V) u i) w = (x, w')"
  shows "sane w' \<and> entries w' = entries w \<and>
    write_law x (owned u (held w i) \<noteq> None) (held w' = held w \<and> leads w' = leads w)
      (held w' = drop_code u i (held w) \<and>
       leads w' = (if owned u (held w i) = None then leads w else drop_slugs i (leads w)))"
proof -
  let ?upd = "\<lambda>d. db_ok (ev_pg V) d \<and> code_view d = drop_code u i (held w) \<and>
    slug_view d = (if owned u (held w i) = None then leads w else drop_slugs i (leads w))"
  have res: "write_result (wd_db w) x (owned u (held w i) \<noteq> None) ?upd d"
    if "repo_Delete (ev_pg V) u i (wd_db w) = (x, d)" for d
    using repo_Delete_spec [OF assms(1) [unfolded sane_def] pg that] unfolding held_def leads_def .
  show ?thesis by (rule write_law_lift [OF res assms(2,1)]) (simp_all add: views)
qed

lemma createDynamic_law:
  assumes "sane w" "code_Type c = TypeURL" "rp_CreateDynamic (codes_repo (ev_pg V)) c slug dest w = ((eo, c1), w')"
  shows "sane w' \<and> entries w' = entries w \<and> same_input c c1 \<and>
    (case eo of
       None \<Rightarrow> dynamic_added (pg_jsonb (ev_pg V)) (held w) (leads w) c slug dest c1 (held w') (leads w')
     | Some e \<Rightarrow>
         if errors_is e ErrSlugTaken then held w' = held w \<and> leads w' = leads w \<and> leads w slug \<noteq> None
         else held w' = held w \<and> leads w' = leads w \<or>
           (\<exists>c2. dynamic_added (pg_jsonb (ev_pg V)) (held w) (leads w) c slug dest c2 (held w') (leads w')))"
proof -
  from assms(3) obtain d where d: "repo_CreateDynamic (ev_pg V) c slug dest (wd_db w) = ((eo, c1), d)" "w' = w\<lparr>wd_db := d\<rparr>"
    by (auto simp: codes_repo_ops on_db_iff)
  from repo_CreateDynamic_spec [OF _ pg assms(2) d(1)] assms(1)
  have "create_dynamic_result (ev_pg V) (wd_db w) c slug dest eo c1 d" by (simp add: views)
  with d(2) show ?thesis
    by (cases eo) (auto simp: create_dynamic_result_def created_dynamic_def same_tables_views views)
qed

end

sublocale backend \<subseteq> wc: redirect_cache "target_cache (ev_redis V)" entries
  by (rule world_cache)

sublocale backend \<subseteq> codes: codes_parts "codes_svc V" entries sane held leads owns scanned
  "pg_jsonb (ev_pg V)" "pg_collate (ev_pg V)"
proof -
  let ?S = "codes_svc V" and ?E = "ev_pg V"
  have repo: "cs_repo ?S = codes_repo ?E" by (simp add: codes_svc_def)
  show "codes_parts ?S entries sane held leads owns scanned (pg_jsonb ?E) (pg_collate ?E)"
  proof (intro codes_parts.intro codes_parts_axioms.intro)
    show "redirect_cache (cs_cache ?S) entries" by (simp add: codes_svc_def world_cache)
    fix w w' and u i :: uuid and c c1 :: code and slug dest :: string and limit :: int and eo x cur label n
    show "sane w \<Longrightarrow> ca_Invalidate (cs_cache ?S) slug w = (x, w') \<Longrightarrow>
        sane w' \<and> held w' = held w \<and> leads w' = leads w"
      by (auto simp: codes_svc_def cache_ops views)
    show "sane w \<Longrightarrow> cs_checker ?S = Some check \<Longrightarrow> check url w = (res, w') \<Longrightarrow>
        sane w' \<and> held w' = held w \<and> leads w' = leads w \<and> entries w' \<subseteq>\<^sub>m entries w" for check url res
      using checker_entries [of url w res w'] by (auto simp: codes_svc_def sane_def held_def leads_def)
    show "sane w \<Longrightarrow> cs_newSlug ?S w = (q, w') \<Longrightarrow>
        sane w' \<and> held w' = held w \<and> leads w' = leads w \<and> entries w' = entries w \<and>
        (\<forall>slug. q = Inr slug \<longrightarrow> slug_ok slug)" for q
      using new_slug_law [of w q w'] by (auto simp: codes_svc_def views)
    show "sane w \<Longrightarrow> \<not> code_IsDynamic c \<Longrightarrow> code_Dynamic c = None \<Longrightarrow> rp_Create (cs_repo ?S) c w = (r, w') \<Longrightarrow>
        sane w' \<and> leads w' = leads w \<and> entries w' = entries w \<and>
        (case r of Inr c' \<Rightarrow> static_added (pg_jsonb ?E) (held w) c c' (held w')
         | Inl e \<Rightarrow> held w' = held w \<or> (\<exists>c'. static_added (pg_jsonb ?E) (held w) c c' (held w')))" for r
      using repo_Create_spec [of ?E "wd_db w" c r] by (cases r) (auto simp: repo codes_repo_ops on_db_iff views)
    show "sane w \<Longrightarrow> code_Type c = TypeURL \<Longrightarrow> rp_CreateDynamic (cs_repo ?S) c slug dest w = ((eo, c1), w') \<Longrightarrow>
        sane w' \<and> entries w' = entries w \<and> same_input c c1 \<and>
        (case eo of
           None \<Rightarrow> dynamic_added (pg_jsonb ?E) (held w) (leads w) c slug dest c1 (held w') (leads w')
         | Some e \<Rightarrow>
             if errors_is e ErrSlugTaken then held w' = held w \<and> leads w' = leads w \<and> leads w slug \<noteq> None
             else held w' = held w \<and> leads w' = leads w \<or>
               (\<exists>c2. dynamic_added (pg_jsonb ?E) (held w) (leads w) c slug dest c2 (held w') (leads w')))"
      unfolding repo by (rule createDynamic_law)
    show "sane w \<Longrightarrow> rp_GetByID (cs_repo ?S) u i w = (g, w') \<Longrightarrow>
        sane w' \<and> held w' = held w \<and> leads w' = leads w \<and> entries w' = entries w \<and> scanned w' = scanned w \<and>
        (case g of Inr c \<Rightarrow> owned u (held w i) = Some c
         | Inl e \<Rightarrow> errors_is e CodesErrNotFound \<longrightarrow> owned u (held w i) = None)" for g
      using getByID_law [of "wd_db w" u i g] by (cases g) (auto simp: repo codes_repo_ops on_db_iff views)
    show "sane w \<Longrightarrow> 0 \<le> limit \<Longrightarrow> rp_List (cs_repo ?S) u cur limit w = (l, w') \<Longrightarrow>
        sane w' \<and> held w' = held w \<and> leads w' = leads w \<and> entries w' = entries w \<and> owns w' = owns w \<and>
        (\<forall>items. l = Inr items \<longrightarrow> items = take (nat limit) (filter (before_cursor cur) (owns w u)))" for l
      using repo_List_eq [of ?E "wd_db w" limit u cur]
      by (auto simp: repo codes_repo_ops on_db_iff views fun_eq_iff split: pg_outcome.splits)
    show "sane w \<Longrightarrow> sorted_wrt (\<lambda>a b. code_cursor b < code_cursor a) (owns w u) \<and>
        set (owns w u) = {c. \<exists>i. owned u (held w i) = Some c}"
      using user_codes_sorted [of ?E "wd_db w" u] user_codes_view [of ?E "wd_db w" _ u] by (auto simp: views)
    show "sane w \<Longrightarrow> rp_UpdateLabel (cs_repo ?S) u i label w = (x, w') \<Longrightarrow>
        sane w' \<and> entries w' = entries w \<and> leads w' = leads w \<and>
        write_law x (owned u (held w i) \<noteq> None) (held w' = held w) (\<exists>t. held w' = set_label u i label t (held w))"
      unfolding repo codes_repo_ops by (rule updateLabel_law)
    show "sane w \<Longrightarrow> rp_UpdateDestination (cs_repo ?S) i dest w = (x, w') \<Longrightarrow>
        sane w' \<and> entries w' = entries w \<and>
        write_law x (has_dynamic (held w) i) (held w' = held w \<and> leads w' = leads w)
          (leads w' = set_slug_destination i dest (leads w) \<and>
           (\<exists>t. held w' = set_code_destination i dest t (held w)))"
      unfolding repo codes_repo_ops by (rule updateDestination_law)
    show "sane w \<Longrightarrow> rp_Delete (cs_repo ?S) u i w = (x, w') \<Longrightarrow>
        sane w' \<and> entries w' = entries w \<and>
        write_law x (owned u (held w i) \<noteq> None) (held w' = held w \<and> leads w' = leads w)
          (held w' = drop_code u i (held w) \<and>
           leads w' = (if owned u (held w i) = None then leads w else drop_slugs i (leads w)))"
      unfolding repo codes_repo_ops by (rule delete_law)
    show "sane w \<Longrightarrow> rp_ScanCounts (cs_repo ?S) slug w = (k, w') \<Longrightarrow>
        sane w' \<and> held w' = held w \<and> leads w' = leads w \<and> entries w' = entries w \<and> scanned w' = scanned w \<and>
        (\<forall>v. k = Inr v \<longrightarrow> v = counts_of (scanned w slug))" for k
      by (auto simp: repo codes_repo_ops on_db_iff views dest: repo_ScanCounts_spec)
    show "sane w \<Longrightarrow> rp_ScanDaily (cs_repo ?S) slug w = (y, w') \<Longrightarrow>
        sane w' \<and> held w' = held w \<and> leads w' = leads w \<and> entries w' = entries w \<and> scanned w' = scanned w \<and>
        (\<forall>v. y = Inr v \<longrightarrow> v = daily_of (scanned w slug))" for y
      by (auto simp: repo codes_repo_ops on_db_iff views dest: repo_ScanDaily_spec)
    show "sane w \<Longrightarrow> rp_ScanTopUserAgents (cs_repo ?S) slug n w = (z, w') \<Longrightarrow>
        sane w' \<and> held w' = held w \<and> leads w' = leads w \<and> entries w' = entries w \<and> scanned w' = scanned w \<and>
        (\<forall>v. z = Inr v \<longrightarrow> v = take n (ranked_agents (pg_collate ?E) (scanned w slug)))" for z
      by (auto simp: repo codes_repo_ops on_db_iff views dest: repo_ScanTopUserAgents_spec)
    show "sane w \<Longrightarrow> held w i = Some c \<Longrightarrow> code_Dynamic c = Some dyn \<Longrightarrow>
        leads w (dyn_Slug dyn) = Some (dyn_Destination dyn, i)" for dyn
      unfolding views by (rule view_slugs)
    show "sane w \<Longrightarrow> leads w s = Some (d, i) \<Longrightarrow>
        \<exists>c dyn. held w i = Some c \<and> code_IsDynamic c \<and> code_Dynamic c = Some dyn \<and> dyn_Slug dyn = s" for s d
      unfolding views by (rule slugs_view)
    show "sane w \<Longrightarrow> held w i = Some c \<Longrightarrow> code_ID c = i"
      unfolding views by (rule code_view_ID)
  qed
qed

sublocale backend \<subseteq> pages: codes_pages "codes_svc V" entries sane held leads owns scanned
  "pg_jsonb (ev_pg V)" "pg_collate (ev_pg V)"
  by unfold_locales (simp_all add: codes_svc_def parse_string string_chars)

subsection \<open>The other services\<close>

context backend
begin

definition verdicts_of :: "'r world \<Rightarrow> string \<Rightarrow> safety_result option" where
  "verdicts_of w = judged (wd_redis w)"

definition people :: "'r world \<Rightarrow> uuid \<Rightarrow> user option" where
  "people w = user_view (wd_db w)"

lemma users_repo_ops:
  "ar_Create (users_repo E) u = on_db (users_Create E u)"
  "ar_GetByID (users_repo E) i = on_db (users_GetByID E i)"
  "ar_GetByEmail (users_repo E) em = on_db (users_GetByEmail E em)"
  "ar_Update (users_repo E) u = on_db (users_Update E u)"
  by (simp_all add: users_repo_def)

lemma slug_repo_ops:
  "sr_ResolveSlug (slug_repo E) slug = on_db (repo_ResolveSlug E slug)"
  "sr_InsertScanEvent (slug_repo E) e = on_db (repo_InsertScanEvent E e)"
  by (simp_all add: slug_repo_def)

lemma uuid_char_ascii: "list_all uuid_char s \<Longrightarrow> is_ascii s"
proof -
  have "byte c < 128" if "uuid_char c" for c
  proof (rule ccontr)
    assume "\<not> byte c < 128"
    then have "hex_val c = None" "c \<noteq> CHR ''-''" by (auto simp: hex_val_def is_digit_def byte_def)
    with that show False by (simp add: uuid_char_def is_hex_def)
  qed
  then show "list_all uuid_char s \<Longrightarrow> is_ascii s" by (auto simp: is_ascii_def list_all_iff)
qed

end

sublocale backend \<subseteq> wv: verdict_cache "ss_cache (safety_svc V)" safetyKey verdicts_of
proof
  fix u w w' x e and r :: "err + safety_result option"
  show "sc_Get (ss_cache (safety_svc V)) u w = (r, w') \<Longrightarrow>
      verdicts_of w' \<subseteq>\<^sub>m verdicts_of w \<and> (\<forall>x. r = Inr (Some x) \<longrightarrow> verdicts_of w u = Some x)"
    using vc.get [of u "wd_redis w" r "wd_redis w'"]
    by (auto simp: safety_svc_def redis_safety_cache_def verdicts_of_def on_redis_iff)
  show "sc_Set (ss_cache (safety_svc V)) u x w = (e, w') \<Longrightarrow> result_text x \<Longrightarrow>
      verdicts_of w' \<subseteq>\<^sub>m (\<lambda>v. if safetyKey v = safetyKey u then Some x else verdicts_of w v) \<or>
      verdicts_of w' \<subseteq>\<^sub>m verdicts_of w"
    unfolding verdicts_of_def using vc.set [of u x "wd_redis w" e "wd_redis w'"]
    by (auto simp: safety_svc_def redis_safety_cache_def on_redis_iff)
qed

sublocale backend \<subseteq> redirect: redirect_parts "redirect_svc V" entries leads sane
proof
  fix w w' slug t e q and r :: "err + string \<times> uuid" and i
  have C: "rs_cache (redirect_svc V) = target_cache (ev_redis V)" and R: "rs_repo (redirect_svc V) = slug_repo (ev_pg V)"
    by (simp_all add: redirect_svc_def)
  show "ca_Lookup (rs_cache (redirect_svc V)) slug w = (l, w') \<Longrightarrow>
      entries w' \<subseteq>\<^sub>m entries w \<and> (\<forall>t. l = Inr (Some t) \<longrightarrow> entries w slug = Some t)" for l
    unfolding C by (rule wc.lookup)
  show "ca_Store (rs_cache (redirect_svc V)) slug t w = (x, w') \<Longrightarrow> target_text t \<Longrightarrow>
      entries w' \<subseteq>\<^sub>m (entries w)(slug \<mapsto> t) \<or> entries w' \<subseteq>\<^sub>m entries w" for x
    unfolding C by (rule wc.store)
  show "ca_Invalidate (rs_cache (redirect_svc V)) slug w = (x, w') \<Longrightarrow>
      entries w' \<subseteq>\<^sub>m entries w \<and> (x = None \<longrightarrow> entries w' slug = None)" for x
    unfolding C by (rule wc.invalidate)
  show "sane w \<Longrightarrow> sane (snd (ca_Lookup (rs_cache (redirect_svc V)) slug w)) \<and>
      leads (snd (ca_Lookup (rs_cache (redirect_svc V)) slug w)) = leads w"
    unfolding C by (auto simp: target_cache_def on_redis_def sane_def leads_def split: prod.splits)
  show "sane w \<Longrightarrow> sane (snd (ca_Store (rs_cache (redirect_svc V)) slug t w)) \<and>
      leads (snd (ca_Store (rs_cache (redirect_svc V)) slug t w)) = leads w"
    unfolding C by (auto simp: target_cache_def on_redis_def sane_def leads_def split: prod.splits)
  show "sane w \<Longrightarrow> sr_ResolveSlug (rs_repo (redirect_svc V)) slug w = (r, w') \<Longrightarrow>
      sane w' \<and> leads w' = leads w \<and> entries w' = entries w \<and>
      (case r of Inr x \<Rightarrow> leads w slug = Some x \<and> utf8_valid (fst x)
       | Inl e \<Rightarrow> errors_is e CodesErrNotFound \<longrightarrow> leads w slug = None)"
    using resolve_law [of "wd_db w" slug r]
    by (cases r) (auto simp: R slug_repo_ops on_db_iff sane_def leads_def entries_def)
  show "sane w \<Longrightarrow> sr_InsertScanEvent (rs_repo (redirect_svc V)) e w = (q, w') \<Longrightarrow>
      sane w' \<and> leads w' = leads w \<and> entries w' = entries w"
    using repo_InsertScanEvent_spec [of "ev_pg V" "wd_db w" e q]
    by (auto simp: R slug_repo_ops on_db_iff sane_def leads_def entries_def)
  show "utf8_valid (uuid_String (rs_uuid (redirect_svc V)) i)"
    using ascii_utf8 [OF uuid_char_ascii [OF string_chars]] by (simp add: redirect_svc_def)
qed

text \<open>The secret and the lifetime of the tokens come from the configuration.\<close>

locale app = backend V data clock bears
  for V :: "'r env" and data clock bears + fixes cfg :: config

sublocale app \<subseteq> auth: auth_parts "auth_svc V cfg" bears sane people "pg_citext (ev_pg V)"
proof -
  let ?S = "auth_svc V cfg" and ?E = "ev_pg V"
  have repo: "as_repo ?S = users_repo ?E" by (simp add: auth_svc_def)
  have db: "sane w \<Longrightarrow> db_ok ?E (wd_db w)" for w by (simp add: sane_def)
  note ops = repo users_repo_ops on_db_iff sane_def people_def
  show "auth_parts ?S bears sane people (pg_citext ?E)"
  proof (intro auth_parts.intro tokens.intro auth_parts_axioms.intro)
    show "jwt_laws (tm_jwt (as_tokens ?S)) bears" "uuid_laws (tm_uuid (as_tokens ?S))" "argon2_laws (as_argon2 ?S)"
      by (simp_all add: auth_svc_def token_mgr_def jwt_laws_axioms uuid_laws_axioms argon2_laws_axioms)
    fix w w' :: "'r world" and u :: user and i j em x
    show "sane w \<Longrightarrow> ar_Create (as_repo ?S) u w = (r, w') \<Longrightarrow> user_Email u = None \<Longrightarrow>
        sane w' \<and> (case r of Inr u' \<Rightarrow> created_user (people w) u u' (people w')
          | Inl e \<Rightarrow> people w' = people w \<or> (\<exists>u'. created_user (people w) u u' (people w')))" for r
      using users_Create_spec [of ?E u "wd_db w" r] users_Create_db_ok [OF db, of w u]
      by (cases r) (auto simp: ops)
    show "sane w \<Longrightarrow> ar_GetByID (as_repo ?S) i w = (r, w') \<Longrightarrow>
        sane w' \<and> people w' = people w \<and>
        (case r of Inr u \<Rightarrow> people w i = Some u | Inl e \<Rightarrow> errors_is e UsersErrNotFound \<longrightarrow> people w i = None)" for r
      using users_GetByID_spec [OF db pg, of w i r] users_GetByID_db_ok [OF db, of w i]
      by (cases r) (auto simp: ops)
    show "sane w \<Longrightarrow> ar_GetByEmail (as_repo ?S) em w = (r, w') \<Longrightarrow>
        sane w' \<and> people w' = people w \<and>
        (case r of Inr u \<Rightarrow> people w (user_ID u) = Some u \<and> email_of (pg_citext ?E) u = Some (pg_citext ?E em)
         | Inl e \<Rightarrow> errors_is e UsersErrNotFound \<longrightarrow>
             (\<forall>i u. people w i = Some u \<longrightarrow> email_of (pg_citext ?E) u \<noteq> Some (pg_citext ?E em)))" for r
      using users_GetByEmail_spec [OF db pg, of w em r] users_GetByEmail_db_ok [OF db, of w em]
      by (cases r) (auto simp: ops email_of_key)
    show "sane w \<Longrightarrow> ar_Update (as_repo ?S) u w = (r, w') \<Longrightarrow>
        sane w' \<and> (case r of Inr u' \<Rightarrow> saved_user (people w) u u' (people w')
          | Inl e \<Rightarrow> people w' = people w \<or>
              \<not> errors_is e ErrEmailTaken \<and> (\<exists>u'. saved_user (people w) u u' (people w')))" for r
      using users_Update_spec [OF db pg, of w u r] users_Update_db_ok [OF db, of w u]
      by (cases r) (auto simp: ops)
    show "sane w \<Longrightarrow> as_rand ?S n w = (q, w') \<Longrightarrow> sane w' \<and> people w' = people w" for n q
      by (auto simp: auth_svc_def read_random_def sane_def people_def)
    show "sane w \<Longrightarrow> people w i = Some u \<Longrightarrow> user_ID u = i"
      by (simp add: people_def user_view_Some [OF db])
    show "sane w \<Longrightarrow> people w i = Some u \<Longrightarrow> people w j = Some v \<Longrightarrow> email_of (pg_citext ?E) u = Some k \<Longrightarrow>
        email_of (pg_citext ?E) v = Some k \<Longrightarrow> i = j" for v k
      unfolding people_def email_of_key by (rule user_view_unique_email [OF db])
  qed
qed

end
