(* ===== verification/Sample.thy ===== *)
theory Sample
  imports Backend
begin

text \<open>
  A concrete backend: the sample servers and libraries of the other theories, which meet every contract
  (the interpretation below), and a world with two users and one dynamic code.
\<close>

definition sample_qrcode :: qrcode where
  "sample_qrcode content level sz = Inr (''png '' @ content)"

definition sample_backend :: "mem env" where
  "sample_backend =
     \<lparr>ev_pg = sample_env, ev_redis = mem_redis sample_mem_env,
      ev_random = (\<lambda>i n. Inr (replicate n (char_of (48 + i mod 10)))),
      ev_uuid = canonical_uuid, ev_jwt = open_jwt, ev_argon2 = sample_argon2, ev_validator = sample_validator,
      ev_qrcode = sample_qrcode, ev_lower = (\<lambda>s. s), ev_pool = (\<lambda>_. None),
      ev_chi = sample_chi, ev_cors = sample_cors\<rparr>"

definition sample_config :: config where
  "sample_config =
     \<lparr>cfg_Port = ''8080'', cfg_Env = ''development'', cfg_PublicBaseURL = ''http://q.r/'',
      cfg_DatabaseURL = ''postgres://db'', cfg_RedisAddr = ''localhost:6379'', cfg_RedisPassword = [], cfg_RedisDB = 0,
      cfg_JWTSecret = ''0123456789abcdef'', cfg_JWTTTL = 3600 * 10 ^ 9, cfg_RateLimitRPM = 2,
      cfg_CORSAllowedOrigins = [''http://localhost:3000'']\<rparr>"

definition sample_world :: "mem world" where
  "sample_world =
     \<lparr>wd_db = sample_db, wd_redis = sample_mem, wd_reads = 0, wd_now = 0, wd_log = [], wd_jobs = []\<rparr>"

lemma sample_backend_simps [simp]:
  "ev_pg sample_backend = sample_env" "ev_redis sample_backend = mem_redis sample_mem_env"
  "ev_uuid sample_backend = canonical_uuid" "ev_jwt sample_backend = open_jwt"
  "ev_argon2 sample_backend = sample_argon2" "ev_validator sample_backend = sample_validator"
  "ev_qrcode sample_backend = sample_qrcode" "ev_lower sample_backend = (\<lambda>s. s)"
  "ev_chi sample_backend = sample_chi" "ev_cors sample_backend = sample_cors" "ev_pool sample_backend = (\<lambda>_. None)"
  "ev_random sample_backend i n = Inr (replicate n (char_of (48 + i mod 10)))"
  by (simp_all add: sample_backend_def)

lemma sample_world_simps [simp]:
  "wd_db sample_world = sample_db" "wd_redis sample_world = sample_mem" "wd_reads sample_world = 0"
  "wd_now sample_world = 0" "wd_log sample_world = []" "wd_jobs sample_world = []"
  by (simp_all add: sample_world_def)

lemma sample_backend_ok: "backend sample_backend mem_data mem_clock open_bears"
proof (intro backend.intro backend_axioms.intro)
  show "redis_server (ev_redis sample_backend) mem_data mem_clock" by (simp add: sample_redis.redis_server_axioms)
  show "uuid_laws (ev_uuid sample_backend)" by (simp add: canonical.uuid_laws_axioms)
  show "jwt_laws (ev_jwt sample_backend) open_bears" by (simp add: open_jwt.jwt_laws_axioms)
  show "argon2_laws (ev_argon2 sample_backend)" by (simp add: sample_argon2.argon2_laws_axioms)
  show "pg_ok (ev_pg sample_backend)" by (simp add: pg_ok_sample)
  show "ev_random sample_backend i n = Inr b \<Longrightarrow> length b = n" for i n b by auto
qed

interpretation sample: app sample_backend mem_data mem_clock open_bears sample_config
  by (intro app.intro sample_backend_ok)

text \<open>The sample server answers every command, one tick of its clock later.\<close>

lemma sample_get [simp]: "rd_Get (mem_redis sample_mem_env) k s =
  (let t = mem_clock s + 1 in
   (case live t (mem_data s) k of None \<Rightarrow> Inl (Sentinel RedisNil) | Some v \<Rightarrow> Inr v,
    s\<lparr>mem_clock := t, mem_tick := Suc (mem_tick s)\<rparr>))"
  by (simp add: mem_defs sample_mem_env_def)

lemma sample_set [simp]: "rd_Set (mem_redis sample_mem_env) k v d s =
  (let t = mem_clock s + 1 in
   (None, s\<lparr>mem_clock := t, mem_tick := Suc (mem_tick s), mem_data := (mem_data s)(k \<mapsto> (v, Some (t + d)))\<rparr>))"
  by (simp add: mem_defs sample_mem_env_def)

text \<open>A URL without a cached verdict is judged by the checker.\<close>

lemma fresh_check:
  "live (mem_clock (wd_redis w) + 1) (mem_data (wd_redis w)) (safetyKey u) = None \<Longrightarrow>
   \<exists>s. safety_Check (safety_svc sample_backend) u w =
     (Inr (Check (\<lambda>s. s) NewHeuristicChecker u), w\<lparr>wd_redis := s\<rparr>)"
  by (simp add: safety_Check_def safety_svc_def on_redis_def safety_Get_def Let_def split: prod.split) blast

lemma fresh_guard:
  "live (mem_clock (wd_redis w) + 1) (mem_data (wd_redis w)) (safetyKey u) = None \<Longrightarrow>
   sr_Verdict (Check (\<lambda>s. s) NewHeuristicChecker u) \<noteq> VerdictMalicious \<Longrightarrow>
   \<exists>s. guardDestination (codes_svc sample_backend) u w = (None, w\<lparr>wd_redis := s\<rparr>)"
  using fresh_check [of w u] by (auto simp: guardDestination_def codes_svc_def)

lemma sample_del [simp]: "rd_Del (mem_redis sample_mem_env) k s =
  (let t = mem_clock s + 1 in
   (None, s\<lparr>mem_clock := t, mem_tick := Suc (mem_tick s), mem_data := (mem_data s)(k := None)\<rparr>))"
  by (simp add: mem_defs sample_mem_env_def)

lemma sample_mem_empty [simp]: "live t (mem_data sample_mem) k = None"
  by (simp add: sample_mem_def live_def)

end
