(* ===== verification/Frames.thy ===== *)
theory Frames
  imports Backend
begin

text \<open>
  What the operations of a component leave alone: the codes repository and service the users and the
  scans, the users repository and the auth service the codes, the redirect service all tables.
\<close>

text \<open>Two states of the tables with the same codes.\<close>

definition same_codes :: "db \<Rightarrow> db \<Rightarrow> bool" where
  "same_codes d d' \<longleftrightarrow> code_view d' = code_view d \<and> slug_view d' = slug_view d"

lemma same_codes_refl [simp]: "same_codes d d"
  by (simp add: same_codes_def)

subsection \<open>Statements\<close>

definition keeps :: "('w \<Rightarrow> 'x) \<Rightarrow> ('w \<Rightarrow> 'r \<times> 'w) \<Rightarrow> bool" where
  "keeps f act \<longleftrightarrow> (\<forall>w. f (snd (act w)) = f w)"

lemma keepsI: "(\<And>w. f (snd (act w)) = f w) \<Longrightarrow> keeps f act"
  by (simp add: keeps_def)

lemma keepsD: "keeps f act \<Longrightarrow> act w = (r, w') \<Longrightarrow> f w' = f w"
  unfolding keeps_def by (metis snd_conv)

text \<open>\<open>table_frame f\<close>: a part of the tables that the numbering of statements is no part of.\<close>

definition table_frame :: "(db \<Rightarrow> 'x) \<Rightarrow> bool" where
  "table_frame f \<longleftrightarrow> (\<forall>d n. f (d\<lparr>pg_tick := n\<rparr>) = f d)"

lemma run_stmt_keeps:
  assumes "table_frame f" "\<And>n d. f (snd (st n d)) = f d"
  shows "f (snd (run_stmt E st d)) = f d"
  using assms by (simp add: run_stmt_def Let_def table_frame_def split: pg_outcome.split)

lemma run_query_keeps: "table_frame f \<Longrightarrow> f (snd (run_query E q a b d)) = f d"
  by (simp add: run_query_def Let_def table_frame_def split: pg_outcome.split sum.split)

lemma with_text_keeps: "(\<And>n d. f (snd (st n d)) = f d) \<Longrightarrow> f (snd (with_text ts st n d)) = f d"
  by (simp add: with_text_def refuse_def)

lemma refuse_keeps: "f (snd (refuse c n d)) = f d"
  by (simp add: refuse_def)

lemma affected_snd [simp]: "snd (affected m r) = snd r"
  by (simp add: affected_def split: prod.split sum.split)

text \<open>The tables of the users and the scans; the tables of the codes; all but the scans.\<close>

definition people_tables :: "db \<Rightarrow> user list \<times> scan_event list" where
  "people_tables d = (t_users d, t_scans d)"

definition code_tables :: "db \<Rightarrow> code_row list \<times> dyn_row list \<times> scan_event list" where
  "code_tables d = (t_codes d, t_dyn d, t_scans d)"

definition main_tables :: "db \<Rightarrow> user list \<times> code_row list \<times> dyn_row list" where
  "main_tables d = (t_users d, t_codes d, t_dyn d)"

lemma table_frames: "table_frame people_tables" "table_frame code_tables" "table_frame main_tables"
  by (simp_all add: table_frame_def people_tables_def code_tables_def main_tables_def)

lemma code_tables_views: "code_tables d' = code_tables d \<Longrightarrow> same_codes d d'"
  unfolding code_tables_def same_codes_def by (auto intro: code_view_same slug_view_same)

lemma main_tables_views: "main_tables d' = main_tables d \<Longrightarrow> same_codes d d' \<and> user_view d' = user_view d"
  unfolding main_tables_def same_codes_def
  by (auto simp: user_view_def intro: code_view_same slug_view_same)

lemma people_tables_view: "people_tables d' = people_tables d \<Longrightarrow> user_view d' = user_view d"
  by (simp add: people_tables_def user_view_def)

subsection \<open>Repositories\<close>

lemma read_keeps [simp]: "table_frame f \<Longrightarrow> f (snd (run_stmt E (\<lambda>n d. (q n d, d)) d)) = f d"
  by (rule run_stmt_keeps) simp_all

lemma text_read_keeps: "table_frame f \<Longrightarrow> f (snd (run_stmt E (with_text ts (\<lambda>n d. (q n d, d))) d)) = f d"
  by (rule run_stmt_keeps, assumption, rule with_text_keeps) simp

lemma codes_repo_reads:
  assumes f: "table_frame f"
  shows "f (snd (repo_GetByID E u i d)) = f d" "f (snd (repo_List E u cur limit d)) = f d"
    "f (snd (repo_ResolveSlug E slug d)) = f d" "f (snd (repo_ScanCounts E slug d)) = f d"
    "f (snd (repo_ScanDaily E slug d)) = f d" "f (snd (repo_ScanTopUserAgents E slug n d)) = f d"
    "f (snd (ping_db E d)) = f d"
proof -
  show "f (snd (repo_GetByID E u i d)) = f d"
    using read_keeps [OF f, of E "\<lambda>n. select_code u i" d]
    by (auto simp: repo_GetByID_def split: prod.split sum.split)
  show "f (snd (repo_List E u cur limit d)) = f d"
    using run_query_keeps [OF f, of E "select_page u cur limit" "''querying codes''" "''iterating codes''" d]
    by (auto simp: repo_List_def split: prod.split sum.split)
  show "f (snd (repo_ResolveSlug E slug d)) = f d"
    using text_read_keeps [OF f, of E "[Some slug]" "\<lambda>n. select_slug slug" d]
    by (auto simp: repo_ResolveSlug_def split: prod.split sum.split)
  show "f (snd (repo_ScanCounts E slug d)) = f d"
    using text_read_keeps [OF f, of E "[Some slug]" "\<lambda>n d. Inr (select_counts slug d)" d]
    by (auto simp: repo_ScanCounts_def split: prod.split sum.split)
  show "f (snd (repo_ScanDaily E slug d)) = f d" "f (snd (repo_ScanTopUserAgents E slug n d)) = f d"
    unfolding repo_ScanDaily_def repo_ScanTopUserAgents_def by (simp_all add: run_query_keeps [OF f])
  show "f (snd (ping_db E d)) = f d"
    using read_keeps [OF f, of E "\<lambda>n d. Inr ()" d] by (auto simp: ping_db_def split: prod.split sum.split)
qed

lemma stmt_people:
  "people_tables (snd (insert_code_stmt E c dyn now n d)) = people_tables d"
  "people_tables (snd (insert_dyn_stmt i slug dest now n d)) = people_tables d"
  "people_tables (snd (update_label_stmt E u i label n d)) = people_tables d"
  "people_tables (snd (update_destination_stmt E i dest n d)) = people_tables d"
  "people_tables (snd (delete_code_stmt u i n d)) = people_tables d"
  by (simp_all add: people_tables_def insert_code_stmt_def insert_dyn_stmt_def update_label_stmt_def
      update_destination_stmt_def delete_code_stmt_def Let_def split: option.split)

lemma run_people:
  assumes "\<And>n d. people_tables (snd (st n d)) = people_tables d"
  shows "people_tables (snd (run_stmt E (with_text ts st) d)) = people_tables d"
    "people_tables (snd (run_stmt E st d)) = people_tables d"
  by (intro run_stmt_keeps table_frames with_text_keeps assms)+

lemma repo_Create_people: "people_tables (snd (repo_Create E c d)) = people_tables d"
proof -
  have "people_tables (snd (run_stmt E (with_text (code_texts c)
      (\<lambda>n. insert_code_stmt E c (code_IsDynamic c) (pg_now E n) n)) d)) = people_tables d"
    by (rule run_people) (rule stmt_people)
  then show ?thesis by (auto simp: repo_Create_def split: prod.split sum.split)
qed

lemma rollback_people: "people_tables (rollback_to d0 d) = people_tables d0"
  by (simp add: rollback_to_def people_tables_def)

lemma commit_people: "people_tables d = people_tables d0 \<Longrightarrow> people_tables (snd (commit_tx E d0 d)) = people_tables d0"
  by (simp add: commit_tx_def Let_def people_tables_def rollback_to_def split: pg_outcome.split)

lemma repo_CreateDynamic_people: "people_tables (snd (repo_CreateDynamic E c slug dest d)) = people_tables d"
proof -
  obtain q1 d1 where q1: "run_stmt E (\<lambda>n d. (Inr (pg_now E n), d)) d = (q1, d1)" by (rule prod.exhaust)
  have p1: "people_tables d1 = people_tables d"
    using read_keeps [OF table_frames(1), of E "\<lambda>n d. Inr (pg_now E n)" d] q1 by simp
  show ?thesis
  proof (cases q1)
    case (Inl e)
    with q1 p1 show ?thesis by (simp add: repo_CreateDynamic_def)
  next
    case (Inr now)
    obtain q2 d2 where q2: "run_stmt E (with_text (code_texts c) (insert_code_stmt E c True now)) d1 = (q2, d2)"
      by (rule prod.exhaust)
    have p2: "people_tables d2 = people_tables d1"
      using run_people(1) [of "insert_code_stmt E c True now" E "code_texts c" d1] q2 by (simp add: stmt_people)
    show ?thesis
    proof (cases q2)
      case Inl': (Inl e)
      with q1 Inr q2 p1 show ?thesis by (simp add: repo_CreateDynamic_def rollback_people)
    next
      case ids: (Inr ids)
      obtain i cr up where i: "ids = (i, cr, up)" by (rule prod_cases3)
      obtain q3 d3 where q3: "run_stmt E (with_text [Some slug, Some dest] (insert_dyn_stmt i slug dest now)) d2 = (q3, d3)"
        by (rule prod.exhaust)
      have p3: "people_tables d3 = people_tables d2"
        using run_people(1) [of "insert_dyn_stmt i slug dest now" E "[Some slug, Some dest]" d2] q3 by (simp add: stmt_people)
      show ?thesis
      proof (cases q3)
        case Inl'': (Inl e)
        with q1 Inr q2 ids i q3 p1 show ?thesis by (simp add: repo_CreateDynamic_def rollback_people Let_def)
      next
        case du: (Inr du)
        have "people_tables d3 = people_tables d1" using p2 p3 by simp
        then have "people_tables (snd (commit_tx E d1 d3)) = people_tables d" using p1 by (simp add: commit_people)
        with q1 Inr q2 ids i q3 du show ?thesis
          by (auto simp: repo_CreateDynamic_def Let_def split: prod.split option.split)
      qed
    qed
  qed
qed

lemma codes_repo_people:
  "people_tables (snd (repo_UpdateLabel E u i label d)) = people_tables d"
  "people_tables (snd (repo_UpdateDestination E i dest d)) = people_tables d"
  "people_tables (snd (repo_Delete E u i d)) = people_tables d"
  by (simp_all add: repo_UpdateLabel_def repo_UpdateDestination_def repo_Delete_def run_people stmt_people)

lemma users_repo_codes:
  "code_tables (snd (users_Create E u d)) = code_tables d" "code_tables (snd (users_GetByID E i d)) = code_tables d"
  "code_tables (snd (users_GetByEmail E em d)) = code_tables d" "code_tables (snd (users_Update E u d)) = code_tables d"
proof -
  have st: "code_tables (snd (insert_user_stmt E u n d)) = code_tables d"
    "code_tables (snd (select_user_stmt P n d)) = code_tables d" "code_tables (snd (update_user_stmt E u n d)) = code_tables d"
    for n d P
    by (simp_all add: code_tables_def insert_user_stmt_def select_user_stmt_def update_user_stmt_def Let_def split: list.split)
  note run = run_stmt_keeps [OF table_frames(2), of _ E d]
  show "code_tables (snd (users_Create E u d)) = code_tables d"
    using run [of "with_text [user_Email u, user_PasswordHash u] (insert_user_stmt E u)"]
    by (auto simp: users_Create_def with_text_keeps st split: prod.split sum.split)
  show "code_tables (snd (users_GetByID E i d)) = code_tables d"
    using run [of "select_user_stmt (\<lambda>u. user_ID u = i)"]
    by (auto simp: users_GetByID_def st split: prod.split sum.split)
  show "code_tables (snd (users_GetByEmail E em d)) = code_tables d"
    using run [of "with_text [Some em] (select_user_stmt (\<lambda>u. email_key E u = Some (pg_citext E em)))"]
    by (auto simp: users_GetByEmail_def with_text_keeps st split: prod.split sum.split)
  show "code_tables (snd (users_Update E u d)) = code_tables d"
    using run [of "with_text [user_Email u, user_PasswordHash u] (update_user_stmt E u)"]
    by (auto simp: users_Update_def with_text_keeps st split: prod.split sum.split)
qed

lemma insert_scan_main: "main_tables (snd (repo_InsertScanEvent E e d)) = main_tables d"
proof -
  have "main_tables (snd (run_stmt E (with_text ts (insert_scan_stmt E e)) d)) = main_tables d" for ts
    by (intro run_stmt_keeps table_frames with_text_keeps) (simp add: main_tables_def insert_scan_stmt_def Let_def)
  from this [of "[Some (scan_Slug e), scan_IPHash e, scan_UserAgent e]"]
  show ?thesis by (auto simp: repo_InsertScanEvent_def split: prod.split sum.split)
qed


subsection \<open>Services\<close>

text \<open>
  What every step of the parts of the codes service does to a state, a reflexive and transitive relation,
  the service does; the checker may be asked only for certain URLs.
\<close>

locale codes_steps =
  fixes S :: "'w codes_service" and R :: "'w \<Rightarrow> 'w \<Rightarrow> bool" and U :: "string \<Rightarrow> bool"
  assumes refl: "R w w"
    and trans: "R w w' \<Longrightarrow> R w' w'' \<Longrightarrow> R w w''"
    and create: "rp_Create (cs_repo S) c w = (r, w') \<Longrightarrow> R w w'"
    and create_dynamic: "rp_CreateDynamic (cs_repo S) c slug dest w = (p, w') \<Longrightarrow> R w w'"
    and get_by_id: "rp_GetByID (cs_repo S) u i w = (r, w') \<Longrightarrow> R w w'"
    and list_codes: "rp_List (cs_repo S) u cur limit w = (l, w') \<Longrightarrow> R w w'"
    and update_label: "rp_UpdateLabel (cs_repo S) u i label w = (x, w') \<Longrightarrow> R w w'"
    and update_destination: "rp_UpdateDestination (cs_repo S) i dest w = (x, w') \<Longrightarrow> R w w'"
    and delete_code: "rp_Delete (cs_repo S) u i w = (x, w') \<Longrightarrow> R w w'"
    and scan_counts: "rp_ScanCounts (cs_repo S) slug w = (k, w') \<Longrightarrow> R w w'"
    and scan_daily: "rp_ScanDaily (cs_repo S) slug w = (y, w') \<Longrightarrow> R w w'"
    and scan_top: "rp_ScanTopUserAgents (cs_repo S) slug n w = (z, w') \<Longrightarrow> R w w'"
    and invalidate: "ca_Invalidate (cs_cache S) slug w = (x, w') \<Longrightarrow> R w w'"
    and check: "cs_checker S = Some chk \<Longrightarrow> U url \<Longrightarrow> chk url w = (v, w') \<Longrightarrow> R w w'"
    and slug: "cs_newSlug S w = (q, w') \<Longrightarrow> R w w'"
begin

lemma guard_steps: "U url \<Longrightarrow> guardDestination S url w = (x, w') \<Longrightarrow> R w w'"
  using check refl by (auto simp: guardDestination_def split: option.splits prod.splits sum.splits)

lemma attempts_steps: "create_attempts S k c dest w = (r, w') \<Longrightarrow> R w w'"
proof (induction k arbitrary: c w)
  case 0
  then show ?case by (simp add: refl)
next
  case (Suc k)
  obtain q w1 where q: "cs_newSlug S w = (q, w1)" by (rule prod.exhaust)
  have w1: "R w w1" using q by (rule slug)
  show ?case
  proof (cases q)
    case (Inl e)
    with Suc.prems q w1 show ?thesis by simp
  next
    case (Inr s)
    obtain eo c1 w2 where cd: "rp_CreateDynamic (cs_repo S) c s dest w1 = ((eo, c1), w2)" by (metis prod.collapse)
    have w2: "R w w2" using create_dynamic [OF cd] trans w1 by blast
    show ?thesis
    proof (cases "\<exists>e. eo = Some e \<and> errors_is e ErrSlugTaken")
      case True
      with Suc.prems q Inr cd have "create_attempts S k c1 dest w2 = (r, w')" by auto
      with Suc.IH trans w2 show ?thesis by blast
    next
      case False
      with Suc.prems q Inr cd w2 show ?thesis by (auto split: option.splits)
    qed
  qed
qed

lemma Create_steps:
  assumes "\<And>dest. ci_IsDynamic inp \<Longrightarrow> extractURL (ci_Payload inp) = Some dest \<Longrightarrow> U dest"
    and "codes_Create S inp w = (r, w')"
  shows "R w w'"
proof (cases "ci_IsDynamic inp \<and> ci_Type inp = TypeURL")
  case True
  show ?thesis
  proof (cases "extractURL (ci_Payload inp)")
    case None
    with True assms(2) show ?thesis by (simp add: codes_Create_def refl)
  next
    case (Some dest)
    obtain g w1 where g: "guardDestination S dest w = (g, w1)" by (rule prod.exhaust)
    have w1: "R w w1" using guard_steps [OF _ g] assms(1) True Some by blast
    with True Some g assms(2) attempts_steps trans show ?thesis
      by (cases g) (auto simp: codes_Create_def)
  qed
next
  case False
  with assms(2) show ?thesis
    by (auto simp: codes_Create_def refl split: prod.splits sum.splits if_splits dest: create)
qed

lemma Get_steps: "codes_Get S u i w = (r, w') \<Longrightarrow> R w w'"
  by (simp add: codes_Get_def get_by_id)

lemma List_steps: "codes_List S u tok limit w = (r, w') \<Longrightarrow> R w w'"
  by (auto simp: codes_List_def Let_def refl split: option.splits prod.splits sum.splits if_splits dest!: list_codes)

lemma Delete_steps:
  assumes "codes_Delete S u i w = (x, w')" shows "R w w'"
proof -
  obtain g w1 where g: "rp_GetByID (cs_repo S) u i w = (g, w1)" by (rule prod.exhaust)
  obtain y w2 where y: "rp_Delete (cs_repo S) u i w1 = (y, w2)" by (rule prod.exhaust)
  have inv: "R w2 (snd (ca_Invalidate (cs_cache S) s w2))" for s by (metis invalidate prod.collapse)
  have w2: "R w w1" "R w w2" using get_by_id [OF g] delete_code [OF y] trans by blast+
  have "w' = w1 \<or> w' = w2 \<or> (\<exists>s. w' = snd (ca_Invalidate (cs_cache S) s w2))"
    using assms g y by (auto simp: codes_Delete_def split: sum.splits option.splits if_splits)
  with w2 trans inv show ?thesis by blast
qed

lemma destination_part_steps:
  assumes "U dest" "update_destination_part S c dest w = (x, w')" shows "R w w'"
proof -
  obtain g w1 where g: "guardDestination S dest w = (g, w1)" by (rule prod.exhaust)
  obtain y w2 where y: "rp_UpdateDestination (cs_repo S) (code_ID c) dest w1 = (y, w2)" by (rule prod.exhaust)
  have inv: "R w2 (snd (ca_Invalidate (cs_cache S) s w2))" for s by (metis invalidate prod.collapse)
  have w2: "R w w1" "R w w2" using guard_steps [OF assms(1) g] update_destination [OF y] trans by blast+
  have "w' = w \<or> w' = w1 \<or> w' = w2 \<or> (\<exists>s. w' = snd (ca_Invalidate (cs_cache S) s w2))"
    using assms(2) g y by (auto simp: update_destination_part_def split: option.splits if_splits)
  with w2 trans inv refl show ?thesis by blast
qed

lemma label_part_steps: "update_label_part S u i label w = (x, w') \<Longrightarrow> R w w'"
  by (auto simp: update_label_part_def split: option.splits prod.splits dest!: update_label)

lemma Update_steps:
  assumes U: "\<And>dest. ui_Destination inp = Some dest \<Longrightarrow> U dest" and run: "codes_Update S u i inp w = (r, w')"
  shows "R w w'"
proof -
  obtain g w1 where g: "rp_GetByID (cs_repo S) u i w = (g, w1)" by (rule prod.exhaust)
  have w1: "R w w1" using g by (rule get_by_id)
  show ?thesis
  proof (cases g)
    case (Inl e)
    with g w1 run show ?thesis by (simp add: codes_Update_def)
  next
    case (Inr c)
    obtain x w2 where x: "(case ui_Destination inp of None \<Rightarrow> (None, w1)
        | Some dest \<Rightarrow> update_destination_part S c dest w1) = (x, w2)" by (rule prod.exhaust)
    have "R w1 w2" using x U refl by (cases "ui_Destination inp") (auto intro: destination_part_steps)
    then have w2: "R w w2" using w1 trans by blast
    obtain y w3 where y: "(case ui_Label inp of None \<Rightarrow> (None, w2)
        | Some label \<Rightarrow> update_label_part S u i (Some label) w2) = (y, w3)" by (rule prod.exhaust)
    have "R w2 w3" using y refl by (cases "ui_Label inp") (auto intro: label_part_steps)
    then have w3: "R w w3" using w2 trans by blast
    obtain h w4 where h: "rp_GetByID (cs_repo S) u i w3 = (h, w4)" by (rule prod.exhaust)
    have "R w w4" using w3 get_by_id [OF h] trans by blast
    with g Inr x y h w2 w3 run show ?thesis by (auto simp: codes_Update_def split: option.splits)
  qed
qed

lemma Analytics_steps:
  assumes "codes_Analytics S u i w = (r, w')" shows "R w w'"
proof -
  obtain g w1 where g: "rp_GetByID (cs_repo S) u i w = (g, w1)" by (rule prod.exhaust)
  have w1: "R w w1" using g by (rule get_by_id)
  have after: "R w (snd (rp_ScanCounts (cs_repo S) s v))" "R w (snd (rp_ScanDaily (cs_repo S) s v))"
    "R w (snd (rp_ScanTopUserAgents (cs_repo S) s n v))" if "R w v" for s n v
    using that trans by (metis scan_counts prod.collapse, metis scan_daily prod.collapse, metis scan_top prod.collapse)
  from assms g w1 show ?thesis
    by (auto simp: codes_Analytics_def split: option.splits prod.splits sum.splits)
      (metis after snd_conv)+
qed

end

text \<open>What all parts of the codes service keep, the service keeps.\<close>

locale codes_frame =
  fixes S :: "'w codes_service" and f :: "'w \<Rightarrow> 'x"
  assumes steps: "codes_steps S (\<lambda>w w'. f w' = f w) (\<lambda>_. True)"

sublocale codes_frame \<subseteq> kept: codes_steps S "\<lambda>w w'. f w' = f w" "\<lambda>_. True"
  by (rule steps)

context codes_frame
begin

lemma codes_keep:
  "keeps f (codes_Create S inp)" "keeps f (codes_Get S u i)" "keeps f (codes_List S u tok limit)"
  "keeps f (codes_Update S u i upd)" "keeps f (codes_Delete S u i)" "keeps f (codes_Analytics S u i)"
  by (rule keepsI; metis kept.Create_steps kept.Get_steps kept.List_steps kept.Update_steps kept.Delete_steps
      kept.Analytics_steps prod.collapse)+

end

text \<open>The parts of the world that a codes operation and an auth operation have no access to.\<close>

definition codes_blind :: "'r world \<Rightarrow> (user list \<times> scan_event list) \<times> instant" where
  "codes_blind w = (people_tables (wd_db w), wd_now w)"

definition auth_blind :: "'r world \<Rightarrow> (code_row list \<times> dyn_row list \<times> scan_event list) \<times> 'r \<times> instant" where
  "auth_blind w = (code_tables (wd_db w), wd_redis w, wd_now w)"

lemma on_db_keeps: "(\<And>d. f (snd (act d)) = f d) \<Longrightarrow> on_db act w = (r, w') \<Longrightarrow> \<exists>d. w' = w\<lparr>wd_db := d\<rparr> \<and> f d = f (wd_db w)"
  by (auto simp: on_db_iff) (metis snd_conv)

lemma on_db_codes_blind:
  "(\<And>d. people_tables (snd (act d)) = people_tables d) \<Longrightarrow> on_db act w = (r, w') \<Longrightarrow> codes_blind w' = codes_blind w"
  using on_db_keeps [of people_tables act w r w'] by (auto simp: codes_blind_def)

lemma on_db_auth_blind:
  "(\<And>d. code_tables (snd (act d)) = code_tables d) \<Longrightarrow> on_db act w = (r, w') \<Longrightarrow> auth_blind w' = auth_blind w"
  using on_db_keeps [of code_tables act w r w'] by (auto simp: auth_blind_def)

lemma safety_Check_world: "safety_Check (safety_svc V) url w = (v, w') \<Longrightarrow> \<exists>s. w' = w\<lparr>wd_redis := s\<rparr>"
  by (auto simp: safety_Check_def safety_svc_def on_redis_def Let_def split: prod.splits sum.splits option.splits)

lemma codes_svc_frame: "codes_frame (codes_svc V) codes_blind"
proof (rule codes_frame.intro, unfold_locales)
  let ?S = "codes_svc V"
  note reads = codes_repo_reads [OF table_frames(1)]
  have repo: "cs_repo ?S = codes_repo (ev_pg V)" by (simp add: codes_svc_def)
  fix w w' and c :: code and u i :: uuid and s dest url :: string and cur limit n label inp
  note blind = on_db_codes_blind [where w = w and w' = w']
  show "rp_Create (cs_repo ?S) c w = (r, w') \<Longrightarrow> codes_blind w' = codes_blind w" for r
    unfolding repo codes_repo_def by simp (rule blind, rule repo_Create_people)
  show "rp_CreateDynamic (cs_repo ?S) c s dest w = (p, w') \<Longrightarrow> codes_blind w' = codes_blind w" for p
    unfolding repo codes_repo_def by simp (rule blind, rule repo_CreateDynamic_people)
  show "rp_GetByID (cs_repo ?S) u i w = (g, w') \<Longrightarrow> codes_blind w' = codes_blind w" for g
    unfolding repo codes_repo_def by simp (rule blind, rule reads(1))
  show "rp_List (cs_repo ?S) u cur limit w = (l, w') \<Longrightarrow> codes_blind w' = codes_blind w" for l
    unfolding repo codes_repo_def by simp (rule blind, rule reads(2))
  show "rp_UpdateLabel (cs_repo ?S) u i label w = (x, w') \<Longrightarrow> codes_blind w' = codes_blind w" for x
    unfolding repo codes_repo_def by simp (rule blind, rule codes_repo_people(1))
  show "rp_UpdateDestination (cs_repo ?S) i dest w = (x, w') \<Longrightarrow> codes_blind w' = codes_blind w" for x
    unfolding repo codes_repo_def by simp (rule blind, rule codes_repo_people(2))
  show "rp_Delete (cs_repo ?S) u i w = (x, w') \<Longrightarrow> codes_blind w' = codes_blind w" for x
    unfolding repo codes_repo_def by simp (rule blind, rule codes_repo_people(3))
  show "rp_ScanCounts (cs_repo ?S) s w = (k, w') \<Longrightarrow> codes_blind w' = codes_blind w" for k
    unfolding repo codes_repo_def by simp (rule blind, rule reads(4))
  show "rp_ScanDaily (cs_repo ?S) s w = (y, w') \<Longrightarrow> codes_blind w' = codes_blind w" for y
    unfolding repo codes_repo_def by simp (rule blind, rule reads(5))
  show "rp_ScanTopUserAgents (cs_repo ?S) s n w = (z, w') \<Longrightarrow> codes_blind w' = codes_blind w" for z
    unfolding repo codes_repo_def by simp (rule blind, rule reads(6))
  show "ca_Invalidate (cs_cache ?S) s w = (x, w') \<Longrightarrow> codes_blind w' = codes_blind w" for x
    by (auto simp: codes_svc_def target_cache_def on_redis_iff codes_blind_def)
  show "cs_checker ?S = Some chk \<Longrightarrow> chk url w = (v, w') \<Longrightarrow> codes_blind w' = codes_blind w" for chk v
    by (auto simp: codes_svc_def codes_blind_def dest!: safety_Check_world)
  show "cs_newSlug ?S w = (q, w') \<Longrightarrow> codes_blind w' = codes_blind w" for q
    by (auto simp: codes_svc_def new_slug_def codes_blind_def)
qed simp_all

interpretation blind: codes_frame "codes_svc V" codes_blind for V
  by (rule codes_svc_frame)

text \<open>The auth service never touches Redis or a code.\<close>

lemma auth_repo_blind:
  "ar_Create (users_repo E) u w = (r, w') \<Longrightarrow> auth_blind w' = auth_blind w"
  "ar_GetByID (users_repo E) i w = (r, w') \<Longrightarrow> auth_blind w' = auth_blind w"
  "ar_GetByEmail (users_repo E) em w = (r, w') \<Longrightarrow> auth_blind w' = auth_blind w"
  "ar_Update (users_repo E) u w = (r, w') \<Longrightarrow> auth_blind w' = auth_blind w"
  unfolding users_repo_def by (simp_all add: on_db_auth_blind [OF users_repo_codes(1)] on_db_auth_blind [OF users_repo_codes(2)]
      on_db_auth_blind [OF users_repo_codes(3)] on_db_auth_blind [OF users_repo_codes(4)])

lemma auth_issue_world: "auth_issue S u w = (r, w') \<Longrightarrow> w' = w"
  by (auto simp: auth_issue_def split: sum.splits)

lemma CreateGuest_blind: "CreateGuest (auth_svc V cfg) w = (r, w') \<Longrightarrow> auth_blind w' = auth_blind w"
  by (auto simp: CreateGuest_def auth_svc_def split: prod.splits sum.splits dest!: auth_issue_world auth_repo_blind)

lemma read_random_blind: "read_random V n w = (q, w') \<Longrightarrow> auth_blind w' = auth_blind w"
  by (auto simp: read_random_def auth_blind_def)

lemma Upgrade_blind: "UpgradeToAccount (auth_svc V cfg) i em pw w = (r, w') \<Longrightarrow> auth_blind w' = auth_blind w"
  by (auto simp: UpgradeToAccount_def auth_svc_def split: prod.splits sum.splits option.splits if_splits
      dest!: auth_issue_world auth_repo_blind read_random_blind)

text \<open>A redirect reads the tables and writes to Redis; recording a scan adds one to the scans.\<close>

lemma Resolve_world:
  fixes V :: "'r env"
  assumes f: "table_frame f" and run: "Resolve (redirect_svc V) slug w = (r, w')"
  shows "f (wd_db w') = f (wd_db w) \<and> wd_now w' = wd_now w \<and> wd_jobs w' = wd_jobs w"
proof -
  have db: "f (wd_db w2) = f (wd_db w1) \<and> wd_now w2 = wd_now w1 \<and> wd_jobs w2 = wd_jobs w1"
    if "on_db (repo_ResolveSlug E s) w1 = (q, w2)" for E s q and w1 w2 :: "'r world"
    using on_db_keeps [of f, OF codes_repo_reads(3) [OF f] that] by auto
  with run show ?thesis
    by (auto simp: Resolve_def redirect_svc_def target_cache_def slug_repo_def on_redis_iff on_redis_def
        split: prod.splits sum.splits option.splits dest!: db)
qed

lemma run_job_world:
  fixes V :: "'r env"
  shows "main_tables (wd_db (run_job V j w)) = main_tables (wd_db w) \<and> wd_redis (run_job V j w) = wd_redis w \<and>
   wd_now (run_job V j w) = wd_now w"
proof -
  have "main_tables (wd_db w2) = main_tables (wd_db w1) \<and> wd_redis w2 = wd_redis w1 \<and> wd_now w2 = wd_now w1"
    if "on_db (repo_InsertScanEvent E e) w1 = (q, w2)" for E e q and w1 w2 :: "'r world"
    using on_db_keeps [of main_tables, OF insert_scan_main that] by auto
  then show ?thesis
    by (simp add: run_job_def RecordScan_def redirect_svc_def slug_repo_def split: prod.split) (metis prod.collapse)
qed

end
