(* ===== verification/CodesProperties.thy ===== *)
theory CodesProperties
  imports Sample Frames
begin

text \<open>
  What the codes service and the redirect service do on the tables and on Redis: the lemmas of their
  contracts, through the interpretations of \<open>Backend\<close>, as properties of the services that
  \<open>main.go\<close> builds.
\<close>

subsection \<open>Creating\<close>

text \<open>
  \<open>code_created E inp d c d'\<close>: the tables \<open>d'\<close> have one code more than \<open>d\<close>, the code \<open>c\<close> of the request
  with its payload as \<open>JSONB\<close> keeps it; and if it is dynamic, one slug more, eight letters and digits
  that lead to the URL of its payload.
\<close>

definition code_created :: "pg_env \<Rightarrow> create_input \<Rightarrow> db \<Rightarrow> code \<Rightarrow> db \<Rightarrow> bool" where
  "code_created E inp d c d' \<longleftrightarrow>
     (if ci_IsDynamic inp then
        ci_Type inp = TypeURL \<and> (\<exists>dest slug. extractURL (ci_Payload inp) = Some dest \<and> slug_ok slug \<and>
          dynamic_added (pg_jsonb E) (code_view d) (slug_view d) (new_code inp) slug dest c (code_view d') (slug_view d'))
      else static_added (pg_jsonb E) (code_view d) (new_code inp) c (code_view d') \<and> slug_view d' = slug_view d)"

context backend
begin

lemma added_created: "codes.added inp w c w' \<longleftrightarrow> code_created (ev_pg V) inp (wd_db w) c (wd_db w')"
  by (simp add: codes.added_def code_created_def held_def leads_def)

lemma unchanged_same: "codes.unchanged w w' \<longleftrightarrow> same_codes (wd_db w) (wd_db w')"
  by (simp add: codes.unchanged_def same_codes_def held_def leads_def)

lemma create_world:
  assumes "sane w" "codes_Create (codes_svc V) inp w = (r, w')"
  shows "sane w' \<and>
    (case r of
       Inr c \<Rightarrow> code_created (ev_pg V) inp (wd_db w) c (wd_db w')
     | Inl e \<Rightarrow> same_codes (wd_db w) (wd_db w') \<or>
         (\<exists>m e'. e = Wrap m e') \<and> (\<exists>c. code_created (ev_pg V) inp (wd_db w) c (wd_db w')))"
  using codes.Create_spec [OF assms] by (cases r) (simp_all add: added_created unchanged_same)

end

text \<open>\<open>lost_answer E d d' x\<close>: between \<open>d\<close> and \<open>d'\<close> a statement was executed whose answer was lost, with the error \<open>x\<close>.\<close>

definition lost_answer :: "pg_env \<Rightarrow> db \<Rightarrow> db \<Rightarrow> err \<Rightarrow> bool" where
  "lost_answer E d d' x \<longleftrightarrow> (\<exists>n. pg_tick d \<le> n \<and> n < pg_tick d' \<and> pg_out E n = LostAfter x)"

lemma insert_stmt_fails:
  "insert_code_stmt E c b now n d = (Inl e, d') \<Longrightarrow> d' = d"
  "insert_code_stmt E c b now n d = (r, d') \<Longrightarrow> pg_tick d' = pg_tick d"
  "insert_dyn_stmt i slug dest now n d = (q, d') \<Longrightarrow> pg_tick d' = pg_tick d"
  by (auto simp: insert_code_stmt_def insert_dyn_stmt_def Let_def split: option.splits if_splits)

lemma with_text_snd: "snd (with_text ts st n d) = (if texts_ok ts then snd (st n d) else d)"
  by (simp add: with_text_def refuse_def)

lemma run_stmt_tick:
  assumes "run_stmt E st d = (r, d')" "\<And>n d. pg_tick (snd (st n d)) = pg_tick d"
  shows "pg_tick d' = Suc (pg_tick d)"
proof -
  have "pg_tick (snd (st (pg_tick d) (next_stmt d))) = Suc (pg_tick d)" using assms(2) by simp
  moreover from assms(1) have "d' = next_stmt d \<or> d' = snd (st (pg_tick d) (next_stmt d))"
    by (cases rule: run_stmt_cases) (auto dest: arg_cong [where f = snd])
  ultimately show ?thesis by auto
qed

lemma repo_Create_lost:
  assumes "repo_Create E c d = (Inl e, d')"
  shows "same_tables d d' \<or> (\<exists>x. e = Wrap ''inserting code'' x \<and> lost_answer E d d' x)"
proof -
  let ?st = "\<lambda>n. insert_code_stmt E c (code_IsDynamic c) (pg_now E n) n"
  obtain x where x: "run_stmt E (with_text (code_texts c) ?st) d = (Inl x, d')" "e = Wrap ''inserting code'' x"
    using assms by (auto simp: repo_Create_def split: prod.splits sum.splits)
  have tick: "pg_tick d' = Suc (pg_tick d)"
    by (rule run_stmt_tick [OF x(1)]) (simp add: with_text_snd insert_stmt_fails(2) [OF surjective_pairing])
  have "same_tables d d'" if "pg_out E (pg_tick d) = Done"
  proof -
    have "with_text (code_texts c) ?st (pg_tick d) (next_stmt d) = (Inl x, d')"
      using x(1) that by (simp add: run_stmt_def Let_def next_stmt_def)
    then have "d' = next_stmt d" using insert_stmt_fails(1) by (auto simp: with_text_def refuse_def split: if_splits)
    then show ?thesis by simp
  qed
  moreover have "same_tables d d'" if "pg_out E (pg_tick d) = LostBefore y" for y
    using x(1) that by (auto simp: run_stmt_def Let_def)
  moreover have "lost_answer E d d' x" if "pg_out E (pg_tick d) = LostAfter y" for y
    using x(1) that tick by (auto simp: run_stmt_def Let_def lost_answer_def)
  ultimately show ?thesis using x(2) by (cases "pg_out E (pg_tick d)") blast+
qed

lemma repo_CreateDynamic_lost:
  assumes "repo_CreateDynamic E c slug dest d = ((eo, c'), d')"
  shows "pg_tick d \<le> pg_tick d' \<and>
    (\<forall>e. eo = Some e \<longrightarrow> same_tables d d' \<or> (\<exists>x. e = Wrap ''committing dynamic code'' x \<and> lost_answer E d d' x))"
proof -
  let ?start = "run_stmt E (\<lambda>n d. (Inr (pg_now E n), d)) d"
  obtain b d1 where b: "?start = (b, d1)" by (rule prod.exhaust)
  have d1: "same_tables d d1" using b by (cases rule: run_stmt_cases) (auto simp: next_stmt_def)
  have t1: "pg_tick d1 = Suc (pg_tick d)" by (rule run_stmt_tick [OF b]) simp
  note undone = same_tables_trans [OF d1 rollback_to_tables(1)]
  have tick [simp]: "pg_tick (rollback_to d0 d2) = pg_tick d2" for d0 d2 by (simp add: rollback_to_def)
  show ?thesis
  proof (cases b)
    case (Inl e)
    with assms b d1 t1 show ?thesis by (auto simp: repo_CreateDynamic_def)
  next
    case (Inr now)
    obtain x d2 where x: "run_stmt E (with_text (code_texts c) (insert_code_stmt E c True now)) d1 = (x, d2)"
      by (rule prod.exhaust)
    have t2: "pg_tick d2 = Suc (pg_tick d1)"
      by (rule run_stmt_tick [OF x]) (simp add: with_text_snd insert_stmt_fails(2) [OF surjective_pairing])
    show ?thesis
    proof (cases x)
      case (Inl e)
      with assms b \<open>b = Inr now\<close> x undone t1 t2 show ?thesis by (auto simp: repo_CreateDynamic_def)
    next
      case icu: (Inr y)
      obtain i cr up where y: "y = (i, cr, up)" by (rule prod_cases3)
      obtain z d3 where z: "run_stmt E (with_text [Some slug, Some dest] (insert_dyn_stmt i slug dest now)) d2 = (z, d3)"
        by (rule prod.exhaust)
      have t3: "pg_tick d3 = Suc (pg_tick d2)"
        by (rule run_stmt_tick [OF z]) (simp add: with_text_snd insert_stmt_fails(3) [OF surjective_pairing])
      note run = assms [unfolded repo_CreateDynamic_def b Inr sum.case prod.case x icu y z Let_def]
      show ?thesis
      proof (cases z)
        case (Inl e)
        with run undone t1 t2 t3 show ?thesis by auto
      next
        case du: (Inr u)
        show ?thesis
        proof (cases "pg_out E (pg_tick d3)")
          case Done
          with run du t1 t2 t3 show ?thesis by (auto simp: commit_tx_def Let_def)
        next
          case (LostBefore e)
          with run du t1 t2 t3 undone show ?thesis by (auto simp: commit_tx_def Let_def)
        next
          case (LostAfter e)
          with run du have "eo = Some (Wrap ''committing dynamic code'' e)" "pg_tick d' = Suc (pg_tick d3)"
            by (auto simp: commit_tx_def Let_def)
          with LostAfter t1 t2 t3 show ?thesis by (auto simp: lost_answer_def)
        qed
      qed
    qed
  qed
qed

context backend
begin

lemma attempts_lost:
  "create_attempts (codes_svc V) k c dest w = (Inl e, w') \<Longrightarrow> same_tables (wd_db w) (wd_db w') \<or>
   (\<exists>x. e = Wrap ''creating dynamic code'' (Wrap ''committing dynamic code'' x) \<and> lost_answer (ev_pg V) (wd_db w) (wd_db w') x)"
proof (induction k arbitrary: c w)
  case 0
  then show ?case by auto
next
  case (Suc k)
  obtain q w1 where q: "new_slug V w = (q, w1)" by (rule prod.exhaust)
  have svc: "cs_newSlug (codes_svc V) = new_slug V" "cs_repo (codes_svc V) = codes_repo (ev_pg V)" by (simp_all add: codes_svc_def)
  have w1: "wd_db w1 = wd_db w" using q by (auto simp: new_slug_def)
  show ?case
  proof (cases q)
    case (Inl x)
    with Suc.prems q w1 show ?thesis by (auto simp: svc)
  next
    case (Inr slug)
    obtain eo c1 w2 where d: "rp_CreateDynamic (codes_repo (ev_pg V)) c slug dest w1 = ((eo, c1), w2)"
      by (metis prod.collapse)
    then have "repo_CreateDynamic (ev_pg V) c slug dest (wd_db w) = ((eo, c1), wd_db w2)"
      using w1 by (auto simp: codes_repo_ops on_db_iff)
    note lost = repo_CreateDynamic_lost [OF this]
    show ?thesis
    proof (cases eo)
      case None
      with Suc.prems q Inr d show ?thesis by (simp add: svc)
    next
      case (Some x)
      show ?thesis
      proof (cases "errors_is x ErrSlugTaken")
        case True
        have "\<not> lost_answer (ev_pg V) (wd_db w) (wd_db w2) y" if "x = Wrap m y" for y m
        proof
          assume "lost_answer (ev_pg V) (wd_db w) (wd_db w2) y"
          then obtain n where "pg_out (ev_pg V) n = LostAfter y" by (auto simp: lost_answer_def)
          then have "pg_error (ev_pg V) n = Some y" by (simp add: pg_error_def)
          from foreign_errD(1) [OF pg_okD [OF pg this]] True that show False by simp
        qed
        with lost Some have same: "same_tables (wd_db w) (wd_db w2)" by blast
        have "create_attempts (codes_svc V) k c1 dest w2 = (Inl e, w')"
          using Suc.prems q Inr d Some True by (simp add: svc)
        from Suc.IH [OF this] same_tables_trans [OF same] lost show ?thesis
          by (auto simp: lost_answer_def)
      next
        case False
        have "e = Wrap ''creating dynamic code'' x" "w' = w2" using Suc.prems q Inr d Some False by (simp_all add: svc)
        with lost Some show ?thesis by auto
      qed
    qed
  qed
qed

lemma create_lost:
  assumes "codes_Create (codes_svc V) inp w = (Inl e, w')"
  shows "same_codes (wd_db w) (wd_db w') \<or> (\<exists>m m' x. e = Wrap m (Wrap m' x) \<and> lost_answer (ev_pg V) (wd_db w) (wd_db w') x)"
proof -
  have same: "same_tables d d' \<Longrightarrow> same_codes d d'" for d d' using same_tables_views by (simp add: same_codes_def)
  have repo: "cs_repo (codes_svc V) = codes_repo (ev_pg V)" by (simp add: codes_svc_def)
  show ?thesis
  proof (cases "ci_IsDynamic inp")
    case False
    then obtain x where x: "rp_Create (codes_repo (ev_pg V)) (new_code inp) w = (Inl x, w')" "e = Wrap ''creating static code'' x"
      using assms by (auto simp: codes_Create_def repo split: prod.splits sum.splits)
    then have "repo_Create (ev_pg V) (new_code inp) (wd_db w) = (Inl x, wd_db w')" by (auto simp: codes_repo_ops on_db_iff)
    from repo_Create_lost [OF this] x(2) same show ?thesis by blast
  next
    case True
    show ?thesis
    proof (cases "ci_Type inp = TypeURL \<and> extractURL (ci_Payload inp) \<noteq> None")
      case False
      with True assms show ?thesis by (auto simp: codes_Create_def split: if_splits option.splits)
    next
      case url: True
      then obtain dest where dest: "extractURL (ci_Payload inp) = Some dest" by blast
      obtain g w1 where g: "guardDestination (codes_svc V) dest w = (g, w1)" by (rule prod.exhaust)
      have w1: "wd_db w1 = wd_db w"
        using g by (auto simp: guardDestination_def codes_svc_def split: prod.splits sum.splits if_splits dest!: safety_Check_world)
      show ?thesis
      proof (cases g)
        case (Some y)
        with assms True url dest g w1 show ?thesis by (simp add: codes_Create_def)
      next
        case None
        then have "create_attempts (codes_svc V) maxSlugAttempts (new_code inp) dest w1 = (Inl e, w')"
          using assms True url dest g by (simp add: codes_Create_def)
        from attempts_lost [OF this] same w1 show ?thesis by auto
      qed
    qed
  qed
qed

end

text \<open>
  C10. Creating a code, on every outcome of the database, Redis and the random source: success means
  that exactly this code was added (with a fresh, well-formed slug if it is dynamic); an error means
  that nothing was, unless a statement of this call was executed and its answer was lost: then the error
  wraps this one, and the whole code may have been added. The integrity of the tables is kept.
\<close>

theorem Create_stores:
  assumes "backend V data clock bears" and "db_ok (ev_pg V) (wd_db w)"
    and "codes_Create (codes_svc V) inp w = (r, w')"
  shows "db_ok (ev_pg V) (wd_db w') \<and>
    (case r of
       Inr c \<Rightarrow> code_created (ev_pg V) inp (wd_db w) c (wd_db w')
     | Inl e \<Rightarrow> same_codes (wd_db w) (wd_db w') \<or>
         (\<exists>m m' x. e = Wrap m (Wrap m' x) \<and> lost_answer (ev_pg V) (wd_db w) (wd_db w') x) \<and>
         (\<exists>c. code_created (ev_pg V) inp (wd_db w) c (wd_db w')))"
proof -
  have w: "backend.sane V w" using assms(1,2) by (simp add: backend.sane_def)
  show ?thesis
  proof (cases r)
    case (Inl e)
    from backend.create_world [OF assms(1) w assms(3)] backend.create_lost [OF assms(1,3) [unfolded Inl]] show ?thesis
      unfolding backend.sane_def [OF assms(1)] Inl sum.case by blast
  next
    case (Inr c)
    with backend.create_world [OF assms(1) w assms(3)] show ?thesis by (simp add: backend.sane_def [OF assms(1)])
  qed
qed

definition sample_create :: create_input where
  "sample_create = \<lparr>ci_UserID = 1, ci_Type = ''url'', ci_Payload = CHR 0x7B # CHR 0x22 # ''url'' @
     [CHR 0x22, CHR '':'', CHR 0x22] @ ''https://c.d'' @ [CHR 0x22, CHR 0x7D], ci_Label = None, ci_IsDynamic = True\<rparr>"

lemma sample_url: "extractURL (ci_Payload sample_create) = Some ''https://c.d''"
  by code_simp

lemma sample_verdict: "Check (\<lambda>s. s) NewHeuristicChecker ''https://c.d'' =
    \<lparr>sr_URL = ''https://c.d'', sr_Verdict = VerdictSafe, sr_Reasons = [], sr_Cached = False\<rparr>"
  by code_simp

text \<open>The code of \<open>sample_create\<close> is added, with the first slug of the sample random source.\<close>

lemma sample_created: "\<exists>c. fst (codes_Create (codes_svc sample_backend) sample_create sample_world) = Inr c"
proof -
  obtain s where g: "guardDestination (codes_svc sample_backend) ''https://c.d'' sample_world = (None, sample_world\<lparr>wd_redis := s\<rparr>)"
    using fresh_guard [of sample_world "''https://c.d''"] by (auto simp: sample_verdict VerdictSafe_def VerdictMalicious_def)
  have slug: "GenerateSlug (ev_random sample_backend 0) = Inr ''mmmmmmmm''"
  proof -
    have "map slug_symbol (replicate SlugLength (char_of (48::nat))) = ''mmmmmmmm''" by code_simp
    then show ?thesis by (simp add: GenerateSlug_def Let_def fill_def)
  qed
  have "fst (fst (repo_CreateDynamic sample_env (new_code sample_create) ''mmmmmmmm'' ''https://c.d'' sample_db)) = None"
    by code_simp
  then obtain c d where cd: "repo_CreateDynamic sample_env (new_code sample_create) ''mmmmmmmm'' ''https://c.d'' sample_db = ((None, c), d)"
    by (metis prod.collapse)
  have "ci_IsDynamic sample_create" "ci_Type sample_create = TypeURL" by (simp_all add: sample_create_def TypeURL_def)
  moreover have "new_slug sample_backend (sample_world\<lparr>wd_redis := s\<rparr>) = (Inr ''mmmmmmmm'', sample_world\<lparr>wd_redis := s, wd_reads := 1\<rparr>)"
    using slug by (simp add: new_slug_def)
  ultimately show ?thesis using g cd sample_url
    by (simp add: codes_Create_def maxSlugAttempts_def numeral_eq_Suc codes_svc_def codes_repo_def on_db_def)
qed
theorem Create_stores_witness:
  "\<exists>c w'. codes_Create (codes_svc sample_backend) sample_create sample_world = (Inr c, w') \<and>
     db_ok sample_env (wd_db w') \<and> code_created sample_env sample_create sample_db c (wd_db w')"
proof -
  obtain c w' where run: "codes_Create (codes_svc sample_backend) sample_create sample_world = (Inr c, w')"
    using sample_created by (metis prod.collapse)
  from Create_stores [OF sample_backend_ok _ run] sample_db_ok run show ?thesis by simp
qed

subsection \<open>Updating and deleting\<close>

text \<open>
  \<open>patched_db\<close>: the tables after the parts of a PATCH that are present; \<open>patched_code\<close> says what
  this makes of the code itself.
\<close>

definition patched_db :: "uuid \<Rightarrow> uuid \<Rightarrow> update_input \<Rightarrow> db \<Rightarrow> db \<Rightarrow> bool" where
  "patched_db u i inp d d' \<longleftrightarrow>
     (\<exists>t t'. code_view d' = patched u i inp t t' (code_view d)) \<and> slug_view d' = patched_slugs i inp (slug_view d)"

definition updated_code :: "update_input \<Rightarrow> code \<Rightarrow> code \<Rightarrow> bool" where
  "updated_code inp c c' \<longleftrightarrow>
     code_Label c' = (case ui_Label inp of None \<Rightarrow> code_Label c | Some l \<Rightarrow> Some l) \<and>
     map_option dyn_Destination (code_Dynamic c') =
       (case ui_Destination inp of None \<Rightarrow> map_option dyn_Destination (code_Dynamic c) | Some x \<Rightarrow> Some x) \<and>
     map_option dyn_Slug (code_Dynamic c') = map_option dyn_Slug (code_Dynamic c) \<and>
     code_ID c' = code_ID c \<and> code_UserID c' = code_UserID c \<and> code_Type c' = code_Type c \<and>
     code_Payload c' = code_Payload c \<and> code_IsDynamic c' = code_IsDynamic c"

context backend
begin

lemma patched_state_db: "codes.patched_state u i inp w w' \<longleftrightarrow> patched_db u i inp (wd_db w) (wd_db w')"
  by (simp add: codes.patched_state_def patched_db_def held_def leads_def)

lemma update_world:
  assumes "sane w" "codes_Update (codes_svc V) u i inp w = (r, w')"
  shows "sane w' \<and>
    (case r of
       Inr c \<Rightarrow> patched_db u i inp (wd_db w) (wd_db w') \<and>
         (\<exists>old. owned u (held w i) = Some old \<and> owned u (held w' i) = Some c \<and> updated_code inp old c)
     | Inl e \<Rightarrow> same_codes (wd_db w) (wd_db w') \<or> owned u (held w i) \<noteq> None \<and>
         (\<exists>inp'. part_of inp' inp \<and> patched_db u i inp' (wd_db w) (wd_db w')))"
proof (cases r)
  case (Inl e)
  with codes.Update_spec [OF assms] show ?thesis
    by (simp add: codes.update_result_def unchanged_same patched_state_db)
next
  case (Inr c)
  with codes.Update_spec [OF assms] have res: "sane w'" "owned u (held w i) \<noteq> None" "owned u (held w' i) = Some c"
    "patched_db u i inp (wd_db w) (wd_db w')" "ui_Destination inp \<noteq> None \<Longrightarrow> code_Dynamic c \<noteq> None"
    by (simp_all add: codes.update_result_def patched_state_db)
  then obtain old t t' where old: "owned u (held w i) = Some old" "held w' = patched u i inp t t' (held w)"
    by (auto simp: patched_db_def held_def)
  from patched_code [where m = "held w" and i = i, OF old(1), of inp t t'] old(2) res(3) have
    "code_Label c = (case ui_Label inp of None \<Rightarrow> code_Label old | Some l \<Rightarrow> Some l)"
    "map_option dyn_Destination (code_Dynamic c) =
      (case ui_Destination inp of None \<Rightarrow> map_option dyn_Destination (code_Dynamic old)
       | Some d \<Rightarrow> map_option (\<lambda>_. d) (code_Dynamic old))"
    "map_option dyn_Slug (code_Dynamic c) = map_option dyn_Slug (code_Dynamic old)"
    "code_ID c = code_ID old" "code_UserID c = code_UserID old" "code_Type c = code_Type old"
    "code_Payload c = code_Payload old" "code_IsDynamic c = code_IsDynamic old"
    by simp_all
  moreover have "code_Dynamic old \<noteq> None" if "ui_Destination inp \<noteq> None"
    using res(5) [OF that] calculation(3) by (cases "code_Dynamic old") simp_all
  ultimately have "updated_code inp old c"
    unfolding updated_code_def by (cases "ui_Destination inp"; cases "code_Dynamic old") simp_all
  with res old Inr show ?thesis by simp
qed

end

text \<open>
  C11. A PATCH that succeeds sets exactly the fields it names, on a code of the user, and returns the
  code as it then is; the slug, the payload and all other codes stay. A PATCH that fails leaves the
  codes as they were or applies a part of the request (the writes are separate statements).
\<close>

theorem Update_applies:
  assumes "backend V data clock bears" and "db_ok (ev_pg V) (wd_db w)"
    and "codes_Update (codes_svc V) u i inp w = (r, w')"
  shows "db_ok (ev_pg V) (wd_db w') \<and>
    (case r of
       Inr c \<Rightarrow> patched_db u i inp (wd_db w) (wd_db w') \<and>
         (\<exists>old. owned u (code_view (wd_db w) i) = Some old \<and> owned u (code_view (wd_db w') i) = Some c \<and>
            updated_code inp old c)
     | Inl e \<Rightarrow> same_codes (wd_db w) (wd_db w') \<or> owned u (code_view (wd_db w) i) \<noteq> None \<and>
         (\<exists>inp'. part_of inp' inp \<and> patched_db u i inp' (wd_db w) (wd_db w')))"
proof -
  note views = backend.sane_def [OF assms(1)] backend.held_def [OF assms(1)]
  from backend.update_world [OF assms(1) _ assms(3)] assms(2) show ?thesis unfolding views by blast
qed

definition sample_update :: update_input where
  "sample_update = \<lparr>ui_Label = Some ''new'', ui_Destination = Some ''https://c.d''\<rparr>"

lemma sample_update_steps:
  "case repo_GetByID sample_env 1 3 sample_db of
     (Inr c, d1) \<Rightarrow> code_IsDynamic c \<and> code_ID c = 3 \<and> code_Dynamic c \<noteq> None \<and>
       (case repo_UpdateDestination sample_env 3 ''https://c.d'' d1 of
         (None, d2) \<Rightarrow> (case repo_UpdateLabel sample_env 1 3 (Some ''new'') d2 of
           (None, d3) \<Rightarrow> (case repo_GetByID sample_env 1 3 d3 of (Inr c', d4) \<Rightarrow> True | _ \<Rightarrow> False)
         | _ \<Rightarrow> False)
       | _ \<Rightarrow> False)
   | _ \<Rightarrow> False"
  by code_simp

lemma sample_updated: "\<exists>c. fst (codes_Update (codes_svc sample_backend) 1 3 sample_update sample_world) = Inr c"
proof -
  obtain c d1 d2 d3 c' d4 dyn where steps: "repo_GetByID sample_env 1 3 sample_db = (Inr c, d1)"
    "code_IsDynamic c" "code_ID c = 3" "code_Dynamic c = Some dyn"
    "repo_UpdateDestination sample_env 3 ''https://c.d'' d1 = (None, d2)"
    "repo_UpdateLabel sample_env 1 3 (Some ''new'') d2 = (None, d3)" "repo_GetByID sample_env 1 3 d3 = (Inr c', d4)"
    using sample_update_steps by (auto split: prod.splits sum.splits option.splits)
  obtain s where "guardDestination (codes_svc sample_backend) ''https://c.d'' (sample_world\<lparr>wd_db := d1\<rparr>) =
      (None, sample_world\<lparr>wd_db := d1, wd_redis := s\<rparr>)"
    using fresh_guard [of "sample_world\<lparr>wd_db := d1\<rparr>" "''https://c.d''"]
    by (auto simp: sample_verdict VerdictSafe_def VerdictMalicious_def)
  with steps show ?thesis
    by (simp add: codes_Update_def sample_update_def codes_svc_def codes_repo_def on_db_def on_redis_def
        update_destination_part_def update_label_part_def target_cache_def cache_Invalidate_def Let_def)
qed

theorem Update_applies_witness:
  "\<exists>c w'. codes_Update (codes_svc sample_backend) 1 3 sample_update sample_world = (Inr c, w') \<and>
     db_ok sample_env (wd_db w') \<and> patched_db 1 3 sample_update sample_db (wd_db w')"
proof -
  obtain c w' where run: "codes_Update (codes_svc sample_backend) 1 3 sample_update sample_world = (Inr c, w')"
    using sample_updated by (metis prod.collapse)
  from Update_applies [OF sample_backend_ok _ run] sample_db_ok run show ?thesis by simp
qed

context backend
begin

lemma delete_world:
  assumes "sane w" "codes_Delete (codes_svc V) u i w = (x, w')"
  shows "sane w' \<and>
    (x = None \<longrightarrow> owned u (held w i) \<noteq> None \<and> held w' = (held w)(i := None) \<and> leads w' = drop_slugs i (leads w)) \<and>
    (x \<noteq> None \<longrightarrow> same_codes (wd_db w) (wd_db w') \<or> owned u (held w i) \<noteq> None \<and>
       held w' = (held w)(i := None) \<and> leads w' = drop_slugs i (leads w))"
proof -
  have drop: "owned u (held w i) \<noteq> None \<Longrightarrow> drop_code u i (held w) = (held w)(i := None)"
    by (auto simp: drop_code_def)
  from codes.Delete_spec [OF assms] show ?thesis
    by (cases x) (auto simp: unchanged_same drop)
qed

end

text \<open>
  C12. Deleting removes exactly the code named, which belongs to the user, together with its slug, so
  that the slug leads nowhere; if it fails, the codes are as they were, or the code is gone (the
  answer was lost). It never removes a code of another user.
\<close>

theorem Delete_removes:
  assumes "backend V data clock bears" and "db_ok (ev_pg V) (wd_db w)"
    and "codes_Delete (codes_svc V) u i w = (x, w')"
  defines "gone \<equiv> code_view (wd_db w') = (code_view (wd_db w))(i := None) \<and>
    slug_view (wd_db w') = drop_slugs i (slug_view (wd_db w))"
  shows "db_ok (ev_pg V) (wd_db w') \<and>
    (x = None \<longrightarrow> owned u (code_view (wd_db w) i) \<noteq> None \<and> gone) \<and>
    (x \<noteq> None \<longrightarrow> same_codes (wd_db w) (wd_db w') \<or> owned u (code_view (wd_db w) i) \<noteq> None \<and> gone)"
proof -
  note views = backend.sane_def [OF assms(1)] backend.held_def [OF assms(1)] backend.leads_def [OF assms(1)]
  from backend.delete_world [OF assms(1) _ assms(3)] assms(2) show ?thesis
    unfolding views gone_def by blast
qed

lemma sample_deleted: "\<exists>w'. codes_Delete (codes_svc sample_backend) 1 3 sample_world = (None, w')"
proof -
  have "case repo_GetByID sample_env 1 3 sample_db of
      (Inr c, d1) \<Rightarrow> (case repo_Delete sample_env 1 3 d1 of (None, d2) \<Rightarrow> True | _ \<Rightarrow> False) | _ \<Rightarrow> False"
    by code_simp
  then obtain c d1 d2 where "repo_GetByID sample_env 1 3 sample_db = (Inr c, d1)"
    "repo_Delete sample_env 1 3 d1 = (None, d2)"
    by (auto split: prod.splits sum.splits option.splits)
  then have "fst (codes_Delete (codes_svc sample_backend) 1 3 sample_world) = None"
    by (simp add: codes_Delete_def codes_svc_def codes_repo_def on_db_def split: option.split)
  then show ?thesis by (metis prod.collapse)
qed

theorem Delete_removes_witness:
  "\<exists>w'. codes_Delete (codes_svc sample_backend) 1 3 sample_world = (None, w') \<and>
     code_view (wd_db w') 3 = None \<and> slug_view (wd_db w') ''taken'' = None"
proof -
  obtain w' where run: "codes_Delete (codes_svc sample_backend) 1 3 sample_world = (None, w')"
    using sample_deleted by blast
  have "slug_view sample_db ''taken'' = Some (''https://a.b'', 3)" by code_simp
  with Delete_removes [OF sample_backend_ok _ run] sample_db_ok run show ?thesis by (simp add: drop_slugs_def)
qed

subsection \<open>Listing and counting\<close>

context backend
begin

lemma queries_work:
  assumes "\<And>n. pg_out (ev_pg V) n = Done" "sane w" "0 \<le> limit"
  shows "\<exists>items w'. rp_List (cs_repo (codes_svc V)) u cur limit w = (Inr items, w')"
  using repo_List_eq [of "ev_pg V" "wd_db w" limit u cur] assms
  by (auto simp: codes_svc_def codes_repo_def on_db_iff sane_def)

lemma fetch_all_world:
  assumes "\<And>n. pg_out (ev_pg V) n = Done" "sane w" "\<forall>c \<in> set (owns w u). year4 (code_CreatedAt c)"
  shows "\<exists>w'. fetch_all (codes_svc V) u limit (Suc (length (owns w u))) [] w = (Inr (owns w u), w') \<and>
    sane w' \<and> held w' = held w"
proof -
  have all: "filter (before_cursor None) (owns w u) = owns w u" by (simp add: before_cursor_def)
  have start: "starts_at (cs_uuid (codes_svc V)) [] None" by simp
  from pages.fetch_all_spec [OF assms(3) queries_work [OF assms(1)] assms(2) refl start, of "length (owns w u)" limit]
  show ?thesis unfolding all by simp
qed

end

text \<open>
  C13. A client that follows the cursors from the first page gets all codes of the user, each once and
  newest first, in at most one request more than there are codes, if no query fails; the limit it
  asks for does not matter.
\<close>

theorem Listing_complete:
  assumes "backend V data clock bears" and "db_ok (ev_pg V) (wd_db w)"
    and "\<forall>n. pg_out (ev_pg V) n = Done"
    and "\<forall>c \<in> set (user_codes (wd_db w) u). year4 (code_CreatedAt c)"
  defines "cs \<equiv> user_codes (wd_db w) u"
  shows "\<exists>w'. fetch_all (codes_svc V) u limit (Suc (length cs)) [] w = (Inr cs, w') \<and>
    code_view (wd_db w') = code_view (wd_db w) \<and>
    set cs = {c. \<exists>i. owned u (code_view (wd_db w) i) = Some c} \<and>
    sorted_wrt (\<lambda>a b. code_cursor b < code_cursor a) cs"
proof -
  note views = backend.sane_def [OF assms(1)] backend.held_def [OF assms(1)] backend.owns_def [OF assms(1)]
  have "\<exists>w'. fetch_all (codes_svc V) u limit (Suc (length cs)) [] w = (Inr cs, w') \<and>
      code_view (wd_db w') = code_view (wd_db w)"
    using backend.fetch_all_world [OF assms(1), of w u limit] assms(2-4) unfolding views cs_def by blast
  moreover have "set cs = {c. \<exists>i. owned u (code_view (wd_db w) i) = Some c}"
    using user_codes_view [OF assms(2), of _ u] unfolding cs_def by blast
  ultimately show ?thesis using user_codes_sorted [OF assms(2), of u] unfolding cs_def by blast
qed

theorem Listing_complete_witness:
  "\<exists>w'. fetch_all (codes_svc sample_backend) 1 1 2 [] sample_world = (Inr (user_codes sample_db 1), w') \<and>
     map code_ID (user_codes sample_db 1) = [3]"
proof -
  have cs: "map code_ID (user_codes sample_db 1) = [3] \<and> list_all (\<lambda>c. year4 (code_CreatedAt c)) (user_codes sample_db 1)"
    by code_simp
  then have "length (user_codes sample_db 1) = 1" by (metis length_map length_Cons list.size(3) One_nat_def)
  with Listing_complete [OF sample_backend_ok, of sample_world 1 1] sample_db_ok cs show ?thesis
    by (auto simp: sample_env_def list_all_iff numeral_2_eq_2)
qed

text \<open>
  \<open>tallies es a\<close>: the analytics \<open>a\<close> are those of the scans \<open>es\<close>. The days are in order and add up to
  the total, and no user agent is scanned more often than one of the ten that are listed without
  being listed itself.
\<close>

definition tallies :: "scan_event list \<Rightarrow> analytics \<Rightarrow> bool" where
  "tallies es a \<longleftrightarrow>
     an_TotalScans a = length es \<and> an_UniqueVisitors a = card {h. \<exists>e \<in> set es. scan_IPHash e = Some h} \<and>
     sum_list (map dc_Count (an_Daily a)) = length es \<and> sorted_wrt (<) (map dc_Date (an_Daily a)) \<and>
     (\<forall>r \<in> set (an_Daily a). 0 < dc_Count r \<and> dc_Count r = length (filter (\<lambda>e. scan_day e = dc_Date r) es)) \<and>
     length (an_TopUserAgents a) \<le> topUserAgentsLimit \<and> distinct (map uac_UserAgent (an_TopUserAgents a)) \<and>
     sorted_wrt (\<lambda>g h. uac_Count h \<le> uac_Count g) (an_TopUserAgents a) \<and>
     (\<forall>g \<in> set (an_TopUserAgents a). uac_Count g = count_list (agents_of es) (uac_UserAgent g)) \<and>
     (\<forall>ua \<in> set (agents_of es). ua \<in> uac_UserAgent ` set (an_TopUserAgents a) \<or>
        (\<forall>g \<in> set (an_TopUserAgents a). count_list (agents_of es) ua \<le> uac_Count g))"

lemma unique_visitors: "snd (counts_of es) = card {h. \<exists>e \<in> set es. scan_IPHash e = Some h}"
proof -
  have "set (List.map_filter scan_IPHash es) = {h. \<exists>e \<in> set es. scan_IPHash e = Some h}"
    by (auto simp: map_filter_member)
  then show ?thesis by (simp add: counts_of_def length_remdups_card_conv)
qed

lemma talliesI:
  assumes "(an_TotalScans a, an_UniqueVisitors a) = counts_of es" "an_Daily a = daily_of es"
    and top: "an_TopUserAgents a = take topUserAgentsLimit (ranked_agents f es)"
  shows "tallies es a"
proof -
  let ?all = "ranked_agents f es" and ?n = topUserAgentsLimit
  have counts: "an_TotalScans a = length es" "an_UniqueVisitors a = card {h. \<exists>e \<in> set es. scan_IPHash e = Some h}"
    using assms(1) unique_visitors [of es] by (simp_all add: counts_of_def)
  have "count_list (agents_of es) ua \<le> uac_Count g"
    if ua: "ua \<in> set (agents_of es)" "ua \<notin> uac_UserAgent ` set (take ?n ?all)" and g: "g \<in> set (take ?n ?all)" for ua g
  proof -
    let ?h = "\<lparr>uac_UserAgent = ua, uac_Count = count_list (agents_of es) ua\<rparr>"
    have "?h \<in> set ?all" using ua(1) by (simp add: set_ranked_agents)
    moreover have "?h \<notin> set (take ?n ?all)" using ua(2) by force
    ultimately have "?h \<in> set (drop ?n ?all)" by (metis Un_iff append_take_drop_id set_append)
    from sorted_wrt_take_top [OF sorted_ranked_agents g this] show ?thesis by simp
  qed
  moreover have "uac_Count g = count_list (agents_of es) (uac_UserAgent g)" if "g \<in> set (take ?n ?all)" for g
    using in_set_takeD [OF that] by (auto simp: set_ranked_agents)
  moreover have "distinct (map uac_UserAgent (take ?n ?all))"
    using distinct_take [OF distinct_ranked_agents, of ?n f es] by (simp add: take_map)
  moreover have "sorted_wrt (\<lambda>g h. uac_Count h \<le> uac_Count g) (take ?n ?all)"
    by (rule sorted_wrt_take [OF sorted_ranked_agents])
  moreover have "\<forall>r \<in> set (daily_of es). 0 < dc_Count r \<and> dc_Count r = length (filter (\<lambda>e. scan_day e = dc_Date r) es)"
    using daily_of_count by blast
  ultimately show ?thesis
    using counts daily_of_total [of es] daily_of_sorted [of es] length_take [of ?n ?all]
    unfolding tallies_def assms(2) top by (intro conjI ballI) (blast | linarith | simp)+
qed

lemma talliesI_none:
  "tallies [] \<lparr>an_CodeID = i, an_TotalScans = 0, an_UniqueVisitors = 0, an_Daily = [], an_TopUserAgents = []\<rparr>"
  by (simp add: tallies_def agents_of_def map_filter_simps)

definition code_scans :: "db \<Rightarrow> code \<Rightarrow> scan_event list" where
  "code_scans d c = (case code_Dynamic c of None \<Rightarrow> [] | Some dyn \<Rightarrow> scans_of (dyn_Slug dyn) d)"

context backend
begin

lemma analytics_world:
  assumes "sane w" "codes_Analytics (codes_svc V) u i w = (r, w')"
  shows "sane w' \<and> same_codes (wd_db w) (wd_db w') \<and>
    (\<forall>a. r = Inr a \<longrightarrow> (\<exists>c. owned u (held w i) = Some c \<and> an_CodeID a = i \<and> tallies (code_scans (wd_db w) c) a))"
proof -
  note spec = codes.Analytics_spec [OF assms]
  have "tallies (code_scans (wd_db w) c) a" if "case code_Dynamic c of
      None \<Rightarrow> a = \<lparr>an_CodeID = i, an_TotalScans = 0, an_UniqueVisitors = 0, an_Daily = [], an_TopUserAgents = []\<rparr>
    | Some dyn \<Rightarrow> (let es = scanned w (dyn_Slug dyn) in
        (an_TotalScans a, an_UniqueVisitors a) = counts_of es \<and> an_Daily a = daily_of es \<and>
        an_TopUserAgents a = take topUserAgentsLimit (ranked_agents (pg_collate (ev_pg V)) es))" for c a
    using that talliesI [where f = "pg_collate (ev_pg V)"]
    by (cases "code_Dynamic c") (simp_all add: code_scans_def Let_def scanned_def talliesI_none)
  with spec show ?thesis by (auto simp: unchanged_same)
qed

end

text \<open>
  C14. Analytics belong to a code of the user and are exactly those of the recorded scans of its slug
  (none for a static code): totals, distinct visitors, one entry per day with scans, and the ten most
  frequent user agents. Asking for them changes no code.
\<close>

theorem Analytics_tally:
  assumes "backend V data clock bears" and "db_ok (ev_pg V) (wd_db w)"
    and "codes_Analytics (codes_svc V) u i w = (Inr a, w')"
  shows "same_codes (wd_db w) (wd_db w') \<and>
    (\<exists>c. owned u (code_view (wd_db w) i) = Some c \<and> an_CodeID a = i \<and> tallies (code_scans (wd_db w) c) a)"
proof -
  note views = backend.sane_def [OF assms(1)] backend.held_def [OF assms(1)]
  from backend.analytics_world [OF assms(1) _ assms(3)] assms(2) show ?thesis unfolding views by blast
qed

theorem Analytics_tally_witness:
  "\<exists>a w'. codes_Analytics (codes_svc sample_backend) 1 3 sample_world = (Inr a, w') \<and> an_CodeID a = 3"
proof -
  have "case repo_GetByID sample_env 1 3 sample_db of
      (Inr c, d1) \<Rightarrow> map_option dyn_Slug (code_Dynamic c) = Some ''taken'' \<and>
       (case repo_ScanCounts sample_env ''taken'' d1 of (Inr x, d2) \<Rightarrow>
         (case repo_ScanDaily sample_env ''taken'' d2 of (Inr y, d3) \<Rightarrow>
           isl (fst (repo_ScanTopUserAgents sample_env ''taken'' 10 d3)) = False
          | _ \<Rightarrow> False) | _ \<Rightarrow> False) | _ \<Rightarrow> False"
    by code_simp
  then obtain c d1 x d2 y d3 where steps: "repo_GetByID sample_env 1 3 sample_db = (Inr c, d1)"
    "map_option dyn_Slug (code_Dynamic c) = Some ''taken''" "repo_ScanCounts sample_env ''taken'' d1 = (Inr x, d2)"
    "repo_ScanDaily sample_env ''taken'' d2 = (Inr y, d3)" "\<not> isl (fst (repo_ScanTopUserAgents sample_env ''taken'' 10 d3))"
    by (auto split: prod.splits sum.splits)
  moreover obtain q d4 where q: "repo_ScanTopUserAgents sample_env ''taken'' 10 d3 = (q, d4)" by (rule prod.exhaust)
  ultimately obtain dyn z where "code_Dynamic c = Some dyn" "dyn_Slug dyn = ''taken''" "q = Inr z"
    by (cases q) auto
  with steps q have "\<exists>a. fst (codes_Analytics (codes_svc sample_backend) 1 3 sample_world) = Inr a"
    by (cases x) (simp add: codes_Analytics_def codes_svc_def codes_repo_def on_db_def topUserAgentsLimit_def)
  then obtain a w' where run: "codes_Analytics (codes_svc sample_backend) 1 3 sample_world = (Inr a, w')"
    by (metis prod.collapse)
  from Analytics_tally [OF sample_backend_ok _ run] sample_db_ok run show ?thesis by auto
qed

end
