(* ===== verification/Calls.thy ===== *)
theory Calls
  imports Frames
begin

text \<open>
  The abstract program behind the HTTP layer: a request makes at most one call of a service, on behalf
  of at most one user. What each call does to the integrity of the tables and to what belongs to others.
\<close>

subsection \<open>Calls\<close>

datatype call =
    NoCall
  | PingCall
  | ResolveCall string string string
  | GuestCall
  | UpgradeCall uuid string string
  | CreateCall create_input
  | GetCall uuid uuid
  | ListCall uuid string int
  | UpdateCall uuid uuid update_input
  | DeleteCall uuid uuid
  | AnalyticsCall uuid uuid
  | CheckCall string

text \<open>The user a call acts for.\<close>

fun caller :: "call \<Rightarrow> uuid option" where
  "caller (UpgradeCall u em pw) = Some u"
| "caller (CreateCall inp) = Some (ci_UserID inp)"
| "caller (GetCall u i) = Some u"
| "caller (ListCall u tok limit) = Some u"
| "caller (UpdateCall u i inp) = Some u"
| "caller (DeleteCall u i) = Some u"
| "caller (AnalyticsCall u i) = Some u"
| "caller _ = None"

fun perform :: "'r env \<Rightarrow> config \<Rightarrow> call \<Rightarrow> 'r world \<Rightarrow> 'r world" where
  "perform V cfg NoCall w = w"
| "perform V cfg PingCall w = snd (on_redis (rd_Ping (ev_redis V)) (snd (on_db (ping_db (ev_pg V)) w)))"
| "perform V cfg (ResolveCall slug ipHash userAgent) w =
     (case Resolve (redirect_svc V) slug w of
        (Inl e, w1) \<Rightarrow> w1
      | (Inr dest, w1) \<Rightarrow> start_scan slug ipHash userAgent w1)"
| "perform V cfg GuestCall w = snd (CreateGuest (auth_svc V cfg) w)"
| "perform V cfg (UpgradeCall u em pw) w = snd (UpgradeToAccount (auth_svc V cfg) u em pw w)"
| "perform V cfg (CreateCall inp) w = snd (codes_Create (codes_svc V) inp w)"
| "perform V cfg (GetCall u i) w = snd (codes_Get (codes_svc V) u i w)"
| "perform V cfg (ListCall u tok limit) w = snd (codes_List (codes_svc V) u tok limit w)"
| "perform V cfg (UpdateCall u i inp) w = snd (codes_Update (codes_svc V) u i inp w)"
| "perform V cfg (DeleteCall u i) w = snd (codes_Delete (codes_svc V) u i w)"
| "perform V cfg (AnalyticsCall u i) w = snd (codes_Analytics (codes_svc V) u i w)"
| "perform V cfg (CheckCall url) w = snd (safety_Check (safety_svc V) url w)"

text \<open>The world after the rate limiter has counted a request of the client \<open>key\<close>, if it counts the request.\<close>

definition counted :: "'r env \<Rightarrow> config \<Rightarrow> string option \<Rightarrow> 'r world \<Rightarrow> 'r world" where
  "counted V cfg k w =
     (case k of
        None \<Rightarrow> w
      | Some key \<Rightarrow> w\<lparr>wd_redis := snd (limiter_Allow (redis_limiter V cfg) (wd_now w) key (wd_redis w))\<rparr>)"

lemma counted_None [simp]: "counted V cfg None w = w"
  by (simp add: counted_def)

lemma counted_simps [simp]:
  "wd_db (counted V cfg k w) = wd_db w" "wd_now (counted V cfg k w) = wd_now w"
  "wd_jobs (counted V cfg k w) = wd_jobs w"
  by (simp_all add: counted_def split: option.split)

lemma counted_key:
  obtains "counted V cfg k w = w"
  | key r s where "limiter_Allow (redis_limiter V cfg) (wd_now w) key (wd_redis w) = (r, s)"
      "counted V cfg k w = w\<lparr>wd_redis := s\<rparr>"
  by (cases k) (auto simp: counted_def intro: prod.collapse [symmetric])

subsection \<open>What belongs to others\<close>

text \<open>
  \<open>confined who d d'\<close>: from \<open>d\<close> to \<open>d'\<close>, no code changed hands or content but those of \<open>who\<close>, and no
  account but that of \<open>who\<close> changed; new guests may have appeared.
\<close>

definition codes_confined :: "uuid option \<Rightarrow> db \<Rightarrow> db \<Rightarrow> bool" where
  "codes_confined who d d' \<longleftrightarrow>
     (case who of None \<Rightarrow> same_codes d d' | Some u \<Rightarrow> isolated u (code_view d) (code_view d'))"

definition users_confined :: "uuid option \<Rightarrow> db \<Rightarrow> db \<Rightarrow> bool" where
  "users_confined who d d' \<longleftrightarrow> (\<forall>i u. user_view d i = Some u \<longrightarrow> who \<noteq> Some i \<longrightarrow> user_view d' i = Some u)"

definition confined :: "uuid option \<Rightarrow> db \<Rightarrow> db \<Rightarrow> bool" where
  "confined who d d' \<longleftrightarrow> codes_confined who d d' \<and> users_confined who d d'"

lemma confined_refl [simp]: "confined who d d"
  by (simp add: confined_def codes_confined_def users_confined_def split: option.split)

lemma confined_trans:
  assumes "confined who d d'" "confined who d' d''" shows "confined who d d''"
proof -
  have "codes_confined who d d''"
    using assms isolated_trans by (cases who) (auto simp: confined_def codes_confined_def same_codes_def)
  moreover have "users_confined who d d''" using assms unfolding confined_def users_confined_def by blast
  ultimately show ?thesis by (simp add: confined_def)
qed

lemma same_codes_confined: "same_codes d d' \<Longrightarrow> codes_confined who d d'"
  unfolding codes_confined_def same_codes_def by (cases who) (simp, metis isolated_refl option.case(2))

lemma same_users_confined: "user_view d' = user_view d \<Longrightarrow> users_confined who d d'"
  unfolding users_confined_def by metis

lemma confined_same: "same_codes d d' \<Longrightarrow> user_view d' = user_view d \<Longrightarrow> confined who d d'"
  unfolding confined_def by (intro conjI same_codes_confined same_users_confined)

lemma confined_weaken: "confined None d d' \<Longrightarrow> confined who d d'"
  using same_codes_confined [of d d' who] by (auto simp: confined_def codes_confined_def users_confined_def)

lemma confined_main: "main_tables d' = main_tables d \<Longrightarrow> confined who d d'"
  using main_tables_views [of d' d] by (auto intro: confined_same)

text \<open>A change to codes only, and a change to accounts only.\<close>

lemma confined_codes:
  "isolated u (code_view d) (code_view d') \<Longrightarrow> people_tables d' = people_tables d \<Longrightarrow> confined (Some u) d d'"
  using same_users_confined [OF people_tables_view] by (simp add: confined_def codes_confined_def)

lemma confined_users:
  "same_codes d d' \<Longrightarrow> (\<And>i v. user_view d i = Some v \<Longrightarrow> who \<noteq> Some i \<Longrightarrow> user_view d' i = Some v) \<Longrightarrow> confined who d d'"
  using same_codes_confined [of d d' who] by (auto simp: confined_def users_confined_def)

subsection \<open>The laws of the calls\<close>


lemma table_frame_ok: "table_frame (db_ok E)"
  by (simp add: table_frame_def)

context auth_parts
begin

text \<open>A panic of the password library comes before anything is stored.\<close>

lemma Upgrade_panic:
  assumes "inv w" "UpgradeToAccount S i email password w = (None, w')"
  shows "inv w' \<and> people w' = people w"
  using assms getByID [OF assms(1)] rand
  by (auto simp: UpgradeToAccount_def split: prod.splits sum.splits option.splits if_splits) metis+

lemma Upgrade_frame:
  assumes "inv w" "UpgradeToAccount S i email password w = (r, w')"
  shows "inv w' \<and> (\<forall>j. j \<noteq> i \<longrightarrow> people w' j = people w j)"
proof (cases r)
  case None
  with assms Upgrade_panic show ?thesis by auto
next
  case (Some q)
  from Upgrade_spec [OF assms this] show ?thesis by (cases q) auto
qed

lemma Guest_frame:
  assumes "inv w" "CreateGuest S w = (r, w')"
  shows "inv w' \<and> people w \<subseteq>\<^sub>m people w'"
  using CreateGuest_spec [OF assms] by (cases r) (auto simp: created_user_def map_le_upd_fresh)

end

context app
begin

lemma perform_sane: "sane w \<Longrightarrow> sane (perform V cfg c w)"
proof (cases c)
  assume w: "sane w"
  have db: "sane w' \<longleftrightarrow> db_ok (ev_pg V) (wd_db w')" for w' by (simp add: sane_def)
  case PingCall
  with w codes_repo_reads(7) [OF table_frame_ok] show ?thesis
    by (simp add: db on_db_def on_redis_def split: prod.split) (metis snd_conv)
next
  case (ResolveCall slug h ua)
  obtain r w1 where "Resolve (redirect_svc V) slug w = (r, w1)" by (rule prod.exhaust)
  with Resolve_world [OF table_frame_ok this] ResolveCall show "sane w \<Longrightarrow> ?thesis"
    by (cases r) (simp_all add: sane_def start_scan_def)
next
  case GuestCall
  then show "sane w \<Longrightarrow> ?thesis" using auth.Guest_frame [of w] by (simp add: prod_eq_iff)
next
  case (UpgradeCall u em pw)
  then show "sane w \<Longrightarrow> ?thesis" using auth.Upgrade_frame [of w u em pw] by (simp add: prod_eq_iff)
next
  case (CreateCall inp)
  then show "sane w \<Longrightarrow> ?thesis" using codes.Create_spec [of w inp] by (simp add: prod_eq_iff)
next
  case (GetCall u i)
  then show "sane w \<Longrightarrow> ?thesis" using codes.Get_spec [of w u i] by (simp add: prod_eq_iff)
next
  case (ListCall u tok limit)
  then show "sane w \<Longrightarrow> ?thesis" using codes.List_spec [of w u tok limit] by (simp add: prod_eq_iff)
next
  case (UpdateCall u i inp)
  then show "sane w \<Longrightarrow> ?thesis" using codes.Update_spec [of w u i inp] by (simp add: prod_eq_iff codes.update_result_def)
next
  case (DeleteCall u i)
  then show "sane w \<Longrightarrow> ?thesis" using codes.Delete_spec [of w u i] by (simp add: prod_eq_iff)
next
  case (AnalyticsCall u i)
  then show "sane w \<Longrightarrow> ?thesis" using codes.Analytics_spec [of w u i] by (simp add: prod_eq_iff)
next
  case (CheckCall url)
  obtain v w1 where "safety_Check (safety_svc V) url w = (v, w1)" by (rule prod.exhaust)
  with safety_Check_world [OF this] CheckCall show "sane w \<Longrightarrow> ?thesis" by (auto simp: sane_def)
qed simp

text \<open>A codes operation is blind to the accounts, and an auth operation to the codes.\<close>

lemma codes_call_confined:
  assumes "keeps codes_blind act" "act w = (r, w')" "isolated u (held w) (held w')"
  shows "confined (Some u) (wd_db w) (wd_db w')"
  using keepsD [OF assms(1,2)] assms(3) by (intro confined_codes) (simp_all add: codes_blind_def held_def)

lemma auth_call_confined:
  assumes "auth_blind w' = auth_blind w" "\<And>i v. people w i = Some v \<Longrightarrow> who \<noteq> Some i \<Longrightarrow> people w' i = Some v"
  shows "confined who (wd_db w) (wd_db w')"
  using assms by (intro confined_users code_tables_views) (simp_all add: auth_blind_def people_def)

lemma unchanged_isolated: "codes.unchanged w w' \<Longrightarrow> isolated u (held w) (held w')"
  by (simp add: codes.unchanged_def)

lemma perform_confined:
  assumes w: "sane w"
  shows "confined (caller c) (wd_db w) (wd_db (perform V cfg c w))"
proof (cases c)
  case PingCall
  with codes_repo_reads(7) [OF table_frames(3)] show ?thesis
    by (auto intro!: confined_main simp: on_db_def on_redis_def split: prod.split) (metis snd_conv)
next
  case (ResolveCall slug h ua)
  obtain r w1 where "Resolve (redirect_svc V) slug w = (r, w1)" by (rule prod.exhaust)
  with Resolve_world [OF table_frames(3) this] ResolveCall show ?thesis
    by (cases r) (auto intro!: confined_main simp: start_scan_def)
next
  case GuestCall
  obtain r w1 where run: "CreateGuest (auth_svc V cfg) w = (r, w1)" by (rule prod.exhaust)
  have "people w i = Some v \<Longrightarrow> people w1 i = Some v" for i v
    using auth.Guest_frame [OF w run] by (auto dest: map_leD)
  with GuestCall run CreateGuest_blind [OF run] show ?thesis by (auto intro!: auth_call_confined)
next
  case (UpgradeCall u em pw)
  obtain r w1 where run: "UpgradeToAccount (auth_svc V cfg) u em pw w = (r, w1)" by (rule prod.exhaust)
  with auth.Upgrade_frame [OF w run] UpgradeCall Upgrade_blind [OF run] show ?thesis
    by (auto intro!: auth_call_confined)
next
  case (CreateCall inp)
  obtain r w1 where run: "codes_Create (codes_svc V) inp w = (r, w1)" by (rule prod.exhaust)
  from codes_call_confined [OF blind.codes_keep(1) run codes.Create_isolated [OF w run]]
  show ?thesis using CreateCall run by simp
next
  case (GetCall u i)
  obtain r w1 where run: "codes_Get (codes_svc V) u i w = (r, w1)" by (rule prod.exhaust)
  have "isolated u (held w) (held w1)" using codes.Get_spec [OF w run] unchanged_isolated by blast
  from codes_call_confined [OF blind.codes_keep(2) run this] show ?thesis using GetCall run by simp
next
  case (ListCall u tok limit)
  obtain r w1 where run: "codes_List (codes_svc V) u tok limit w = (r, w1)" by (rule prod.exhaust)
  have "isolated u (held w) (held w1)" using codes.List_spec [OF w run] unchanged_isolated by blast
  from codes_call_confined [OF blind.codes_keep(3) run this] show ?thesis using ListCall run by simp
next
  case (UpdateCall u i inp)
  obtain r w1 where run: "codes_Update (codes_svc V) u i inp w = (r, w1)" by (rule prod.exhaust)
  from codes_call_confined [OF blind.codes_keep(4) run codes.Update_isolated [OF w run]]
  show ?thesis using UpdateCall run by simp
next
  case (DeleteCall u i)
  obtain r w1 where run: "codes_Delete (codes_svc V) u i w = (r, w1)" by (rule prod.exhaust)
  from codes_call_confined [OF blind.codes_keep(5) run codes.Delete_isolated [OF w run]]
  show ?thesis using DeleteCall run by simp
next
  case (AnalyticsCall u i)
  obtain r w1 where run: "codes_Analytics (codes_svc V) u i w = (r, w1)" by (rule prod.exhaust)
  have "isolated u (held w) (held w1)" using codes.Analytics_spec [OF w run] unchanged_isolated by blast
  from codes_call_confined [OF blind.codes_keep(6) run this] show ?thesis using AnalyticsCall run by simp
next
  case (CheckCall url)
  obtain v w1 where "safety_Check (safety_svc V) url w = (v, w1)" by (rule prod.exhaust)
  with safety_Check_world [OF this] CheckCall show ?thesis by auto
qed simp

end

end
