(* ===== verification/HttpCalls.thy ===== *)
theory HttpCalls
  imports Calls
begin

text \<open>
  The HTTP server as a refinement of the calls: whatever the router, every request is answered after at
  most one call of a service, the one that its method, path, query and body ask for, on behalf of the
  user of its bearer token if the endpoint needs one; and a request of the API is counted once, under
  the address of its client, if there is a limit.
\<close>

subsection \<open>What a request asks for\<close>

definition create_input_of :: "uuid \<Rightarrow> create_request \<Rightarrow> create_input" where
  "create_input_of u q = \<lparr>ci_UserID = u, ci_Type = cq_Type q, ci_Payload = cq_Payload q, ci_Label = cq_Label q,
     ci_IsDynamic = cq_IsDynamic q\<rparr>"

text \<open>
  The interface of the server, independent of its table of routes: the method and the path of a request,
  and the value of a parameter of the path.
\<close>

definition requested :: "string \<Rightarrow> string \<Rightarrow> request \<Rightarrow> bool" where
  "requested m pattern r \<longleftrightarrow> rq_Method r = m \<and> match_pattern pattern (routing_path r) \<noteq> None"

definition path_value :: "string \<Rightarrow> string \<Rightarrow> request \<Rightarrow> string" where
  "path_value pattern x r =
     (case match_pattern pattern (routing_path r) of
        None \<Rightarrow> []
      | Some ps \<Rightarrow> (case map_of ps x of None \<Rightarrow> [] | Some v \<Rightarrow> v))"

text \<open>The request is one for the code \<open>i\<close>.\<close>

definition for_code :: "'r env \<Rightarrow> string \<Rightarrow> string \<Rightarrow> request \<Rightarrow> uuid \<Rightarrow> bool" where
  "for_code V m pattern r i \<longleftrightarrow> requested m pattern r \<and> uuid_Parse (ev_uuid V) (path_value pattern ''id'' r) = Inr i"

text \<open>
  \<open>asks V who r c\<close>: the request \<open>r\<close>, authenticated as \<open>who\<close>, asks for the call \<open>c\<close>: by its method and
  path, for the code that the path names, with the inputs of its query or body, which have passed the
  validation. Any request may be refused before a call is made.
\<close>

definition asks :: "'r env \<Rightarrow> uuid option \<Rightarrow> request \<Rightarrow> call \<Rightarrow> bool" where
  "asks V who r c \<longleftrightarrow>
     (case c of
        NoCall \<Rightarrow> True
      | PingCall \<Rightarrow> requested ''GET'' ''/health'' r
      | ResolveCall slug ipHash userAgent \<Rightarrow> requested ''GET'' ''/r/{slug}'' r \<and>
          slug = path_value ''/r/{slug}'' ''slug'' r \<and> ipHash = HashIP (clientIP r) \<and>
          userAgent = header_Get (rq_Header r) ''User-Agent''
      | GuestCall \<Rightarrow> requested ''POST'' ''/api/v1/auth/guest'' r
      | UpgradeCall u em pw \<Rightarrow> requested ''POST'' ''/api/v1/auth/upgrade'' r \<and> who = Some u \<and>
          (\<exists>q. decode_upgrade r = Some q \<and> ev_validator V (upgrade_tags q) \<and> em = uq_Email q \<and> pw = uq_Password q)
      | CreateCall inp \<Rightarrow> requested ''POST'' ''/api/v1/codes'' r \<and> who = Some (ci_UserID inp) \<and>
          (\<exists>q. decode_create r = Some q \<and> ev_validator V (create_tags q) \<and> IsJSONObject (cq_Payload q) \<and>
            inp = create_input_of (ci_UserID inp) q)
      | ListCall u tok limit \<Rightarrow> requested ''GET'' ''/api/v1/codes'' r \<and> who = Some u \<and>
          tok = query_Get (rq_Query r) ''cursor'' \<and> query_limit r = Some limit
      | GetCall u i \<Rightarrow> for_code V ''GET'' ''/api/v1/codes/{id}'' r i \<and> who = Some u
      | UpdateCall u i inp \<Rightarrow> for_code V ''PATCH'' ''/api/v1/codes/{id}'' r i \<and> who = Some u \<and>
          (\<exists>q. decode_update r = Some q \<and> ev_validator V (update_tags q) \<and>
            inp = \<lparr>ui_Label = pq_Label q, ui_Destination = pq_Destination q\<rparr>)
      | DeleteCall u i \<Rightarrow> for_code V ''DELETE'' ''/api/v1/codes/{id}'' r i \<and> who = Some u
      | AnalyticsCall u i \<Rightarrow> for_code V ''GET'' ''/api/v1/codes/{id}/analytics'' r i \<and> who = Some u
      | CheckCall url \<Rightarrow> requested ''POST'' ''/api/v1/scan/check'' r \<and> who \<noteq> None \<and> decode_check r = Some url \<and>
          ev_validator V [([Required, MaxLen 2048], FString url)])"

text \<open>
  \<open>counts V cfg r c k\<close>: what the rate limiter counts, the address of the client for a request of the API
  if there is a limit; a preflight that the CORS middleware answers makes no call and is not counted.
\<close>

definition limited_key :: "config \<Rightarrow> request \<Rightarrow> string option" where
  "limited_key cfg r =
     (if cfg_RateLimitRPM cfg > 0 \<and> under (routing_path r) ''/api/v1'' then Some (clientIP r) else None)"

definition counts :: "'r env \<Rightarrow> config \<Rightarrow> request \<Rightarrow> call \<Rightarrow> string option \<Rightarrow> bool" where
  "counts V cfg r c k \<longleftrightarrow> k = limited_key cfg r \<or> c = NoCall \<and> k = None"

lemma asks_caller: "asks V who r c \<Longrightarrow> caller c = None \<or> caller c = who"
  by (cases c) (auto simp: asks_def)

lemma routing_path_simps [simp]:
  "routing_path (r\<lparr>rq_Params := ps\<rparr>) = routing_path r" "routing_path (r\<lparr>rq_Context := ctx\<rparr>) = routing_path r"
  by (simp_all add: routing_path_def)

lemma requested_simps [simp]:
  "requested m p (r\<lparr>rq_Params := ps\<rparr>) = requested m p r" "requested m p (r\<lparr>rq_Context := ctx\<rparr>) = requested m p r"
  "path_value p x (r\<lparr>rq_Params := ps\<rparr>) = path_value p x r" "path_value p x (r\<lparr>rq_Context := ctx\<rparr>) = path_value p x r"
  "for_code V m p (r\<lparr>rq_Params := ps\<rparr>) = for_code V m p r" "for_code V m p (r\<lparr>rq_Context := ctx\<rparr>) = for_code V m p r"
  "clientIP (r\<lparr>rq_Params := ps\<rparr>) = clientIP r" "clientIP (r\<lparr>rq_Context := ctx\<rparr>) = clientIP r"
  by (simp_all add: requested_def path_value_def for_code_def clientIP_def Let_def fun_eq_iff split: option.split)

lemma limited_key_simps [simp]:
  "limited_key cfg (r\<lparr>rq_Params := ps\<rparr>) = limited_key cfg r" "limited_key cfg (r\<lparr>rq_Context := ctx\<rparr>) = limited_key cfg r"
  "counts V cfg (r\<lparr>rq_Params := ps\<rparr>) = counts V cfg r"
  by (simp_all add: limited_key_def counts_def fun_eq_iff)

lemma asks_request [simp]:
  "asks V who (r\<lparr>rq_Params := ps\<rparr>) = asks V who r" "asks V who (r\<lparr>rq_Context := ctx\<rparr>) = asks V who r"
  by (simp_all add: asks_def fun_eq_iff decode_create_def decode_update_def decode_upgrade_def decode_check_def
      body_members_def query_limit_def split: call.split)

text \<open>A request that the router has dispatched to an endpoint.\<close>

definition reaches :: "string \<Rightarrow> string \<Rightarrow> request \<Rightarrow> bool" where
  "reaches m pattern r \<longleftrightarrow>
     rq_Method r = m \<and> (\<exists>ps. match_pattern pattern (routing_path r) = Some ps \<and> rq_Params r = map_of ps)"

lemma reaches_requested: "reaches m pattern r \<Longrightarrow> requested m pattern r"
  by (auto simp: reaches_def requested_def)

lemma reaches_value: "reaches m pattern r \<Longrightarrow> URLParam r x = path_value pattern x r"
  by (auto simp: reaches_def URLParam_def path_value_def)

lemma reaches_code:
  "reaches m pattern r \<Longrightarrow> uuid_Parse (ev_uuid V) (URLParam r ''id'') = Inr i \<Longrightarrow> for_code V m pattern r i"
  by (simp add: for_code_def reaches_requested reaches_value)

lemma reaches_context [simp]: "reaches m p (r\<lparr>rq_Context := ctx\<rparr>) = reaches m p r"
  by (simp add: reaches_def)

subsection \<open>Handlers that make calls\<close>

text \<open>\<open>P\<close> says which requests get to the handler.\<close>

definition calls ::
  "'r env \<Rightarrow> config \<Rightarrow> (request \<Rightarrow> 'r world \<Rightarrow> uuid option) \<Rightarrow> (request \<Rightarrow> bool) \<Rightarrow> 'r world handler \<Rightarrow> bool" where
  "calls V cfg who P h \<longleftrightarrow>
     (\<forall>r W w. P r \<longrightarrow> (\<exists>c. asks V (who r w) r c \<and> snd (snd (h r (W, w))) = perform V cfg c w))"

lemma callsI:
  assumes "\<And>r W w. P r \<Longrightarrow> \<exists>c. asks V (who r w) r c \<and> snd (snd (h r (W, w))) = perform V cfg c w"
  shows "calls V cfg who P h"
  using assms by (simp add: calls_def)

lemma callsD:
  assumes "calls V cfg who P h" "P r"
  obtains c where "asks V (who r w) r c" "snd (snd (h r (W, w))) = perform V cfg c w"
  using assms unfolding calls_def by blast

text \<open>Handlers that are counted, and may log.\<close>

definition counted_calls ::
  "'r env \<Rightarrow> config \<Rightarrow> (request \<Rightarrow> 'r world \<Rightarrow> uuid option) \<Rightarrow> (request \<Rightarrow> bool) \<Rightarrow> 'r world handler \<Rightarrow> bool" where
  "counted_calls V cfg who P h \<longleftrightarrow>
     (\<forall>r W w. P r \<longrightarrow> (\<exists>c k ls. asks V (who r w) r c \<and> counts V cfg r c k \<and>
        snd (snd (h r (W, w))) = (perform V cfg c (counted V cfg k w))\<lparr>wd_log := ls\<rparr>))"

lemma counted_callsI:
  assumes "\<And>r W w. P r \<Longrightarrow> \<exists>c k ls. asks V (who r w) r c \<and> counts V cfg r c k \<and>
        snd (snd (h r (W, w))) = (perform V cfg c (counted V cfg k w))\<lparr>wd_log := ls\<rparr>"
  shows "counted_calls V cfg who P h"
  using assms by (simp add: counted_calls_def)

lemma counted_callsD:
  assumes "counted_calls V cfg who P h" "P r"
  obtains c k ls where "asks V (who r w) r c" "counts V cfg r c k"
    "snd (snd (h r (W, w))) = (perform V cfg c (counted V cfg k w))\<lparr>wd_log := ls\<rparr>"
  using assms unfolding counted_calls_def by blast

lemma uncounted_calls:
  assumes h: "calls V cfg who P h" and P: "\<And>r. P r \<Longrightarrow> limited_key cfg r = None"
  shows "counted_calls V cfg who P h"
proof (rule counted_callsI)
  fix r :: request and W w assume r: "P r"
  obtain c where "asks V (who r w) r c" "snd (snd (h r (W, w))) = perform V cfg c w" using callsD [OF h r] .
  moreover have "counts V cfg r c None" using P [OF r] by (simp add: counts_def)
  moreover have "perform V cfg c w = (perform V cfg c (counted V cfg None w))\<lparr>wd_log := wd_log (perform V cfg c w)\<rparr>" by simp
  ultimately show "\<exists>c k ls. asks V (who r w) r c \<and> counts V cfg r c k \<and>
      snd (snd (h r (W, w))) = (perform V cfg c (counted V cfg k w))\<lparr>wd_log := ls\<rparr>" by metis
qed

text \<open>A handler behind \<open>Auth\<close>, which finds the user in the context.\<close>

definition calls_as :: "'r env \<Rightarrow> config \<Rightarrow> (request \<Rightarrow> bool) \<Rightarrow> 'r world handler \<Rightarrow> bool" where
  "calls_as V cfg P h \<longleftrightarrow>
     (\<forall>r W w u. P r \<longrightarrow> UserIDFromContext (rq_Context r) = Some u \<longrightarrow>
        (\<exists>c. asks V (Some u) r c \<and> snd (snd (h r (W, w))) = perform V cfg c w))"

lemma calls_asI:
  assumes "\<And>r W w u. P r \<Longrightarrow> UserIDFromContext (rq_Context r) = Some u \<Longrightarrow>
      \<exists>c. asks V (Some u) r c \<and> snd (snd (h r (W, w))) = perform V cfg c w"
  shows "calls_as V cfg P h"
  using assms by (simp add: calls_as_def)

lemma refused:
  "snd (snd (h r (W, w))) = w \<Longrightarrow> \<exists>c. asks V who r c \<and> snd (snd (h r (W, w))) = perform V cfg c w"
  by (rule exI [of _ NoCall]) (simp add: asks_def)

text \<open>The user of the bearer token.\<close>

definition token_user :: "'r env \<Rightarrow> config \<Rightarrow> request \<Rightarrow> 'r world \<Rightarrow> uuid option" where
  "token_user V cfg r w = map_option fst (bearer (token_mgr V cfg) (wd_now w) r)"

lemma token_user_simps [simp]:
  "token_user V cfg r (counted V cfg k w) = token_user V cfg r w"
  "token_user V cfg (r\<lparr>rq_Params := ps\<rparr>) w = token_user V cfg r w"
  by (simp_all add: token_user_def bearer_def)

subsection \<open>The endpoints\<close>

lemma calls_Health:
  "calls V cfg who (reaches ''GET'' ''/health'') (Health (fst (hs_Health (all_handlers V cfg))) (snd (hs_Health (all_handlers V cfg))))"
proof (rule callsI)
  fix r :: request and W w assume r: "reaches ''GET'' ''/health'' r"
  let ?h = "Health (fst (hs_Health (all_handlers V cfg))) (snd (hs_Health (all_handlers V cfg)))"
  have "snd (snd (?h r (W, w))) = perform V cfg PingCall w"
    by (simp add: Health_def all_handlers_def Let_def split: prod.split)
  then show "\<exists>c. asks V (who r w) r c \<and> snd (snd (?h r (W, w))) = perform V cfg c w"
    using reaches_requested [OF r] by (intro exI [of _ PingCall]) (simp add: asks_def)
qed

lemma calls_Redirect: "calls V cfg who (reaches ''GET'' ''/r/{slug}'') (Redirect (hs_Redirect (all_handlers V cfg)))"
proof (rule callsI)
  fix r :: request and W w assume r: "reaches ''GET'' ''/r/{slug}'' r"
  let ?c = "ResolveCall (URLParam r ''slug'') (HashIP (redirect_clientIP r)) (header_Get (rq_Header r) ''User-Agent'')"
  let ?h = "Redirect (hs_Redirect (all_handlers V cfg))"
  have "snd (snd (?h r (W, w))) = perform V cfg ?c w"
    by (simp add: Redirect_def all_handlers_def Let_def split: prod.split sum.split)
  then show "\<exists>c. asks V (who r w) r c \<and> snd (snd (?h r (W, w))) = perform V cfg c w"
    using reaches_requested [OF r] reaches_value [OF r]
    by (intro exI [of _ ?c]) (simp add: asks_def redirect_clientIP_eq)
qed

lemma calls_Guest:
  "calls V cfg who (reaches ''POST'' ''/api/v1/auth/guest'') (AuthHandler_Guest (hs_Auth (all_handlers V cfg)))"
proof (rule callsI)
  fix r :: request and W w assume r: "reaches ''POST'' ''/api/v1/auth/guest'' r"
  let ?h = "AuthHandler_Guest (hs_Auth (all_handlers V cfg))"
  have "snd (snd (?h r (W, w))) = perform V cfg GuestCall w"
    by (simp add: AuthHandler_Guest_def all_handlers_def auth_api_of_def split: prod.split sum.split)
  then show "\<exists>c. asks V (who r w) r c \<and> snd (snd (?h r (W, w))) = perform V cfg c w"
    using reaches_requested [OF r] by (intro exI [of _ GuestCall]) (simp add: asks_def)
qed

lemma reply_world: "snd (snd (reply status json W res)) = snd res"
  by (simp add: reply_def split: prod.split sum.split)

lemma codes_handler_simps [simp]:
  "ch_svc (hs_Codes (all_handlers V cfg)) = codes_api_of (codes_svc V)"
  "ch_validate (hs_Codes (all_handlers V cfg)) = ev_validator V"
  "ch_uuid (hs_Codes (all_handlers V cfg)) = ev_uuid V"
  by (simp_all add: all_handlers_def NewCodesHandler_def)

lemmas endpoint_defs = with_user_def with_id_def codes_api_of_def reply_world asks_def

text \<open>The endpoints behind \<open>Auth\<close>.\<close>

lemma calls_Upgrade: "calls_as V cfg (reaches ''POST'' ''/api/v1/auth/upgrade'') (AuthHandler_Upgrade (hs_Auth (all_handlers V cfg)))"
proof (rule calls_asI)
  fix r :: request and W w u assume r: "reaches ''POST'' ''/api/v1/auth/upgrade'' r" and u: "UserIDFromContext (rq_Context r) = Some u"
  let ?h = "AuthHandler_Upgrade (hs_Auth (all_handlers V cfg))"
  show "\<exists>c. asks V (Some u) r c \<and> snd (snd (?h r (W, w))) = perform V cfg c w"
  proof (cases "\<exists>q. decode_upgrade r = Some q \<and> ev_validator V (upgrade_tags q)")
    case True
    then obtain q where "decode_upgrade r = Some q" "ev_validator V (upgrade_tags q)" by blast
    with u reaches_requested [OF r] show ?thesis
      by (intro exI [of _ "UpgradeCall u (uq_Email q) (uq_Password q)"])
        (auto simp: AuthHandler_Upgrade_def all_handlers_def auth_api_of_def asks_def
          split: prod.split option.split sum.split)
  next
    case False
    with u show ?thesis
      by (intro refused) (auto simp: AuthHandler_Upgrade_def all_handlers_def split: option.split)
  qed
qed

lemma calls_Check:
  "calls_as V cfg (reaches ''POST'' ''/api/v1/scan/check'') (SafetyHandler_Check (fst (hs_Safety (all_handlers V cfg))) (snd (hs_Safety (all_handlers V cfg))))"
proof (rule calls_asI)
  fix r :: request and W w u assume r: "reaches ''POST'' ''/api/v1/scan/check'' r"
  let ?h = "SafetyHandler_Check (fst (hs_Safety (all_handlers V cfg))) (snd (hs_Safety (all_handlers V cfg)))"
  show "\<exists>c. asks V (Some u) r c \<and> snd (snd (?h r (W, w))) = perform V cfg c w"
  proof (cases "\<exists>url. decode_check r = Some url \<and> ev_validator V [([Required, MaxLen 2048], FString url)]")
    case True
    then obtain url where "decode_check r = Some url" "ev_validator V [([Required, MaxLen 2048], FString url)]" by blast
    with reaches_requested [OF r] show ?thesis
      by (intro exI [of _ "CheckCall url"])
        (auto simp: SafetyHandler_Check_def all_handlers_def asks_def split: prod.split sum.split)
  next
    case False
    then show ?thesis
      by (intro refused) (auto simp: SafetyHandler_Check_def all_handlers_def split: option.split)
  qed
qed

lemma calls_QR: "calls_as V cfg P (QRHandler_Generate (fst (hs_QR (all_handlers V cfg))) (snd (hs_QR (all_handlers V cfg))))"
  by (rule calls_asI, rule refused) (simp add: QRHandler_Generate_def)

lemma calls_Create: "calls_as V cfg (reaches ''POST'' ''/api/v1/codes'') (CodesHandler_Create (hs_Codes (all_handlers V cfg)))"
proof (rule calls_asI)
  fix r :: request and W w u assume r: "reaches ''POST'' ''/api/v1/codes'' r" and u: "UserIDFromContext (rq_Context r) = Some u"
  let ?h = "CodesHandler_Create (hs_Codes (all_handlers V cfg))"
  show "\<exists>c. asks V (Some u) r c \<and> snd (snd (?h r (W, w))) = perform V cfg c w"
  proof (cases "\<exists>q. decode_create r = Some q \<and> ev_validator V (create_tags q) \<and> IsJSONObject (cq_Payload q)")
    case True
    then obtain q where "decode_create r = Some q" "ev_validator V (create_tags q)" "IsJSONObject (cq_Payload q)" by blast
    with u reaches_requested [OF r] show ?thesis
      by (intro exI [of _ "CreateCall (create_input_of u q)"])
        (simp add: CodesHandler_Create_def create_input_of_def endpoint_defs)
  next
    case False
    with u show ?thesis
      by (intro refused) (auto simp: CodesHandler_Create_def with_user_def split: option.split)
  qed
qed

lemma calls_List: "calls_as V cfg (reaches ''GET'' ''/api/v1/codes'') (CodesHandler_List (hs_Codes (all_handlers V cfg)))"
proof (rule calls_asI)
  fix r :: request and W w u assume r: "reaches ''GET'' ''/api/v1/codes'' r" and u: "UserIDFromContext (rq_Context r) = Some u"
  let ?h = "CodesHandler_List (hs_Codes (all_handlers V cfg))"
  show "\<exists>c. asks V (Some u) r c \<and> snd (snd (?h r (W, w))) = perform V cfg c w"
  proof (cases "query_limit r")
    case (Some limit)
    with u reaches_requested [OF r] show ?thesis
      by (intro exI [of _ "ListCall u (query_Get (rq_Query r) ''cursor'') limit"])
        (simp add: CodesHandler_List_def endpoint_defs)
  next
    case None
    with u show ?thesis by (intro refused) (simp add: CodesHandler_List_def with_user_def)
  qed
qed

text \<open>The endpoints with an id in the path: a malformed one is answered at once.\<close>

lemma calls_as_id:
  assumes "\<And>r W w u i. UserIDFromContext (rq_Context r) = Some u \<Longrightarrow>
      uuid_Parse (ev_uuid V) (URLParam r ''id'') = Inr i \<Longrightarrow> for_code V m pattern r i \<Longrightarrow>
      \<exists>c. asks V (Some u) r c \<and> snd (snd (h r (W, w))) = perform V cfg c w"
    and "\<And>r W w u e. UserIDFromContext (rq_Context r) = Some u \<Longrightarrow>
      uuid_Parse (ev_uuid V) (URLParam r ''id'') = Inl e \<Longrightarrow> snd (snd (h r (W, w))) = w"
  shows "calls_as V cfg (reaches m pattern) h"
proof (rule calls_asI)
  fix r :: request and W w u assume r: "reaches m pattern r" and u: "UserIDFromContext (rq_Context r) = Some u"
  show "\<exists>c. asks V (Some u) r c \<and> snd (snd (h r (W, w))) = perform V cfg c w"
  proof (cases "uuid_Parse (ev_uuid V) (URLParam r ''id'')")
    case (Inl e)
    with u assms(2) show ?thesis by (intro refused)
  next
    case (Inr i)
    with u assms(1) reaches_code [OF r] show ?thesis by blast
  qed
qed

lemma calls_Get: "calls_as V cfg (reaches ''GET'' ''/api/v1/codes/{id}'') (CodesHandler_Get (hs_Codes (all_handlers V cfg)))"
proof (rule calls_as_id)
  fix r :: request and W w u i assume ui: "UserIDFromContext (rq_Context r) = Some u" "uuid_Parse (ev_uuid V) (URLParam r ''id'') = Inr i"
    "for_code V ''GET'' ''/api/v1/codes/{id}'' r i"
  then show "\<exists>c. asks V (Some u) r c \<and>
      snd (snd (CodesHandler_Get (hs_Codes (all_handlers V cfg)) r (W, w))) = perform V cfg c w"
    by (intro exI [of _ "GetCall u i"]) (simp add: CodesHandler_Get_def endpoint_defs)
qed (simp add: CodesHandler_Get_def with_user_def with_id_def)

lemma calls_Analytics: "calls_as V cfg (reaches ''GET'' ''/api/v1/codes/{id}/analytics'') (CodesHandler_Analytics (hs_Codes (all_handlers V cfg)))"
proof (rule calls_as_id)
  fix r :: request and W w u i assume ui: "UserIDFromContext (rq_Context r) = Some u" "uuid_Parse (ev_uuid V) (URLParam r ''id'') = Inr i"
    "for_code V ''GET'' ''/api/v1/codes/{id}/analytics'' r i"
  then show "\<exists>c. asks V (Some u) r c \<and>
      snd (snd (CodesHandler_Analytics (hs_Codes (all_handlers V cfg)) r (W, w))) = perform V cfg c w"
    by (intro exI [of _ "AnalyticsCall u i"]) (simp add: CodesHandler_Analytics_def endpoint_defs)
qed (simp add: CodesHandler_Analytics_def with_user_def with_id_def)

lemma calls_Delete: "calls_as V cfg (reaches ''DELETE'' ''/api/v1/codes/{id}'') (CodesHandler_Delete (hs_Codes (all_handlers V cfg)))"
proof (rule calls_as_id)
  fix r :: request and W w u i assume ui: "UserIDFromContext (rq_Context r) = Some u" "uuid_Parse (ev_uuid V) (URLParam r ''id'') = Inr i"
    "for_code V ''DELETE'' ''/api/v1/codes/{id}'' r i"
  then show "\<exists>c. asks V (Some u) r c \<and>
      snd (snd (CodesHandler_Delete (hs_Codes (all_handlers V cfg)) r (W, w))) = perform V cfg c w"
    by (intro exI [of _ "DeleteCall u i"])
      (simp add: CodesHandler_Delete_def endpoint_defs split: prod.split option.split)
qed (simp add: CodesHandler_Delete_def with_user_def with_id_def)

lemma calls_Update: "calls_as V cfg (reaches ''PATCH'' ''/api/v1/codes/{id}'') (CodesHandler_Update (hs_Codes (all_handlers V cfg)))"
proof (rule calls_as_id)
  fix r :: request and W w u i assume ui: "UserIDFromContext (rq_Context r) = Some u" "uuid_Parse (ev_uuid V) (URLParam r ''id'') = Inr i"
    "for_code V ''PATCH'' ''/api/v1/codes/{id}'' r i"
  let ?h = "CodesHandler_Update (hs_Codes (all_handlers V cfg))"
  show "\<exists>c. asks V (Some u) r c \<and> snd (snd (?h r (W, w))) = perform V cfg c w"
  proof (cases "\<exists>q. decode_update r = Some q \<and> ev_validator V (update_tags q)")
    case True
    then obtain q where "decode_update r = Some q" "ev_validator V (update_tags q)" by blast
    with ui show ?thesis
      by (intro exI [of _ "UpdateCall u i \<lparr>ui_Label = pq_Label q, ui_Destination = pq_Destination q\<rparr>"])
        (simp add: CodesHandler_Update_def endpoint_defs)
  next
    case False
    with ui show ?thesis
      by (intro refused) (auto simp: CodesHandler_Update_def with_user_def with_id_def split: option.split)
  qed
qed (simp add: CodesHandler_Update_def with_user_def with_id_def)

subsection \<open>The middlewares\<close>

lemma Auth_none_world: "bearer M (now w) r = None \<Longrightarrow> snd (snd (Auth M now nxt r (W, w))) = w"
  by (auto simp: Auth_def bearer_def Let_def split: prod.splits if_splits sum.splits)

lemma calls_Auth:
  assumes h: "calls_as V cfg (reaches m pattern) h"
  shows "calls V cfg (token_user V cfg) (reaches m pattern) (Auth (token_mgr V cfg) wd_now h)"
proof (rule callsI)
  fix r :: request and W w assume r: "reaches m pattern r"
  let ?h = "Auth (token_mgr V cfg) wd_now h"
  show "\<exists>c. asks V (token_user V cfg r w) r c \<and> snd (snd (?h r (W, w))) = perform V cfg c w"
  proof (cases "bearer (token_mgr V cfg) (wd_now w) r")
    case None
    then show ?thesis by (intro refused Auth_none_world)
  next
    case (Some ug)
    obtain u g where ug: "ug = (u, g)" by (rule prod.exhaust)
    let ?r = "r\<lparr>rq_Context := WithIsGuest g (WithUserID u (rq_Context r))\<rparr>"
    have "UserIDFromContext (rq_Context ?r) = Some u" "reaches m pattern ?r" using r by simp_all
    with h obtain c where "asks V (Some u) ?r c" "snd (snd (h ?r (W, w))) = perform V cfg c w"
      unfolding calls_as_def by blast
    with Some ug show ?thesis
      by (intro exI [of _ c]) (simp add: Auth_passes token_user_def)
  qed
qed

lemma limiter_of_None: "limiter_of V cfg = None \<longleftrightarrow> \<not> cfg_RateLimitRPM cfg > 0"
  by (simp add: limiter_of_def)

lemma counted_one: "rl_Allow L k w = (q, w1) \<Longrightarrow> limiter_of V cfg = Some L \<Longrightarrow> w1 = counted V cfg (Some k) w"
  by (auto simp: limiter_of_def counted_def on_redis_def split: if_splits prod.splits)

text \<open>The rate limiter counts every request that gets to it, once.\<close>

lemma calls_RateLimit:
  assumes h: "calls V cfg who P h" and who: "\<And>r w k. who r (counted V cfg k w) = who r w"
    and L: "limiter_of V cfg = Some L" and P: "\<And>r. P r \<Longrightarrow> under (routing_path r) ''/api/v1''"
  shows "counted_calls V cfg who P (RateLimit_mw L h)"
proof (rule counted_callsI)
  fix r :: request and W w assume r: "P r"
  obtain q w1 where q: "rl_Allow L (clientIP r) w = (q, w1)" by (rule prod.exhaust)
  note w1 = counted_one [OF q L]
  have key: "counts V cfg r c (Some (clientIP r))" for c
    using P [OF r] L limiter_of_None [of V cfg] by (auto simp: counts_def limited_key_def)
  have pass: "\<exists>c k ls. asks V (who r w) r c \<and> counts V cfg r c k \<and>
      snd (snd (h r (W1, w1))) = (perform V cfg c (counted V cfg k w))\<lparr>wd_log := ls\<rparr>" for W1
  proof -
    obtain c where "asks V (who r w1) r c" "snd (snd (h r (W1, w1))) = perform V cfg c w1"
      using callsD [OF h r, of w1 W1] .
    with key [of c] show ?thesis unfolding w1 who
      by (intro exI [of _ c] exI [of _ "Some (clientIP r)"]
        exI [of _ "wd_log (perform V cfg c (counted V cfg (Some (clientIP r)) w))"]) simp
  qed
  have stop: "\<exists>c k ls. asks V (who r w) r c \<and> counts V cfg r c k \<and>
      w1 = (perform V cfg c (counted V cfg k w))\<lparr>wd_log := ls\<rparr>"
    using key [of NoCall]
    by (intro exI [of _ NoCall] exI [of _ "Some (clientIP r)"] exI [of _ "wd_log w1"]) (simp add: asks_def w1)
  show "\<exists>c k ls. asks V (who r w) r c \<and> counts V cfg r c k \<and>
      snd (snd (RateLimit_mw L h r (W, w))) = (perform V cfg c (counted V cfg k w))\<lparr>wd_log := ls\<rparr>"
  proof (cases q)
    case (Inl e)
    with q pass show ?thesis by (simp add: RateLimit_mw_def)
  next
    case (Inr x)
    obtain ok remaining reset where x: "x = (ok, remaining, reset)" by (rule prod_cases3)
    show ?thesis
    proof (cases ok)
      case True
      with q Inr x pass show ?thesis by (simp add: RateLimit_mw_def Let_def)
    next
      case False
      with q Inr x stop show ?thesis by (simp add: RateLimit_mw_def Let_def)
    qed
  qed
qed

text \<open>The outer middlewares add a log line at most, and CORS answers preflights itself.\<close>

lemma calls_cors:
  assumes h: "counted_calls V cfg who P h" shows "counted_calls V cfg who P (cors_Handler C opts h)"
proof (rule counted_callsI)
  fix r :: request and W w assume r: "P r"
  obtain W1 b where C: "C opts r W = (W1, b)" by (rule prod.exhaust)
  show "\<exists>c k ls. asks V (who r w) r c \<and> counts V cfg r c k \<and>
      snd (snd (cors_Handler C opts h r (W, w))) = (perform V cfg c (counted V cfg k w))\<lparr>wd_log := ls\<rparr>"
  proof (cases b)
    case True
    with C counted_callsD [OF h r, of w W1] show ?thesis by (simp add: cors_Handler_def) metis
  next
    case False
    with C show ?thesis
      by (intro exI [of _ NoCall] exI [of _ None] exI [of _ "wd_log w"]) (simp add: cors_Handler_def asks_def counts_def)
  qed
qed

lemma calls_Logger:
  assumes h: "counted_calls V cfg who P h" shows "counted_calls V cfg who P (Logger log_request h)"
proof (rule counted_callsI)
  fix r :: request and W w assume r: "P r"
  obtain c k ls where c: "asks V (who r w) r c" "counts V cfg r c k"
    "snd (snd (h r (W\<lparr>rw_Status := 200\<rparr>, w))) = (perform V cfg c (counted V cfg k w))\<lparr>wd_log := ls\<rparr>"
    using counted_callsD [OF h r, of w "W\<lparr>rw_Status := 200\<rparr>"] by metis
  obtain e W1 w1 where run: "h r (W\<lparr>rw_Status := 200\<rparr>, w) = (e, W1, w1)" by (rule prod_cases3)
  have "\<exists>ls. snd (snd (Logger log_request h r (W, w))) = (perform V cfg c (counted V cfg k w))\<lparr>wd_log := ls\<rparr>"
    using c(3) run by (cases e) (auto simp: Logger_def log_request_def)
  with c(1,2) show "\<exists>c k ls. asks V (who r w) r c \<and> counts V cfg r c k \<and>
      snd (snd (Logger log_request h r (W, w))) = (perform V cfg c (counted V cfg k w))\<lparr>wd_log := ls\<rparr>" by blast
qed

lemma Recover_world: "snd (snd (Recover h r Ww)) = snd (snd (h r Ww))"
  by (cases "h r Ww" rule: prod_cases3; cases "fst (h r Ww)") (simp_all add: Recover_def)

lemma calls_Recover: "counted_calls V cfg who P h \<Longrightarrow> counted_calls V cfg who P (Recover h)"
  by (simp add: counted_calls_def Recover_world)

lemma calls_answer: "calls V cfg who P (\<lambda>r Ww. (Returned, answer (fst Ww), snd Ww))"
  by (rule callsI, rule refused) simp

subsection \<open>The routes\<close>

text \<open>What the patterns match.\<close>

lemma split_on_Cons2: "split_on c s = x # y # ys \<Longrightarrow> \<exists>t. s = x @ c # t \<and> split_on c t = y # ys"
proof (induction s arbitrary: x)
  case (Cons a s)
  show ?case
  proof (cases "a = c")
    case True
    with Cons.prems show ?thesis by auto
  next
    case False
    obtain z zs where z: "split_on c s = z # zs" by (cases "split_on c s") auto
    with Cons.prems False have "x = a # z" "zs = y # ys" by simp_all
    with Cons.IH z show ?thesis by auto
  qed
qed simp

lemma api_path:
  assumes "split_on (CHR ''/'') path = [] # ''api'' # ''v1'' # x # xs" shows "under path ''/api/v1''"
proof -
  obtain t where t: "path = [] @ CHR ''/'' # t" "split_on (CHR ''/'') t = ''api'' # ''v1'' # x # xs"
    using split_on_Cons2 [OF assms] by blast
  obtain t' where t': "t = ''api'' @ CHR ''/'' # t'" "split_on (CHR ''/'') t' = ''v1'' # x # xs"
    using split_on_Cons2 [OF t(2)] by blast
  obtain t'' where "t' = ''v1'' @ CHR ''/'' # t''" using split_on_Cons2 [OF t'(2)] by blast
  with t t' show ?thesis by (simp add: under_def has_prefix_def)
qed

lemma under_api_split:
  assumes "under path ''/api/v1''" shows "\<exists>xs. split_on (CHR ''/'') path = [] # ''api'' # xs"
proof -
  obtain t where "path = ''/api'' @ t" "t = [] \<or> hd t = CHR ''/''"
    using assms by (auto simp: under_def has_prefix_iff)
  then show ?thesis by (cases t) (auto simp: split: list.splits)
qed

lemma matched_segments:
  "match_segments (p # ps) ss \<noteq> None \<Longrightarrow> \<exists>s ss'. ss = s # ss' \<and> (param_name p = None \<longrightarrow> s = p) \<and> match_segments ps ss' \<noteq> None"
  by (cases ss) (auto split: option.splits if_splits)

lemma api_pattern:
  assumes "requested m (''/api/v1/'' @ q) r" shows "under (routing_path r) ''/api/v1''"
proof -
  have names: "param_name [] = None" "param_name ''api'' = None" "param_name ''v1'' = None" by code_simp+
  obtain x xs where q: "split_on (CHR ''/'') q = x # xs" by (cases "split_on (CHR ''/'') q") auto
  then have "match_segments ([] # ''api'' # ''v1'' # x # xs) (split_on (CHR ''/'') (routing_path r)) \<noteq> None"
    using assms by (simp add: requested_def match_pattern_def)
  from matched_segments [OF this] names obtain s1 where s1: "split_on (CHR ''/'') (routing_path r) = [] # s1"
    "match_segments (''api'' # ''v1'' # x # xs) s1 \<noteq> None" by auto
  from matched_segments [OF s1(2)] names obtain s2 where s2: "s1 = ''api'' # s2" "match_segments (''v1'' # x # xs) s2 \<noteq> None" by auto
  from matched_segments [OF s2(2)] names obtain s3 where s3: "s2 = ''v1'' # s3" "match_segments (x # xs) s3 \<noteq> None" by auto
  from matched_segments [OF s3(2)] obtain s s4 where "s3 = s # s4" by blast
  with s1 s2 s3 show ?thesis by (intro api_path) simp
qed

lemma public_pattern:
  assumes "requested ''GET'' ''/health'' r \<or> requested ''GET'' ''/r/{slug}'' r"
  shows "\<not> under (routing_path r) ''/api/v1''"
proof
  assume "under (routing_path r) ''/api/v1''"
  then obtain xs where xs: "split_on (CHR ''/'') (routing_path r) = [] # ''api'' # xs" using under_api_split by blast
  have no: "\<not> requested m pattern r" if "split_on (CHR ''/'') pattern = [] # x # ps" "param_name x = None" "x \<noteq> ''api''" for m pattern x ps
  proof
    assume "requested m pattern r"
    then have seg: "match_segments ([] # x # ps) ([] # ''api'' # xs) \<noteq> None"
      unfolding requested_def match_pattern_def xs that(1) by (rule conjunct2)
    from matched_segments [OF seg] have "match_segments (x # ps) (''api'' # xs) \<noteq> None" by (elim exE conjE) simp
    from matched_segments [OF this] that(2,3) show False by (elim exE conjE) simp
  qed
  have "\<not> requested ''GET'' ''/health'' r" by (rule no [where x = "''health''" and ps = "[]"]) code_simp+
  moreover have "\<not> requested ''GET'' ''/r/{slug}'' r" by (rule no [where x = "''r''" and ps = "[''{slug}'']"]) code_simp+
  ultimately show False using assms by blast
qed

lemma chain_append: "chain (ms @ ns) h = chain ms (chain ns h)"
  by (induction ms) simp_all

lemma mem_map_concat: "x \<in> set (concat (map f xs)) \<longleftrightarrow> (\<exists>y \<in> set xs. x \<in> set (f y))"
  by auto

text \<open>The middlewares of the API, and the three kinds of endpoints with their methods and patterns.\<close>

definition api_mws :: "'w rate_limiter option \<Rightarrow> 'w middleware list" where
  "api_mws L = (case L of None \<Rightarrow> [] | Some L \<Rightarrow> [RateLimit_mw L])"

definition public_handlers :: "'w handlers \<Rightarrow> (string \<times> string \<times> 'w handler) list" where
  "public_handlers h =
     [(''GET'', ''/health'', Health (fst (hs_Health h)) (snd (hs_Health h))), (''GET'', ''/r/{slug}'', Redirect (hs_Redirect h))]"

definition protected_handlers :: "'w handlers \<Rightarrow> (string \<times> string \<times> 'w handler) list" where
  "protected_handlers h = (''POST'', ''/api/v1/auth/upgrade'', AuthHandler_Upgrade (hs_Auth h)) #
     List.map_filter (\<lambda>n. case n of Endpoint m p x \<Rightarrow> Some (m, ''/api/v1'' @ p, x) | _ \<Rightarrow> None) (protected_routes h)"

definition endpoint_of :: "'w middleware list \<Rightarrow> string \<times> string \<times> 'w handler \<Rightarrow> 'w handler endpoint" where
  "endpoint_of ms x = \<lparr>ep_Method = fst x, ep_Pattern = fst (snd x), ep_Mws = ms, ep_Handler = snd (snd x)\<rparr>"

lemma routes_all:
  "all_endpoints (routes tm now h L) = map (endpoint_of []) (public_handlers h) @
     endpoint_of (api_mws L) (''POST'', ''/api/v1/auth/guest'', AuthHandler_Guest (hs_Auth h)) #
     map (endpoint_of (api_mws L @ [Auth tm now])) (protected_handlers h)"
  by (simp add: routes_def all_endpoints_def protected_routes_def public_handlers_def protected_handlers_def api_mws_def
      endpoint_of_def map_filter_simps)

lemma routes_endpoints:
  assumes "e \<in> set (all_endpoints (routes tm now h L))"
  obtains (public) x where "e = endpoint_of [] x" "x \<in> set (public_handlers h)"
  | (guest) "e = endpoint_of (api_mws L) (''POST'', ''/api/v1/auth/guest'', AuthHandler_Guest (hs_Auth h))"
  | (user) x where "e = endpoint_of (api_mws L @ [Auth tm now]) x" "x \<in> set (protected_handlers h)"
  using assms unfolding routes_all by auto

lemma routes_mounted:
  "all_mounted path (routes tm now h L) = (if under path ''/api/v1'' then api_mws L else [])"
  by (simp add: routes_def all_mounted_def protected_routes_def api_mws_def)

lemma calls_public:
  assumes "x \<in> set (public_handlers (all_handlers V cfg))"
  shows "counted_calls V cfg who (reaches (fst x) (fst (snd x))) (snd (snd x))"
proof (rule uncounted_calls)
  show "calls V cfg who (reaches (fst x) (fst (snd x))) (snd (snd x))"
    using assms calls_Health calls_Redirect by (auto simp: public_handlers_def)
  fix r :: request assume "reaches (fst x) (fst (snd x)) r"
  then have "requested (fst x) (fst (snd x)) r" by (rule reaches_requested)
  with assms public_pattern [of r] show "limited_key cfg r = None" by (auto simp: public_handlers_def limited_key_def)
qed

lemma calls_protected:
  assumes "x \<in> set (protected_handlers (all_handlers V cfg))"
  shows "calls_as V cfg (reaches (fst x) (fst (snd x))) (snd (snd x)) \<and> (\<exists>q. fst (snd x) = ''/api/v1/'' @ q)"
proof -
  have "\<forall>x \<in> set (protected_handlers (all_handlers V cfg)).
      calls_as V cfg (reaches (fst x) (fst (snd x))) (snd (snd x)) \<and> (\<exists>q. fst (snd x) = ''/api/v1/'' @ q)"
    by (simp add: protected_handlers_def protected_routes_def map_filter_simps calls_Upgrade calls_Check calls_QR
        calls_Create calls_List calls_Get calls_Update calls_Delete calls_Analytics)
  with assms show ?thesis by blast
qed

lemma calls_api:
  assumes h: "calls V cfg (token_user V cfg) P h" and P: "\<And>r. P r \<Longrightarrow> under (routing_path r) ''/api/v1''"
  shows "counted_calls V cfg (token_user V cfg) P (chain (api_mws (limiter_of V cfg)) h)"
proof (cases "limiter_of V cfg")
  case None
  then have "limited_key cfg r = None" for r using limiter_of_None [of V cfg] by (simp add: limited_key_def)
  with None uncounted_calls [OF h] show ?thesis by (simp add: api_mws_def)
next
  case (Some L)
  with calls_RateLimit [OF h token_user_simps(1) Some P] show ?thesis by (simp add: api_mws_def)
qed

lemma calls_endpoint:
  assumes "e \<in> set (all_endpoints (routes (token_mgr V cfg) wd_now (all_handlers V cfg) (limiter_of V cfg)))"
  shows "counted_calls V cfg (token_user V cfg) (reaches (ep_Method e) (ep_Pattern e)) (chain (ep_Mws e) (ep_Handler e))"
proof -
  have api: "under (routing_path r) ''/api/v1''" if "reaches m (''/api/v1/'' @ q) r" for m q r
    using api_pattern reaches_requested [OF that] .
  from assms show ?thesis
  proof (cases rule: routes_endpoints)
    case (public x)
    then show ?thesis using calls_public [of x V cfg] by (simp add: endpoint_of_def)
  next
    case guest
    have "counted_calls V cfg (token_user V cfg) (reaches ''POST'' (''/api/v1/'' @ ''auth/guest''))
        (chain (api_mws (limiter_of V cfg)) (AuthHandler_Guest (hs_Auth (all_handlers V cfg))))"
      using calls_Guest [of V cfg "token_user V cfg"] by (intro calls_api api) simp_all
    with guest show ?thesis by (simp add: endpoint_of_def)
  next
    case (user x)
    obtain q where q: "fst (snd x) = ''/api/v1/'' @ q" "calls_as V cfg (reaches (fst x) (fst (snd x))) (snd (snd x))"
      using calls_protected [OF user(2)] by blast
    have "counted_calls V cfg (token_user V cfg) (reaches (fst x) (fst (snd x)))
        (chain (api_mws (limiter_of V cfg)) (Auth (token_mgr V cfg) wd_now (snd (snd x))))"
      using calls_api [OF calls_Auth [OF q(2)]] api q(1) by metis
    with user(1) show ?thesis by (simp add: endpoint_of_def chain_append)
  qed
qed

lemma calls_outer:
  "counted_calls V cfg who P h \<Longrightarrow> counted_calls V cfg who P (chain [Recover, Logger log_request, cors_Handler C opts] h)"
  by (simp add: calls_Recover calls_Logger calls_cors)

lemma calls_unmatched:
  "counted_calls V cfg (token_user V cfg) (\<lambda>r. routing_path r = path)
     (chain (all_mounted path (routes tm now (all_handlers V cfg) (limiter_of V cfg))) (\<lambda>r Ww. (Returned, answer (fst Ww), snd Ww)))"
proof (cases "under path ''/api/v1''")
  case True
  show ?thesis unfolding routes_mounted if_P [OF True] by (rule calls_api [OF calls_answer]) (simp add: True)
next
  case False
  show ?thesis unfolding routes_mounted if_not_P [OF False] chain.simps
    by (rule uncounted_calls [OF calls_answer]) (simp add: limited_key_def False)
qed

abbreviation server_nodes :: "'r env \<Rightarrow> config \<Rightarrow> 'r world handler node list" where
  "server_nodes V cfg \<equiv> routes (token_mgr V cfg) wd_now (all_handlers V cfg) (limiter_of V cfg)"

abbreviation outer_mws :: "'r env \<Rightarrow> config \<Rightarrow> 'r world middleware list" where
  "outer_mws V cfg \<equiv> [Recover, Logger log_request, cors_Handler (ev_cors V) (cors_config (cfg_CORSAllowedOrigins cfg))]"

text \<open>A request reaches an endpoint of its method that matches its path, or is answered by the router.\<close>

lemma server_dispatch:
  fixes V :: "'r env"
  assumes "chi_laws (ev_chi V)"
  obtains (endpoint) e ps where "e \<in> set (all_endpoints (server_nodes V cfg))" "ep_Method e = rq_Method r"
      "match_pattern (ep_Pattern e) (routing_path r) = Some ps"
      "\<And>Ww. sv_Handler (build_server V cfg) r Ww =
        chain (outer_mws V cfg) (chain (ep_Mws e) (ep_Handler e)) (r\<lparr>rq_Params := map_of ps\<rparr>) Ww"
  | (router) answer where
      "\<And>Ww. sv_Handler (build_server V cfg) r Ww = chain (outer_mws V cfg)
        (chain (all_mounted (routing_path r) (server_nodes V cfg)) (\<lambda>r Ww. (Returned, answer (fst Ww), snd Ww))) r Ww"
proof -
  have sv: "sv_Handler (build_server V cfg) = ev_chi V (outer_mws V cfg) (server_nodes V cfg)"
    by (simp add: build_server_def NewServer_def)
  from chi_laws.dispatch [OF assms, of "server_nodes V cfg" r "outer_mws V cfg"] endpoint router show thesis
    unfolding sv chain_append by blast
qed

lemma calls_server:
  assumes "chi_laws (ev_chi V)"
  shows "counted_calls V cfg (token_user V cfg) (\<lambda>_. True) (sv_Handler (build_server V cfg))"
proof (rule counted_callsI)
  fix r :: request and W w
  let ?nodes = "server_nodes V cfg" and ?mws = "outer_mws V cfg"
  show "\<exists>c k ls. asks V (token_user V cfg r w) r c \<and> counts V cfg r c k \<and>
      snd (snd (sv_Handler (build_server V cfg) r (W, w))) = (perform V cfg c (counted V cfg k w))\<lparr>wd_log := ls\<rparr>"
    using assms
  proof (cases rule: server_dispatch [where cfg = cfg and r = r])
    case (endpoint e ps)
    let ?r = "r\<lparr>rq_Params := map_of ps\<rparr>"
    have "reaches (ep_Method e) (ep_Pattern e) ?r" using endpoint(2,3) by (auto simp: reaches_def)
    from counted_callsD [OF calls_outer [OF calls_endpoint [OF endpoint(1)]] this]
    obtain c k ls where c: "asks V (token_user V cfg ?r w) ?r c" "counts V cfg ?r c k"
      "snd (snd (chain ?mws (chain (ep_Mws e) (ep_Handler e)) ?r (W, w))) =
        (perform V cfg c (counted V cfg k w))\<lparr>wd_log := ls\<rparr>"
      by metis
    then show ?thesis unfolding endpoint(4) by auto
  next
    case (router answer)
    from counted_callsD [OF calls_outer [OF calls_unmatched] refl]
    show ?thesis unfolding router by metis
  qed
qed

lemma server_returns:
  assumes "chi_laws (ev_chi V)"
  shows "fst (sv_Handler (build_server V cfg) r Ww) = Returned"
  using assms by (cases rule: server_dispatch [where cfg = cfg and r = r]) (simp_all add: Recover_returns)

end
