(* ===== verification/ServerProperties.thy ===== *)
theory ServerProperties
  imports HttpCalls Sample
begin

text \<open>
  The whole server as \<open>main.go\<close> builds it: requests refine calls, and what a request may change. The
  system of the server, the goroutines that record scans and the clock, as a transition relation, with
  what holds along all of its runs.
\<close>

subsection \<open>One request\<close>

lemma Server_refines:
  assumes "chi_laws (ev_chi V)" "sv_Handler (build_server V cfg) r (W, w) = (e, W', w')"
  shows "\<exists>c k ls. asks V (token_user V cfg r w) r c \<and> counts V cfg r c k \<and>
       w' = (perform V cfg c (counted V cfg k w))\<lparr>wd_log := ls\<rparr>"
proof -
  obtain c k ls where "asks V (token_user V cfg r w) r c" "counts V cfg r c k"
    "snd (snd (sv_Handler (build_server V cfg) r (W, w))) = (perform V cfg c (counted V cfg k w))\<lparr>wd_log := ls\<rparr>"
    by (rule counted_callsD [OF calls_server [OF assms(1)] TrueI])
  with assms(2) show ?thesis by auto
qed


definition sample_request :: "string \<Rightarrow> string \<Rightarrow> request" where
  "sample_request m path = \<lparr>rq_Method = m, rq_Path = path, rq_RawPath = [], rq_Query = [], rq_Header = (\<lambda>_. None),
     rq_Body = [], rq_RemoteAddr = ''1.2.3.4:5'', rq_Params = (\<lambda>_. None), rq_Context = Background\<rparr>"

lemma sample_chi_laws: "chi_laws (ev_chi sample_backend)"
  by (simp add: sample_chi.chi_laws_axioms)


context app
begin

lemma request_call:
  assumes "chi_laws (ev_chi V)" "sane w" "sv_Handler (build_server V cfg) r (W, w) = (e, W', w')"
  shows "sane w' \<and> confined (token_user V cfg r w) (wd_db w) (wd_db w')"
proof -
  obtain c k ls where c: "asks V (token_user V cfg r w) r c"
    "w' = (perform V cfg c (counted V cfg k w))\<lparr>wd_log := ls\<rparr>"
    using Server_refines [OF assms(1,3)] by blast
  have w1: "sane (counted V cfg k w)" using assms(2) by (simp add: sane_def)
  have "confined (caller c) (wd_db w) (wd_db w')" using perform_confined [OF w1, of c] c(2) by simp
  then have "confined (token_user V cfg r w) (wd_db w) (wd_db w')"
    using asks_caller [OF c(1)] confined_weaken by metis
  with perform_sane [OF w1, of c] c(2) show ?thesis by (simp add: sane_def)
qed

end

text \<open>
  A request keeps the integrity of the tables, and changes no code and no account but those of the
  user of its valid bearer token; without one it changes no code, and no account that exists.
\<close>

theorem Request_confined:
  assumes "backend V data clock bears" and "chi_laws (ev_chi V)" and "db_ok (ev_pg V) (wd_db w)"
    and "sv_Handler (build_server V cfg) r (W, w) = (e, W', w')"
  shows "db_ok (ev_pg V) (wd_db w') \<and> confined (token_user V cfg r w) (wd_db w) (wd_db w')"
  using app.request_call [OF app.intro [OF assms(1)] assms(2) _ assms(4)] assms(3)
  by (simp add: backend.sane_def [OF assms(1)])

theorem Request_confined_witness:
  "\<exists>W' w'. sv_Handler (build_server sample_backend sample_config) (sample_request ''DELETE'' ''/api/v1/codes/x'')
      (new_rw, sample_world) = (Returned, W', w') \<and> same_codes sample_db (wd_db w')"
proof -
  let ?r = "sample_request ''DELETE'' ''/api/v1/codes/x''"
  obtain e W' w' where run: "sv_Handler (build_server sample_backend sample_config) ?r (new_rw, sample_world) = (e, W', w')"
    by (rule prod_cases3)
  have "e = Returned" using server_returns [OF sample_chi_laws] run by (metis fst_conv)
  moreover have "token_user sample_backend sample_config ?r sample_world = None"
    by (simp add: token_user_def bearer_def sample_request_def header_Get_def cut_def)
  with Request_confined [OF sample_backend_ok sample_chi_laws _ run] sample_db_ok have "same_codes sample_db (wd_db w')"
    by (simp add: confined_def codes_confined_def)
  ultimately show ?thesis using run by simp
qed

subsection \<open>The system\<close>

text \<open>
  What happens to the world: a request is served; a goroutine of a redirect, any one that is waiting,
  records its scan; time passes. Requests are served one after the other.
\<close>

datatype event = Request request | Job | Tick instant

inductive system_step :: "'r env \<Rightarrow> config \<Rightarrow> 'r world \<Rightarrow> event \<Rightarrow> 'r world \<Rightarrow> bool" for V cfg where
  request: "sv_Handler (build_server V cfg) r (new_rw, w) = (e, W, w') \<Longrightarrow> system_step V cfg w (Request r) w'"
| job: "wd_jobs w = js @ j # js' \<Longrightarrow> system_step V cfg w Job (run_job V j (w\<lparr>wd_jobs := js @ js'\<rparr>))"
| tick: "wd_now w \<le> t \<Longrightarrow> system_step V cfg w (Tick t) (w\<lparr>wd_now := t\<rparr>)"

inductive_cases requestE: "system_step V cfg w (Request r) w'"
inductive_cases jobE: "system_step V cfg w Job w'"
inductive_cases tickE: "system_step V cfg w (Tick t) w'"

text \<open>The user that an event acts for, and the runs with the users of their events.\<close>

fun actor :: "'r env \<Rightarrow> config \<Rightarrow> 'r world \<Rightarrow> event \<Rightarrow> uuid option" where
  "actor V cfg w (Request r) = token_user V cfg r w"
| "actor V cfg w _ = None"

inductive system_run :: "'r env \<Rightarrow> config \<Rightarrow> 'r world \<Rightarrow> (event \<times> uuid option) list \<Rightarrow> 'r world \<Rightarrow> bool" for V cfg where
  idle: "system_run V cfg w [] w"
| step: "system_step V cfg w e w' \<Longrightarrow> system_run V cfg w' es w'' \<Longrightarrow>
     system_run V cfg w ((e, actor V cfg w e) # es) w''"

inductive_simps system_run_Nil [simp]: "system_run V cfg w [] w'"
inductive_simps system_run_Cons: "system_run V cfg w (x # es) w''"

lemma run_invariant:
  assumes step: "\<And>w e w'. system_step V cfg w e w' \<Longrightarrow> I w \<Longrightarrow> P e (actor V cfg w e) \<Longrightarrow> I w'"
    and run: "system_run V cfg w es w'"
  shows "I w \<Longrightarrow> \<forall>x \<in> set es. P (fst x) (snd x) \<Longrightarrow> I w'"
  using run by induction (auto intro: step)

context app
begin

lemma step_confined:
  assumes "chi_laws (ev_chi V)" "sane w" "system_step V cfg w e w'"
  shows "sane w' \<and> confined (actor V cfg w e) (wd_db w) (wd_db w')"
proof (cases e)
  case (Request r)
  with assms(3) obtain x W where "sv_Handler (build_server V cfg) r (new_rw, w) = (x, W, w')"
    by (auto elim: requestE)
  from request_call [OF assms(1,2) this] Request show ?thesis by simp
next
  case Job
  with assms(3) obtain js j js' where j: "wd_jobs w = js @ j # js'" "w' = run_job V j (w\<lparr>wd_jobs := js @ js'\<rparr>)"
    by (auto elim: jobE)
  have "sane w'"
    using redirect.RecordScan_frame [of "w\<lparr>wd_jobs := js @ js'\<rparr>"] assms(2) j(2)
    by (cases j) (simp add: run_job_def sane_def)
  with run_job_world [of V j "w\<lparr>wd_jobs := js @ js'\<rparr>"] j(2) Job show ?thesis by (simp add: confined_main)
next
  case (Tick t)
  with assms show ?thesis by (auto elim!: tickE simp: sane_def)
qed

end

text \<open>What a user has: the codes, the destinations of their slugs, and the account.\<close>

definition holds_same :: "uuid \<Rightarrow> db \<Rightarrow> db \<Rightarrow> bool" where
  "holds_same u d d' \<longleftrightarrow>
     (\<forall>i. owned u (code_view d' i) = owned u (code_view d i)) \<and>
     (\<forall>s x i. slug_view d s = Some (x, i) \<longrightarrow> owned u (code_view d i) \<noteq> None \<longrightarrow> slug_view d' s = Some (x, i)) \<and>
     (\<forall>a. user_view d u = Some a \<longrightarrow> user_view d' u = Some a)"

lemma owned_iff: "owned u k = Some c \<longleftrightarrow> k = Some c \<and> code_UserID c = u"
  by (auto simp: owned_def split: option.splits if_splits)

lemma isolated_owned:
  assumes "isolated u m m'" "v \<noteq> u"
  shows "owned v (m' i) = owned v (m i)"
proof -
  have "m i = Some c \<longleftrightarrow> m' i = Some c" if "code_UserID c = v" for c
    using assms that unfolding isolated_def by blast
  then have "owned v (m i) = Some c \<longleftrightarrow> owned v (m' i) = Some c" for c
    unfolding owned_iff by blast
  then show ?thesis by (metis option.exhaust)
qed

lemma holds_same_trans:
  assumes "holds_same u d d'" "holds_same u d' d''"
  shows "holds_same u d d''"
proof -
  note same = assms [unfolded holds_same_def]
  have own: "owned u (code_view d' i) = owned u (code_view d i)" for i
    using same(1) by blast
  have own2: "owned u (code_view d'' i) = owned u (code_view d i)" for i
    using same(2) own [of i] by metis
  have "slug_view d'' s = Some (x, i)"
    if "slug_view d s = Some (x, i)" "owned u (code_view d i) \<noteq> None" for s x i
  proof -
    have "slug_view d' s = Some (x, i)" using same(1) that by blast
    with same(2) own [of i] that(2) show ?thesis by metis
  qed
  with own2 same show ?thesis unfolding holds_same_def by blast
qed

lemma confined_holds:
  assumes ok: "db_ok E d" "db_ok E d'" and c: "confined who d d'" "who \<noteq> Some u"
  shows "holds_same u d d'"
proof -
  have own: "owned u (code_view d' i) = owned u (code_view d i)" for i
  proof (cases who)
    case None
    with c(1) show ?thesis by (simp add: confined_def codes_confined_def same_codes_def)
  next
    case (Some v)
    with c show ?thesis
      using isolated_owned [of v "code_view d" "code_view d'" u i] by (simp add: confined_def codes_confined_def)
  qed
  moreover have "slug_view d' s = Some (x, i)" if s: "slug_view d s = Some (x, i)" "owned u (code_view d i) \<noteq> None" for s x i
  proof -
    obtain k dyn where k: "code_view d i = Some k" "code_Dynamic k = Some dyn" "dyn_Slug dyn = s"
      using slugs_view [OF ok(1) s(1)] by blast
    have "owned u (code_view d i) = Some k" using s(2) k(1) by (auto simp: owned_def split: if_splits)
    then have "code_view d' i = Some k" using own [of i] by (auto simp: owned_def split: option.splits if_splits)
    from view_slugs [OF ok(2) this k(2)] view_slugs [OF ok(1) k(1,2)] s(1) k(3) show ?thesis by simp
  qed
  moreover have "\<forall>a. user_view d u = Some a \<longrightarrow> user_view d' u = Some a"
    using c by (simp add: confined_def users_confined_def)
  ultimately show ?thesis by (simp add: holds_same_def)
qed

context app
begin

lemma run_confined:
  assumes "chi_laws (ev_chi V)" "system_run V cfg w es w'" "sane w"
  shows "sane w' \<and> (Some u \<notin> snd ` set es \<longrightarrow> holds_same u (wd_db w) (wd_db w'))"
proof -
  note step = step_confined [OF assms(1)]
  have "sane w'"
    by (rule run_invariant [where I = sane and P = "\<lambda>_ _. True", OF _ assms(2,3)]) (use step in auto)
  moreover have "holds_same u (wd_db w) (wd_db w')" if no: "Some u \<notin> snd ` set es"
  proof -
    have "sane w' \<and> holds_same u (wd_db w) (wd_db w')"
    proof (rule run_invariant [where I = "\<lambda>v. sane v \<and> holds_same u (wd_db w) (wd_db v)"
          and P = "\<lambda>_ a. a \<noteq> Some u", OF _ assms(2)])
      fix v e v' assume v: "system_step V cfg v e v'" "sane v \<and> holds_same u (wd_db w) (wd_db v)"
        "actor V cfg v e \<noteq> Some u"
      with step [OF _ v(1)] confined_holds [of "ev_pg V" "wd_db v" "wd_db v'"] holds_same_trans
      show "sane v' \<and> holds_same u (wd_db w) (wd_db v')" unfolding sane_def by blast
    qed (use assms(3) no in \<open>force simp: holds_same_def\<close>)+
    then show ?thesis ..
  qed
  ultimately show ?thesis by blast
qed

end

text \<open>
  C2. In every run of the system the tables keep their integrity; and whatever a user has (codes, their
  redirects, the account) is the same after a run in which no request carried a valid token of this user,
  whatever others do and whatever fails.
\<close>

theorem Run_confined:
  assumes "backend V data clock bears" and "chi_laws (ev_chi V)" and "db_ok (ev_pg V) (wd_db w)"
    and "system_run V cfg w es w'"
  shows "db_ok (ev_pg V) (wd_db w') \<and> (Some u \<notin> snd ` set es \<longrightarrow> holds_same u (wd_db w) (wd_db w'))"
  using app.run_confined [OF app.intro [OF assms(1)] assms(2,4), of u] assms(3)
  by (simp add: backend.sane_def [OF assms(1)])

lemma sample_run:
  "\<exists>w'. system_run sample_backend sample_config sample_world
     [(Tick 5, None), (Request (sample_request ''DELETE'' ''/api/v1/codes/x''), None)] w'"
proof -
  let ?r = "sample_request ''DELETE'' ''/api/v1/codes/x''" and ?w = "sample_world\<lparr>wd_now := 5\<rparr>"
  obtain e W w' where run: "sv_Handler (build_server sample_backend sample_config) ?r (new_rw, ?w) = (e, W, w')"
    by (rule prod_cases3)
  have "token_user sample_backend sample_config ?r ?w = None"
    by (simp add: token_user_def bearer_def sample_request_def header_Get_def cut_def)
  moreover have "system_step sample_backend sample_config sample_world (Tick 5) ?w"
    by (rule system_step.tick) simp
  ultimately have "system_run sample_backend sample_config sample_world [(Tick 5, None), (Request ?r, None)] w'"
    using system_step.request [OF run] by (auto simp: system_run_Cons)
  then show ?thesis by blast
qed

theorem Run_confined_witness:
  "\<exists>w'. system_run sample_backend sample_config sample_world
      [(Tick 5, None), (Request (sample_request ''DELETE'' ''/api/v1/codes/x''), None)] w' \<and>
    db_ok sample_env (wd_db w') \<and> holds_same 1 sample_db (wd_db w')"
proof -
  obtain w' where run: "system_run sample_backend sample_config sample_world
      [(Tick 5, None), (Request (sample_request ''DELETE'' ''/api/v1/codes/x''), None)] w'"
    using sample_run by blast
  with Run_confined [OF sample_backend_ok sample_chi_laws _ run, of 1] sample_db_ok show ?thesis by auto
qed

end
