(* ===== verification/Coherence.thy ===== *)
theory Coherence
  imports Calls
begin

text \<open>
  The redirect cache stays coherent with the tables through all calls, whatever else fails, if the
  database never loses the answer to a statement that it executed and Redis never refuses an
  invalidation: the locale \<open>prompt_parts\<close>, and \<open>prompt_backend\<close> for the servers.
\<close>

subsection \<open>The codes service\<close>

locale prompt_parts = codes_parts +
  assumes invalidates: "fst (ca_Invalidate (cs_cache S) s w) = None"
    and destination_error: "inv w \<Longrightarrow> rp_UpdateDestination (cs_repo S) i dest w = (Some e, w') \<Longrightarrow> slugs w' = slugs w"
    and delete_error: "inv w \<Longrightarrow> rp_Delete (cs_repo S) u i w = (Some e, w') \<Longrightarrow> slugs w' = slugs w"
begin

lemma prompt: always_invalidates
  by (simp add: always_invalidates_def invalidates)

lemma coherent_frame: "coherent w \<Longrightarrow> slugs w' = slugs w \<Longrightarrow> targets w' \<subseteq>\<^sub>m targets w \<Longrightarrow> coherent w'"
  by (rule coherent_change) simp_all

lemma destination_part_error:
  assumes "inv w" "update_destination_part S c d w = (Some e, w')"
  shows "slugs w' = slugs w"
proof (cases "if code_IsDynamic c then code_Dynamic c else None")
  case None
  with assms(2) show ?thesis by (auto simp: update_destination_part_def)
next
  case (Some dyn)
  obtain g w1 where g: "guardDestination S d w = (g, w1)" by (rule prod.exhaust)
  note guarded = guard [OF assms(1) g]
  obtain y w2 where y: "rp_UpdateDestination (cs_repo S) (code_ID c) d w1 = (y, w2)" by (rule prod.exhaust)
  show ?thesis
  proof (cases g)
    case (Some e')
    with assms(2) \<open>_ = Some dyn\<close> g guarded show ?thesis by (simp add: update_destination_part_def)
  next
    case None
    with assms(2) Some g y obtain e' where "y = Some e'" "w' = w2"
      by (auto simp: update_destination_part_def split: option.splits)
    with destination_error y guarded show ?thesis by metis
  qed
qed

lemma destination_step_coherent:
  assumes w: "inv w" "coherent w" "codes w i = Some c" and run: "destination_step inp c w = (x, w')"
  shows "coherent w'"
proof (cases "ui_Destination inp")
  case None
  with run w show ?thesis by (simp add: destination_step_def)
next
  case (Some d)
  with run have part: "update_destination_part S c d w = (x, w')" by (simp add: destination_step_def)
  show ?thesis
    using w(1,3) part
  proof (cases rule: destination_part)
    case (success dyn)
    show ?thesis
    proof (rule coherent_change [OF w(2) success(3)])
      fix s assume s: "targets w' s \<noteq> None"
      show "slugs w' s = slugs w s"
      proof (rule ccontr)
        assume "slugs w' s \<noteq> slugs w s"
        moreover have "slugs w' s = set_slug_destination i d (slugs w) s"
          using success(4) by (simp add: redirected_def)
        ultimately obtain x where "slugs w s = Some (x, i)"
          by (cases "slugs w s") (auto simp: set_slug_destination_def split: if_splits)
        from slug_of_code [OF w(1,3) success(6) this] success(7) [OF prompt] s show False by simp
      qed
    qed
  next
    case (refused e)
    with w(2) show ?thesis by (auto simp: unchanged_def intro: coherent_frame)
  next
    case (failed m e)
    with part destination_part_error [OF w(1)] w(2) show ?thesis by (auto intro: coherent_frame)
  qed
qed

lemma Update_coherent_always:
  assumes w: "inv w" "coherent w" and run: "codes_Update S u i inp w = (r, w')"
  shows "coherent w'"
proof -
  obtain g w1 where g: "rp_GetByID (cs_repo S) u i w = (g, w1)" by (rule prod.exhaust)
  note read = getByID [OF w(1) g]
  then have w1: "inv w1" "coherent w1" using w(2) by (auto intro: coherent_frame)
  show ?thesis
  proof (cases g)
    case (Inl e)
    with run g w1 show ?thesis by (simp add: codes_Update_steps)
  next
    case (Inr c)
    with read have c: "codes w1 i = Some c" by (auto simp: owned_def split: option.splits if_splits)
    obtain x w2 where x: "destination_step inp c w1 = (x, w2)" by (rule prod.exhaust)
    have w2: "inv w2" "coherent w2"
      using destination_step_spec [OF w1(1) c x] destination_step_coherent [OF w1 c x] by simp_all
    obtain y w3 where y: "label_step u i inp w2 = (y, w3)" by (rule prod.exhaust)
    note lab = label_step_spec [OF w2(1) y]
    have "slugs w3 = slugs w2"
      using lab by (cases y; cases "ui_Label inp") (auto simp: unchanged_def relabelled_def)
    then have w3: "inv w3" "coherent w3" using lab w2(2) by (auto intro: coherent_frame)
    obtain h w4 where h: "rp_GetByID (cs_repo S) u i w3 = (h, w4)" by (rule prod.exhaust)
    have "coherent w4" using getByID [OF w3(1) h] w3(2) by (auto intro: coherent_frame)
    with run g Inr x y h w2 w3 show ?thesis
      by (cases x; cases y) (auto simp: codes_Update_steps)
  qed
qed

lemma Delete_coherent_always:
  assumes w: "inv w" "coherent w" and run: "codes_Delete S u i w = (x, w')"
  shows "coherent w'"
proof (cases x)
  case None
  with Delete_coherent [OF w prompt] run show ?thesis by simp
next
  case (Some e)
  obtain g w1 where g: "rp_GetByID (cs_repo S) u i w = (g, w1)" by (rule prod.exhaust)
  note read = getByID [OF w(1) g]
  obtain y w2 where y: "rp_Delete (cs_repo S) u i w1 = (y, w2)" by (rule prod.exhaust)
  have "slugs w' = slugs w"
  proof (cases g)
    case (Inl e)
    with run g read show ?thesis by (simp add: codes_Delete_def)
  next
    case (Inr c)
    with run g y Some obtain e' where "y = Some e'" "w' = w2"
      by (auto simp: codes_Delete_def split: option.splits)
    with delete_error y read show ?thesis by metis
  qed
  with Delete_spec [OF w(1) run] w(2) show ?thesis by (auto intro: coherent_frame)
qed

end

subsection \<open>Other keys\<close>

text \<open>The keys of the rate limiter are no entries of the cache.\<close>

lemma incr_entry_other: "j \<noteq> k \<Longrightarrow> incr_entry t m k j = m j"
  by (simp add: incr_entry_def split: option.split)

lemma incr_expire_other: "j \<noteq> k \<Longrightarrow> incr_expire t m k d j = m j"
  by (simp add: incr_expire_def expire_entry_def incr_entry_other split: option.split)

lemma rate_key_other: "rate_key key b \<noteq> redirectKey slug" "rate_key key b \<noteq> safetyKey u"
  by (simp_all add: rate_key_def redirectKey_def redirectKeyPrefix_def safetyKey_def safetyKeyPrefix_def)

context redis_server
begin

lemma exec_other:
  assumes "rd_Exec R [PipeIncr k, PipeExpire k d] s = (q, s')" "0 < d" "j \<noteq> k" "readable s' j = Some v"
  shows "readable s j = Some v"
proof -
  note law = exec [OF assms(1,2)]
  have "data s' j = data s j"
    using law assms(3) by (cases q) (auto simp: incr_entry_other incr_expire_other)
  then have "live (clock s') (data s) j = Some v" using assms(4) by (simp add: readable_def live_def)
  with law live_later [of "clock s" "clock s'" "data s"] show ?thesis
    by (auto simp: readable_def dest: map_leD)
qed

lemma ping_readable: "rd_Ping R s = (x, s') \<Longrightarrow> readable s' \<subseteq>\<^sub>m readable s"
  using ping [of s x s'] live_later [of "clock s" "clock s'" "data s"] by (auto simp: readable_def)

lemma limiter_other:
  assumes "limiter_Allow L now key s = (r, s')" "li_rdb L = R" "0 < li_window L"
    and "\<And>b. j \<noteq> rate_key key b" "readable s' j = Some v"
  shows "readable s j = Some v"
proof -
  let ?k = "rate_key key (unix now sdiv window_secs (li_window L))"
  obtain q s1 where q: "rd_Exec R [PipeIncr ?k, PipeExpire ?k (li_window L)] s = (q, s1)" by (rule prod.exhaust)
  then have "s' = s1" using assms(1,2) by (auto simp: limiter_Allow_def Let_def split: sum.splits)
  with exec_other [OF q assms(3) assms(4)] assms(5) show ?thesis by simp
qed

lemma limiter_cached:
  assumes "limiter_Allow L now key s = (r, s')" "li_rdb L = R" "0 < li_window L"
  shows "cached s' \<subseteq>\<^sub>m cached s"
proof (rule map_leI)
  fix slug t assume "cached s' slug = Some t"
  then obtain v where "readable s' (redirectKey slug) = Some v" "target_of_json v = Some t"
    by (auto simp: cached_def bind_eq_Some_conv)
  with limiter_other [OF assms, of "redirectKey slug"] rate_key_other show "cached s slug = Some t"
    by (metis bind.bind_lunit cached_def)
qed

end

subsection \<open>The calls\<close>

context backend
begin

definition coherent_world :: "'r world \<Rightarrow> bool" where
  "coherent_world w \<longleftrightarrow> coherent_map (ev_uuid V) (entries w) (leads w)"

lemma coherent_worlds: "codes.coherent = coherent_world" "redirect.coherent = coherent_world"
proof -
  have "cs_uuid (codes_svc V) = ev_uuid V" "rs_uuid (redirect_svc V) = ev_uuid V"
    by (simp_all add: codes_svc_def redirect_svc_def)
  then show "codes.coherent = coherent_world" "redirect.coherent = coherent_world"
    by (simp_all add: fun_eq_iff codes.coherent_def redirect.coherent_def coherent_world_def)
qed

lemma coherent_shrinks:
  "coherent_world w \<Longrightarrow> leads w' = leads w \<Longrightarrow> entries w' \<subseteq>\<^sub>m entries w \<Longrightarrow> coherent_world w'"
  unfolding coherent_world_def by (auto intro: coherent_map_shrink)

lemma counted_entries: "entries (counted V cfg k w) \<subseteq>\<^sub>m entries w"
proof (cases rule: counted_key [of V cfg k w])
  case (2 key r s)
  have L: "li_rdb (redis_limiter V cfg) = ev_redis V" "0 < li_window (redis_limiter V cfg)"
    by (simp_all add: redis_limiter_def minute_def second_def)
  from limiter_cached [OF 2(1) L] 2(2) show ?thesis by (simp add: entries_def)
qed simp

lemma counted_coherent: "coherent_world w \<Longrightarrow> coherent_world (counted V cfg k w)"
  by (erule coherent_shrinks) (simp_all add: leads_def counted_entries)

end

text \<open>The servers: no answer of the database is lost, and no invalidation fails.\<close>

locale prompt_backend = backend +
  assumes no_loss: "pg_out (ev_pg V) n \<noteq> LostAfter e"
    and dels: "fst (rd_Del (ev_redis V) k s) = None"
begin

lemma prompt_stmt_error:
  assumes "\<And>n d. fst (st n d) = Inr (k n d)"
    and "affected m (run_stmt (ev_pg V) (with_text ts st) d) = (Some e, d')"
    and "\<And>n. k n (next_stmt d) = 0 \<Longrightarrow> slug_view (snd (st n (next_stmt d))) = slug_view d"
  shows "slug_view d' = slug_view d"
proof -
  let ?n = "pg_tick d"
  have tick: "d\<lparr>pg_tick := Suc ?n\<rparr> = next_stmt d" by (simp add: next_stmt_def)
  show ?thesis
  proof (cases "pg_out (ev_pg V) ?n")
    case Done
    show ?thesis
    proof (cases "texts_ok ts")
      case True
      obtain x where x: "st ?n (next_stmt d) = (Inr (k ?n (next_stmt d)), x)" using assms(1) by (metis prod.collapse)
      with assms(2) Done True tick have "k ?n (next_stmt d) = 0" "d' = x"
        by (auto simp: run_stmt_def affected_def Let_def split: if_splits)
      with assms(3) x show ?thesis by (metis snd_conv)
    next
      case False
      with assms(2) Done tick show ?thesis by (auto simp: run_stmt_def affected_def refuse_def Let_def)
    qed
  next
    case (LostBefore x)
    with assms(2) tick show ?thesis by (auto simp: run_stmt_def affected_def Let_def)
  next
    case (LostAfter x)
    with no_loss show ?thesis by blast
  qed
qed

end

sublocale prompt_backend \<subseteq> prompt: prompt_parts "codes_svc V" entries sane held leads owns scanned
  "pg_jsonb (ev_pg V)" "pg_collate (ev_pg V)"
proof unfold_locales
  let ?S = "codes_svc V" and ?E = "ev_pg V"
  have parts: "cs_repo ?S = codes_repo ?E" "cs_cache ?S = target_cache (ev_redis V)" by (simp_all add: codes_svc_def)
  fix s u i dest e and w w' :: "'a world"
  show "fst (ca_Invalidate (cs_cache ?S) s w) = None"
    using dels [of "redirectKey s" "wd_redis w"]
    by (auto simp: parts target_cache_def cache_Invalidate_def on_redis_def split: prod.split option.split)
  show "rp_UpdateDestination (cs_repo ?S) i dest w = (Some e, w') \<Longrightarrow> leads w' = leads w"
  proof -
    assume "rp_UpdateDestination (cs_repo ?S) i dest w = (Some e, w')"
    then obtain d' where d: "repo_UpdateDestination ?E i dest (wd_db w) = (Some e, d')" "w' = w\<lparr>wd_db := d'\<rparr>"
      by (auto simp: parts codes_repo_ops on_db_iff)
    have "slug_view d' = slug_view (wd_db w)"
    proof (rule prompt_stmt_error [OF _ d(1) [unfolded repo_UpdateDestination_def]])
      show "fst (update_destination_stmt ?E i dest n d) = Inr (length (filter (\<lambda>r. dr_code_id r = i) (t_dyn d)))" for n d
        by (simp add: update_destination_stmt_def)
      fix n assume "length (filter (\<lambda>r. dr_code_id r = i) (t_dyn (next_stmt (wd_db w)))) = 0"
      then have "map (\<lambda>r. if dr_code_id r = i then r\<lparr>dr_destination := dest, dr_updated_at := pg_now ?E n\<rparr> else r)
          (t_dyn (next_stmt (wd_db w))) = t_dyn (next_stmt (wd_db w))"
        by (intro map_idI) (auto simp: filter_empty_conv)
      then show "slug_view (snd (update_destination_stmt ?E i dest n (next_stmt (wd_db w)))) = slug_view (wd_db w)"
        by (intro slug_view_same) (simp add: update_destination_stmt_def)
    qed
    with d show ?thesis by (simp add: leads_def)
  qed
  show "rp_Delete (cs_repo ?S) u i w = (Some e, w') \<Longrightarrow> leads w' = leads w"
  proof -
    assume "rp_Delete (cs_repo ?S) u i w = (Some e, w')"
    then obtain d' where d: "repo_Delete ?E u i (wd_db w) = (Some e, d')" "w' = w\<lparr>wd_db := d'\<rparr>"
      by (auto simp: parts codes_repo_ops on_db_iff)
    have run: "affected ''deleting code'' (run_stmt ?E (with_text [] (delete_code_stmt u i)) (wd_db w)) = (Some e, d')"
      using d(1) by (simp add: repo_Delete_def)
    have "slug_view d' = slug_view (wd_db w)"
    proof (rule prompt_stmt_error [OF _ run])
      show "fst (delete_code_stmt u i n d) = Inr (length (filter (\<lambda>r. cr_id r = i \<and> cr_user_id r = u) (t_codes d)))" for n d
        by (simp add: delete_code_stmt_def Let_def)
      fix n assume "length (filter (\<lambda>r. cr_id r = i \<and> cr_user_id r = u) (t_codes (next_stmt (wd_db w)))) = 0"
      then show "slug_view (snd (delete_code_stmt u i n (next_stmt (wd_db w)))) = slug_view (wd_db w)"
        by (intro slug_view_same) (auto simp: delete_code_stmt_def Let_def filter_empty_conv filter_id_conv)
    qed
    with d show ?thesis by (simp add: leads_def)
  qed
qed

subsection \<open>Coherence through calls\<close>

context app
begin

lemma auth_coherent:
  "auth_blind w' = auth_blind w \<Longrightarrow> coherent_world w \<Longrightarrow> coherent_world w'"
  using code_tables_views [of "wd_db w'" "wd_db w"]
  by (auto simp: auth_blind_def coherent_world_def entries_def leads_def same_codes_def)

lemma other_calls_coherent:
  assumes w: "sane w" "coherent_world w" and c: "\<forall>u i inp. c \<noteq> UpdateCall u i inp \<and> c \<noteq> DeleteCall u i"
  shows "coherent_world (perform V cfg c w)"
proof (cases c)
  case PingCall
  obtain x w1 where x: "on_db (ping_db (ev_pg V)) w = (x, w1)" by (rule prod.exhaust)
  obtain y s where y: "rd_Ping (ev_redis V) (wd_redis w1) = (y, s)" by (rule prod.exhaust)
  have "main_tables (wd_db w1) = main_tables (wd_db w)" "wd_redis w1 = wd_redis w"
    using codes_repo_reads(7) [OF table_frames(3), of "ev_pg V" "wd_db w"] x by (auto simp: on_db_iff)
  with main_tables_views [of "wd_db w1" "wd_db w"] cached_mono [OF ping_readable [OF y]] w(2) PingCall x y
  show ?thesis
    by (auto simp: on_redis_def same_codes_def leads_def entries_def intro!: coherent_shrinks [of w])
next
  case (ResolveCall slug h ua)
  obtain r w1 where "Resolve (redirect_svc V) slug w = (r, w1)" by (rule prod.exhaust)
  with redirect.Resolve_coherent [OF w(1) _ this] w(2) ResolveCall show ?thesis
    by (cases r) (auto simp: coherent_worlds start_scan_def coherent_world_def entries_def leads_def)
next
  case GuestCall
  then show ?thesis using CreateGuest_blind [of V cfg w] w(2) by (auto intro: auth_coherent simp: prod_eq_iff)
next
  case (UpgradeCall u em pw)
  then show ?thesis using Upgrade_blind [of V cfg u em pw w] w(2) by (auto intro: auth_coherent simp: prod_eq_iff)
next
  case (CreateCall inp)
  then show ?thesis using codes.Create_coherent [of w inp] w by (simp add: coherent_worlds prod_eq_iff)
next
  case (GetCall u i)
  then show ?thesis using codes.Get_spec [of w u i] w
    by (auto simp: prod_eq_iff codes.unchanged_def intro!: coherent_shrinks [of w])
next
  case (ListCall u tok limit)
  then show ?thesis using codes.List_spec [of w u tok limit] w
    by (auto simp: prod_eq_iff codes.unchanged_def intro!: coherent_shrinks [of w])
next
  case (AnalyticsCall u i)
  then show ?thesis using codes.Analytics_spec [of w u i] w
    by (auto simp: prod_eq_iff codes.unchanged_def intro!: coherent_shrinks [of w])
next
  case (CheckCall url)
  then show ?thesis using checker_entries [of url w] w
    by (auto simp: prod_eq_iff leads_def intro!: coherent_shrinks [of w])
qed (use assms in auto)

end

locale prompt_app = app + prompt_backend
begin

lemma perform_coherent:
  assumes w: "sane w" "coherent_world w"
  shows "coherent_world (perform V cfg c w)"
proof (cases "\<exists>u i inp. c = UpdateCall u i inp \<or> c = DeleteCall u i")
  case True
  then show ?thesis
    using prompt.Update_coherent_always [of w] prompt.Delete_coherent_always [of w] w
    by (auto simp: coherent_worlds prod_eq_iff)
next
  case False
  then show ?thesis by (intro other_calls_coherent w) blast
qed

end

end
