(* ===== verification/RedirectProperties.thy ===== *)
theory RedirectProperties
  imports ServerProperties Coherence
begin

text \<open>
  The public redirect: it leads to what the tables say, although most requests are answered from the
  cache, and every scan of a code that leads somewhere is recorded.
\<close>

subsection \<open>The cache and the tables\<close>

text \<open>Every target that a client can read from Redis now is the one that the tables have.\<close>

definition cache_current :: "'r env \<Rightarrow> ('r \<Rightarrow> kv) \<Rightarrow> ('r \<Rightarrow> instant) \<Rightarrow> 'r world \<Rightarrow> bool" where
  "cache_current V data clock w \<longleftrightarrow>
     (\<forall>slug v t. live (clock (wd_redis w)) (data (wd_redis w)) (redirectKey slug) = Some v \<longrightarrow>
        target_of_json v = Some t \<longrightarrow>
        (\<exists>x. slug_view (wd_db w) slug = Some x \<and> t = target_for (ev_uuid V) x))"

context backend
begin

lemma entries_live:
  "entries w slug = Some t \<longleftrightarrow>
     (\<exists>v. live (clock (wd_redis w)) (data (wd_redis w)) (redirectKey slug) = Some v \<and> target_of_json v = Some t)"
  by (simp add: entries_def cached_def readable_def bind_eq_Some_conv)

lemma current_coherent: "cache_current V data clock w \<longleftrightarrow> coherent_world w"
  by (auto simp: cache_current_def coherent_world_def coherent_map_def entries_def leads_def cached_def readable_def
      bind_eq_Some_conv)

end

text \<open>An empty cache is current.\<close>

lemma empty_current: "(\<And>slug. live (clock (wd_redis w)) (data (wd_redis w)) (redirectKey slug) = None) \<Longrightarrow> cache_current V data clock w"
  by (simp add: cache_current_def)

subsection \<open>Runs\<close>

context prompt_app
begin

lemma step_coherent:
  assumes "chi_laws (ev_chi V)" "sane w" "coherent_world w" "system_step V cfg w e w'"
  shows "coherent_world w'"
proof (cases e)
  case (Request r)
  with assms(4) obtain x W where run: "sv_Handler (build_server V cfg) r (new_rw, w) = (x, W, w')"
    by (auto elim: requestE)
  obtain c k ls where "w' = (perform V cfg c (counted V cfg k w))\<lparr>wd_log := ls\<rparr>"
    using Server_refines [OF assms(1) run] by blast
  moreover have "coherent_world (perform V cfg c (counted V cfg k w))"
    using assms(2,3) by (intro perform_coherent counted_coherent) (simp_all add: sane_def)
  ultimately show ?thesis by (simp add: coherent_world_def entries_def leads_def)
next
  case Job
  with assms(4) obtain js j js' where j: "wd_jobs w = js @ j # js'" "w' = run_job V j (w\<lparr>wd_jobs := js @ js'\<rparr>)"
    by (auto elim: jobE)
  with run_job_world [of V j "w\<lparr>wd_jobs := js @ js'\<rparr>"] main_tables_views [of "wd_db w'" "wd_db w"] assms(3)
  show ?thesis by (auto simp: coherent_world_def entries_def leads_def same_codes_def)
next
  case (Tick t)
  with assms(3,4) show ?thesis by (auto elim!: tickE simp: coherent_world_def entries_def leads_def)
qed

lemma run_coherent:
  assumes "chi_laws (ev_chi V)" "system_run V cfg w es w'" "sane w" "coherent_world w"
  shows "sane w' \<and> coherent_world w'"
proof (rule run_invariant [where I = "\<lambda>v. sane v \<and> coherent_world v" and P = "\<lambda>_ _. True", OF _ assms(2)])
  fix v e v' assume "system_step V cfg v e v'" "sane v \<and> coherent_world v"
  with step_confined [OF assms(1)] step_coherent [OF assms(1)] show "sane v' \<and> coherent_world v'" by blast
qed (use assms(3,4) in simp_all)

end

lemma prompt_appI:
  assumes "backend V data clock bears" "\<And>n e. pg_out (ev_pg V) n \<noteq> LostAfter e" "\<And>k s. fst (rd_Del (ev_redis V) k s) = None"
  shows "prompt_app V data clock bears"
  by (intro prompt_app.intro app.intro prompt_backend.intro prompt_backend_axioms.intro assms)

text \<open>
  C15. Requests that are served one after the other keep the cache current. If the database never loses the
  answer to a statement it executed, and Redis never fails to delete a key, then through all runs of the
  server in which each request ends before the next one begins, whatever else fails, the cached
  targets stay the ones of the tables. All three conditions are needed: the services only log a failed
  deletion, and requests that overlap can leave an old target behind (C19) for an hour (C9).
\<close>

theorem Run_current:
  assumes "backend V data clock bears" and "chi_laws (ev_chi V)"
    and "\<And>n e. pg_out (ev_pg V) n \<noteq> LostAfter e" and "\<And>k s. fst (rd_Del (ev_redis V) k s) = None"
    and "db_ok (ev_pg V) (wd_db w)" and "cache_current V data clock w"
    and "system_run V cfg w es w'"
  shows "cache_current V data clock w'"
proof -
  note app = prompt_appI [OF assms(1,3,4)]
  show ?thesis
    using prompt_app.run_coherent [OF app assms(2,7)] assms(5,6)
    by (simp add: backend.current_coherent [OF assms(1)] backend.sane_def [OF assms(1)])
qed

subsection \<open>The endpoint\<close>

text \<open>\<open>redirects_to W path dest\<close>: the response sends the client to the destination.\<close>

definition redirects_to :: "rw \<Rightarrow> string \<Rightarrow> string \<Rightarrow> bool" where
  "redirects_to W path dest \<longleftrightarrow> status_of W = 302 \<and>
     header_of W ''Location'' = Some (hexEscapeNonASCII (redirect_target path dest))"

context backend
begin

lemma redirect_handler_simps:
  "rh_Resolve (hs_Redirect (all_handlers V cfg)) = Resolve (redirect_svc V)"
  "rh_Go (hs_Redirect (all_handlers V cfg)) = start_scan"
  by (simp_all add: all_handlers_def Let_def)

lemma redirect_world:
  assumes w: "sane w" "coherent_world w" "fresh W"
    and run: "Redirect (hs_Redirect (all_handlers V cfg)) r (W, w) = (e, W', w')"
  shows "e = Returned \<and> sane w' \<and> coherent_world w' \<and>
    (let slug = URLParam r ''slug'' in
      (\<exists>dest i. leads w slug = Some (dest, i) \<and> redirects_to W' (rq_Path r) dest \<and>
         wd_jobs w' = wd_jobs w @ [(slug, HashIP (clientIP r), header_Get (rq_Header r) ''User-Agent'')]) \<or>
      status_of W' = 404 \<and> rw_Body W' = notActiveHTML \<and> wd_jobs w' = wd_jobs w)"
proof -
  let ?H = "hs_Redirect (all_handlers V cfg)" and ?slug = "URLParam r ''slug''"
  obtain q w1 where q: "Resolve (redirect_svc V) ?slug w = (q, w1)" by (rule prod.exhaust)
  note co = redirect.Resolve_coherent [OF w(1) _ q, unfolded coherent_worlds, OF w(2)]
  have s1: "sane w1"
    using Resolve_world [OF table_frame_ok q] w(1) by (simp add: sane_def)
  have jobs: "wd_jobs w1 = wd_jobs w" using Resolve_world [OF table_frame_ok q] by simp
  have rq: "rh_Resolve ?H ?slug w = (q, w1)" using q by (simp add: redirect_handler_simps)
  show ?thesis
  proof (cases q)
    case (Inl x)
    from Redirect_missing [OF rq [unfolded Inl] w(3)] run co s1 jobs show ?thesis by (auto simp: Let_def)
  next
    case (Inr dest)
    obtain i where i: "leads w ?slug = Some (dest, i)" using co Inr by auto
    from Redirect_found [OF rq [unfolded Inr] w(3)] run
    have W': "e = Returned" "redirects_to W' (rq_Path r) dest"
      "w' = start_scan ?slug (HashIP (clientIP r)) (header_Get (rq_Header r) ''User-Agent'') w1"
      by (auto simp: redirects_to_def redirect_handler_simps)
    then have "sane w'" "coherent_world w'" using s1 co
      by (simp_all add: start_scan_def sane_def coherent_world_def entries_def leads_def)
    with W' i jobs show ?thesis by (auto simp: start_scan_def Let_def)
  qed
qed

lemma known_slug:
  assumes "sane w" "leads w slug = Some x" "\<And>n. pg_out (ev_pg V) n = Done"
  shows "fst (sr_ResolveSlug (slug_repo (ev_pg V)) slug w) = Inr x"
proof -
  have ok: "db_ok (ev_pg V) (wd_db w)" using assms(1) by (simp add: sane_def)
  have "slug_view (wd_db w) slug = Some x" using assms(2) by (simp add: leads_def)
  moreover from this obtain row where row: "lookup dr_slug (t_dyn (wd_db w)) slug = Some row"
    unfolding slug_view_def by (cases "lookup dr_slug (t_dyn (wd_db w)) slug") simp_all
  from lookup_mem [OF row] lookup_key [OF row] have "pg_text slug"
    using db_ok_texts [OF ok] by (auto simp: dyn_texts_def)
  ultimately show ?thesis
    by (simp add: slug_repo_ops on_db_def repo_ResolveSlug_eq [OF ok] stmt_read_def assms(3))
qed

lemma resolve_known:
  assumes w: "sane w" "leads w slug = Some x" and run: "Resolve (redirect_svc V) slug w = (q, w')"
    and pg: "\<And>n. pg_out (ev_pg V) n = Done"
  shows "q \<noteq> Inl e"
proof
  assume e: "q = Inl e"
  obtain l w1 where l: "ca_Lookup (rs_cache (redirect_svc V)) slug w = (l, w1)" by (rule prod.exhaust)
  from redirect.lookup_frame [OF w(1), of slug] l w(2) have w1: "sane w1" "leads w1 slug = Some x" by simp_all
  have "rs_repo (redirect_svc V) = slug_repo (ev_pg V)" by (simp add: redirect_svc_def)
  with known_slug [OF w1 pg] obtain w2 where "sr_ResolveSlug (rs_repo (redirect_svc V)) slug w1 = (Inr x, w2)"
    by (metis prod.collapse)
  with run l e show False by (auto simp: Resolve_def split: sum.splits option.splits prod.splits)
qed

lemma redirect_fresh:
  assumes w: "sane w" "leads w (URLParam r ''slug'') = Some x"
    and c: "\<And>t. entries w (URLParam r ''slug'') = Some t \<Longrightarrow> ct_Destination t = fst x"
    and W: "fresh W" and run: "Redirect (hs_Redirect (all_handlers V cfg)) r (W, w) = (e, W', w')"
  shows "(redirects_to W' (rq_Path r) (fst x) \<or> status_of W' = 404 \<and> rw_Body W' = notActiveHTML) \<and>
    ((\<forall>n. pg_out (ev_pg V) n = Done) \<longrightarrow> redirects_to W' (rq_Path r) (fst x))"
proof -
  let ?H = "hs_Redirect (all_handlers V cfg)"
  obtain q w1 where q: "Resolve (redirect_svc V) (URLParam r ''slug'') w = (q, w1)" by (rule prod.exhaust)
  have rq: "rh_Resolve ?H (URLParam r ''slug'') w = (q, w1)" using q by (simp add: redirect_handler_simps)
  show ?thesis
  proof (cases q)
    case (Inl x')
    have "\<not> (\<forall>n. pg_out (ev_pg V) n = Done)" using resolve_known [OF w q] Inl by auto
    with Redirect_missing [OF rq [unfolded Inl] W] run show ?thesis by auto
  next
    case (Inr dest)
    have "dest = fst x"
      using w(1) q by (cases rule: redirect.Resolve_cases) (use Inr w(2) c in auto)
    with Redirect_found [OF rq [unfolded Inr] W] run show ?thesis by (auto simp: redirects_to_def)
  qed
qed

text \<open>A slug that neither the tables nor the cache have.\<close>

lemma redirect_nowhere:
  assumes w: "sane w" "leads w (URLParam r ''slug'') = None" "entries w (URLParam r ''slug'') = None"
    and W: "fresh W" and run: "Redirect (hs_Redirect (all_handlers V cfg)) r (W, w) = (e, W', w')"
  shows "status_of W' = 404 \<and> rw_Body W' = notActiveHTML"
proof -
  obtain q w1 where q: "Resolve (redirect_svc V) (URLParam r ''slug'') w = (q, w1)" by (rule prod.exhaust)
  obtain x where x: "q = Inl x"
    using w(1) q by (cases rule: redirect.Resolve_cases) (use w(2,3) in auto)
  have "rh_Resolve (hs_Redirect (all_handlers V cfg)) (URLParam r ''slug'') w = (Inl x, w1)"
    using q x by (simp add: redirect_handler_simps)
  from Redirect_missing [OF this W] run show ?thesis by auto
qed

lemma redirect_known:
  assumes w: "sane w" "coherent_world w" "fresh W" "leads w (URLParam r ''slug'') = Some (dest, i)"
    and pg: "\<And>n. pg_out (ev_pg V) n = Done"
    and run: "Redirect (hs_Redirect (all_handlers V cfg)) r (W, w) = (e, W', w')"
  shows "redirects_to W' (rq_Path r) dest"
proof -
  obtain q w1 where q: "Resolve (redirect_svc V) (URLParam r ''slug'') w = (q, w1)" by (rule prod.exhaust)
  then obtain d where d: "q = Inr d" using resolve_known [OF w(1,4) q pg] by (cases q) auto
  have "rh_Resolve (hs_Redirect (all_handlers V cfg)) (URLParam r ''slug'') w = (Inr d, w1)"
    using q d by (simp add: redirect_handler_simps)
  from Redirect_found [OF this w(3)] run have "status_of W' = 302" by auto
  with redirect_world [OF w(1-3) run] w(4) show ?thesis by (auto simp: Let_def)
qed

end

text \<open>
  C17. With a current cache the public endpoint answers either with a redirect to the destination that
  the tables have for the slug, and then exactly one scan with the hashed address of the client is
  waiting to be recorded, or with the page for codes that are not active, and then none is. It leaves
  the cache current and the tables sound.
\<close>

theorem Redirect_current:
  assumes "backend V data clock bears" and "db_ok (ev_pg V) (wd_db w)" and "cache_current V data clock w" and "fresh W"
    and "Redirect (hs_Redirect (all_handlers V cfg)) r (W, w) = (e, W', w')"
  shows "e = Returned \<and> db_ok (ev_pg V) (wd_db w') \<and> cache_current V data clock w' \<and>
    (let slug = URLParam r ''slug'' in
      (\<exists>dest i. slug_view (wd_db w) slug = Some (dest, i) \<and> redirects_to W' (rq_Path r) dest \<and>
         wd_jobs w' = wd_jobs w @ [(slug, HashIP (clientIP r), header_Get (rq_Header r) ''User-Agent'')]) \<or>
      status_of W' = 404 \<and> rw_Body W' = notActiveHTML \<and> wd_jobs w' = wd_jobs w)"
  using backend.redirect_world [OF assms(1) _ _ assms(4,5)] assms(2,3)
  by (simp add: backend.current_coherent [OF assms(1)] backend.sane_def [OF assms(1)] backend.leads_def [OF assms(1)])

text \<open>
  C16. Redis is only a cache. Let a slug be known to the tables, and let the entry under its key, if there is
  one, have its destination (or no readable target). The visitor is redirected there if the
  database answers, whatever Redis answers and whether it answers at all; and if the database fails too,
  there or to the page for inactive codes, and nowhere else. Nothing is asked of the other entries.
\<close>

theorem Known_redirects:
  assumes "backend V data clock bears" and "db_ok (ev_pg V) (wd_db w)" and "fresh W"
    and "slug_view (wd_db w) (URLParam r ''slug'') = Some (dest, i)"
    and "\<And>v t. live (clock (wd_redis w)) (data (wd_redis w)) (redirectKey (URLParam r ''slug'')) = Some v \<Longrightarrow>
      target_of_json v = Some t \<Longrightarrow> ct_Destination t = dest"
    and "Redirect (hs_Redirect (all_handlers V cfg)) r (W, w) = (e, W', w')"
  shows "(redirects_to W' (rq_Path r) dest \<or> status_of W' = 404 \<and> rw_Body W' = notActiveHTML) \<and>
    ((\<forall>n. pg_out (ev_pg V) n = Done) \<longrightarrow> redirects_to W' (rq_Path r) dest)"
proof -
  have "ct_Destination t = dest" if "backend.entries data clock w (URLParam r ''slug'') = Some t" for t
    using that assms(5) unfolding backend.entries_live [OF assms(1)] by blast
  then show ?thesis
    using backend.redirect_fresh [OF assms(1) _ _ _ assms(3,6), of "(dest, i)"] assms(2,4)
    by (simp add: backend.sane_def [OF assms(1)] backend.leads_def [OF assms(1)])
qed

text \<open>
  C18. The goroutine of a redirect records exactly its scan or nothing, and touches nothing else. It
  records it whenever the texts are ones that Postgres stores, the statement is done and its id is
  new; a user agent that is no UTF-8 text, or has a NUL byte, loses the scan.
\<close>

theorem Scan_recorded:
  assumes "db_ok (ev_pg V) (wd_db w)"
  shows "let e = new_scan slug ipHash userAgent; d = wd_db w; d' = wd_db (run_job V (slug, ipHash, userAgent) w);
      texts = [Some slug, scan_IPHash e, scan_UserAgent e]; n = pg_tick d in
    db_ok (ev_pg V) d' \<and> main_tables d' = main_tables d \<and>
    (t_scans d' = t_scans d \<or> scan_appended e (t_scans d) (t_scans d')) \<and>
    (\<not> texts_ok texts \<longrightarrow> t_scans d' = t_scans d) \<and>
    (texts_ok texts \<longrightarrow> pg_out (ev_pg V) n = Done \<longrightarrow> pg_uuid (ev_pg V) n \<notin> scan_ID ` set (t_scans d) \<longrightarrow>
       scan_appended e (t_scans d) (t_scans d'))"
proof -
  let ?e = "new_scan slug ipHash userAgent" and ?d = "wd_db w"
  obtain r d' where run: "repo_InsertScanEvent (ev_pg V) ?e ?d = (r, d')" by (rule prod.exhaust)
  have d': "wd_db (run_job V (slug, ipHash, userAgent) w) = d'"
    using run by (simp add: run_job_def RecordScan_def redirect_svc_def slug_repo_def on_db_def)
  have e: "scan_Slug ?e = slug" by (simp add: new_scan_def)
  have main: "main_tables d' = main_tables ?d" using insert_scan_main [of "ev_pg V" ?e ?d] run by simp
  have "t_scans d' = t_scans ?d" if "\<not> texts_ok [Some slug, scan_IPHash ?e, scan_UserAgent ?e]"
    using run that e by (auto simp: repo_InsertScanEvent_def run_stmt_def refuse_def Let_def split: pg_outcome.splits)
  moreover have "scan_appended ?e (t_scans ?d) (t_scans d')"
    if "texts_ok [Some slug, scan_IPHash ?e, scan_UserAgent ?e]" "pg_out (ev_pg V) (pg_tick ?d) = Done"
      "pg_uuid (ev_pg V) (pg_tick ?d) \<notin> scan_ID ` set (t_scans ?d)"
  proof -
    have "\<not> list_ex (\<lambda>r. scan_ID r = pg_uuid (ev_pg V) (pg_tick ?d)) (t_scans ?d)"
      using that(3) unfolding list_ex_iff by (metis imageI)
    with run that(1,2) e have "t_scans d' = t_scans ?d @
        [?e\<lparr>scan_ID := pg_uuid (ev_pg V) (pg_tick ?d), scan_ScannedAt := pg_now (ev_pg V) (pg_tick ?d)\<rparr>]"
      by (auto simp: repo_InsertScanEvent_def run_stmt_def insert_scan_stmt_def Let_def)
    then show ?thesis by (simp only: scan_appendedI)
  qed
  moreover have "t_scans d' = t_scans ?d \<or> scan_appended ?e (t_scans ?d) (t_scans d')"
    using repo_InsertScanEvent_spec [OF assms run] by (cases r) auto
  ultimately show ?thesis
    using repo_InsertScanEvent_spec [OF assms run] main unfolding Let_def d' by blast
qed

subsection \<open>Examples\<close>

lemma sample_current: "cache_current sample_backend mem_data mem_clock sample_world"
  by (rule empty_current) simp

lemma sample_answers: "pg_out sample_env n = Done" "fst (rd_Del (mem_redis sample_mem_env) k s) = None"
  by (simp_all add: sample_env_def Let_def)

interpretation sample_prompt: prompt_app sample_backend mem_data mem_clock open_bears sample_config
  by (rule prompt_appI [OF sample_backend_ok]) (simp_all add: sample_answers)

definition sample_visit :: request where
  "sample_visit = \<lparr>rq_Method = ''GET'', rq_Path = ''/r/taken'', rq_RawPath = [], rq_Query = [],
     rq_Header = (\<lambda>_. None), rq_Body = [], rq_RemoteAddr = ''1.2.3.4:5'', rq_Params = [''slug'' \<mapsto> ''taken''],
     rq_Context = Background\<rparr>"

lemma sample_slug: "slug_view sample_db (URLParam sample_visit ''slug'') = Some (''https://a.b'', 3)"
  by (simp add: sample_visit_def URLParam_def slug_view_def sample_defs lookup_Cons)

theorem Run_current_witness:
  "\<exists>w'. system_run sample_backend sample_config sample_world
      [(Tick 5, None), (Request (sample_request ''DELETE'' ''/api/v1/codes/x''), None)] w' \<and>
    cache_current sample_backend mem_data mem_clock w'"
proof -
  obtain w' where run: "system_run sample_backend sample_config sample_world
      [(Tick 5, None), (Request (sample_request ''DELETE'' ''/api/v1/codes/x''), None)] w'"
    using sample_run by blast
  with Run_current [OF sample_backend_ok sample_chi_laws _ _ _ sample_current run] sample_db_ok sample_answers
  show ?thesis by auto
qed

theorem Redirect_current_witness:
  "\<exists>W' w'. Redirect (hs_Redirect (all_handlers sample_backend sample_config)) sample_visit (new_rw, sample_world) =
      (Returned, W', w') \<and> cache_current sample_backend mem_data mem_clock w' \<and> db_ok sample_env (wd_db w')"
proof -
  obtain e W' w' where run: "Redirect (hs_Redirect (all_handlers sample_backend sample_config)) sample_visit
      (new_rw, sample_world) = (e, W', w')"
    by (rule prod_cases3)
  from Redirect_current [OF sample_backend_ok _ sample_current fresh_new run] sample_db_ok run show ?thesis by auto
qed

theorem Known_redirects_witness:
  "\<exists>W' w'. Redirect (hs_Redirect (all_handlers sample_backend sample_config)) sample_visit (new_rw, sample_world) =
      (Returned, W', w') \<and> redirects_to W' ''/r/taken'' ''https://a.b''"
proof -
  obtain e W' w' where run: "Redirect (hs_Redirect (all_handlers sample_backend sample_config)) sample_visit
      (new_rw, sample_world) = (e, W', w')"
    by (rule prod_cases3)
  have "e = Returned" using run by (auto simp: Redirect_def Let_def split: prod.splits sum.splits)
  moreover have "redirects_to W' (rq_Path sample_visit) ''https://a.b''"
    using Known_redirects [OF sample_backend_ok _ fresh_new _ _ run, of "''https://a.b''" 3] sample_db_ok sample_slug
      sample_answers by simp
  ultimately show ?thesis using run by (auto simp: sample_visit_def)
qed

theorem Scan_recorded_witness:
  "scan_appended (new_scan ''taken'' ''ab'' ''curl'') (t_scans sample_db)
     (t_scans (wd_db (run_job sample_backend (''taken'', ''ab'', ''curl'') sample_world)))"
proof -
  have "texts_ok [Some ''taken'', scan_IPHash (new_scan ''taken'' ''ab'' ''curl''), scan_UserAgent (new_scan ''taken'' ''ab'' ''curl'')]"
    by code_simp
  with Scan_recorded [of sample_backend sample_world "''taken''" "''ab''" "''curl''"] sample_db_ok sample_answers(1)
  show ?thesis by (simp add: Let_def) (simp add: sample_db_def)
qed

end
