(* ===== verification/Programs.thy ===== *)
theory Programs
  imports Coherence
begin

text \<open>
  The calls as programs of atomic actions (one statement or transaction of Postgres, one command of Redis),
  between which the actions of other calls may run. Run alone, a program is the call that it comes from.
\<close>

subsection \<open>Programs\<close>

datatype ('w, 'a) prog = Return 'a | Atom "'w \<Rightarrow> ('w, 'a) prog \<times> 'w"

definition atom :: "('w \<Rightarrow> 'b \<times> 'w) \<Rightarrow> ('b \<Rightarrow> ('w, 'a) prog) \<Rightarrow> ('w, 'a) prog" where
  "atom act k = Atom (\<lambda>w. map_prod k id (act w))"

primrec prog_run :: "('w, 'a) prog \<Rightarrow> 'w \<Rightarrow> 'a \<times> 'w" where
  "prog_run (Return a) = Pair a"
| "prog_run (Atom f) = (\<lambda>w. case (map_prod prog_run id \<circ> f) w of (g, w') \<Rightarrow> g w')"

lemma prog_run_atom [simp]: "prog_run (atom act k) w = (case act w of (r, w') \<Rightarrow> prog_run (k r) w')"
  by (simp add: atom_def split: prod.split)

text \<open>Every action of a program keeps \<open>I\<close>, whatever others do to the state that keeps it too, and its result is in \<open>Q\<close>.\<close>

primrec prog_keeps :: "('w \<Rightarrow> bool) \<Rightarrow> ('a \<Rightarrow> bool) \<Rightarrow> ('w, 'a) prog \<Rightarrow> bool" where
  "prog_keeps I Q (Return a) = Q a"
| "prog_keeps I Q (Atom f) = (\<forall>w. I w \<longrightarrow> (case (map_prod (prog_keeps I Q) id \<circ> f) w of (ok, w') \<Rightarrow> ok \<and> I w'))"

lemma prog_keeps_Atom: "prog_keeps I Q (Atom f) \<longleftrightarrow> (\<forall>w. I w \<longrightarrow> (case f w of (p, w') \<Rightarrow> prog_keeps I Q p \<and> I w'))"
  by (simp add: split_beta)

lemma prog_keeps_step: "prog_keeps I Q (Atom f) \<Longrightarrow> I w \<Longrightarrow> f w = (p, w') \<Longrightarrow> prog_keeps I Q p \<and> I w'"
  unfolding prog_keeps_Atom by (metis (mono_tags, lifting) case_prod_conv)

lemma prog_keeps_atom:
  assumes "\<And>w r w'. I w \<Longrightarrow> act w = (r, w') \<Longrightarrow> I w' \<and> prog_keeps I Q (k r)"
  shows "prog_keeps I Q (atom act k)"
  unfolding atom_def prog_keeps_Atom
proof (intro allI impI)
  fix w assume "I w"
  obtain r w' where r: "act w = (r, w')" by (rule prod.exhaust)
  with assms [OF \<open>I w\<close> r] show "case map_prod k id (act w) of (p, w') \<Rightarrow> prog_keeps I Q p \<and> I w'" by simp
qed

subsection \<open>The programs of the services\<close>

definition check_prog :: "'w safety_service \<Rightarrow> string \<Rightarrow> (err + safety_result \<Rightarrow> ('w, 'a) prog) \<Rightarrow> ('w, 'a) prog" where
  "check_prog S url k =
     atom (sc_Get (ss_cache S) url) (\<lambda>r. case r of
        Inr (Some x) \<Rightarrow> k (Inr (x\<lparr>sr_Cached := True\<rparr>))
      | _ \<Rightarrow> atom (sc_Set (ss_cache S) url (ss_checker S url)) (\<lambda>_. k (Inr (ss_checker S url))))"

definition resolve_prog :: "'w redirect_service \<Rightarrow> string \<Rightarrow> (err + string \<Rightarrow> ('w, 'a) prog) \<Rightarrow> ('w, 'a) prog" where
  "resolve_prog S slug k =
     atom (ca_Lookup (rs_cache S) slug) (\<lambda>l. case l of
        Inr (Some t) \<Rightarrow> k (Inr (ct_Destination t))
      | _ \<Rightarrow> atom (sr_ResolveSlug (rs_repo S) slug) (\<lambda>r. case r of
           Inl e \<Rightarrow> k (Inl e)
         | Inr x \<Rightarrow> atom (ca_Store (rs_cache S) slug (target_for (rs_uuid S) x)) (\<lambda>_. k (Inr (fst x)))))"

text \<open>The checker of the codes service is the safety service.\<close>

definition guard_prog ::
  "'w codes_service \<Rightarrow> 'w safety_service \<Rightarrow> string \<Rightarrow> (err option \<Rightarrow> ('w, 'a) prog) \<Rightarrow> ('w, 'a) prog" where
  "guard_prog S C url k =
     (case cs_checker S of
        None \<Rightarrow> k None
      | Some check \<Rightarrow> check_prog C url (\<lambda>v. case v of
           Inl e \<Rightarrow> k None
         | Inr res \<Rightarrow> k (if sr_Verdict res = VerdictMalicious then Some (Sentinel ErrUnsafeDestination) else None)))"

fun attempts_prog ::
  "'w codes_service \<Rightarrow> nat \<Rightarrow> code \<Rightarrow> string \<Rightarrow> (err + code \<Rightarrow> ('w, 'a) prog) \<Rightarrow> ('w, 'a) prog" where
  "attempts_prog S 0 c dest k = k (Inl (Sentinel ErrSlugGenerationFailed))"
| "attempts_prog S (Suc n) c dest k =
     atom (cs_newSlug S) (\<lambda>q. case q of
        Inl e \<Rightarrow> k (Inl (Wrap ''generating slug'' e))
      | Inr slug \<Rightarrow> atom (rp_CreateDynamic (cs_repo S) c slug dest) (\<lambda>(eo, c1). case eo of
           None \<Rightarrow> k (Inr c1)
         | Some e \<Rightarrow> if errors_is e ErrSlugTaken then attempts_prog S n c1 dest k
             else k (Inl (Wrap ''creating dynamic code'' e))))"

definition create_prog ::
  "'w codes_service \<Rightarrow> 'w safety_service \<Rightarrow> create_input \<Rightarrow> (err + code \<Rightarrow> ('w, 'a) prog) \<Rightarrow> ('w, 'a) prog" where
  "create_prog S C inp k =
     (if ci_IsDynamic inp \<and> ci_Type inp \<noteq> TypeURL then k (Inl (Sentinel ErrDynamicUnsupported))
      else if \<not> ci_IsDynamic inp then
        atom (rp_Create (cs_repo S) (new_code inp)) (\<lambda>r. k (map_sum (Wrap ''creating static code'') id r))
      else (case extractURL (ci_Payload inp) of
          None \<Rightarrow> k (Inl (Sentinel ErrDynamicURLRequired))
        | Some dest \<Rightarrow> guard_prog S C dest (\<lambda>g. case g of
             Some e \<Rightarrow> k (Inl e)
           | None \<Rightarrow> attempts_prog S maxSlugAttempts (new_code inp) dest k)))"

definition destination_prog ::
  "'w codes_service \<Rightarrow> 'w safety_service \<Rightarrow> code \<Rightarrow> string \<Rightarrow> (err option \<Rightarrow> ('w, 'a) prog) \<Rightarrow> ('w, 'a) prog" where
  "destination_prog S C c dest k =
     (case (if code_IsDynamic c then code_Dynamic c else None) of
        None \<Rightarrow> k (Some (Sentinel ErrNotDynamic))
      | Some dyn \<Rightarrow> guard_prog S C dest (\<lambda>g. case g of
           Some e \<Rightarrow> k (Some e)
         | None \<Rightarrow> atom (rp_UpdateDestination (cs_repo S) (code_ID c) dest) (\<lambda>x. case x of
              Some e \<Rightarrow> k (Some (Wrap ''updating destination'' e))
            | None \<Rightarrow> atom (ca_Invalidate (cs_cache S) (dyn_Slug dyn)) (\<lambda>_. k None))))"

definition label_prog ::
  "'w codes_service \<Rightarrow> uuid \<Rightarrow> uuid \<Rightarrow> string option \<Rightarrow> (err option \<Rightarrow> ('w, 'a) prog) \<Rightarrow> ('w, 'a) prog" where
  "label_prog S u i label k =
     (case label of
        None \<Rightarrow> k None
      | Some l \<Rightarrow> atom (rp_UpdateLabel (cs_repo S) u i (Some l)) (\<lambda>x. k (map_option (Wrap ''updating label'') x)))"

definition update_prog ::
  "'w codes_service \<Rightarrow> 'w safety_service \<Rightarrow> uuid \<Rightarrow> uuid \<Rightarrow> update_input \<Rightarrow> (err + code \<Rightarrow> ('w, 'a) prog) \<Rightarrow>
    ('w, 'a) prog" where
  "update_prog S C u i inp k =
     atom (rp_GetByID (cs_repo S) u i) (\<lambda>g. case g of
        Inl e \<Rightarrow> k (Inl e)
      | Inr c \<Rightarrow>
          (let rest = (\<lambda>x. case x of
             Some e \<Rightarrow> k (Inl e)
           | None \<Rightarrow> label_prog S u i (ui_Label inp) (\<lambda>y. case y of
                Some e \<Rightarrow> k (Inl e)
              | None \<Rightarrow> atom (rp_GetByID (cs_repo S) u i) k)) in
           case ui_Destination inp of None \<Rightarrow> rest None | Some dest \<Rightarrow> destination_prog S C c dest rest))"

definition delete_prog :: "'w codes_service \<Rightarrow> uuid \<Rightarrow> uuid \<Rightarrow> (err option \<Rightarrow> ('w, 'a) prog) \<Rightarrow> ('w, 'a) prog" where
  "delete_prog S u i k =
     atom (rp_GetByID (cs_repo S) u i) (\<lambda>g. case g of
        Inl e \<Rightarrow> k (Some e)
      | Inr c \<Rightarrow> atom (rp_Delete (cs_repo S) u i) (\<lambda>x. case x of
           Some e \<Rightarrow> k (Some e)
         | None \<Rightarrow>
             (case (if code_IsDynamic c then code_Dynamic c else None) of
                None \<Rightarrow> k None
              | Some dyn \<Rightarrow> atom (ca_Invalidate (cs_cache S) (dyn_Slug dyn)) (\<lambda>_. k None))))"

subsection \<open>A program alone is its operation\<close>

lemma run_check: "prog_run (check_prog S url k) w = (case safety_Check S url w of (r, w') \<Rightarrow> prog_run (k r) w')"
  by (simp add: check_prog_def safety_Check_def Let_def split: prod.split sum.split option.split)

lemma run_resolve: "prog_run (resolve_prog S slug k) w = (case Resolve S slug w of (r, w') \<Rightarrow> prog_run (k r) w')"
  by (simp add: resolve_prog_def Resolve_def split: prod.split sum.split option.split)

lemma run_guard:
  assumes "cs_checker S = Some (safety_Check C)"
  shows "prog_run (guard_prog S C url k) w = (case guardDestination S url w of (x, w') \<Rightarrow> prog_run (k x) w')"
  using assms by (simp add: guard_prog_def guardDestination_def run_check split: prod.split sum.split)

lemma run_attempts:
  "prog_run (attempts_prog S n c dest k) w = (case create_attempts S n c dest w of (r, w') \<Rightarrow> prog_run (k r) w')"
  by (induction n arbitrary: c w) (simp_all split: prod.split sum.split option.split)

lemma run_create:
  assumes "cs_checker S = Some (safety_Check C)"
  shows "prog_run (create_prog S C inp k) w = (case codes_Create S inp w of (r, w') \<Rightarrow> prog_run (k r) w')"
  by (simp add: create_prog_def codes_Create_def run_guard [OF assms] run_attempts split: prod.split sum.split option.split)

lemma run_destination:
  assumes "cs_checker S = Some (safety_Check C)"
  shows "prog_run (destination_prog S C c dest k) w =
    (case update_destination_part S c dest w of (x, w') \<Rightarrow> prog_run (k x) w')"
  by (simp add: destination_prog_def update_destination_part_def run_guard [OF assms] split: prod.split option.split)

lemma run_label:
  "prog_run (label_prog S u i label k) w =
    (case (case label of None \<Rightarrow> (None, w) | Some l \<Rightarrow> update_label_part S u i (Some l) w) of (x, w') \<Rightarrow> prog_run (k x) w')"
  by (simp add: label_prog_def update_label_part_def split: prod.split option.split)

lemma run_update:
  assumes "cs_checker S = Some (safety_Check C)"
  shows "prog_run (update_prog S C u i inp k) w = (case codes_Update S u i inp w of (r, w') \<Rightarrow> prog_run (k r) w')"
  by (simp add: update_prog_def codes_Update_def Let_def run_destination [OF assms] run_label
      split: prod.split sum.split option.split)

lemma run_delete: "prog_run (delete_prog S u i k) w = (case codes_Delete S u i w of (x, w') \<Rightarrow> prog_run (k x) w')"
  by (simp add: delete_prog_def codes_Delete_def split: prod.split sum.split option.split)

subsection \<open>The calls\<close>

text \<open>
  The answers of the calls whose actions interleave. The others, which write to no table of codes and to
  no cache, are one action each.
\<close>

datatype answer = Redirected "err + string" | Stored "err + code" | Deleted "err option"
  | Checked "err + safety_result" | Answered

fun call_prog :: "'r env \<Rightarrow> config \<Rightarrow> call \<Rightarrow> ('r world, answer) prog" where
  "call_prog V cfg (ResolveCall slug ipHash userAgent) =
     resolve_prog (redirect_svc V) slug (\<lambda>r. case r of
        Inl e \<Rightarrow> Return (Redirected r)
      | Inr dest \<Rightarrow> atom (\<lambda>w. ((), start_scan slug ipHash userAgent w)) (\<lambda>_. Return (Redirected r)))"
| "call_prog V cfg (CreateCall inp) = create_prog (codes_svc V) (safety_svc V) inp (\<lambda>r. Return (Stored r))"
| "call_prog V cfg (UpdateCall u i inp) = update_prog (codes_svc V) (safety_svc V) u i inp (\<lambda>r. Return (Stored r))"
| "call_prog V cfg (DeleteCall u i) = delete_prog (codes_svc V) u i (\<lambda>x. Return (Deleted x))"
| "call_prog V cfg (CheckCall url) = check_prog (safety_svc V) url (\<lambda>r. Return (Checked r))"
| "call_prog V cfg c = atom (\<lambda>w. ((), perform V cfg c w)) (\<lambda>_. Return Answered)"

lemma call_prog_perform: "snd (prog_run (call_prog V cfg c) w) = perform V cfg c w"
proof -
  have checker: "cs_checker (codes_svc V) = Some (safety_Check (safety_svc V))" by (simp add: codes_svc_def)
  show ?thesis
    by (cases c)
      (simp_all add: run_resolve run_create [OF checker] run_update [OF checker] run_delete run_check
        split: prod.split sum.split)
qed

end
