(* ===== verification/Traffic.thy ===== *)
theory Traffic
  imports ServerProperties Programs
begin

text \<open>
  Requests at the same time: the actions of their programs (\<open>Programs\<close>) in any order. What all of this
  keeps is a question to each action alone (\<open>traffic_keeps\<close>); and what the actions do to the entries of the
  redirect cache and to their deadlines.
\<close>

subsection \<open>The concurrent system\<close>

text \<open>
  The state: the world, and the calls under way with what is left of their programs. A request arrives, with
  the user of its token, is counted by the rate limiter if it is one of the API (\<open>counts\<close>), and makes a call
  that it asks for (\<open>asks\<close>); a call under way does its next action; a call that is done is answered; a goroutine records its
  scan; time passes; a line is logged.
\<close>

type_synonym 'r traffic_state = "'r world \<times> (call \<times> ('r world, answer) prog) list"

datatype traffic = Arrive request "uuid option" | Act | Answer call answer | Record | Wait | Log

inductive traffic_step :: "'r env \<Rightarrow> config \<Rightarrow> 'r traffic_state \<Rightarrow> traffic \<Rightarrow> 'r traffic_state \<Rightarrow> bool" for V cfg where
  arrive: "asks V (token_user V cfg r w) r c \<Longrightarrow> counts V cfg r c k \<Longrightarrow>
    traffic_step V cfg (w, ps) (Arrive r (token_user V cfg r w)) (counted V cfg k w, ps @ [(c, call_prog V cfg c)])"
| act: "f w = (p, w') \<Longrightarrow> traffic_step V cfg (w, ps @ (c, Atom f) # qs) Act (w', ps @ (c, p) # qs)"
| answer: "traffic_step V cfg (w, ps @ (c, Return a) # qs) (Answer c a) (w, ps @ qs)"
| scan: "wd_jobs w = js @ j # js' \<Longrightarrow> traffic_step V cfg (w, ps) Record (run_job V j (w\<lparr>wd_jobs := js @ js'\<rparr>), ps)"
| wait: "wd_now w \<le> t \<Longrightarrow> traffic_step V cfg (w, ps) Wait (w\<lparr>wd_now := t\<rparr>, ps)"
| log: "traffic_step V cfg (w, ps) Log (w\<lparr>wd_log := ls\<rparr>, ps)"

inductive traffic_run :: "'r env \<Rightarrow> config \<Rightarrow> 'r traffic_state \<Rightarrow> traffic list \<Rightarrow> 'r traffic_state \<Rightarrow> bool" for V cfg where
  idle: "traffic_run V cfg s [] s"
| step: "traffic_step V cfg s e s' \<Longrightarrow> traffic_run V cfg s' es s'' \<Longrightarrow> traffic_run V cfg s (e # es) s''"

inductive_simps traffic_run_Nil [simp]: "traffic_run V cfg s [] s'"
inductive_simps traffic_run_Cons: "traffic_run V cfg s (e # es) s''"

lemma traffic_run_append:
  "traffic_run V cfg s es s' \<Longrightarrow> traffic_run V cfg s' es' s'' \<Longrightarrow> traffic_run V cfg s (es @ es') s''"
  by (induction rule: traffic_run.induct) (auto intro: traffic_run.step)

subsection \<open>One request after the other\<close>

text \<open>A program whose actions are not interrupted runs as its operation.\<close>

lemma prog_alone:
  "\<exists>n. traffic_run V cfg (w, ps @ (c, p) # qs) (replicate n Act)
     (snd (prog_run p w), ps @ (c, Return (fst (prog_run p w))) # qs)"
proof (induction p arbitrary: w)
  case (Return a)
  then show ?case by (intro exI [of _ 0]) simp
next
  case (Atom f)
  obtain p w1 where f: "f w = (p, w1)" by (rule prod.exhaust)
  then have "p \<in> Basic_BNFs.fsts (f w)" by (simp add: fsts.simps)
  from Atom [OF _ this, of w1] obtain n where "traffic_run V cfg (w1, ps @ (c, p) # qs) (replicate n Act)
      (snd (prog_run p w1), ps @ (c, Return (fst (prog_run p w1))) # qs)" by auto
  with traffic_step.act [of f, OF f, of V cfg ps c qs] have "traffic_run V cfg (w, ps @ (c, Atom f) # qs) (replicate (Suc n) Act)
      (snd (prog_run p w1), ps @ (c, Return (fst (prog_run p w1))) # qs)"
    by (auto intro: traffic_run.step)
  moreover have "prog_run (Atom f) w = prog_run p w1" using f by simp
  ultimately show ?case by metis
qed

text \<open>So the requests that the server serves one after the other are traffic.\<close>

lemma request_in_traffic:
  assumes "chi_laws (ev_chi V)" "sv_Handler (build_server V cfg) r (new_rw, w) = (e, W, w')"
  shows "\<exists>n c a. traffic_run V cfg (w, ps) (Arrive r (token_user V cfg r w) # replicate n Act @ [Answer c a, Log]) (w', ps)"
proof -
  obtain c k ls where c: "asks V (token_user V cfg r w) r c" "counts V cfg r c k"
    "w' = (perform V cfg c (counted V cfg k w))\<lparr>wd_log := ls\<rparr>"
    using Server_refines [OF assms] by blast
  let ?w = "counted V cfg k w" and ?p = "call_prog V cfg c"
  let ?a = "fst (prog_run ?p ?w)"
  obtain n where n: "traffic_run V cfg (?w, ps @ [(c, ?p)]) (replicate n Act) (perform V cfg c ?w, ps @ [(c, Return ?a)])"
    using prog_alone [of V cfg ?w ps c ?p "[]"] by (auto simp: call_prog_perform)
  have "traffic_run V cfg (perform V cfg c ?w, ps @ [(c, Return ?a)]) [Answer c ?a, Log] (w', ps)"
    using traffic_step.answer [of V cfg "perform V cfg c ?w" ps c ?a "[]"] traffic_step.log [of V cfg "perform V cfg c ?w" ps ls] c(3)
    by (auto simp: traffic_run_Cons)
  with n have "traffic_run V cfg (?w, ps @ [(c, ?p)]) (replicate n Act @ [Answer c ?a, Log]) (w', ps)"
    by (rule traffic_run_append)
  with traffic_step.arrive [OF c(1,2), of ps] show ?thesis by (blast intro: traffic_run.step)
qed

lemma system_in_traffic:
  assumes "chi_laws (ev_chi V)" "system_step V cfg w e w'"
  shows "\<exists>es. traffic_run V cfg (w, ps) es (w', ps)"
proof (cases e)
  case (Request r)
  with assms request_in_traffic show ?thesis by (fast elim: requestE)
next
  case Job
  with assms(2) obtain js j js' where "wd_jobs w = js @ j # js'" "w' = run_job V j (w\<lparr>wd_jobs := js @ js'\<rparr>)"
    by (auto elim: jobE)
  with traffic_step.scan [of w js j js' V cfg ps] show ?thesis by (auto intro: traffic_run.step traffic_run.idle)
next
  case (Tick t)
  with assms(2) traffic_step.wait [of w t V cfg ps] show ?thesis
    by (auto elim!: tickE intro: traffic_run.step traffic_run.idle)
qed

subsection \<open>Invariants\<close>

text \<open>The requests whose calls keep \<open>I\<close> action by action keep it in any order of their actions.\<close>

lemma traffic_keeps:
  assumes start: "\<And>w r c. I w \<Longrightarrow> P r (token_user V cfg r w) \<Longrightarrow> asks V (token_user V cfg r w) r c \<Longrightarrow>
      prog_keeps I Q (call_prog V cfg c)"
    and count: "\<And>w k. I w \<Longrightarrow> I (counted V cfg k w)"
    and job: "\<And>w j js. I w \<Longrightarrow> I (run_job V j (w\<lparr>wd_jobs := js\<rparr>))"
    and time: "\<And>w t. I w \<Longrightarrow> I (w\<lparr>wd_now := t\<rparr>)" and lines: "\<And>w ls. I w \<Longrightarrow> I (w\<lparr>wd_log := ls\<rparr>)"
    and run: "traffic_run V cfg s es s'"
  shows "I (fst s) \<Longrightarrow> \<forall>x \<in> set (snd s). prog_keeps I Q (snd x) \<Longrightarrow> \<forall>r who. Arrive r who \<in> set es \<longrightarrow> P r who \<Longrightarrow>
    I (fst s') \<and> (\<forall>c a. Answer c a \<in> set es \<longrightarrow> Q a)"
  using run
proof induction
  case (idle s)
  then show ?case by simp
next
  case (step s e s1 es s2)
  have "I (fst s1) \<and> (\<forall>x \<in> set (snd s1). prog_keeps I Q (snd x)) \<and> (\<forall>c a. e = Answer c a \<longrightarrow> Q a)"
    using step.hyps(1)
  proof (cases rule: traffic_step.cases)
    case (arrive r w c k ps)
    with step.prems start [of w r c] count show ?thesis by auto
  next
    case (act f w p w' ps c qs)
    have "prog_keeps I Q (Atom f)" "I w" using step.prems(1,2) act(1) by simp_all
    from prog_keeps_step [OF this act(4)] step.prems(2) act(1-3) show ?thesis by auto
  next
    case (answer w ps c a qs)
    with step.prems(1,2) show ?thesis by auto
  next
    case (scan w js j js' ps)
    with step.prems(1,2) job show ?thesis by auto
  next
    case (wait w t ps)
    with step.prems(1,2) time show ?thesis by auto
  next
    case (log w ps ls)
    with step.prems(1,2) lines show ?thesis by auto
  qed
  with step.IH step.prems(3) show ?case by auto
qed

subsection \<open>Entries and their deadlines\<close>

text \<open>
  \<open>aged s s'\<close>: time has passed and entries of the redirect cache may have gone; what is left has
  the value and the deadline it had.
\<close>

context redis_server
begin

definition filed :: "'r \<Rightarrow> string \<Rightarrow> (string \<times> instant option) option" where
  "filed s slug = data s (redirectKey slug)"

definition aged :: "'r \<Rightarrow> 'r \<Rightarrow> bool" where
  "aged s s' \<longleftrightarrow> clock s \<le> clock s' \<and> filed s' \<subseteq>\<^sub>m filed s"

lemma aged_refl: "aged s s"
  by (simp add: aged_def)

lemma aged_trans: "aged s s' \<Longrightarrow> aged s' s'' \<Longrightarrow> aged s s''"
  unfolding aged_def by (blast intro: map_le_trans order_trans)

lemma aged_cached: "aged s s' \<Longrightarrow> cached s' \<subseteq>\<^sub>m cached s"
proof (rule map_leI)
  fix slug t assume a: "aged s s'" "cached s' slug = Some t"
  then obtain v where v: "live (clock s') (data s') (redirectKey slug) = Some v" "target_of_json v = Some t"
    by (auto simp: cached_def readable_def bind_eq_Some_conv)
  then obtain o1 where o1: "filed s' slug = Some (v, o1)"
    by (auto simp: live_def filed_def split: option.splits if_splits)
  have "filed s slug = Some (v, o1)" using a(1) o1 by (auto simp: aged_def dest: map_leD)
  with v(1) o1 a(1) have "live (clock s) (data s) (redirectKey slug) = Some v"
    by (auto simp: live_def filed_def aged_def split: option.splits if_splits)
  with v(2) show "cached s slug = Some t" by (simp add: cached_def readable_def)
qed

lemma filed_same: "(\<And>slug. data s' (redirectKey slug) = data s (redirectKey slug)) \<Longrightarrow> filed s' \<subseteq>\<^sub>m filed s"
  by (simp add: filed_def map_le_def)

lemma get_aged: "rd_Get R k s = (r, s') \<Longrightarrow> aged s s'"
  using get [of k s r s'] by (simp add: aged_def filed_same)

lemma ping_aged: "rd_Ping R s = (x, s') \<Longrightarrow> aged s s'"
  using ping [of s x s'] by (simp add: aged_def filed_same)

lemma del_aged: "rd_Del R k s = (x, s') \<Longrightarrow> aged s s'"
  using del [of k s x s'] by (auto simp: aged_def filed_def map_le_def dom_def split: if_splits)

lemma set_aged:
  assumes "rd_Set R k v d s = (x, s')" "0 < d" "\<And>slug. k \<noteq> redirectKey slug"
  shows "aged s s'"
proof -
  note law = set [OF assms(1,2)]
  have "data s' (redirectKey slug) = data s (redirectKey slug)" for slug
    using law assms(3) [of slug] by auto
  with law show ?thesis by (simp add: aged_def filed_same)
qed

lemma exec_aged:
  assumes "rd_Exec R [PipeIncr k, PipeExpire k d] s = (q, s')" "0 < d" "\<And>slug. redirectKey slug \<noteq> k"
  shows "aged s s'"
  using exec [OF assms(1,2)] assms(3)
  by (cases q) (auto simp: aged_def incr_entry_other incr_expire_other intro!: filed_same)

lemma limiter_aged:
  assumes "limiter_Allow L now key s = (r, s')" "li_rdb L = R" "0 < li_window L"
  shows "aged s s'"
proof -
  let ?k = "rate_key key (unix now sdiv window_secs (li_window L))"
  obtain q s1 where q: "rd_Exec R [PipeIncr ?k, PipeExpire ?k (li_window L)] s = (q, s1)" by (rule prod.exhaust)
  then have "s' = s1" using assms(1,2) by (auto simp: limiter_Allow_def Let_def split: sum.splits)
  moreover have "aged s s1" by (rule exec_aged [OF q assms(3)]) (metis rate_key_other(1))
  ultimately show ?thesis by simp
qed

text \<open>A store adds one entry at most, and this one lives for \<open>redirectTTL\<close>.\<close>

lemma store_aged:
  assumes "cache_Store R slug t s = (x, s')" "target_text t"
  shows "aged s s' \<or> (\<exists>b. target_of_json b = Some t \<and> clock s \<le> clock s' \<and>
    filed s' = (filed s)(slug \<mapsto> (b, Some (clock s' + redirectTTL))))"
proof -
  obtain b where b: "json_encode (target_json t) = Some b" "target_of_json b = Some t"
    using target_round_trip [OF assms(2)] by blast
  obtain y s1 where y: "rd_Set R (redirectKey slug) b redirectTTL s = (y, s1)" by (rule prod.exhaust)
  then have s1: "s1 = s'" using assms(1) b by (auto simp: cache_Store_def split: option.splits)
  note law = set [OF y redirectTTL_pos, unfolded s1]
  show ?thesis
  proof (cases "data s' = data s")
    case True
    with law show ?thesis by (simp add: aged_def filed_same)
  next
    case False
    with law have "data s' = (data s)(redirectKey slug \<mapsto> (b, Some (clock s' + redirectTTL)))" by blast
    then have "filed s' = (filed s)(slug \<mapsto> (b, Some (clock s' + redirectTTL)))" by (simp add: filed_def fun_eq_iff)
    with law b(2) show ?thesis by blast
  qed
qed

end

subsection \<open>The calls\<close>

context backend
begin

definition ages :: "'r world \<Rightarrow> 'r world \<Rightarrow> bool" where
  "ages w w' \<longleftrightarrow> aged (wd_redis w) (wd_redis w')"

lemma ages_same: "wd_redis w' = wd_redis w \<Longrightarrow> ages w w'"
  by (simp add: ages_def aged_refl)

lemma ages_trans: "ages w w' \<Longrightarrow> ages w' w'' \<Longrightarrow> ages w w''"
  unfolding ages_def by (rule aged_trans)

lemma ages_entries: "ages w w' \<Longrightarrow> entries w' \<subseteq>\<^sub>m entries w"
  by (simp add: ages_def entries_def aged_cached)

lemma lookup_ages: "ca_Lookup (target_cache (ev_redis V)) slug w = (l, w') \<Longrightarrow> ages w w'"
proof -
  assume run: "ca_Lookup (target_cache (ev_redis V)) slug w = (l, w')"
  obtain g s where g: "rd_Get (ev_redis V) (redirectKey slug) (wd_redis w) = (g, s)" by (rule prod.exhaust)
  with run have "wd_redis w' = s"
    by (auto simp: target_cache_def cache_Lookup_def on_redis_iff split: sum.splits option.splits)
  with get_aged [OF g] show ?thesis by (simp add: ages_def)
qed

lemma invalidate_ages: "ca_Invalidate (target_cache (ev_redis V)) slug w = (x, w') \<Longrightarrow> ages w w'"
proof -
  assume run: "ca_Invalidate (target_cache (ev_redis V)) slug w = (x, w')"
  obtain y s where y: "rd_Del (ev_redis V) (redirectKey slug) (wd_redis w) = (y, s)" by (rule prod.exhaust)
  with run have "wd_redis w' = s"
    by (auto simp: target_cache_def cache_Invalidate_def on_redis_iff split: option.splits)
  with del_aged [OF y] show ?thesis by (simp add: ages_def)
qed

lemma safety_Get_aged: "safety_Get (ev_redis V) u s = (r, s') \<Longrightarrow> aged s s'"
proof -
  assume run: "safety_Get (ev_redis V) u s = (r, s')"
  obtain q s1 where g: "rd_Get (ev_redis V) (safetyKey u) s = (q, s1)" by (rule prod.exhaust)
  then have "s1 = s'" using run by (auto simp: safety_Get_def split: sum.splits option.splits)
  with get_aged [OF g] show ?thesis by simp
qed

lemma safety_Set_aged: "safety_Set (ev_redis V) u x s = (e, s') \<Longrightarrow> aged s s'"
proof (cases "json_encode (result_json x)")
  case None
  then show "safety_Set (ev_redis V) u x s = (e, s') \<Longrightarrow> ?thesis" by (simp add: safety_Set_def aged_refl)
next
  case (Some b)
  assume run: "safety_Set (ev_redis V) u x s = (e, s')"
  obtain y s1 where y: "rd_Set (ev_redis V) (safetyKey u) b safetyTTL s = (y, s1)" by (rule prod.exhaust)
  then have s1: "s1 = s'" using run Some by (auto simp: safety_Set_def split: option.splits)
  with set_aged [OF y safetyTTL_pos safety_key_other] show ?thesis by simp
qed

lemma checker_ages: "safety_Check (safety_svc V) u w = (r, w') \<Longrightarrow> ages w w'"
proof -
  assume run: "safety_Check (safety_svc V) u w = (r, w')"
  obtain q s1 where g: "safety_Get (ev_redis V) u (wd_redis w) = (q, s1)" by (rule prod.exhaust)
  let ?res = "Check (ev_lower V) NewHeuristicChecker u"
  obtain e s2 where e: "safety_Set (ev_redis V) u ?res s1 = (e, s2)" by (rule prod.exhaust)
  have "w' = w\<lparr>wd_redis := s1\<rparr> \<or> w' = w\<lparr>wd_redis := s2\<rparr>"
    using run g e
    by (auto simp: safety_Check_def safety_svc_def on_redis_def Let_def split: sum.splits option.splits)
  then show ?thesis
    using safety_Get_aged [OF g] safety_Set_aged [OF e] by (auto simp: ages_def intro: aged_trans)
qed

lemma ages_steps: "codes_steps (codes_svc V) ages (\<lambda>_. True)"
proof
  fix w w' :: "'r world"
  show "ages w w" by (simp add: ages_same)
  show "ages w w''" if "ages w w'" "ages w' w''" for w'' using that by (rule ages_trans)
  show "ca_Invalidate (cs_cache (codes_svc V)) slug w = (x, w') \<Longrightarrow> ages w w'" for slug x
    using invalidate_ages by (simp add: codes_svc_def)
  show "cs_checker (codes_svc V) = Some chk \<Longrightarrow> chk url w = (v, w') \<Longrightarrow> ages w w'" for chk url v
    using checker_ages by (auto simp: codes_svc_def)
  show "cs_newSlug (codes_svc V) w = (q, w') \<Longrightarrow> ages w w'" for q
    by (auto simp: codes_svc_def new_slug_def intro: ages_same)
qed (auto simp: codes_svc_def codes_repo_ops on_db_iff intro: ages_same)

end

sublocale backend \<subseteq> aging: codes_steps "codes_svc V" ages "\<lambda>_. True"
  by (rule ages_steps)

context app
begin

text \<open>Only a redirect adds an entry.\<close>

lemma perform_ages:
  assumes "\<And>slug h a. c \<noteq> ResolveCall slug h a"
  shows "ages w (perform V cfg c w)"
proof (cases c)
  case PingCall
  obtain x w1 where x: "on_db (ping_db (ev_pg V)) w = (x, w1)" by (rule prod.exhaust)
  obtain y s where y: "rd_Ping (ev_redis V) (wd_redis w1) = (y, s)" by (rule prod.exhaust)
  have "wd_redis w1 = wd_redis w" using x by (auto simp: on_db_iff)
  with ping_aged [OF y] PingCall x y show ?thesis by (simp add: on_redis_def ages_def)
next
  case GuestCall
  have "auth_blind (perform V cfg c w) = auth_blind w"
    using GuestCall by (auto intro!: CreateGuest_blind prod.collapse [symmetric])
  then show ?thesis by (intro ages_same) (simp add: auth_blind_def)
next
  case (UpgradeCall u em pw)
  then have "auth_blind (perform V cfg c w) = auth_blind w" by (auto intro!: Upgrade_blind prod.collapse [symmetric])
  then show ?thesis by (intro ages_same) (simp add: auth_blind_def)
next
  case (CreateCall inp)
  then show ?thesis using aging.Create_steps [of inp w] by (simp add: prod_eq_iff)
next
  case (GetCall u i)
  then show ?thesis using aging.Get_steps [of u i w] by (simp add: prod_eq_iff)
next
  case (ListCall u tok limit)
  then show ?thesis using aging.List_steps [of u tok limit w] by (simp add: prod_eq_iff)
next
  case (UpdateCall u i inp)
  then show ?thesis using aging.Update_steps [of inp u i w] by (simp add: prod_eq_iff)
next
  case (DeleteCall u i)
  then show ?thesis using aging.Delete_steps [of u i w] by (simp add: prod_eq_iff)
next
  case (AnalyticsCall u i)
  then show ?thesis using aging.Analytics_steps [of u i w] by (simp add: prod_eq_iff)
next
  case (CheckCall url)
  then show ?thesis using checker_ages [of url w] by (simp add: prod_eq_iff)
qed (use assms in \<open>auto intro: ages_same\<close>)

lemma counted_ages: "ages w (counted V cfg k w)"
proof (cases rule: counted_key [of V cfg k w])
  case 1
  then show ?thesis by (simp add: ages_same)
next
  case (2 key r s)
  have L: "li_rdb (redis_limiter V cfg) = ev_redis V" "0 < li_window (redis_limiter V cfg)"
    by (simp_all add: redis_limiter_def minute_def second_def)
  from limiter_aged [OF 2(1) L] 2(2) show ?thesis by (simp add: ages_def)
qed

end

end
