(* ===== verification/SafeDestinations.thy ===== *)
theory SafeDestinations
  imports RedirectProperties
begin

text \<open>
  No code that the server stores leads to a destination that the checker calls malicious, although most
  verdicts come from the cache: the cached verdicts stay those of the checker through all calls.
\<close>

subsection \<open>Verdicts are texts\<close>

text \<open>The scheme in the message of a reason is ASCII, so the verdict of a UTF-8 URL is stored as it is.\<close>

lemma scheme_from_ascii: "scheme_from raw seen s = Some (x, r) \<Longrightarrow> is_ascii seen \<Longrightarrow> is_ascii x"
  by (induction raw seen s rule: scheme_from.induct)
    (auto simp: is_ascii_def is_digit_def byte_def split: if_splits)

lemma ascii_lower_ascii: "byte c < 128 \<Longrightarrow> byte (ascii_lower c) < 128"
  by (auto simp: ascii_lower_def byte_def)

lemma url_Scheme_ascii: "url_Parse raw = Some u \<Longrightarrow> is_ascii (url_Scheme u)"
proof -
  assume run: "url_Parse raw = Some u"
  then obtain r where r: "parse_nofrag r = Some u" by (auto simp: url_Parse_def split: prod.splits option.splits if_splits)
  show "is_ascii (url_Scheme u)"
  proof (cases "r = ''*''")
    case True
    with r show ?thesis by (auto simp: parse_nofrag_def empty_url_def is_ascii_def split: if_splits)
  next
    case False
    with r obtain scheme rest query path where s: "getScheme r = Some (scheme, rest)"
      "parse_rest (map ascii_lower scheme) query path = Some u"
      by (auto simp: parse_nofrag_def split: if_splits option.splits prod.splits)
    have "is_ascii scheme" using scheme_from_ascii [of r "[]" r scheme rest] s(1) by (simp add: getScheme_def is_ascii_def)
    then have "is_ascii (map ascii_lower scheme)" by (auto simp: is_ascii_def ascii_lower_ascii)
    moreover have "url_Scheme u = map ascii_lower scheme"
      using s(2) by (auto simp: parse_rest_def Let_def split: if_splits option.splits)
    ultimately show ?thesis by simp
  qed
qed

definition ascii_reasons :: "findings \<Rightarrow> bool" where
  "ascii_reasons f \<longleftrightarrow> list_all (\<lambda>x. is_ascii (re_Code x) \<and> is_ascii (re_Message x)) (snd f)"

lemma ascii_reasons_add:
  "ascii_reasons f \<Longrightarrow> is_ascii code \<Longrightarrow> is_ascii msg \<Longrightarrow> ascii_reasons (add_reason s code msg f)"
  by (cases f) (simp add: ascii_reasons_def add_reason_def)

lemma ascii_reasons_if:
  "ascii_reasons f \<Longrightarrow> is_ascii code \<Longrightarrow> is_ascii msg \<Longrightarrow> ascii_reasons (add_if b s code msg f)"
  by (simp add: add_if_def ascii_reasons_add)

lemma ascii_codes:
  "is_ascii ReasonDisallowedScheme" "is_ascii ReasonUncommonScheme" "is_ascii ReasonMissingHost"
  "is_ascii ReasonEmbeddedCredentials" "is_ascii ReasonIPLiteralHost" "is_ascii ReasonPunycodeHost"
  "is_ascii ReasonLongHost" "is_ascii ReasonBlocklistedHost" "is_ascii ReasonURLShortener" "is_ascii ReasonUnparseableURL"
  by (simp_all add: reason_defs is_ascii_def byte_def)

lemma check_scheme_ascii: "is_ascii scheme \<Longrightarrow> ascii_reasons f \<Longrightarrow> ascii_reasons (check_scheme scheme f)"
  unfolding check_scheme_def
  by (auto intro!: ascii_reasons_add simp: ascii_codes) (auto simp: is_ascii_def byte_def)

lemma check_host_ascii: "ascii_reasons f \<Longrightarrow> ascii_reasons (check_host C usr host f)"
  unfolding check_host_def Let_def
  by (auto intro!: ascii_reasons_add ascii_reasons_if simp: ascii_codes) (simp_all add: is_ascii_def byte_def)

lemma Check_text:
  assumes "utf8_valid raw" shows "result_text (Check ul C raw)"
proof -
  have e: "ascii_reasons (sevSafe, [])" by (simp add: ascii_reasons_def)
  have "ascii_reasons (check_url ul C raw)"
  proof (cases "url_Parse (trim_space raw)")
    case None
    then show ?thesis
      using ascii_reasons_add [OF e ascii_codes(10)] by (simp add: check_url_def is_ascii_def byte_def)
  next
    case (Some u)
    have "is_ascii (to_lower ul (url_Scheme u))"
      using url_Scheme_ascii [OF Some] by (auto simp: to_lower_def is_ascii_def ascii_lower_ascii)
    then show ?thesis using Some e by (simp add: check_url_def Let_def check_scheme_ascii check_host_ascii)
  qed
  moreover obtain sev rs where "check_url ul C raw = (sev, rs)" by (rule prod.exhaust)
  moreover have "utf8_valid (verdictForSeverity sev)" for sev
    by (rule ascii_utf8) (simp add: verdictForSeverity_def VerdictSafe_def VerdictSuspicious_def VerdictMalicious_def
        is_ascii_def byte_def)
  ultimately show ?thesis
    using assms by (auto simp: Check_def result_text_def ascii_reasons_def list_all_iff intro: ascii_utf8)
qed

subsection \<open>The codes service\<close>

text \<open>\<open>leads_only B sl\<close>: every slug leads to a destination of \<open>B\<close>.\<close>

definition leads_only :: "(string \<Rightarrow> bool) \<Rightarrow> (string \<Rightarrow> (string \<times> uuid) option) \<Rightarrow> bool" where
  "leads_only B sl \<longleftrightarrow> (\<forall>s x i. sl s = Some (x, i) \<longrightarrow> B x)"

lemma leads_only_upd: "leads_only B sl \<Longrightarrow> B x \<Longrightarrow> leads_only B (sl(s \<mapsto> (x, i)))"
  by (auto simp: leads_only_def)

lemma leads_only_destination: "leads_only B sl \<Longrightarrow> B x \<Longrightarrow> leads_only B (set_slug_destination i x sl)"
  unfolding leads_only_def set_slug_destination_def by (auto split: option.splits if_splits)

lemma leads_only_drop: "leads_only B sl \<Longrightarrow> leads_only B (drop_slugs i sl)"
  unfolding leads_only_def drop_slugs_def by (auto split: option.splits if_splits)

text \<open>
  The parts of a service with a checker that lets only destinations of \<open>B\<close> pass, of those URLs that it
  may be asked for and while its own state satisfies \<open>J\<close>.
\<close>

locale checked_parts = codes_parts +
  fixes J :: "'a \<Rightarrow> bool" and U B :: "string \<Rightarrow> bool"
  assumes guard_passes: "inv w \<Longrightarrow> J w \<Longrightarrow> U dest \<Longrightarrow> guardDestination S dest w = (None, w') \<Longrightarrow> B dest"
    and getByID_keeps: "J w \<Longrightarrow> rp_GetByID (cs_repo S) u i w = (g, w') \<Longrightarrow> J w'"
begin

lemma Create_leads:
  assumes w: "inv w" "J w" "leads_only B (slugs w)"
    and U: "\<And>dest. extractURL (ci_Payload inp) = Some dest \<Longrightarrow> U dest"
    and run: "codes_Create S inp w = (r, w')"
  shows "leads_only B (slugs w')"
proof (cases "unchanged w w'")
  case True
  with w(3) show ?thesis by (simp add: unchanged_def)
next
  case False
  with Create_spec [OF w(1) run] obtain c where c: "added inp w c w'" by (auto split: sum.splits)
  show ?thesis
  proof (cases "ci_IsDynamic inp")
    case False
    with c w(3) show ?thesis by (simp add: added_def)
  next
    case True
    with c obtain dest slug where d: "ci_Type inp = TypeURL" "extractURL (ci_Payload inp) = Some dest"
      "\<exists>x. slugs w' = (slugs w)(slug \<mapsto> (dest, x))"
      unfolding added_def dynamic_added_def by auto
    obtain g w1 where g: "guardDestination S dest w = (g, w1)" by (rule prod.exhaust)
    have "g = None"
    proof (rule ccontr)
      assume "g \<noteq> None"
      then obtain e where "g = Some e" by blast
      with unsafe_not_created [OF True d(1,2)] g run have "w' = w1" by simp
      with guard [OF w(1) g] False show False by (simp add: unchanged_def)
    qed
    with guard_passes [OF w(1,2) U [OF d(2)]] g have "B dest" by blast
    with d(3) w(3) show ?thesis by (auto intro: leads_only_upd)
  qed
qed

lemma destination_part_leads:
  assumes w: "inv w" "J w" "leads_only B (slugs w)" and c: "codes w i = Some c" and U: "U dest"
    and run: "update_destination_part S c dest w = (x, w')"
  shows "leads_only B (slugs w')"
proof (cases "unchanged w w'")
  case True
  with w(3) show ?thesis by (simp add: unchanged_def)
next
  case False
  obtain g w1 where g: "guardDestination S dest w = (g, w1)" by (rule prod.exhaust)
  have "g = None"
  proof (rule ccontr)
    assume "g \<noteq> None"
    then have "w' = w \<or> w' = w1" using run g by (auto simp: update_destination_part_def split: option.splits)
    with guard [OF w(1) g] False show False by (auto simp: unchanged_def)
  qed
  with guard_passes [OF w(1,2) U] g have "B dest" by blast
  moreover have "slugs w' = set_slug_destination i dest (slugs w)"
    using destination_part [OF w(1) c run] False by (auto simp: redirected_def)
  ultimately show ?thesis using w(3) by (simp add: leads_only_destination)
qed

lemma Update_leads:
  assumes w: "inv w" "J w" "leads_only B (slugs w)"
    and U: "\<And>dest. ui_Destination inp = Some dest \<Longrightarrow> U dest"
    and run: "codes_Update S u i inp w = (r, w')"
  shows "leads_only B (slugs w')"
proof -
  obtain g w1 where g: "rp_GetByID (cs_repo S) u i w = (g, w1)" by (rule prod.exhaust)
  note read = getByID [OF w(1) g]
  then have w1: "inv w1" "J w1" "leads_only B (slugs w1)" using getByID_keeps [OF w(2) g] w(3) by simp_all
  show ?thesis
  proof (cases g)
    case (Inl e)
    with run g w1 show ?thesis by (simp add: codes_Update_steps)
  next
    case (Inr c)
    with read have c: "codes w1 i = Some c" by (auto simp: owned_def split: option.splits if_splits)
    obtain x w2 where x: "destination_step inp c w1 = (x, w2)" by (rule prod.exhaust)
    have w2: "inv w2" using destination_step_spec [OF w1(1) c x] by simp
    have l2: "leads_only B (slugs w2)"
    proof (cases "ui_Destination inp")
      case None
      with x w1 show ?thesis by (simp add: destination_step_def)
    next
      case (Some d)
      with x U destination_part_leads [OF w1 c] show ?thesis by (simp add: destination_step_def)
    qed
    obtain y w3 where y: "label_step u i inp w2 = (y, w3)" by (rule prod.exhaust)
    note lab = label_step_spec [OF w2 y]
    have s3: "slugs w3 = slugs w2"
      using lab by (cases y; cases "ui_Label inp") (auto simp: unchanged_def relabelled_def)
    have w3: "inv w3" using lab by simp
    obtain h w4 where h: "rp_GetByID (cs_repo S) u i w3 = (h, w4)" by (rule prod.exhaust)
    have "slugs w4 = slugs w3" using getByID [OF w3 h] by simp
    with run g Inr x y h l2 s3 show ?thesis
      by (cases x; cases y) (auto simp: codes_Update_steps)
  qed
qed

lemma Delete_leads:
  assumes w: "inv w" "leads_only B (slugs w)" and run: "codes_Delete S u i w = (x, w')"
  shows "leads_only B (slugs w')"
proof -
  from Delete_spec [OF w(1) run] have "slugs w' = slugs w \<or> slugs w' = drop_slugs i (slugs w)"
    by (cases x) (auto simp: unchanged_def)
  with w(2) show ?thesis by (auto intro: leads_only_drop)
qed

end

subsection \<open>The server\<close>

text \<open>A verdict of the checker, without cache.\<close>

definition malicious :: "'r env \<Rightarrow> string \<Rightarrow> bool" where
  "malicious V url \<longleftrightarrow> sr_Verdict (Check (ev_lower V) NewHeuristicChecker url) = VerdictMalicious"

text \<open>The URLs of \<open>X\<close> are those that the server may be asked about; their keys tell them apart.\<close>

locale safe_app = app V data clock bears cfg for V :: "'r env" and data clock bears cfg +
  fixes X :: "string set"
  assumes texts: "u \<in> X \<Longrightarrow> utf8_valid u"
    and apart: "inj_on safetyKey X"
begin

definition judged_well :: "'r world \<Rightarrow> bool" where
  "judged_well w \<longleftrightarrow> wv.sound (ss_checker (safety_svc V)) X w"

lemma checker_simp: "ss_checker (safety_svc V) = Check (ev_lower V) NewHeuristicChecker"
  by (simp add: safety_svc_def)

lemma judged_well_shrink: "judged_well w \<Longrightarrow> verdicts_of w' \<subseteq>\<^sub>m verdicts_of w \<Longrightarrow> judged_well w'"
  unfolding judged_well_def by (erule wv.sound_shrink) auto

lemma judged_well_redis: "judged_well w \<Longrightarrow> wd_redis w' = wd_redis w \<Longrightarrow> judged_well w'"
  by (erule judged_well_shrink) (simp add: verdicts_of_def)

lemma judged_well_db: "on_db act w = (r, w') \<Longrightarrow> judged_well w \<Longrightarrow> judged_well w'"
  using judged_well_redis [of w w'] by (auto simp: on_db_iff)

lemma check_judged:
  assumes "u \<in> X" "judged_well w" "safety_Check (safety_svc V) u w = (v, w')"
  shows "judged_well w' \<and> (\<exists>res. v = Inr res \<and> (sr_Verdict res = VerdictMalicious \<longleftrightarrow> malicious V u))"
proof -
  let ?c = "ss_checker (safety_svc V)"
  have t: "result_text (?c u)" unfolding checker_simp by (rule Check_text) (rule texts [OF assms(1)])
  note s = assms(2) [unfolded judged_well_def]
  have ins: "insert u X = X" using assms(1) by blast
  have "wv.sound ?c X w'" using wv.safety_Check_spec [OF HOL.refl t s assms(3)] ins by simp
  moreover have "inj_on safetyKey (insert u X)" using apart ins by simp
  from wv.safety_Check_verdict [OF HOL.refl t s this assms(3)]
  obtain res where "v = Inr res" "sr_Verdict res = sr_Verdict (?c u)" by blast
  ultimately show ?thesis by (auto simp: judged_well_def malicious_def checker_simp)
qed

lemma invalidate_judged:
  assumes "ca_Invalidate (target_cache (ev_redis V)) slug w = (x, w')" "judged_well w"
  shows "judged_well w'"
proof -
  obtain y s where y: "rd_Del (ev_redis V) (redirectKey slug) (wd_redis w) = (y, s)" by (rule prod.exhaust)
  with assms(1) have "wd_redis w' = s"
    by (auto simp: target_cache_def cache_Invalidate_def on_redis_iff split: option.splits)
  with judged_mono [OF del_readable(1) [OF y]] assms(2) show ?thesis
    by (auto intro: judged_well_shrink simp: verdicts_of_def)
qed

lemma service_steps:
  "codes_steps (codes_svc V) (\<lambda>w w'. judged_well w \<longrightarrow> judged_well w') (\<lambda>u. u \<in> X)"
proof
  have repo: "cs_repo (codes_svc V) = codes_repo (ev_pg V)" by (simp add: codes_svc_def)
  note db = repo codes_repo_ops
  fix w w' :: "'r world"
  show "judged_well w \<longrightarrow> judged_well w" by simp
  show "judged_well w \<longrightarrow> judged_well w''" if "judged_well w \<longrightarrow> judged_well w'" "judged_well w' \<longrightarrow> judged_well w''" for w''
    using that by blast
  show "ca_Invalidate (cs_cache (codes_svc V)) slug w = (x, w') \<Longrightarrow> judged_well w \<longrightarrow> judged_well w'" for slug x
    using invalidate_judged by (simp add: codes_svc_def)
  show "cs_checker (codes_svc V) = Some chk \<Longrightarrow> url \<in> X \<Longrightarrow> chk url w = (v, w') \<Longrightarrow> judged_well w \<longrightarrow> judged_well w'"
    for chk url v
    using check_judged by (auto simp: codes_svc_def)
  show "cs_newSlug (codes_svc V) w = (q, w') \<Longrightarrow> judged_well w \<longrightarrow> judged_well w'" for q
    by (auto simp: codes_svc_def new_slug_def intro: judged_well_redis)
qed (unfold codes_svc_def codes_service.select_convs codes_repo_ops, auto intro: judged_well_db)

end

sublocale safe_app \<subseteq> steps: codes_steps "codes_svc V" "\<lambda>w w'. judged_well w \<longrightarrow> judged_well w'" "\<lambda>u. u \<in> X"
  by (rule service_steps)

sublocale safe_app \<subseteq> checked: checked_parts "codes_svc V" entries sane held leads owns scanned
  "pg_jsonb (ev_pg V)" "pg_collate (ev_pg V)" judged_well "\<lambda>u. u \<in> X" "\<lambda>u. \<not> malicious V u"
proof unfold_locales
  fix w w' dest u i g
  have "cs_checker (codes_svc V) = Some (safety_Check (safety_svc V))" by (simp add: codes_svc_def)
  then show "judged_well w \<Longrightarrow> dest \<in> X \<Longrightarrow> guardDestination (codes_svc V) dest w = (None, w') \<Longrightarrow> \<not> malicious V dest"
    using check_judged [of dest w]
    by (auto simp: guardDestination_def split: prod.splits sum.splits if_splits)
  show "judged_well w \<Longrightarrow> rp_GetByID (cs_repo (codes_svc V)) u i w = (g, w') \<Longrightarrow> judged_well w'"
    using steps.get_by_id by blast
qed

subsection \<open>Calls\<close>

text \<open>The URLs that a call hands to the checker, and those in the body of a request.\<close>

fun call_urls :: "call \<Rightarrow> string set" where
  "call_urls (CreateCall inp) = set_option (extractURL (ci_Payload inp))"
| "call_urls (UpdateCall u i inp) = set_option (ui_Destination inp)"
| "call_urls (CheckCall url) = {url}"
| "call_urls _ = {}"

definition request_urls :: "request \<Rightarrow> string set" where
  "request_urls r =
     set_option (Option.bind (decode_create r) (\<lambda>q. extractURL (cq_Payload q))) \<union>
     set_option (Option.bind (decode_update r) pq_Destination) \<union> set_option (decode_check r)"

lemma asks_urls: "asks W who r c \<Longrightarrow> call_urls c \<subseteq> request_urls r"
proof (cases c)
  assume asks: "asks W who r c"
  case (CreateCall inp)
  with asks obtain q where "decode_create r = Some q" "inp = create_input_of (ci_UserID inp) q"
    by (auto simp: asks_def)
  moreover from this(2) have "ci_Payload inp = cq_Payload q" by (metis create_input.select_convs(3) create_input_of_def)
  ultimately show ?thesis using CreateCall by (auto simp: request_urls_def)
qed (auto simp: asks_def request_urls_def bind_eq_Some_conv)

context safe_app
begin

lemma other_leads:
  assumes w: "sane w" and c: "\<forall>inp u i upd. c \<noteq> CreateCall inp \<and> c \<noteq> UpdateCall u i upd \<and> c \<noteq> DeleteCall u i"
  shows "leads (perform V cfg c w) = leads w"
proof -
  have main: "main_tables (wd_db w') = main_tables (wd_db w) \<Longrightarrow> leads w' = leads w" for w'
    using main_tables_views [of "wd_db w'" "wd_db w"] by (simp add: same_codes_def leads_def)
  have blind: "auth_blind w' = auth_blind w \<Longrightarrow> leads w' = leads w" for w'
    using code_tables_views [of "wd_db w'" "wd_db w"] by (simp add: auth_blind_def same_codes_def leads_def)
  show ?thesis
  proof (cases c)
    case PingCall
    obtain x w1 where x: "on_db (ping_db (ev_pg V)) w = (x, w1)" by (rule prod.exhaust)
    have "main_tables (wd_db w1) = main_tables (wd_db w)"
      using codes_repo_reads(7) [OF table_frames(3), of "ev_pg V" "wd_db w"] x by (auto simp: on_db_iff)
    with x PingCall show ?thesis by (intro main) (simp add: on_redis_def split: prod.split)
  next
    case (ResolveCall slug h ua)
    obtain r w1 where "Resolve (redirect_svc V) slug w = (r, w1)" by (rule prod.exhaust)
    with Resolve_world [OF table_frames(3) this] ResolveCall show ?thesis
      by (intro main) (cases r, simp_all add: start_scan_def)
  next
    case GuestCall
    then show ?thesis by (auto intro!: blind CreateGuest_blind prod.collapse [symmetric])
  next
    case (UpgradeCall u em pw)
    then show ?thesis by (auto intro!: blind Upgrade_blind prod.collapse [symmetric])
  next
    case (GetCall u i)
    then show ?thesis using codes.Get_spec [of w u i] w by (simp add: prod_eq_iff codes.unchanged_def)
  next
    case (ListCall u tok limit)
    then show ?thesis using codes.List_spec [of w u tok limit] w by (simp add: prod_eq_iff codes.unchanged_def)
  next
    case (AnalyticsCall u i)
    then show ?thesis using codes.Analytics_spec [of w u i] w by (simp add: prod_eq_iff codes.unchanged_def)
  next
    case (CheckCall url)
    then show ?thesis using checker_entries [of url w] by (simp add: prod_eq_iff leads_def)
  qed (use c in auto)
qed

lemma judged_well_readable:
  assumes "judged_well w" "\<And>u v. readable (wd_redis w') (safetyKey u) = Some v \<Longrightarrow> readable (wd_redis w) (safetyKey u) = Some v"
  shows "judged_well w'"
  by (rule judged_well_shrink [OF assms(1)], rule map_leI)
    (auto simp: verdicts_of_def judged_def bind_eq_Some_conv dest!: assms(2))

lemma lookup_judged:
  assumes "judged_well w" "ca_Lookup (target_cache (ev_redis V)) slug w = (l, w')"
  shows "judged_well w'"
proof -
  obtain g s where g: "rd_Get (ev_redis V) (redirectKey slug) (wd_redis w) = (g, s)" by (rule prod.exhaust)
  with assms(2) have "wd_redis w' = s"
    by (auto simp: target_cache_def cache_Lookup_def on_redis_iff split: sum.splits option.splits)
  with judged_mono [OF get_readable(1) [OF g]] assms(1) show ?thesis
    by (auto intro: judged_well_shrink simp: verdicts_of_def)
qed

lemma store_judged:
  assumes "judged_well w" "ca_Store (target_cache (ev_redis V)) slug t w = (x, w')"
  shows "judged_well w'"
proof (cases "json_encode (target_json t)")
  case None
  with assms(2) show ?thesis
    by (auto simp: target_cache_def cache_Store_def on_redis_iff intro: judged_well_redis [OF assms(1)])
next
  case (Some b)
  obtain y s where y: "rd_Set (ev_redis V) (redirectKey slug) b redirectTTL (wd_redis w) = (y, s)" by (rule prod.exhaust)
  with assms(2) Some have s: "wd_redis w' = s"
    by (auto simp: target_cache_def cache_Store_def on_redis_iff split: option.splits)
  have "readable s (safetyKey u) = Some v \<Longrightarrow> readable (wd_redis w) (safetyKey u) = Some v" for u v
    using set_other [OF y redirectTTL_pos] safety_key_other by metis
  with s show ?thesis by (intro judged_well_readable [OF assms(1)]) simp
qed

lemma resolve_judged:
  assumes "judged_well w" "Resolve (redirect_svc V) slug w = (r, w')"
  shows "judged_well w'"
proof -
  obtain l w1 where l: "ca_Lookup (target_cache (ev_redis V)) slug w = (l, w1)" by (rule prod.exhaust)
  obtain q w2 where q: "on_db (repo_ResolveSlug (ev_pg V) slug) w1 = (q, w2)" by (rule prod.exhaust)
  have w: "judged_well w1" "judged_well w2"
    using lookup_judged [OF assms(1) l] judged_well_db [OF q] by blast+
  have "judged_well (snd (ca_Store (target_cache (ev_redis V)) slug t w2))" for t
    using store_judged [OF w(2)] by (metis prod.collapse)
  with assms(2) l q w show ?thesis
    by (auto simp: Resolve_def redirect_svc_def slug_repo_def split: sum.splits option.splits)
qed

lemma other_judged:
  assumes w: "judged_well w" and c: "case c of PingCall \<Rightarrow> True | ResolveCall s h a \<Rightarrow> True | GuestCall \<Rightarrow> True
      | UpgradeCall u em pw \<Rightarrow> True | _ \<Rightarrow> False"
  shows "judged_well (perform V cfg c w)"
proof -
  have blind: "auth_blind w' = auth_blind w \<Longrightarrow> judged_well w'" for w'
    using judged_well_redis [OF w] by (simp add: auth_blind_def)
  show ?thesis
  proof (cases c)
    case PingCall
    obtain x w1 where x: "on_db (ping_db (ev_pg V)) w = (x, w1)" by (rule prod.exhaust)
    obtain y s where y: "rd_Ping (ev_redis V) (wd_redis w1) = (y, s)" by (rule prod.exhaust)
    have "judged_well w1" using judged_well_db [OF x w] .
    with judged_mono [OF ping_readable [OF y]] PingCall x y show ?thesis
      by (auto simp: on_redis_def verdicts_of_def intro: judged_well_shrink)
  next
    case (ResolveCall slug h ua)
    obtain r w1 where r: "Resolve (redirect_svc V) slug w = (r, w1)" by (rule prod.exhaust)
    have "judged_well (start_scan slug h ua w1)"
      by (rule judged_well_redis [OF resolve_judged [OF w r]]) (simp add: start_scan_def)
    with ResolveCall r resolve_judged [OF w r] show ?thesis by (cases r) simp_all
  next
    case GuestCall
    then show ?thesis by (auto intro!: blind CreateGuest_blind prod.collapse [symmetric])
  next
    case (UpgradeCall u em pw)
    then show ?thesis by (auto intro!: blind Upgrade_blind prod.collapse [symmetric])
  qed (use c in auto)
qed

lemma perform_judged:
  assumes w: "judged_well w" and X: "call_urls c \<subseteq> X"
  shows "judged_well (perform V cfg c w)"
proof (cases c)
  case (CreateCall inp)
  with X have "extractURL (ci_Payload inp) = Some dest \<Longrightarrow> dest \<in> X" for dest by auto
  then show ?thesis using steps.Create_steps [of inp w] w CreateCall by (simp add: prod_eq_iff)
next
  case (UpdateCall u i inp)
  with X have "ui_Destination inp = Some dest \<Longrightarrow> dest \<in> X" for dest by auto
  then show ?thesis using steps.Update_steps [of inp u i w] w UpdateCall by (simp add: prod_eq_iff)
next
  case (GetCall u i)
  then show ?thesis using steps.Get_steps [of u i w] w by (simp add: prod_eq_iff)
next
  case (ListCall u tok limit)
  then show ?thesis using steps.List_steps [of u tok limit w] w by (simp add: prod_eq_iff)
next
  case (DeleteCall u i)
  then show ?thesis using steps.Delete_steps [of u i w] w by (simp add: prod_eq_iff)
next
  case (AnalyticsCall u i)
  then show ?thesis using steps.Analytics_steps [of u i w] w by (simp add: prod_eq_iff)
next
  case (CheckCall url)
  with X check_judged [of url w] w show ?thesis by (simp add: prod_eq_iff)
qed (use w other_judged [of w c] in auto)

lemma counted_judged: "judged_well w \<Longrightarrow> judged_well (counted V cfg k w)"
proof (cases rule: counted_key [of V cfg k w])
  case (2 key r s)
  have L: "li_rdb (redis_limiter V cfg) = ev_redis V" "0 < li_window (redis_limiter V cfg)"
    by (simp_all add: redis_limiter_def minute_def second_def)
  have "readable s (safetyKey u) = Some v \<Longrightarrow> readable (wd_redis w) (safetyKey u) = Some v" for u v
    by (rule limiter_other [OF 2(1) L]) (metis rate_key_other(2))
  then have "judged_well w \<Longrightarrow> judged_well (w\<lparr>wd_redis := s\<rparr>)"
    using judged_well_readable [of w "w\<lparr>wd_redis := s\<rparr>"] by simp
  then show "judged_well w \<Longrightarrow> ?thesis" unfolding 2(2) .
qed simp

end

subsection \<open>Runs\<close>

context safe_app
begin

definition safe :: "'r world \<Rightarrow> bool" where
  "safe w \<longleftrightarrow> sane w \<and> judged_well w \<and> leads_only (\<lambda>x. \<not> malicious V x) (leads w)"

lemma perform_leads:
  assumes w: "safe w" and X: "call_urls c \<subseteq> X"
  shows "leads_only (\<lambda>x. \<not> malicious V x) (leads (perform V cfg c w))"
proof -
  have w': "sane w" "judged_well w" "leads_only (\<lambda>x. \<not> malicious V x) (leads w)" using w by (simp_all add: safe_def)
  show ?thesis
  proof (cases c)
    case (CreateCall inp)
    with X have "extractURL (ci_Payload inp) = Some dest \<Longrightarrow> dest \<in> X" for dest by auto
    then show ?thesis using checked.Create_leads [OF w', of inp] CreateCall by (simp add: prod_eq_iff)
  next
    case (UpdateCall u i inp)
    with X have "ui_Destination inp = Some dest \<Longrightarrow> dest \<in> X" for dest by auto
    then show ?thesis using checked.Update_leads [OF w', of inp u i] UpdateCall by (simp add: prod_eq_iff)
  next
    case (DeleteCall u i)
    then show ?thesis using checked.Delete_leads [OF w'(1,3), of u i] by (simp add: prod_eq_iff)
  qed (use w' other_leads [OF w'(1), of c] in auto)
qed

lemma perform_safe: "safe w \<Longrightarrow> call_urls c \<subseteq> X \<Longrightarrow> safe (perform V cfg c w)"
  using perform_sane [of w c] perform_judged [of w c] perform_leads [of w c] by (simp add: safe_def)

lemma step_safe:
  assumes chi: "chi_laws (ev_chi V)" and w: "safe w" and step: "system_step V cfg w e w'"
    and X: "\<And>r. e = Request r \<Longrightarrow> request_urls r \<subseteq> X"
  shows "safe w'"
proof (cases e)
  case (Request r)
  with step obtain x W where run: "sv_Handler (build_server V cfg) r (new_rw, w) = (x, W, w')"
    by (auto elim: requestE)
  obtain c k ls where c: "asks V (token_user V cfg r w) r c"
    "w' = (perform V cfg c (counted V cfg k w))\<lparr>wd_log := ls\<rparr>"
    using Server_refines [OF chi run] by blast
  have "call_urls c \<subseteq> X" using asks_urls [OF c(1)] X [OF Request] by blast
  moreover have "safe (counted V cfg k w)"
    using w counted_judged by (simp add: safe_def sane_def leads_def)
  ultimately have "safe (perform V cfg c (counted V cfg k w))" by (intro perform_safe)
  with c(2) judged_well_redis [of "perform V cfg c (counted V cfg k w)" w']
  show ?thesis by (simp add: safe_def sane_def leads_def)
next
  case Job
  with step obtain js j js' where j: "wd_jobs w = js @ j # js'" "w' = run_job V j (w\<lparr>wd_jobs := js @ js'\<rparr>)"
    by (auto elim: jobE)
  have "sane w'" using step_confined [OF chi _ step] w by (simp add: safe_def)
  with run_job_world [of V j "w\<lparr>wd_jobs := js @ js'\<rparr>"] main_tables_views [of "wd_db w'" "wd_db w"]
    judged_well_redis [of w w'] j w
  show ?thesis by (simp add: safe_def leads_def same_codes_def)
next
  case (Tick t)
  with step w judged_well_redis [of w w'] show ?thesis by (auto elim!: tickE simp: safe_def sane_def leads_def)
qed

lemma run_safe:
  assumes "chi_laws (ev_chi V)" "system_run V cfg w es w'" "safe w"
    and "\<And>r a. (Request r, a) \<in> set es \<Longrightarrow> request_urls r \<subseteq> X"
  shows "safe w'"
proof (rule run_invariant [where I = safe and P = "\<lambda>e _. \<forall>r. e = Request r \<longrightarrow> request_urls r \<subseteq> X", OF _ assms(2,3)])
  fix v e v' assume "system_step V cfg v e v'" "safe v" "\<forall>r. e = Request r \<longrightarrow> request_urls r \<subseteq> X"
  with step_safe [OF assms(1)] show "safe v'" by blast
next
  show "\<forall>x \<in> set es. \<forall>r. fst x = Request r \<longrightarrow> request_urls r \<subseteq> X"
    using assms(4) by (metis prod.collapse)
qed

end

text \<open>Every verdict that a client can read from Redis now is the one of the checker for a URL of \<open>X\<close>.\<close>

definition verdicts_current :: "'r env \<Rightarrow> ('r \<Rightarrow> kv) \<Rightarrow> ('r \<Rightarrow> instant) \<Rightarrow> string set \<Rightarrow> 'r world \<Rightarrow> bool" where
  "verdicts_current V data clock X w \<longleftrightarrow>
     (\<forall>u v r. live (clock (wd_redis w)) (data (wd_redis w)) (safetyKey u) = Some v \<longrightarrow> result_of_json v = Some r \<longrightarrow>
        (\<exists>x \<in> X. safetyKey x = safetyKey u \<and> r = Check (ev_lower V) NewHeuristicChecker x))"

context safe_app
begin

lemma verdicts_judged: "verdicts_current V data clock X w \<longleftrightarrow> judged_well w"
  by (auto simp: verdicts_current_def judged_well_def wv.sound_def verdicts_of_def judged_def readable_def
      bind_eq_Some_conv checker_simp)

end

text \<open>
  C4. No slug ever leads to a destination that the checker calls malicious: whatever the requests of a
  run, and whatever fails, the destinations in the tables stay harmless if they were, although nearly all
  verdicts come from the cache. The URLs of the requests are told apart by their SHA-256 keys.
\<close>

theorem Run_safe:
  assumes "backend V data clock bears" and "chi_laws (ev_chi V)" and "db_ok (ev_pg V) (wd_db w)"
    and "verdicts_current V data clock X w" and "leads_only (\<lambda>x. \<not> malicious V x) (slug_view (wd_db w))"
    and "\<And>u. u \<in> X \<Longrightarrow> utf8_valid u" and "inj_on safetyKey X"
    and "system_run V cfg w es w'" and "\<And>r a. (Request r, a) \<in> set es \<Longrightarrow> request_urls r \<subseteq> X"
  shows "verdicts_current V data clock X w' \<and> leads_only (\<lambda>x. \<not> malicious V x) (slug_view (wd_db w'))"
proof -
  have app: "safe_app V data clock bears X"
    by (intro safe_app.intro app.intro safe_app_axioms.intro assms(1,6,7))
  note views = safe_app.safe_def [OF app] backend.sane_def [OF assms(1)] backend.leads_def [OF assms(1)]
    safe_app.verdicts_judged [OF app, symmetric]
  have "safe_app.safe V data clock X w" using assms(3-5) by (simp add: views)
  from safe_app.run_safe [OF app assms(2,8) this assms(9)] show ?thesis by (simp add: views)
qed

subsection \<open>Example\<close>

definition sample_check :: request where
  "sample_check = (sample_request ''POST'' ''/api/v1/scan/check'')\<lparr>rq_Body := ''{\"url\":\"http://1.2.3.4\"}''\<rparr>"

lemma sample_check_urls: "request_urls sample_check = {''http://1.2.3.4''}"
proof -
  have "decode_check sample_check = Some ''http://1.2.3.4''" by code_simp
  moreover have "Option.bind (decode_create sample_check) (\<lambda>q. extractURL (cq_Payload q)) = None" by code_simp
  moreover have "Option.bind (decode_update sample_check) pq_Destination = None" by code_simp
  ultimately show ?thesis unfolding request_urls_def by (simp del: set_bind_option)
qed

lemma sample_url_text: "utf8_valid ''http://1.2.3.4''"
  by code_simp

interpretation sample_safe: safe_app sample_backend mem_data mem_clock open_bears sample_config "{''http://1.2.3.4''}"
  by (intro safe_app.intro app.intro safe_app_axioms.intro sample_backend_ok) (simp_all add: sample_url_text)

lemma sample_run_check:
  "\<exists>w'. system_run sample_backend sample_config sample_world [(Request sample_check, None)] w'"
proof -
  obtain e W w' where run: "sv_Handler (build_server sample_backend sample_config) sample_check (new_rw, sample_world) = (e, W, w')"
    by (rule prod_cases3)
  have "token_user sample_backend sample_config sample_check sample_world = None"
    by (simp add: token_user_def bearer_def sample_check_def sample_request_def header_Get_def cut_def)
  then have "system_run sample_backend sample_config sample_world [(Request sample_check, None)] w'"
    using system_step.request [OF run] by (auto simp: system_run_Cons)
  then show ?thesis by blast
qed

lemma sample_harmless: "leads_only (\<lambda>x. \<not> malicious sample_backend x) (slug_view sample_db)"
proof -
  have "x = ''https://a.b''" if "slug_view sample_db s = Some (x, i)" for s x i
    using that by (auto simp: slug_view_def sample_defs lookup_Cons split: if_splits)
  moreover have "sr_Verdict (Check (\<lambda>s. s) NewHeuristicChecker ''https://a.b'') = VerdictSafe" by code_simp
  then have "\<not> malicious sample_backend ''https://a.b''"
    by (simp add: malicious_def VerdictSafe_def VerdictMalicious_def)
  ultimately show ?thesis unfolding leads_only_def by metis
qed

theorem Run_safe_witness:
  "\<exists>w'. system_run sample_backend sample_config sample_world [(Request sample_check, None)] w' \<and>
    verdicts_current sample_backend mem_data mem_clock {''http://1.2.3.4''} w' \<and>
    leads_only (\<lambda>x. \<not> malicious sample_backend x) (slug_view (wd_db w'))"
proof -
  obtain w' where run: "system_run sample_backend sample_config sample_world [(Request sample_check, None)] w'"
    using sample_run_check by blast
  have "verdicts_current sample_backend mem_data mem_clock {''http://1.2.3.4''} sample_world"
    by (simp add: verdicts_current_def)
  then show ?thesis
    using Run_safe [OF sample_backend_ok sample_chi_laws _ _ _ _ _ run, of "{''http://1.2.3.4''}"] run
      sample_db_ok sample_harmless sample_check_urls sample_url_text by auto
qed

end
