(* ===== verification/Actions.thy ===== *)
theory Actions
  imports Traffic SafeDestinations
begin

text \<open>
  What the programs of the calls keep: an invariant of the world that each of their actions keeps, with what
  the program knows when it comes to that action (locale \<open>steady_actions\<close>).
\<close>

text \<open>The calls that are one action.\<close>

fun single_call :: "call \<Rightarrow> bool" where
  "single_call (ResolveCall s h a) = False"
| "single_call (CreateCall inp) = False"
| "single_call (UpdateCall u i inp) = False"
| "single_call (DeleteCall u i) = False"
| "single_call (CheckCall url) = False"
| "single_call _ = True"

text \<open>
  \<open>I\<close> is the invariant. The calls are those of users in \<open>M\<close> about URLs in \<open>U\<close>. A URL that the checker lets
  pass is in \<open>B\<close>, a code that was found for its user is in \<open>H\<close>, what the tables say of a slug is in \<open>T\<close>, and
  all destinations that visitors get are in \<open>D\<close>.
\<close>

locale steady_actions =
  fixes V :: "'r env" and cfg :: config and I :: "'r world \<Rightarrow> bool" and U B D :: "string \<Rightarrow> bool"
    and T :: "string \<Rightarrow> string \<times> uuid \<Rightarrow> bool" and H :: "code \<Rightarrow> bool" and M :: "uuid \<Rightarrow> bool"
  assumes verdict_get: "I w \<Longrightarrow> U url \<Longrightarrow> sc_Get (ss_cache (safety_svc V)) url w = (r, w') \<Longrightarrow>
      I w' \<and> (\<forall>x. r = Inr (Some x) \<longrightarrow> sr_Verdict x \<noteq> VerdictMalicious \<longrightarrow> B url)"
    and verdict_set: "I w \<Longrightarrow> U url \<Longrightarrow>
      sc_Set (ss_cache (safety_svc V)) url (ss_checker (safety_svc V) url) w = (e, w') \<Longrightarrow> I w'"
    and verdict: "U url \<Longrightarrow> sr_Verdict (ss_checker (safety_svc V) url) \<noteq> VerdictMalicious \<Longrightarrow> B url"
    and target_get: "I w \<Longrightarrow> ca_Lookup (target_cache (ev_redis V)) slug w = (l, w') \<Longrightarrow>
      I w' \<and> (\<forall>t. l = Inr (Some t) \<longrightarrow> D (ct_Destination t))"
    and slug_read: "I w \<Longrightarrow> on_db (repo_ResolveSlug (ev_pg V) slug) w = (y, w') \<Longrightarrow>
      I w' \<and> (\<forall>x. y = Inr x \<longrightarrow> T slug x \<and> D (fst x))"
    and target_set: "I w \<Longrightarrow> T slug x \<Longrightarrow>
      ca_Store (target_cache (ev_redis V)) slug (target_for (ev_uuid V) x) w = (e, w') \<Longrightarrow> I w'"
    and target_del: "I w \<Longrightarrow> ca_Invalidate (target_cache (ev_redis V)) slug w = (e, w') \<Longrightarrow> I w'"
    and scan: "I w \<Longrightarrow> I (start_scan slug ipHash agent w)"
    and slug_draw: "I w \<Longrightarrow> new_slug V w = (q, w') \<Longrightarrow> I w'"
    and static: "I w \<Longrightarrow> M (code_UserID c) \<Longrightarrow> \<not> code_IsDynamic c \<Longrightarrow> code_Dynamic c = None \<Longrightarrow>
      rp_Create (codes_repo (ev_pg V)) c w = (z, w') \<Longrightarrow> I w'"
    and dynamic: "I w \<Longrightarrow> M (code_UserID c) \<Longrightarrow> code_Type c = TypeURL \<Longrightarrow> B dest \<Longrightarrow>
      rp_CreateDynamic (codes_repo (ev_pg V)) c slug dest w = ((e, c1), w') \<Longrightarrow> I w' \<and> same_input c c1"
    and found: "I w \<Longrightarrow> M u \<Longrightarrow> rp_GetByID (codes_repo (ev_pg V)) u i w = (g, w') \<Longrightarrow>
      I w' \<and> (\<forall>c. g = Inr c \<longrightarrow> H c)"
    and redirect: "I w \<Longrightarrow> H c \<Longrightarrow> B dest \<Longrightarrow>
      rp_UpdateDestination (codes_repo (ev_pg V)) (code_ID c) dest w = (e, w') \<Longrightarrow> I w'"
    and relabel: "I w \<Longrightarrow> M u \<Longrightarrow> rp_UpdateLabel (codes_repo (ev_pg V)) u i label w = (e, w') \<Longrightarrow> I w'"
    and remove: "I w \<Longrightarrow> M u \<Longrightarrow> rp_Delete (codes_repo (ev_pg V)) u i w = (e, w') \<Longrightarrow> I w'"
    and single: "I w \<Longrightarrow> single_call a \<Longrightarrow> (\<And>u. caller a = Some u \<Longrightarrow> M u) \<Longrightarrow> I (perform V cfg a w)"
begin

lemma parts:
  "cs_repo (codes_svc V) = codes_repo (ev_pg V)" "cs_cache (codes_svc V) = target_cache (ev_redis V)"
  "cs_newSlug (codes_svc V) = new_slug V" "cs_checker (codes_svc V) = Some (safety_Check (safety_svc V))"
  "rs_cache (redirect_svc V) = target_cache (ev_redis V)" "rs_uuid (redirect_svc V) = ev_uuid V"
  "sr_ResolveSlug (rs_repo (redirect_svc V)) slug = on_db (repo_ResolveSlug (ev_pg V) slug)"
  by (simp_all add: codes_svc_def redirect_svc_def slug_repo_def)

lemma check_keeps:
  assumes "U url" "\<And>x. (sr_Verdict x \<noteq> VerdictMalicious \<Longrightarrow> B url) \<Longrightarrow> prog_keeps I Q (k (Inr x))"
  shows "prog_keeps I Q (check_prog (safety_svc V) url k)"
  unfolding check_prog_def
proof (rule prog_keeps_atom)
  fix w r w' assume w: "I w" and run: "sc_Get (ss_cache (safety_svc V)) url w = (r, w')"
  note get = verdict_get [OF w assms(1) run]
  have ask: "prog_keeps I Q (atom (sc_Set (ss_cache (safety_svc V)) url (ss_checker (safety_svc V) url))
      (\<lambda>_. k (Inr (ss_checker (safety_svc V) url))))"
    using verdict [OF assms(1)] by (intro prog_keeps_atom conjI assms(2)) (auto intro: verdict_set [OF _ assms(1)])
  show "I w' \<and> prog_keeps I Q (case r of Inr (Some x) \<Rightarrow> k (Inr (x\<lparr>sr_Cached := True\<rparr>))
      | _ \<Rightarrow> atom (sc_Set (ss_cache (safety_svc V)) url (ss_checker (safety_svc V) url))
          (\<lambda>_. k (Inr (ss_checker (safety_svc V) url))))"
    using get ask by (auto split: sum.split option.split intro!: assms(2))
qed

lemma guard_keeps:
  assumes "U url" "\<And>e. prog_keeps I Q (k (Some e))" "B url \<Longrightarrow> prog_keeps I Q (k None)"
  shows "prog_keeps I Q (guard_prog (codes_svc V) (safety_svc V) url k)"
  using assms by (auto simp: guard_prog_def parts intro!: check_keeps)

lemma resolve_keeps:
  assumes "\<And>e. prog_keeps I Q (k (Inl e))" "\<And>dest. D dest \<Longrightarrow> prog_keeps I Q (k (Inr dest))"
  shows "prog_keeps I Q (resolve_prog (redirect_svc V) slug k)"
  unfolding resolve_prog_def parts
proof (rule prog_keeps_atom)
  have store: "prog_keeps I Q (atom (ca_Store (target_cache (ev_redis V)) slug (target_for (ev_uuid V) x)) (\<lambda>_. k (Inr (fst x))))"
    if "T slug x" "D (fst x)" for x
    using that assms(2) by (intro prog_keeps_atom conjI) (auto intro: target_set)
  have read: "prog_keeps I Q (atom (on_db (repo_ResolveSlug (ev_pg V) slug)) (\<lambda>r. case r of
      Inl e \<Rightarrow> k (Inl e)
    | Inr x \<Rightarrow> atom (ca_Store (target_cache (ev_redis V)) slug (target_for (ev_uuid V) x)) (\<lambda>_. k (Inr (fst x)))))"
    using slug_read store assms(1) by (intro prog_keeps_atom) (auto split: sum.split)
  fix w l w' assume "I w" "ca_Lookup (target_cache (ev_redis V)) slug w = (l, w')"
  from target_get [OF this] read assms(2) show "I w' \<and> prog_keeps I Q (case l of
      Inr (Some t) \<Rightarrow> k (Inr (ct_Destination t))
    | _ \<Rightarrow> atom (on_db (repo_ResolveSlug (ev_pg V) slug)) (\<lambda>r. case r of
        Inl e \<Rightarrow> k (Inl e)
      | Inr x \<Rightarrow> atom (ca_Store (target_cache (ev_redis V)) slug (target_for (ev_uuid V) x)) (\<lambda>_. k (Inr (fst x)))))"
    by (auto split: sum.split option.split)
qed

lemma attempts_keeps:
  assumes "B dest" "\<And>r. prog_keeps I Q (k r)"
  shows "M (code_UserID c) \<Longrightarrow> code_Type c = TypeURL \<Longrightarrow> prog_keeps I Q (attempts_prog (codes_svc V) n c dest k)"
proof (induction n arbitrary: c)
  case 0
  then show ?case using assms(2) by simp
next
  case (Suc n)
  have insert: "prog_keeps I Q (atom (rp_CreateDynamic (codes_repo (ev_pg V)) c slug dest) (\<lambda>(eo, c1). case eo of
      None \<Rightarrow> k (Inr c1)
    | Some e \<Rightarrow> if errors_is e ErrSlugTaken then attempts_prog (codes_svc V) n c1 dest k
        else k (Inl (Wrap ''creating dynamic code'' e))))" for slug
    using dynamic [OF _ Suc.prems assms(1)] Suc.IH Suc.prems assms(2)
    by (intro prog_keeps_atom) (auto simp: same_input_def split: option.split)
  show ?case
    unfolding attempts_prog.simps parts
    using insert slug_draw assms(2) by (intro prog_keeps_atom) (auto split: sum.split)
qed

lemma create_keeps:
  assumes "M (ci_UserID inp)" "\<And>dest. extractURL (ci_Payload inp) = Some dest \<Longrightarrow> U dest" "\<And>r. prog_keeps I Q (k r)"
  shows "prog_keeps I Q (create_prog (codes_svc V) (safety_svc V) inp k)"
proof -
  have plain: "prog_keeps I Q (atom (rp_Create (codes_repo (ev_pg V)) (new_code inp)) (\<lambda>r. k (map_sum (Wrap ''creating static code'') id r)))"
    if "\<not> ci_IsDynamic inp"
  proof -
    have "\<not> code_IsDynamic (new_code inp)" "code_Dynamic (new_code inp) = None" using that by (simp_all add: new_code_def)
    from static [OF _ _ this] assms(1,3) show ?thesis by (intro prog_keeps_atom) (auto simp: new_code_def)
  qed
  have "prog_keeps I Q (guard_prog (codes_svc V) (safety_svc V) dest (\<lambda>g. case g of
      Some e \<Rightarrow> k (Inl e)
    | None \<Rightarrow> attempts_prog (codes_svc V) maxSlugAttempts (new_code inp) dest k))"
    if "ci_Type inp = TypeURL" "extractURL (ci_Payload inp) = Some dest" for dest
    using assms that by (intro guard_keeps) (auto simp: new_code_def intro!: attempts_keeps)
  with plain assms(3) show ?thesis by (auto simp: create_prog_def parts split: option.split)
qed

lemma destination_keeps:
  assumes "U dest" "H c" "\<And>x. prog_keeps I Q (k x)"
  shows "prog_keeps I Q (destination_prog (codes_svc V) (safety_svc V) c dest k)"
proof -
  have del: "prog_keeps I Q (atom (ca_Invalidate (target_cache (ev_redis V)) s) (\<lambda>_. k None))" for s
    using assms(3) by (intro prog_keeps_atom) (auto intro: target_del)
  have "prog_keeps I Q (atom (rp_UpdateDestination (codes_repo (ev_pg V)) (code_ID c) dest) (\<lambda>x. case x of
      Some e \<Rightarrow> k (Some (Wrap ''updating destination'' e))
    | None \<Rightarrow> atom (ca_Invalidate (target_cache (ev_redis V)) s) (\<lambda>_. k None)))" if "B dest" for s
    using redirect [OF _ assms(2) that] del assms(3) by (intro prog_keeps_atom) (auto split: option.split)
  with assms(1,3) show ?thesis
    by (auto simp: destination_prog_def parts split: option.split intro!: guard_keeps)
qed

lemma label_keeps:
  assumes "M u" "\<And>x. prog_keeps I Q (k x)"
  shows "prog_keeps I Q (label_prog (codes_svc V) u i label k)"
proof -
  have "prog_keeps I Q (atom (rp_UpdateLabel (codes_repo (ev_pg V)) u i (Some l)) (\<lambda>x. k (map_option (Wrap ''updating label'') x)))" for l
    using relabel [OF _ assms(1)] assms(2) by (intro prog_keeps_atom) auto
  with assms(2) show ?thesis by (auto simp: label_prog_def parts split: option.split)
qed

lemma update_keeps:
  assumes "M u" "\<And>dest. ui_Destination inp = Some dest \<Longrightarrow> U dest" "\<And>r. prog_keeps I Q (k r)"
  shows "prog_keeps I Q (update_prog (codes_svc V) (safety_svc V) u i inp k)"
proof -
  have reread: "prog_keeps I Q (atom (rp_GetByID (codes_repo (ev_pg V)) u i) k)"
    using found [OF _ assms(1)] assms(3) by (intro prog_keeps_atom) auto
  let ?rest = "\<lambda>x. case x of
      Some e \<Rightarrow> k (Inl e)
    | None \<Rightarrow> label_prog (codes_svc V) u i (ui_Label inp) (\<lambda>y. case y of
        Some e \<Rightarrow> k (Inl e)
      | None \<Rightarrow> atom (rp_GetByID (codes_repo (ev_pg V)) u i) k)"
  have rest: "prog_keeps I Q (?rest x)" for x
    using reread assms(3) by (cases x) (auto intro!: label_keeps [OF assms(1)] split: option.split)
  have "prog_keeps I Q (case ui_Destination inp of None \<Rightarrow> ?rest None
      | Some dest \<Rightarrow> destination_prog (codes_svc V) (safety_svc V) c dest ?rest)" if "H c" for c
  proof (cases "ui_Destination inp")
    case None
    then show ?thesis using rest [of None] by simp
  next
    case (Some dest)
    then show ?thesis using destination_keeps [OF assms(2) that rest] by simp
  qed
  then show ?thesis
    unfolding update_prog_def parts Let_def
    using found [OF _ assms(1)] assms(3) by (intro prog_keeps_atom) (auto split: sum.split)
qed

lemma delete_keeps:
  assumes "M u" "\<And>x. prog_keeps I Q (k x)"
  shows "prog_keeps I Q (delete_prog (codes_svc V) u i k)"
proof -
  have del: "prog_keeps I Q (atom (ca_Invalidate (target_cache (ev_redis V)) s) (\<lambda>_. k None))" for s
    using assms(2) by (intro prog_keeps_atom) (auto intro: target_del)
  have "prog_keeps I Q (atom (rp_Delete (codes_repo (ev_pg V)) u i) (\<lambda>x. case x of
      Some e \<Rightarrow> k (Some e)
    | None \<Rightarrow> (case o1 of
        None \<Rightarrow> k None
      | Some dyn \<Rightarrow> atom (ca_Invalidate (target_cache (ev_redis V)) (dyn_Slug dyn)) (\<lambda>_. k None))))" for o1
    using remove [OF _ assms(1)] del assms(2) by (intro prog_keeps_atom) (auto split: option.split)
  then show ?thesis
    unfolding delete_prog_def parts
    using found [OF _ assms(1)] assms(2) by (intro prog_keeps_atom) (auto split: sum.split split del: if_split)
qed

text \<open>So every call keeps the invariant, and redirects into \<open>D\<close>.\<close>

lemma call_keeps:
  assumes "\<And>u. caller c = Some u \<Longrightarrow> M u" "\<And>url. url \<in> call_urls c \<Longrightarrow> U url"
  shows "prog_keeps I (\<lambda>a. \<forall>dest. a = Redirected (Inr dest) \<longrightarrow> D dest) (call_prog V cfg c)"
proof (cases "single_call c")
  case True
  then have "prog_keeps I (\<lambda>a. \<forall>dest. a = Redirected (Inr dest) \<longrightarrow> D dest) (atom (\<lambda>w. ((), perform V cfg c w)) (\<lambda>_. Return Answered))"
    using single assms(1) by (intro prog_keeps_atom) auto
  with True show ?thesis by (cases c) simp_all
next
  case False
  have "prog_keeps I (\<lambda>a. \<forall>dest. a = Redirected (Inr dest) \<longrightarrow> D dest)
      (atom (\<lambda>w. ((), start_scan s h ag w)) (\<lambda>_. Return (Redirected (Inr dest))))" if "D dest" for s h ag dest
    using scan that by (intro prog_keeps_atom) auto
  with False assms show ?thesis
    by (cases c) (auto intro!: resolve_keeps create_keeps update_keeps delete_keeps check_keeps)
qed

end

end
