(* ===== verification/Isolation.thy ===== *)
theory Isolation
  imports Actions
begin

text \<open>
  The users are isolated from each other, with the actions of all requests in any order: what a user has
  changes only through requests of hers.
\<close>

subsection \<open>Integrity\<close>

sublocale app \<subseteq> sound: steady_actions V cfg sane "\<lambda>_. True" "\<lambda>_. True" "\<lambda>_. True" "\<lambda>_ _. True" "\<lambda>_. True" "\<lambda>_. True"
proof unfold_locales
  have repo: "cs_repo (codes_svc V) = codes_repo (ev_pg V)" by (simp add: codes_svc_def)
  note laws = codes.create codes.createDynamic codes.getByID codes.updateDestination codes.updateLabel codes.delete
  note laws = laws [unfolded repo]
  fix w w' :: "'r world" and url s dest ipHash agent :: string and label and u i :: uuid and c c1 :: code and x and a
  show "sane w \<Longrightarrow> True \<Longrightarrow> sc_Get (ss_cache (safety_svc V)) url w = (r, w') \<Longrightarrow>
      sane w' \<and> (\<forall>x. r = Inr (Some x) \<longrightarrow> sr_Verdict x \<noteq> VerdictMalicious \<longrightarrow> True)" for r
    by (auto simp: safety_svc_def redis_safety_cache_def on_redis_iff sane_def)
  show "sane w \<Longrightarrow> True \<Longrightarrow> sc_Set (ss_cache (safety_svc V)) url (ss_checker (safety_svc V) url) w = (e, w') \<Longrightarrow> sane w'" for e
    by (auto simp: safety_svc_def redis_safety_cache_def on_redis_iff sane_def)
  show "sane w \<Longrightarrow> ca_Lookup (target_cache (ev_redis V)) s w = (l, w') \<Longrightarrow> sane w' \<and> (\<forall>t. l = Inr (Some t) \<longrightarrow> True)" for l
    by (auto simp: target_cache_def on_redis_iff sane_def)
  show "sane w \<Longrightarrow> on_db (repo_ResolveSlug (ev_pg V) s) w = (q, w') \<Longrightarrow> sane w' \<and> (\<forall>y. q = Inr y \<longrightarrow> True \<and> True)" for q
    using redirect.resolve [of w s q w'] by (simp add: redirect_svc_def slug_repo_ops)
  show "sane w \<Longrightarrow> True \<Longrightarrow> ca_Store (target_cache (ev_redis V)) s (target_for (ev_uuid V) x) w = (e, w') \<Longrightarrow> sane w'" for e
    by (auto simp: target_cache_def on_redis_iff sane_def)
  show "sane w \<Longrightarrow> ca_Invalidate (target_cache (ev_redis V)) s w = (e, w') \<Longrightarrow> sane w'" for e
    by (auto simp: target_cache_def on_redis_iff sane_def)
  show "sane w \<Longrightarrow> sane (start_scan s ipHash agent w)" by (simp add: start_scan_def sane_def)
  show "sane w \<Longrightarrow> new_slug V w = (q, w') \<Longrightarrow> sane w'" for q by (auto simp: new_slug_def sane_def)
  show "sane w \<Longrightarrow> True \<Longrightarrow> \<not> code_IsDynamic c \<Longrightarrow> code_Dynamic c = None \<Longrightarrow>
      rp_Create (codes_repo (ev_pg V)) c w = (z, w') \<Longrightarrow> sane w'" for z
    using laws(1) by blast
  show "sane w \<Longrightarrow> True \<Longrightarrow> code_Type c = TypeURL \<Longrightarrow> True \<Longrightarrow>
      rp_CreateDynamic (codes_repo (ev_pg V)) c s dest w = ((e, c1), w') \<Longrightarrow> sane w' \<and> same_input c c1" for e
    using laws(2) by blast
  show "sane w \<Longrightarrow> True \<Longrightarrow> rp_GetByID (codes_repo (ev_pg V)) u i w = (g, w') \<Longrightarrow> sane w' \<and> (\<forall>c. g = Inr c \<longrightarrow> True)" for g
    using laws(3) by blast
  show "sane w \<Longrightarrow> True \<Longrightarrow> True \<Longrightarrow>
      rp_UpdateDestination (codes_repo (ev_pg V)) (code_ID c) dest w = (e, w') \<Longrightarrow> sane w'" for e
    using laws(4) by blast
  show "sane w \<Longrightarrow> True \<Longrightarrow> rp_UpdateLabel (codes_repo (ev_pg V)) u i label w = (e, w') \<Longrightarrow> sane w'" for e
    using laws(5) by blast
  show "sane w \<Longrightarrow> True \<Longrightarrow> rp_Delete (codes_repo (ev_pg V)) u i w = (e, w') \<Longrightarrow> sane w'" for e
    using laws(6) by blast
  show "sane w \<Longrightarrow> single_call a \<Longrightarrow> (\<And>u. caller a = Some u \<Longrightarrow> True) \<Longrightarrow> sane (perform V cfg a w)"
    by (rule perform_sane)
qed simp

context app
begin

lemma job_sane: "sane w \<Longrightarrow> sane (run_job V j (w\<lparr>wd_jobs := js\<rparr>))"
  using redirect.RecordScan_frame [of "w\<lparr>wd_jobs := js\<rparr>"] by (cases j) (simp add: run_job_def sane_def)

lemma traffic_sane:
  assumes run: "traffic_run V cfg (w, []) es (w', ps)" and w: "sane w"
  shows "sane w'"
proof -
  have "sane (fst (w', ps)) \<and> (\<forall>c a. Answer c a \<in> set es \<longrightarrow> (\<forall>dest. a = Redirected (Inr dest) \<longrightarrow> True))"
    by (rule traffic_keeps [where P = "\<lambda>_ _. True", OF sound.call_keeps _ job_sane _ _ run])
      (use w in \<open>simp_all add: sane_def\<close>)
  then show ?thesis by simp
qed

end

subsection \<open>The actions of others\<close>

text \<open>The user \<open>owner\<close> is idle since the tables were \<open>d0\<close>.\<close>

locale idle_owner = app V data clock bears cfg for V :: "'r env" and data clock bears cfg +
  fixes owner :: uuid and d0 :: db
begin

definition untouched :: "'r world \<Rightarrow> bool" where
  "untouched w \<longleftrightarrow> sane w \<and> holds_same owner d0 (wd_db w)"

text \<open>A code that is not hers.\<close>

definition foreign :: "uuid \<Rightarrow> bool" where
  "foreign i \<longleftrightarrow> owned owner (code_view d0 i) = None"

lemma untouched_db: "untouched w \<Longrightarrow> wd_db w' = wd_db w \<Longrightarrow> untouched w'"
  by (simp add: untouched_def sane_def)

lemma untouched_owned: "untouched w \<Longrightarrow> owned owner (held w i) = owned owner (code_view d0 i)"
  by (simp add: untouched_def holds_same_def held_def)

lemma untouched_confined:
  assumes w: "untouched w" and w': "sane w'" "confined who (wd_db w) (wd_db w')" "who \<noteq> Some owner"
  shows "untouched w'"
proof -
  have "holds_same owner (wd_db w) (wd_db w')"
    using confined_holds [of "ev_pg V" "wd_db w" "wd_db w'" who owner] w w' by (simp add: untouched_def sane_def)
  with w w'(1) holds_same_trans show ?thesis by (simp add: untouched_def) blast
qed

lemma untouched_main:
  assumes "untouched w" "sane w'" "main_tables (wd_db w') = main_tables (wd_db w)"
  shows "untouched w'"
  using untouched_confined [OF assms(1,2) confined_main [OF assms(3)], of None] by simp

lemma untouched_isolated:
  assumes "untouched w" "sane w'" "people_tables (wd_db w') = people_tables (wd_db w)"
    and "isolated u (held w) (held w')" "u \<noteq> owner"
  shows "untouched w'"
  using untouched_confined [OF assms(1,2) confined_codes] assms(3-5) by (simp add: held_def)

lemma people_kept:
  fixes w w' :: "'r world"
  shows
  "rp_Create (codes_repo (ev_pg V)) c w = (z, w') \<Longrightarrow> people_tables (wd_db w') = people_tables (wd_db w)"
  "rp_CreateDynamic (codes_repo (ev_pg V)) c s dest w = (p, w') \<Longrightarrow> people_tables (wd_db w') = people_tables (wd_db w)"
  "rp_GetByID (codes_repo (ev_pg V)) u i w = (g, w') \<Longrightarrow> people_tables (wd_db w') = people_tables (wd_db w)"
  "rp_UpdateDestination (codes_repo (ev_pg V)) i dest w = (y, w') \<Longrightarrow> people_tables (wd_db w') = people_tables (wd_db w)"
  "rp_UpdateLabel (codes_repo (ev_pg V)) u i label w = (y, w') \<Longrightarrow> people_tables (wd_db w') = people_tables (wd_db w)"
  "rp_Delete (codes_repo (ev_pg V)) u i w = (y, w') \<Longrightarrow> people_tables (wd_db w') = people_tables (wd_db w)"
proof -
  have repo: "cs_repo (codes_svc V) = codes_repo (ev_pg V)" by (simp add: codes_svc_def)
  note kept = blind.kept.create [of V] blind.kept.create_dynamic [of V] blind.kept.get_by_id [of V]
    blind.kept.update_destination [of V] blind.kept.update_label [of V] blind.kept.delete_code [of V]
  note kept = kept [unfolded repo codes_blind_def prod.inject]
  show "rp_Create (codes_repo (ev_pg V)) c w = (z, w') \<Longrightarrow> people_tables (wd_db w') = people_tables (wd_db w)"
    by (drule kept(1)) simp
  show "rp_CreateDynamic (codes_repo (ev_pg V)) c s dest w = (p, w') \<Longrightarrow> people_tables (wd_db w') = people_tables (wd_db w)"
    by (drule kept(2)) simp
  show "rp_GetByID (codes_repo (ev_pg V)) u i w = (g, w') \<Longrightarrow> people_tables (wd_db w') = people_tables (wd_db w)"
    by (drule kept(3)) simp
  show "rp_UpdateDestination (codes_repo (ev_pg V)) i dest w = (y, w') \<Longrightarrow> people_tables (wd_db w') = people_tables (wd_db w)"
    by (drule kept(4)) simp
  show "rp_UpdateLabel (codes_repo (ev_pg V)) u i label w = (y, w') \<Longrightarrow> people_tables (wd_db w') = people_tables (wd_db w)"
    by (drule kept(5)) simp
  show "rp_Delete (codes_repo (ev_pg V)) u i w = (y, w') \<Longrightarrow> people_tables (wd_db w') = people_tables (wd_db w)"
    by (drule kept(6)) simp
qed

text \<open>The second statement of an edit is not restricted to the user; the first has found the code for her.\<close>

lemma untouched_redirect:
  assumes w: "untouched w" and i: "foreign i"
    and run: "rp_UpdateDestination (codes_repo (ev_pg V)) i dest w = (y, w')"
  shows "untouched w'"
proof -
  have s: "sane w" using w by (simp add: untouched_def)
  have repo: "cs_repo (codes_svc V) = codes_repo (ev_pg V)" by (simp add: codes_svc_def)
  note law = codes.updateDestination [OF s, unfolded repo, OF run]
  have none: "owned owner (held w i) = None" using untouched_owned [OF w] i by (simp add: foreign_def)
  have upd: "owned owner (set_code_destination i dest t (held w) j) = owned owner (held w j)" for t j
    using none by (auto simp: set_code_destination_def owned_def split: option.splits if_splits)
  have slug: "set_slug_destination i dest (leads w) s = Some (d, j)"
    if "leads w s = Some (d, j)" "owned owner (held w j) \<noteq> None" for s d j
    using that none by (auto simp: set_slug_destination_def)
  from law have "held w' = held w \<and> leads w' = leads w \<or>
      leads w' = set_slug_destination i dest (leads w) \<and> (\<exists>t. held w' = set_code_destination i dest t (held w))"
    by (blast elim: write_law_cases)
  then have "(\<forall>j. owned owner (held w' j) = owned owner (held w j)) \<and>
      (\<forall>s d j. leads w s = Some (d, j) \<longrightarrow> owned owner (held w j) \<noteq> None \<longrightarrow> leads w' s = Some (d, j))"
  proof
    assume "held w' = held w \<and> leads w' = leads w"
    then show ?thesis by simp
  next
    assume "leads w' = set_slug_destination i dest (leads w) \<and> (\<exists>t. held w' = set_code_destination i dest t (held w))"
    with upd slug show ?thesis by (elim conjE exE) simp
  qed
  moreover have "user_view (wd_db w') = user_view (wd_db w)" using people_tables_view [OF people_kept(4) [OF run]] .
  ultimately have "holds_same owner (wd_db w) (wd_db w')" by (simp add: holds_same_def held_def leads_def)
  with w law holds_same_trans show ?thesis by (simp add: untouched_def) blast
qed

lemma repo_untouched:
  assumes w: "untouched w"
  shows "code_UserID c \<noteq> owner \<Longrightarrow> \<not> code_IsDynamic c \<Longrightarrow> code_Dynamic c = None \<Longrightarrow>
      rp_Create (codes_repo (ev_pg V)) c w = (z, w') \<Longrightarrow> untouched w'"
    and "code_UserID c \<noteq> owner \<Longrightarrow> code_Type c = TypeURL \<Longrightarrow>
      rp_CreateDynamic (codes_repo (ev_pg V)) c s dest w = ((e, c1), w') \<Longrightarrow> untouched w' \<and> same_input c c1"
    and "u \<noteq> owner \<Longrightarrow> rp_GetByID (codes_repo (ev_pg V)) u i w = (g, w') \<Longrightarrow>
      untouched w' \<and> (\<forall>c. g = Inr c \<longrightarrow> foreign (code_ID c))"
    and "u \<noteq> owner \<Longrightarrow> rp_UpdateLabel (codes_repo (ev_pg V)) u i label w = (y, w') \<Longrightarrow> untouched w'"
    and "u \<noteq> owner \<Longrightarrow> rp_Delete (codes_repo (ev_pg V)) u i w = (y, w') \<Longrightarrow> untouched w'"
proof -
  have sane: "sane w" using w by (simp add: untouched_def)
  have repo: "cs_repo (codes_svc V) = codes_repo (ev_pg V)" by (simp add: codes_svc_def)
  show "untouched w'" if "code_UserID c \<noteq> owner" "\<not> code_IsDynamic c" "code_Dynamic c = None"
    "rp_Create (codes_repo (ev_pg V)) c w = (z, w')"
  proof -
    note law = codes.create [OF sane that(2,3), unfolded repo, OF that(4)]
    have "isolated (code_UserID c) (held w) (held w')"
      using law by (auto split: sum.splits intro: isolated_static)
    with law that(1) show ?thesis by (intro untouched_isolated [OF w _ people_kept(1) [OF that(4)]]) simp_all
  qed
  show "untouched w' \<and> same_input c c1" if "code_UserID c \<noteq> owner" "code_Type c = TypeURL"
    "rp_CreateDynamic (codes_repo (ev_pg V)) c s dest w = ((e, c1), w')" for s
  proof -
    note law = codes.createDynamic [OF sane that(2), unfolded repo, OF that(3)]
    have "isolated (code_UserID c) (held w) (held w')"
      using law by (auto split: option.splits if_splits intro: isolated_dynamic)
    with law that(1) show ?thesis by (intro conjI untouched_isolated [OF w _ people_kept(2) [OF that(3)]]) simp_all
  qed
  show "untouched w' \<and> (\<forall>c. g = Inr c \<longrightarrow> foreign (code_ID c))"
    if "u \<noteq> owner" "rp_GetByID (codes_repo (ev_pg V)) u i w = (g, w')"
  proof -
    note law = codes.getByID [OF sane, unfolded repo, OF that(2)]
    have "foreign (code_ID c)" if "g = Inr c" for c
    proof -
      have c: "owned u (held w i) = Some c" using law that by simp
      then have "code_ID c = i" using codes.code_id [OF sane] by (auto simp: owned_iff)
      moreover have "owned owner (held w i) = None" using c \<open>u \<noteq> owner\<close> by (auto simp: owned_def split: option.splits if_splits)
      ultimately show ?thesis using untouched_owned [OF w, of i] by (simp add: foreign_def)
    qed
    moreover have "untouched w'"
      using law that(1) by (intro untouched_isolated [OF w _ people_kept(3) [OF that(2)], of u]) simp_all
    ultimately show ?thesis by blast
  qed
  show "untouched w'" if "u \<noteq> owner" "rp_UpdateLabel (codes_repo (ev_pg V)) u i label w = (y, w')"
  proof -
    note law = codes.updateLabel [OF sane, unfolded repo, OF that(2)]
    then have "isolated u (held w) (held w')"
      by (auto elim!: write_law_cases simp: isolated_label)
    with law that(1) show ?thesis by (intro untouched_isolated [OF w _ people_kept(5) [OF that(2)]]) simp_all
  qed
  show "untouched w'" if "u \<noteq> owner" "rp_Delete (codes_repo (ev_pg V)) u i w = (y, w')"
  proof -
    note law = codes.delete [OF sane, unfolded repo, OF that(2)]
    then have "isolated u (held w) (held w')"
      by (auto elim!: write_law_cases simp: isolated_drop)
    with law that(1) show ?thesis by (intro untouched_isolated [OF w _ people_kept(6) [OF that(2)]]) simp_all
  qed
qed

lemma slug_read_untouched:
  assumes w: "untouched w" and run: "on_db (repo_ResolveSlug (ev_pg V) s) w = (q, w')"
  shows "untouched w'"
proof -
  have "sr_ResolveSlug (rs_repo (redirect_svc V)) s w = (q, w')" using run by (simp add: redirect_svc_def slug_repo_ops)
  with redirect.resolve w have "sane w'" by (simp add: untouched_def) blast
  moreover have "main_tables (wd_db w') = main_tables (wd_db w)"
    using on_db_keeps [of main_tables, OF codes_repo_reads(3) [OF table_frames(3)] run] by auto
  ultimately show ?thesis by (rule untouched_main [OF w])
qed

lemma single_untouched: "untouched w \<Longrightarrow> caller a \<noteq> Some owner \<Longrightarrow> untouched (perform V cfg a w)"
  using untouched_confined [of w "perform V cfg a w" "caller a"] perform_sane perform_confined
  by (simp add: untouched_def)

lemma job_untouched: "untouched w \<Longrightarrow> untouched (run_job V j (w\<lparr>wd_jobs := js\<rparr>))"
proof -
  assume w: "untouched w"
  then have "sane (run_job V j (w\<lparr>wd_jobs := js\<rparr>))" using job_sane by (simp add: untouched_def)
  with run_job_world [of V j "w\<lparr>wd_jobs := js\<rparr>"] show ?thesis by (intro untouched_main [OF w]) simp_all
qed

end

sublocale idle_owner \<subseteq> idle: steady_actions V cfg untouched "\<lambda>_. True" "\<lambda>_. True" "\<lambda>_. True" "\<lambda>_ _. True"
  "\<lambda>c. foreign (code_ID c)" "\<lambda>u. u \<noteq> owner"
proof unfold_locales
  fix w w' :: "'r world" and url s dest ipHash agent :: string and label and u i :: uuid and c c1 :: code and x and a
  show "untouched w \<Longrightarrow> True \<Longrightarrow> sc_Get (ss_cache (safety_svc V)) url w = (r, w') \<Longrightarrow>
      untouched w' \<and> (\<forall>x. r = Inr (Some x) \<longrightarrow> sr_Verdict x \<noteq> VerdictMalicious \<longrightarrow> True)" for r
    by (auto simp: safety_svc_def redis_safety_cache_def on_redis_iff intro: untouched_db)
  show "untouched w \<Longrightarrow> True \<Longrightarrow> sc_Set (ss_cache (safety_svc V)) url (ss_checker (safety_svc V) url) w = (e, w') \<Longrightarrow>
      untouched w'" for e
    by (auto simp: safety_svc_def redis_safety_cache_def on_redis_iff intro: untouched_db)
  show "untouched w \<Longrightarrow> ca_Lookup (target_cache (ev_redis V)) s w = (l, w') \<Longrightarrow>
      untouched w' \<and> (\<forall>t. l = Inr (Some t) \<longrightarrow> True)" for l
    by (auto simp: target_cache_def on_redis_iff intro: untouched_db)
  show "untouched w \<Longrightarrow> on_db (repo_ResolveSlug (ev_pg V) s) w = (q, w') \<Longrightarrow>
      untouched w' \<and> (\<forall>y. q = Inr y \<longrightarrow> True \<and> True)" for q
    using slug_read_untouched by simp
  show "untouched w \<Longrightarrow> True \<Longrightarrow> ca_Store (target_cache (ev_redis V)) s (target_for (ev_uuid V) x) w = (e, w') \<Longrightarrow>
      untouched w'" for e
    by (auto simp: target_cache_def on_redis_iff intro: untouched_db)
  show "untouched w \<Longrightarrow> ca_Invalidate (target_cache (ev_redis V)) s w = (e, w') \<Longrightarrow> untouched w'" for e
    by (auto simp: target_cache_def on_redis_iff intro: untouched_db)
  show "untouched w \<Longrightarrow> untouched (start_scan s ipHash agent w)" by (erule untouched_db) (simp add: start_scan_def)
  show "untouched w \<Longrightarrow> new_slug V w = (q, w') \<Longrightarrow> untouched w'" for q
    by (erule untouched_db) (auto simp: new_slug_def)
  show "untouched w \<Longrightarrow> code_UserID c \<noteq> owner \<Longrightarrow> \<not> code_IsDynamic c \<Longrightarrow> code_Dynamic c = None \<Longrightarrow>
      rp_Create (codes_repo (ev_pg V)) c w = (z, w') \<Longrightarrow> untouched w'" for z
    by (rule repo_untouched(1))
  show "untouched w \<Longrightarrow> code_UserID c \<noteq> owner \<Longrightarrow> code_Type c = TypeURL \<Longrightarrow> True \<Longrightarrow>
      rp_CreateDynamic (codes_repo (ev_pg V)) c s dest w = ((e, c1), w') \<Longrightarrow> untouched w' \<and> same_input c c1" for e
    by (rule repo_untouched(2))
  show "untouched w \<Longrightarrow> u \<noteq> owner \<Longrightarrow> rp_GetByID (codes_repo (ev_pg V)) u i w = (g, w') \<Longrightarrow>
      untouched w' \<and> (\<forall>c. g = Inr c \<longrightarrow> foreign (code_ID c))" for g
    by (rule repo_untouched(3))
  show "untouched w \<Longrightarrow> foreign (code_ID c) \<Longrightarrow> True \<Longrightarrow>
      rp_UpdateDestination (codes_repo (ev_pg V)) (code_ID c) dest w = (e, w') \<Longrightarrow> untouched w'" for e
    by (rule untouched_redirect)
  show "untouched w \<Longrightarrow> u \<noteq> owner \<Longrightarrow> rp_UpdateLabel (codes_repo (ev_pg V)) u i label w = (e, w') \<Longrightarrow> untouched w'" for e
    by (rule repo_untouched(4))
  show "untouched w \<Longrightarrow> u \<noteq> owner \<Longrightarrow> rp_Delete (codes_repo (ev_pg V)) u i w = (e, w') \<Longrightarrow> untouched w'" for e
    by (rule repo_untouched(5))
  show "untouched w \<Longrightarrow> single_call a \<Longrightarrow> (\<And>u. caller a = Some u \<Longrightarrow> u \<noteq> owner) \<Longrightarrow> untouched (perform V cfg a w)"
    by (rule single_untouched) auto
qed simp

subsection \<open>Traffic\<close>

context idle_owner
begin

lemma idle_call:
  "token_user V cfg r v \<noteq> Some owner \<Longrightarrow> asks V (token_user V cfg r v) r c \<Longrightarrow> caller c = Some u \<Longrightarrow> u \<noteq> owner"
  using asks_caller by fastforce

lemma traffic_untouched:
  assumes run: "traffic_run V cfg (w, []) es (w', ps)" and w: "untouched w"
    and es: "\<And>r. Arrive r (Some owner) \<notin> set es"
  shows "untouched w'"
proof -
  have "untouched (fst (w', ps)) \<and> (\<forall>c a. Answer c a \<in> set es \<longrightarrow> (\<forall>dest. a = Redirected (Inr dest) \<longrightarrow> True))"
  proof (rule traffic_keeps [where P = "\<lambda>_ who. who \<noteq> Some owner", OF _ _ _ _ _ run])
    fix v r c assume "token_user V cfg r v \<noteq> Some owner" "asks V (token_user V cfg r v) r c"
    then show "prog_keeps untouched (\<lambda>a. \<forall>dest. a = Redirected (Inr dest) \<longrightarrow> True) (call_prog V cfg c)"
      by (intro idle.call_keeps) (use idle_call in blast)+
  qed (use w es untouched_db [of _ "counted V cfg _ _"] untouched_db job_untouched in auto)
  then show ?thesis by simp
qed

end

text \<open>
  C1. Through all traffic of the server, with the actions of all requests in any order, the tables keep their
  integrity, and what a user has (her codes, the destinations of their slugs, her account) changes only
  through requests with a valid bearer token of hers.
\<close>

theorem Traffic_confined:
  assumes "backend V data clock bears" and "db_ok (ev_pg V) (wd_db w)"
    and "traffic_run V cfg (w, []) es (w', ps)"
  shows "db_ok (ev_pg V) (wd_db w') \<and>
    (\<forall>u. (\<forall>r. Arrive r (Some u) \<notin> set es) \<longrightarrow> holds_same u (wd_db w) (wd_db w'))"
proof -
  have app: "app V data clock bears" and idle: "idle_owner V data clock bears"
    by (intro idle_owner.intro app.intro assms(1))+
  have "holds_same u (wd_db w) (wd_db w')" if u: "\<forall>r. Arrive r (Some u) \<notin> set es" for u
  proof -
    have "idle_owner.untouched V u (wd_db w) w"
      using assms(2) by (simp add: idle_owner.untouched_def [OF idle] backend.sane_def [OF assms(1)] holds_same_def)
    from idle_owner.traffic_untouched [OF idle assms(3) this] u show ?thesis
      by (simp add: idle_owner.untouched_def [OF idle])
  qed
  with app.traffic_sane [OF app assms(3)] assms(2) show ?thesis by (simp add: backend.sane_def [OF assms(1)])
qed

subsection \<open>Example\<close>

interpretation sample_idle: idle_owner sample_backend mem_data mem_clock open_bears sample_config 1 sample_db
  by (intro idle_owner.intro app.intro sample_backend_ok)

theorem Traffic_confined_witness:
  "\<exists>es w'. traffic_run sample_backend sample_config (sample_world, []) (Arrive sample_check None # es) (w', []) \<and>
     holds_same 1 sample_db (wd_db w')"
proof -
  obtain e W w' where run: "sv_Handler (build_server sample_backend sample_config) sample_check (new_rw, sample_world) = (e, W, w')"
    by (rule prod_cases3)
  have "token_user sample_backend sample_config sample_check sample_world = None"
    by (simp add: token_user_def bearer_def sample_check_def sample_request_def header_Get_def cut_def)
  with request_in_traffic [OF sample_chi_laws run, of "[]"] obtain n c a where
    t: "traffic_run sample_backend sample_config (sample_world, [])
      (Arrive sample_check None # replicate n Act @ [Answer c a, Log]) (w', [])" by auto
  from Traffic_confined [OF sample_backend_ok _ t] sample_db_ok have "holds_same 1 sample_db (wd_db w')" by auto
  with t show ?thesis by blast
qed

end
