(* ===== verification/SlugCourse.thy ===== *)
theory SlugCourse
  imports Isolation RedirectProperties
begin

text \<open>
  One slug of a user who makes no request, while the actions of the requests of all others run in any order: it
  keeps its destination in the tables, and an entry of the redirect cache that has another one is not
  renewed. What a visit of such a slug sees is the business of \<open>Lifecycle\<close> and \<open>StaleEntries\<close>.
\<close>

subsection \<open>The entries of a slug\<close>

context backend
begin

text \<open>Every entry of \<open>slug\<close> has the target of \<open>x\<close> or is gone at the time \<open>lim\<close>.\<close>

definition heals_by :: "instant \<Rightarrow> string \<Rightarrow> string \<times> uuid \<Rightarrow> 'r world \<Rightarrow> bool" where
  "heals_by lim slug x w \<longleftrightarrow>
     (\<forall>v dl. filed (wd_redis w) slug = Some (v, dl) \<longrightarrow>
        (\<exists>t. dl = Some t \<and> t \<le> lim) \<or> target_of_json v = Some (target_for (ev_uuid V) x))"

lemma ages_heals: "ages w w' \<Longrightarrow> heals_by lim slug x w \<Longrightarrow> heals_by lim slug x w'"
  unfolding heals_by_def ages_def aged_def by (blast dest: map_leD)

lemma store_old:
  assumes w: "heals_by lim slug x w"
    and y: "utf8_valid (fst y)" "s = slug \<Longrightarrow> y = x"
    and run: "ca_Store (target_cache (ev_redis V)) s (target_for (ev_uuid V) y) w = (e, w')"
  shows "heals_by lim slug x w'"
proof -
  obtain r where r: "cache_Store (ev_redis V) s (target_for (ev_uuid V) y) (wd_redis w) = (e, r)" "w' = w\<lparr>wd_redis := r\<rparr>"
    using run by (auto simp: target_cache_def on_redis_iff)
  have "target_text (target_for (ev_uuid V) y)"
    using y(1) redirect.uuid_text by (simp add: target_text_def target_for_def redirect_svc_def)
  from store_aged [OF r(1) this] consider "ages w w'" | b where "target_of_json b = Some (target_for (ev_uuid V) y)"
    "filed (wd_redis w') = (filed (wd_redis w))(s \<mapsto> (b, Some (clock (wd_redis w') + redirectTTL)))"
    using r(2) by (auto simp: ages_def)
  then show ?thesis
  proof cases
    case 1
    with ages_heals w show ?thesis by blast
  next
    case (2 b)
    show ?thesis
      unfolding heals_by_def 2(2)
    proof (intro allI impI)
      fix v dl assume "((filed (wd_redis w))(s \<mapsto> (b, Some (clock (wd_redis w') + redirectTTL)))) slug = Some (v, dl)"
      with w [unfolded heals_by_def, rule_format, of v dl] 2(1) y(2)
      show "(\<exists>t. dl = Some t \<and> t \<le> lim) \<or> target_of_json v = Some (target_for (ev_uuid V) x)" by (auto split: if_splits)
    qed
  qed
qed

lemma healed:
  assumes "heals_by lim slug x w" "lim \<le> clock (wd_redis w)" "entries w slug = Some t"
  shows "t = target_for (ev_uuid V) x"
proof -
  obtain v where v: "live (clock (wd_redis w)) (data (wd_redis w)) (redirectKey slug) = Some v" "target_of_json v = Some t"
    using assms(3) by (auto simp: entries_def cached_def readable_def bind_eq_Some_conv)
  then obtain dl where dl: "filed (wd_redis w) slug = Some (v, dl)" "\<And>t. dl = Some t \<Longrightarrow> clock (wd_redis w) < t"
    by (auto simp: live_def filed_def split: option.splits if_splits)
  with assms(1,2) v(2) show ?thesis by (force simp: heals_by_def)
qed

lemma repo_redis:
  "rp_Create (codes_repo (ev_pg V)) c w = (z, w') \<Longrightarrow> wd_redis w' = wd_redis w"
  "rp_CreateDynamic (codes_repo (ev_pg V)) c s dest w = (p, w') \<Longrightarrow> wd_redis w' = wd_redis w"
  "rp_GetByID (codes_repo (ev_pg V)) u i w = (g, w') \<Longrightarrow> wd_redis w' = wd_redis w"
  "rp_UpdateDestination (codes_repo (ev_pg V)) i dest w = (y, w') \<Longrightarrow> wd_redis w' = wd_redis w"
  "rp_UpdateLabel (codes_repo (ev_pg V)) u i label w = (y, w') \<Longrightarrow> wd_redis w' = wd_redis w"
  "rp_Delete (codes_repo (ev_pg V)) u i w = (y, w') \<Longrightarrow> wd_redis w' = wd_redis w"
  by (auto simp: codes_repo_ops on_db_iff)

text \<open>A slug without an entry, and a deletion that works.\<close>

lemma no_entry: "filed (wd_redis w) slug = None \<Longrightarrow> entries w slug = None \<and> heals_by lim slug x w"
  by (simp add: entries_def cached_def readable_def live_def filed_def heals_by_def)

lemma invalidated:
  assumes "\<And>s. fst (rd_Del (ev_redis V) (redirectKey slug) s) = None"
    and "ca_Invalidate (target_cache (ev_redis V)) slug w = (e, w')"
  shows "filed (wd_redis w') slug = None"
proof -
  obtain x s where x: "rd_Del (ev_redis V) (redirectKey slug) (wd_redis w) = (x, s)" by (rule prod.exhaust)
  have "x = None" using assms(1) [of "wd_redis w"] x by simp
  moreover have "wd_redis w' = s"
    using assms(2) x by (auto simp: target_cache_def cache_Invalidate_def on_redis_iff split: option.splits)
  ultimately show ?thesis using del [OF x] by (simp add: filed_def)
qed

end

subsection \<open>A slug of an idle user\<close>

text \<open>The slug leads to \<open>x\<close>, a code of the idle user; stale entries of it are gone at the time \<open>lim\<close>.\<close>

locale idle_slug = idle_owner V data clock bears cfg owner d0 for V :: "'r env" and data clock bears cfg owner d0 +
  fixes lim :: instant and slug :: string and x :: "string \<times> uuid"
  assumes leads: "slug_view d0 slug = Some x" and hers: "owned owner (code_view d0 (snd x)) \<noteq> None"
begin

definition on_course :: "'r world \<Rightarrow> bool" where
  "on_course w \<longleftrightarrow> untouched w \<and> heals_by lim slug x w"

lemma untouched_slug: "untouched w \<Longrightarrow> leads w slug = Some x"
  using leads hers by (cases x) (simp add: untouched_def holds_same_def backend.leads_def [OF backend_axioms])

lemma on_courseI: "on_course w \<Longrightarrow> ages w w' \<Longrightarrow> untouched w' \<Longrightarrow> on_course w'"
  using ages_heals by (simp add: on_course_def)

lemma course_redis: "on_course w \<Longrightarrow> ages w w' \<Longrightarrow> wd_db w' = wd_db w \<Longrightarrow> on_course w'"
  using on_courseI [of w w'] untouched_db [of w w'] by (simp add: on_course_def)

lemma course_db: "on_course w \<Longrightarrow> on_db act w = (r, w') \<Longrightarrow> untouched w' \<Longrightarrow> on_course w'"
  by (rule on_courseI) (auto simp: on_db_iff intro: ages_same)

lemma course_untouched: "on_course w \<Longrightarrow> wd_redis w' = wd_redis w \<Longrightarrow> untouched w' \<Longrightarrow> on_course w'"
  using on_courseI ages_same by blast

lemma course_same: "on_course w \<Longrightarrow> wd_db w' = wd_db w \<Longrightarrow> wd_redis w' = wd_redis w \<Longrightarrow> on_course w'"
  using course_redis ages_same by blast

lemma target_set_course:
  assumes w: "on_course w" and y: "utf8_valid (fst y) \<and> (s = slug \<longrightarrow> y = x)"
    and run: "ca_Store (target_cache (ev_redis V)) s (target_for (ev_uuid V) y) w = (e, w')"
  shows "on_course w'"
proof -
  have "untouched w'" using run w untouched_db [of w w'] by (auto simp: on_course_def target_cache_def on_redis_iff)
  moreover have "heals_by lim slug x w'" using w y by (intro store_old [OF _ _ _ run]) (simp_all add: on_course_def)
  ultimately show ?thesis by (simp add: on_course_def)
qed

lemma slug_read_course:
  assumes w: "on_course w" and run: "on_db (repo_ResolveSlug (ev_pg V) s) w = (q, w')"
  shows "on_course w' \<and> (\<forall>y. q = Inr y \<longrightarrow> utf8_valid (fst y) \<and> (s = slug \<longrightarrow> y = x))"
proof -
  have w': "untouched w" "sane w" using w by (simp_all add: on_course_def untouched_def)
  have "sr_ResolveSlug (rs_repo (redirect_svc V)) s w = (q, w')" using run by (simp add: redirect_svc_def slug_repo_ops)
  from redirect.resolve [OF w'(2) this] untouched_slug [OF w'(1)]
  have "\<forall>y. q = Inr y \<longrightarrow> utf8_valid (fst y) \<and> (s = slug \<longrightarrow> y = x)" by auto
  with course_db [OF w run slug_read_untouched [OF w'(1) run]] show ?thesis by blast
qed

end

sublocale idle_slug \<subseteq> course: steady_actions V cfg on_course "\<lambda>_. True" "\<lambda>_. True" "\<lambda>_. True"
  "\<lambda>s y. utf8_valid (fst y) \<and> (s = slug \<longrightarrow> y = x)" "\<lambda>c. foreign (code_ID c)" "\<lambda>u. u \<noteq> owner"
proof unfold_locales
  fix w w' :: "'r world" and url s dest ipHash agent :: string and label and u i :: uuid and c c1 :: code and y and a
  have un: "on_course w \<Longrightarrow> untouched w" by (simp add: on_course_def)
  show "on_course w \<Longrightarrow> True \<Longrightarrow> sc_Get (ss_cache (safety_svc V)) url w = (r, w') \<Longrightarrow>
      on_course w' \<and> (\<forall>x. r = Inr (Some x) \<longrightarrow> sr_Verdict x \<noteq> VerdictMalicious \<longrightarrow> True)" for r
    using course_redis [of w w'] safety_Get_aged
    by (auto simp: safety_svc_def redis_safety_cache_def on_redis_iff ages_def)
  show "on_course w \<Longrightarrow> True \<Longrightarrow> sc_Set (ss_cache (safety_svc V)) url (ss_checker (safety_svc V) url) w = (e, w') \<Longrightarrow>
      on_course w'" for e
    using course_redis [of w w'] safety_Set_aged
    by (auto simp: safety_svc_def redis_safety_cache_def on_redis_iff ages_def)
  show "on_course w \<Longrightarrow> ca_Lookup (target_cache (ev_redis V)) s w = (l, w') \<Longrightarrow>
      on_course w' \<and> (\<forall>t. l = Inr (Some t) \<longrightarrow> True)" for l
    using course_redis [of w w'] lookup_ages by (auto simp: target_cache_def on_redis_iff)
  show "on_course w \<Longrightarrow> on_db (repo_ResolveSlug (ev_pg V) s) w = (q, w') \<Longrightarrow>
      on_course w' \<and> (\<forall>y. q = Inr y \<longrightarrow> (utf8_valid (fst y) \<and> (s = slug \<longrightarrow> y = x)) \<and> True)" for q
    using slug_read_course by simp
  show "on_course w \<Longrightarrow> utf8_valid (fst y) \<and> (s = slug \<longrightarrow> y = x) \<Longrightarrow>
      ca_Store (target_cache (ev_redis V)) s (target_for (ev_uuid V) y) w = (e, w') \<Longrightarrow> on_course w'" for e
    by (rule target_set_course)
  show "on_course w \<Longrightarrow> ca_Invalidate (target_cache (ev_redis V)) s w = (e, w') \<Longrightarrow> on_course w'" for e
    using course_redis [of w w'] invalidate_ages by (auto simp: target_cache_def on_redis_iff)
  show "on_course w \<Longrightarrow> on_course (start_scan s ipHash agent w)" by (erule course_same) (simp_all add: start_scan_def)
  show "on_course w \<Longrightarrow> new_slug V w = (q, w') \<Longrightarrow> on_course w'" for q
    by (erule course_same) (auto simp: new_slug_def)
  show "on_course w \<Longrightarrow> code_UserID c \<noteq> owner \<Longrightarrow> \<not> code_IsDynamic c \<Longrightarrow> code_Dynamic c = None \<Longrightarrow>
      rp_Create (codes_repo (ev_pg V)) c w = (z, w') \<Longrightarrow> on_course w'" for z
    using idle.static [of w] course_untouched [of w w'] repo_redis(1) [of c w] un by blast
  show "on_course w \<Longrightarrow> code_UserID c \<noteq> owner \<Longrightarrow> code_Type c = TypeURL \<Longrightarrow> True \<Longrightarrow>
      rp_CreateDynamic (codes_repo (ev_pg V)) c s dest w = ((e, c1), w') \<Longrightarrow> on_course w' \<and> same_input c c1" for e
    using idle.dynamic [of w] course_untouched [of w w'] repo_redis(2) [of c s dest w] un by blast
  show "on_course w \<Longrightarrow> u \<noteq> owner \<Longrightarrow> rp_GetByID (codes_repo (ev_pg V)) u i w = (g, w') \<Longrightarrow>
      on_course w' \<and> (\<forall>c. g = Inr c \<longrightarrow> foreign (code_ID c))" for g
    using idle.found [of w] course_untouched [of w w'] repo_redis(3) [of u i w] un by blast
  show "on_course w \<Longrightarrow> foreign (code_ID c) \<Longrightarrow> True \<Longrightarrow>
      rp_UpdateDestination (codes_repo (ev_pg V)) (code_ID c) dest w = (e, w') \<Longrightarrow> on_course w'" for e
    using idle.redirect [of w] course_untouched [of w w'] repo_redis(4) [of "code_ID c" dest w] un by blast
  show "on_course w \<Longrightarrow> u \<noteq> owner \<Longrightarrow> rp_UpdateLabel (codes_repo (ev_pg V)) u i label w = (e, w') \<Longrightarrow> on_course w'" for e
    using idle.relabel [of w] course_untouched [of w w'] repo_redis(5) [of u i _ w] un by blast
  show "on_course w \<Longrightarrow> u \<noteq> owner \<Longrightarrow> rp_Delete (codes_repo (ev_pg V)) u i w = (e, w') \<Longrightarrow> on_course w'" for e
    using idle.remove [of w] course_untouched [of w w'] repo_redis(6) [of u i w] un by blast
  show "on_course w \<Longrightarrow> single_call a \<Longrightarrow> (\<And>u. caller a = Some u \<Longrightarrow> u \<noteq> owner) \<Longrightarrow> on_course (perform V cfg a w)"
  proof -
    assume w: "on_course w" and a: "single_call a" "\<And>u. caller a = Some u \<Longrightarrow> u \<noteq> owner"
    have "ages w (perform V cfg a w)" using a(1) by (intro perform_ages) auto
    with on_courseI [OF w] idle.single [OF un [OF w] a] show ?thesis by blast
  qed
qed simp

subsection \<open>Traffic\<close>

context idle_slug
begin

lemma traffic_course:
  assumes run: "traffic_run V cfg (w, []) es (w', ps)" and w: "on_course w"
    and es: "\<And>r. Arrive r (Some owner) \<notin> set es"
  shows "on_course w'"
proof -
  have "on_course (fst (w', ps)) \<and> (\<forall>c a. Answer c a \<in> set es \<longrightarrow> (\<forall>dest. a = Redirected (Inr dest) \<longrightarrow> True))"
  proof (rule traffic_keeps [where P = "\<lambda>_ who. who \<noteq> Some owner", OF _ _ _ _ _ run])
    fix v r c assume "token_user V cfg r v \<noteq> Some owner" "asks V (token_user V cfg r v) r c"
    then show "prog_keeps on_course (\<lambda>a. \<forall>dest. a = Redirected (Inr dest) \<longrightarrow> True) (call_prog V cfg c)"
      by (intro course.call_keeps) (use idle_call in blast)+
  next
    fix v k assume "on_course v"
    then show "on_course (counted V cfg k v)" using course_redis [OF _ counted_ages] by simp
  next
    fix v j js assume v: "on_course v"
    then have "untouched (run_job V j (v\<lparr>wd_jobs := js\<rparr>))" by (intro job_untouched) (simp add: on_course_def)
    with on_courseI [OF v ages_same] run_job_world [of V j "v\<lparr>wd_jobs := js\<rparr>"]
    show "on_course (run_job V j (v\<lparr>wd_jobs := js\<rparr>))" by simp
  qed (use w es course_same in auto)
  then show ?thesis by simp
qed

end

end
