(* ===== verification/Lifecycle.thy ===== *)
theory Lifecycle
  imports SlugCourse CodesProperties
begin

text \<open>
  The life of a dynamic code, from the endpoint that changes it to the client that scans it: the codes
  service, the tables, the cache and the public redirect together.
\<close>

subsection \<open>A visit\<close>

text \<open>
  \<open>visited V cfg w r W'\<close>: the response of the redirect handler to the request \<open>r\<close> in the world \<open>w\<close>.
\<close>

definition visited :: "'r env \<Rightarrow> config \<Rightarrow> 'r world \<Rightarrow> request \<Rightarrow> rw" where
  "visited V cfg w r = fst (snd (Redirect (hs_Redirect (all_handlers V cfg)) r (new_rw, w)))"

context backend
begin

lemma visit_known:
  assumes "sane w" "coherent_world w" "leads w (URLParam r ''slug'') = Some (dest, i)" "\<And>n. pg_out (ev_pg V) n = Done"
  shows "redirects_to (visited V cfg w r) (rq_Path r) dest"
proof -
  obtain e W' w' where run: "Redirect (hs_Redirect (all_handlers V cfg)) r (new_rw, w) = (e, W', w')"
    by (rule prod_cases3)
  from redirect_known [OF assms(1,2) fresh_new assms(3,4) this] run show ?thesis by (simp add: visited_def)
qed

lemma visit_unknown:
  assumes "sane w" "coherent_world w" "leads w (URLParam r ''slug'') = None"
  shows "status_of (visited V cfg w r) = 404 \<and> rw_Body (visited V cfg w r) = notActiveHTML"
proof -
  obtain e W' w' where run: "Redirect (hs_Redirect (all_handlers V cfg)) r (new_rw, w) = (e, W', w')"
    by (rule prod_cases3)
  from redirect_world [OF assms(1,2) fresh_new this] run assms(3) show ?thesis
    by (auto simp: visited_def Let_def)
qed

lemma created_dynamic:
  assumes "sane w" "codes_Create (codes_svc V) inp w = (Inr c, w')" "ci_IsDynamic inp"
  shows "\<exists>dyn. code_Dynamic c = Some dyn"
  using codes.Create_spec [OF assms(1,2)] assms(3) by (auto simp: codes.added_def dynamic_added_def dynamic_result_def)

lemma created_leads:
  assumes w: "sane w" "coherent_world w" and run: "codes_Create (codes_svc V) inp w = (Inr c, w')"
    and dyn: "code_Dynamic c = Some dyn"
  shows "sane w' \<and> coherent_world w' \<and> extractURL (ci_Payload inp) = Some (dyn_Destination dyn) \<and>
    (\<exists>i. leads w' (dyn_Slug dyn) = Some (dyn_Destination dyn, i) \<and> owned (ci_UserID inp) (held w' i) \<noteq> None)"
proof -
  note spec = codes.Create_spec [OF w(1) run]
  then have c: "codes.added inp w c w'" by simp
  have "ci_IsDynamic inp"
  proof (rule ccontr)
    assume "\<not> ci_IsDynamic inp"
    with c dyn show False
      by (auto simp: codes.added_def static_added_def static_result_def new_code_def)
  qed
  with c dyn obtain dest slug i k where new: "extractURL (ci_Payload inp) = Some dest"
    "dyn_Slug dyn = slug" "dyn_Destination dyn = dest" "leads w' = (leads w)(slug \<mapsto> (dest, i))"
    "held w' i = Some k" "code_UserID k = ci_UserID inp"
    by (auto simp: codes.added_def dynamic_added_def dynamic_result_def stored_def new_code_def)
  have "coherent_world w'" using codes.Create_coherent [OF w(1) _ run] w(2) by (simp add: coherent_worlds)
  with spec new show ?thesis by (auto simp: owned_def)
qed

end

context backend
begin

lemma visit_fresh:
  assumes "sane w" "leads w (URLParam r ''slug'') = Some x"
    and "\<And>t. entries w (URLParam r ''slug'') = Some t \<Longrightarrow> ct_Destination t = fst x"
  shows "let W = visited V cfg w r in
    (redirects_to W (rq_Path r) (fst x) \<or> status_of W = 404 \<and> rw_Body W = notActiveHTML) \<and>
    ((\<forall>n. pg_out (ev_pg V) n = Done) \<longrightarrow> redirects_to W (rq_Path r) (fst x))"
proof -
  obtain e W' w' where run: "Redirect (hs_Redirect (all_handlers V cfg)) r (new_rw, w) = (e, W', w')"
    by (rule prod_cases3)
  have "visited V cfg w r = W'" by (simp add: visited_def run)
  with redirect_fresh [OF assms(1,2) _ fresh_new run] assms(3) show ?thesis by (simp add: Let_def)
qed

lemma visit_nowhere:
  assumes "sane w" "leads w (URLParam r ''slug'') = None" "entries w (URLParam r ''slug'') = None"
  shows "status_of (visited V cfg w r) = 404 \<and> rw_Body (visited V cfg w r) = notActiveHTML"
proof -
  obtain e W' w' where run: "Redirect (hs_Redirect (all_handlers V cfg)) r (new_rw, w) = (e, W', w')"
    by (rule prod_cases3)
  from redirect_nowhere [OF assms fresh_new run] show ?thesis by (simp add: visited_def run)
qed

text \<open>What an edit and a deletion leave behind, if the deletion of the key works.\<close>

lemma updated_leads:
  assumes w: "sane w" and run: "codes_Update (codes_svc V) u i inp w = (Inr c, w')"
    and d: "ui_Destination inp = Some d" and dyn: "code_Dynamic c = Some dyn"
  shows "sane w' \<and> leads w' (dyn_Slug dyn) = Some (d, i) \<and> owned u (held w' i) \<noteq> None"
proof -
  from update_world [OF w run] obtain old where old: "sane w'" "owned u (held w' i) = Some c" "updated_code inp old c"
    by auto
  from old(2) have "held w' i = Some c" by (simp add: owned_def split: option.splits if_splits)
  from codes.view_slugs [OF old(1) this dyn] have "leads w' (dyn_Slug dyn) = Some (dyn_Destination dyn, i)" .
  moreover have "dyn_Destination dyn = d" using old(3) d dyn by (simp add: updated_code_def)
  ultimately show ?thesis using old(1,2) by simp
qed

lemma updated_filed:
  assumes w: "sane w" and run: "codes_Update (codes_svc V) u i inp w = (Inr c, w')"
    and d: "ui_Destination inp = Some d" and dyn: "code_Dynamic c = Some dyn"
    and del: "\<And>s. fst (rd_Del (ev_redis V) (redirectKey (dyn_Slug dyn)) s) = None"
  shows "filed (wd_redis w') (dyn_Slug dyn) = None"
proof -
  have parts: "cs_repo (codes_svc V) = codes_repo (ev_pg V)" "cs_cache (codes_svc V) = target_cache (ev_redis V)"
    by (simp_all add: codes_svc_def)
  obtain c0 w1 w2 w3 where steps: "rp_GetByID (codes_repo (ev_pg V)) u i w = (Inr c0, w1)"
    "update_destination_part (codes_svc V) c0 d w1 = (None, w2)"
    "(case ui_Label inp of None \<Rightarrow> (None, w2) | Some label \<Rightarrow> update_label_part (codes_svc V) u i (Some label) w2) = (None, w3)"
    "rp_GetByID (codes_repo (ev_pg V)) u i w3 = (Inr c, w')"
    using run d by (auto simp: codes_Update_def parts split: prod.splits sum.splits option.splits)
  have c0: "owned u (held w i) = Some c0" using codes.getByID [OF w, of u i "Inr c0" w1] steps(1) by (simp add: parts)
  from update_world [OF w run] c0 have "updated_code inp c0 c" by auto
  then have slug: "map_option dyn_Slug (code_Dynamic c0) = Some (dyn_Slug dyn)" using dyn by (simp add: updated_code_def)
  from steps(2) obtain dyn0 v e where v: "code_Dynamic c0 = Some dyn0"
    "ca_Invalidate (target_cache (ev_redis V)) (dyn_Slug dyn0) v = (e, w2)"
    by (auto simp: update_destination_part_def parts split: option.splits prod.splits if_splits) (metis prod.collapse)
  then have "filed (wd_redis w2) (dyn_Slug dyn) = None" using slug invalidated [OF del] by auto
  moreover have "wd_redis w3 = wd_redis w2"
    using steps(3) repo_redis(5) by (auto simp: update_label_part_def parts split: option.splits prod.splits)
  moreover have "wd_redis w' = wd_redis w3" using repo_redis(3) [OF steps(4)] .
  ultimately show ?thesis by simp
qed

lemma deleted_filed:
  assumes w: "sane w" and run: "codes_Delete (codes_svc V) u i w = (None, w')" and s: "leads w slug = Some (d, i)"
    and del: "\<And>s. fst (rd_Del (ev_redis V) (redirectKey slug) s) = None"
  shows "filed (wd_redis w') slug = None"
proof -
  have parts: "cs_repo (codes_svc V) = codes_repo (ev_pg V)" "cs_cache (codes_svc V) = target_cache (ev_redis V)"
    by (simp_all add: codes_svc_def)
  obtain c0 w1 where c0: "rp_GetByID (codes_repo (ev_pg V)) u i w = (Inr c0, w1)"
    using run by (auto simp: codes_Delete_def parts split: prod.splits sum.splits)
  have "owned u (held w i) = Some c0" using codes.getByID [OF w, of u i "Inr c0" w1] c0 by (simp add: parts)
  then have "held w i = Some c0" by (simp add: owned_def split: option.splits if_splits)
  with codes.slugs_view [OF w s] obtain dyn where dyn: "code_IsDynamic c0" "code_Dynamic c0 = Some dyn" "dyn_Slug dyn = slug"
    by auto
  then obtain v e where "ca_Invalidate (target_cache (ev_redis V)) slug v = (e, w')"
    using run c0 by (auto simp: codes_Delete_def parts split: prod.splits option.splits) (metis prod.collapse)
  then show ?thesis by (rule invalidated [OF del])
qed

end

subsection \<open>Through runs\<close>

context prompt_app
begin

lemma leads_through:
  assumes "chi_laws (ev_chi V)" "system_run V cfg w es w'" "sane w" "coherent_world w"
    and "leads w slug = Some (d, i)" "owned u (held w i) \<noteq> None" "Some u \<notin> snd ` set es"
  shows "sane w' \<and> coherent_world w' \<and> leads w' slug = Some (d, i)"
proof -
  have "holds_same u (wd_db w) (wd_db w')" using run_confined [OF assms(1-3), of u] assms(7) by simp
  with assms(5,6) have "leads w' slug = Some (d, i)" by (auto simp: holds_same_def leads_def held_def)
  with run_coherent [OF assms(1-4)] show ?thesis by simp
qed

end

text \<open>
  C6. A new dynamic code works: from its creation on, and whatever other users and the clock do, its slug
  is redirected to the URL of the request, until a request of its owner. The database answers, and Redis
  loses no deletion of a key; it may fail otherwise.
\<close>

theorem Created_redirects:
  assumes "backend V data clock bears" and "chi_laws (ev_chi V)"
    and "\<And>n. pg_out (ev_pg V) n = Done" and "\<And>k s. fst (rd_Del (ev_redis V) k s) = None"
    and "db_ok (ev_pg V) (wd_db w)" and "cache_current V data clock w"
    and "codes_Create (codes_svc V) inp w = (Inr c, w')" and "code_Dynamic c = Some dyn"
    and "system_run V cfg w' es w''" and "Some (ci_UserID inp) \<notin> snd ` set es" and "URLParam r ''slug'' = dyn_Slug dyn"
  shows "extractURL (ci_Payload inp) = Some (dyn_Destination dyn) \<and>
    redirects_to (visited V cfg w'' r) (rq_Path r) (dyn_Destination dyn)"
proof -
  have app: "prompt_app V data clock bears" by (rule prompt_appI) (simp_all add: assms(1,3,4))
  have w: "backend.sane V w" "backend.coherent_world V data clock w"
    using assms(5,6) by (simp_all add: backend.sane_def [OF assms(1)] backend.current_coherent [OF assms(1)])
  from backend.created_leads [OF assms(1) w assms(7,8)] obtain i where w': "backend.sane V w'"
    "backend.coherent_world V data clock w'" "extractURL (ci_Payload inp) = Some (dyn_Destination dyn)"
    "backend.leads w' (dyn_Slug dyn) = Some (dyn_Destination dyn, i)" "owned (ci_UserID inp) (backend.held w' i) \<noteq> None"
    by blast
  from prompt_app.leads_through [OF app assms(2,9) w'(1,2,4,5) assms(10)]
    backend.visit_known [OF assms(1) _ _ _ assms(3)] assms(11) w'(3)
  show ?thesis by metis
qed

text \<open>
  C7. An edit takes effect. After a PATCH of the destination that succeeded and that deleted the cached target,
  and until the owner makes another request, a visit of the slug is never sent to another destination, and is
  sent to the new one if the database answers: with the actions of the requests of all other users and
  visitors in any order, whatever they are and whatever of them fails. No request was under way when the
  PATCH was served, and the deletion of this key by Redis does not fail; without the one there can be
  an old target in the cache (C19), without the other too (the service only logs it), for an hour (C9).
\<close>

theorem Edited_redirects:
  assumes "backend V data clock bears" and "db_ok (ev_pg V) (wd_db w)"
    and "codes_Update (codes_svc V) u i inp w = (Inr c, w')" and "ui_Destination inp = Some d"
    and "code_Dynamic c = Some dyn" and "\<And>s. fst (rd_Del (ev_redis V) (redirectKey (dyn_Slug dyn)) s) = None"
    and "traffic_run V cfg (w', []) es (w'', ps)" and "\<And>q. Arrive q (Some u) \<notin> set es"
    and "URLParam r ''slug'' = dyn_Slug dyn"
  shows "let W = visited V cfg w'' r in
    (redirects_to W (rq_Path r) d \<or> status_of W = 404 \<and> rw_Body W = notActiveHTML) \<and>
    ((\<forall>n. pg_out (ev_pg V) n = Done) \<longrightarrow> redirects_to W (rq_Path r) d)"
proof -
  let ?slug = "dyn_Slug dyn" and ?lim = "clock (wd_redis w'')" and ?d = "wd_db w'"
  have w: "backend.sane V w" using assms(2) by (simp add: backend.sane_def [OF assms(1)])
  have w': "backend.sane V w'" "slug_view ?d ?slug = Some (d, i)" "owned u (code_view ?d i) \<noteq> None"
    using backend.updated_leads [OF assms(1) w assms(3-5)]
    by (simp_all add: backend.leads_def [OF assms(1)] backend.held_def [OF assms(1)])
  have gone: "backend.heals_by V data ?lim ?slug (d, i) w'"
    using backend.no_entry [OF assms(1) backend.updated_filed [OF assms(1) w assms(3-6)]] by blast
  have slug: "idle_slug V data clock bears u ?d ?slug (d, i)"
    by (intro idle_slug.intro idle_slug_axioms.intro idle_owner.intro app.intro assms(1)) (simp_all add: w')
  have idle: "idle_owner V data clock bears" by (intro idle_owner.intro app.intro assms(1))
  have "idle_slug.on_course V data u ?d ?lim ?slug (d, i) w'"
    using w'(1) gone by (simp add: idle_slug.on_course_def [OF slug] idle_owner.untouched_def [OF idle] holds_same_def)
  from idle_slug.traffic_course [OF slug assms(7) this assms(8)]
  have end': "idle_owner.untouched V u ?d w''" "backend.heals_by V data ?lim ?slug (d, i) w''"
    by (simp_all add: idle_slug.on_course_def [OF slug])
  have "ct_Destination t = d" if "backend.entries data clock w'' ?slug = Some t" for t
    using backend.healed [OF assms(1) end'(2) order_refl that] by (simp add: target_for_def)
  moreover have "backend.sane V w''" using end'(1) by (simp add: idle_owner.untouched_def [OF idle])
  ultimately show ?thesis
    using backend.visit_fresh [OF assms(1) _ idle_slug.untouched_slug [OF slug end'(1), folded assms(9)], of cfg]
    unfolding fst_conv assms(9) by blast
qed

text \<open>
  C8. A deleted code is gone. After a DELETE that succeeded and that deleted the cached target, the next
  visit of the slug gets the page for inactive codes, whatever was in the cache before and whatever
  else fails. No request is under way between the two, and the deletion of this key by Redis does not
  fail; otherwise the cached target can be served for an hour (C9, C19).
\<close>

theorem Deleted_gone:
  assumes "backend V data clock bears" and "db_ok (ev_pg V) (wd_db w)"
    and "codes_Delete (codes_svc V) u i w = (None, w')"
    and "slug_view (wd_db w) (URLParam r ''slug'') = Some (d, i)"
    and "\<And>s. fst (rd_Del (ev_redis V) (redirectKey (URLParam r ''slug'')) s) = None"
  shows "status_of (visited V cfg w' r) = 404 \<and> rw_Body (visited V cfg w' r) = notActiveHTML"
proof -
  have w: "backend.sane V w" using assms(2) by (simp add: backend.sane_def [OF assms(1)])
  have s: "backend.leads w (URLParam r ''slug'') = Some (d, i)" using assms(4) by (simp add: backend.leads_def [OF assms(1)])
  have "backend.sane V w'" "backend.leads w' (URLParam r ''slug'') = None"
    using backend.delete_world [OF assms(1) w assms(3)] s by (simp_all add: drop_slugs_def)
  moreover have "backend.entries data clock w' (URLParam r ''slug'') = None"
    using backend.no_entry [OF assms(1) backend.deleted_filed [OF assms(1) w assms(3) s assms(5)]] by blast
  ultimately show ?thesis by (rule backend.visit_nowhere [OF assms(1)])
qed

subsection \<open>Examples\<close>

definition visit_of :: "string \<Rightarrow> request" where
  "visit_of slug = sample_visit\<lparr>rq_Path := ''/r/'' @ slug, rq_Params := [''slug'' \<mapsto> slug]\<rparr>"

lemma visit_of_slug [simp]: "URLParam (visit_of slug) ''slug'' = slug" "rq_Path (visit_of slug) = ''/r/'' @ slug"
  by (simp_all add: visit_of_def URLParam_def)

lemma tick_run:
  "system_run sample_backend sample_config w [(Tick (wd_now w), None)] (w\<lparr>wd_now := wd_now w\<rparr>)"
  using system_step.tick [of w "wd_now w" sample_backend sample_config]
  by (auto simp: system_run_Cons)

theorem Created_redirects_witness:
  "\<exists>c w' slug. codes_Create (codes_svc sample_backend) sample_create sample_world = (Inr c, w') \<and>
     redirects_to (visited sample_backend sample_config w' (visit_of slug)) (''/r/'' @ slug) ''https://c.d''"
proof -
  obtain c w' where run: "codes_Create (codes_svc sample_backend) sample_create sample_world = (Inr c, w')"
    using sample_created by (metis prod.collapse)
  have "ci_IsDynamic sample_create" "sample.sane sample_world"
    using sample_db_ok by (simp_all add: sample_create_def sample.sane_def)
  then obtain dyn where dyn: "code_Dynamic c = Some dyn" using sample.created_dynamic [OF _ run] by blast
  have "redirects_to (visited sample_backend sample_config w' (visit_of (dyn_Slug dyn))) (''/r/'' @ dyn_Slug dyn) ''https://c.d''"
    using Created_redirects [OF sample_backend_ok sample_chi_laws _ _ _ sample_current run dyn tick_run [of w'],
        of "visit_of (dyn_Slug dyn)"] sample_db_ok sample_answers sample_url by simp
  with run show ?thesis by blast
qed

theorem Edited_redirects_witness:
  "\<exists>c w' slug. codes_Update (codes_svc sample_backend) 1 3 sample_update sample_world = (Inr c, w') \<and>
     redirects_to (visited sample_backend sample_config w' (visit_of slug)) (''/r/'' @ slug) ''https://c.d''"
proof -
  obtain c w' where run: "codes_Update (codes_svc sample_backend) 1 3 sample_update sample_world = (Inr c, w')"
    using sample_updated by (metis prod.collapse)
  have d: "ui_Destination sample_update = Some ''https://c.d''" by (simp add: sample_update_def)
  have "code_Dynamic c \<noteq> None"
    using sample.codes.Update_spec [OF _ run] sample_db_ok d
    by (simp add: sample.sane_def sample.codes.update_result_def)
  then obtain dyn where dyn: "code_Dynamic c = Some dyn" by blast
  have "redirects_to (visited sample_backend sample_config w' (visit_of (dyn_Slug dyn))) (''/r/'' @ dyn_Slug dyn) ''https://c.d''"
    using Edited_redirects [OF sample_backend_ok _ run d dyn _ traffic_run.idle, of "visit_of (dyn_Slug dyn)" sample_config]
      sample_db_ok sample_answers by (simp add: Let_def)
  with run show ?thesis by blast
qed

theorem Deleted_gone_witness:
  "\<exists>w'. codes_Delete (codes_svc sample_backend) 1 3 sample_world = (None, w') \<and>
     status_of (visited sample_backend sample_config w' (visit_of ''taken'')) = 404"
proof -
  obtain w' where run: "codes_Delete (codes_svc sample_backend) 1 3 sample_world = (None, w')"
    using sample_deleted by blast
  have "slug_view sample_db ''taken'' = Some (''https://a.b'', 3)" by code_simp
  with Deleted_gone [OF sample_backend_ok _ run, of "visit_of ''taken''" "''https://a.b''" sample_config]
    run sample_db_ok sample_answers show ?thesis by simp
qed

end
