(* ===== verification/CacheProperties.thy ===== *)
theory CacheProperties
  imports Sample CodesLaws
begin

text \<open>
  What is written is what is read back, as long as it should be: cached targets and verdicts until they
  expire, cursors; and the slugs.
\<close>

subsection \<open>Cache entries\<close>

text \<open>An entry that was stored is read, or an error, until its deadline; from then on it is not.\<close>

definition read_back :: "instant \<Rightarrow> instant \<Rightarrow> 'x \<Rightarrow> err + 'x option \<Rightarrow> bool" where
  "read_back now deadline x r \<longleftrightarrow>
     (now < deadline \<longrightarrow> r = Inr (Some x) \<or> (\<exists>e. r = Inl e)) \<and>
     (deadline \<le> now \<longrightarrow> r = Inr None \<or> (\<exists>e. r = Inl e))"

context redis_server
begin

lemma set_then_get:
  assumes "rd_Set R k v d s = (None, s1)" "0 < d" "rd_Get R k s1 = (r, s2)"
  shows "case r of Inr v' \<Rightarrow> v' = v \<and> clock s2 < clock s1 + d
    | Inl e \<Rightarrow> clock s2 < clock s1 + d \<longrightarrow> \<not> errors_is e RedisNil"
proof -
  have "data s1 k = Some (v, Some (clock s1 + d))" using set [OF assms(1,2)] by auto
  then have "live (clock s2) (data s1) k = (if clock s2 < clock s1 + d then Some v else None)"
    by (simp add: live_def)
  with get [OF assms(3)] show ?thesis by (auto split: sum.splits if_splits)
qed

lemma store_then_lookup:
  assumes "target_text t" "cache_Store R slug t s = (None, s1)" "cache_Lookup R slug s1 = (r, s2)"
  shows "read_back (clock s2) (clock s1 + redirectTTL) t r"
proof -
  obtain b where b: "json_encode (target_json t) = Some b" "target_of_json b = Some t"
    using target_round_trip [OF assms(1)] by blast
  from assms(2) b(1) have st: "rd_Set R (redirectKey slug) b redirectTTL s = (None, s1)"
    by (auto simp: cache_Store_def split: prod.splits option.splits)
  obtain q s3 where q: "rd_Get R (redirectKey slug) s1 = (q, s3)" by (rule prod.exhaust)
  have "s3 = s2" using q assms(3) by (auto simp: cache_Lookup_def split: sum.splits option.splits)
  with set_then_get [OF st redirectTTL_pos q] q assms(3) b(2) show ?thesis
    by (cases q) (auto simp: cache_Lookup_def read_back_def split: if_splits)
qed

lemma verdict_then_get:
  assumes "result_text x" "safety_Set R u x s = (None, s1)" "safety_Get R u s1 = (r, s2)"
  shows "read_back (clock s2) (clock s1 + safetyTTL) x r"
proof -
  obtain b where b: "json_encode (result_json x) = Some b" "result_of_json b = Some x"
    using result_round_trip [OF assms(1)] by blast
  from assms(2) b(1) have st: "rd_Set R (safetyKey u) b safetyTTL s = (None, s1)"
    by (auto simp: safety_Set_def split: prod.splits option.splits)
  obtain q s3 where q: "rd_Get R (safetyKey u) s1 = (q, s3)" by (rule prod.exhaust)
  have "s3 = s2" using q assms(3) by (auto simp: safety_Get_def split: sum.splits option.splits)
  with set_then_get [OF st safetyTTL_pos q] q assms(3) b(2) show ?thesis
    by (cases q) (auto simp: safety_Get_def read_back_def split: if_splits)
qed

end

text \<open>
  C31. A target that was stored in the cache is looked up unchanged for an hour of the server's time,
  unless Redis fails, and never after: what a lost invalidation leaves behind is gone after an hour.
\<close>

theorem Target_round_trip:
  assumes "redis_server R data clock" and "target_text t"
    and "cache_Store R slug t s = (None, s1)" and "cache_Lookup R slug s1 = (r, s2)"
  shows "read_back (clock s2) (clock s1 + redirectTTL) t r"
  by (rule redis_server.store_then_lookup [OF assms])

text \<open>
  A verdict with its reasons that was stored in the cache is read back unchanged for six hours of
  the server's time, unless Redis fails, and never after.
\<close>

theorem Verdict_round_trip:
  assumes "redis_server R data clock" and "result_text x"
    and "safety_Set R u x s = (None, s1)" and "safety_Get R u s1 = (r, s2)"
  shows "read_back (clock s2) (clock s1 + safetyTTL) x r"
  by (rule redis_server.verdict_then_get [OF assms])

lemma utf8_samples:
  "utf8_valid ''https://c.d''" "utf8_valid ''id''" "utf8_valid ''safe''"
  by (rule ascii_utf8; simp add: is_ascii_def byte_def)+

definition sample_target :: cached_target where
  "sample_target = \<lparr>ct_Destination = ''https://c.d'', ct_CodeID = ''id''\<rparr>"

theorem Target_round_trip_witness:
  "\<exists>s1 r s2. cache_Store (mem_redis sample_mem_env) ''taken'' sample_target sample_mem = (None, s1) \<and>
     cache_Lookup (mem_redis sample_mem_env) ''taken'' s1 = (r, s2) \<and>
     (r = Inr (Some sample_target) \<or> (\<exists>e. r = Inl e))"
proof -
  have t: "target_text sample_target" by (simp add: sample_target_def target_text_def utf8_samples)
  obtain b where "json_encode (target_json sample_target) = Some b"
    using target_round_trip [OF t] by blast
  then obtain s1 where s1: "cache_Store (mem_redis sample_mem_env) ''taken'' sample_target sample_mem = (None, s1)"
    by (simp add: cache_Store_def Let_def)
  obtain r s2 where r: "cache_Lookup (mem_redis sample_mem_env) ''taken'' s1 = (r, s2)" by (rule prod.exhaust)
  have "mem_clock s2 = mem_clock s1 + 1"
    using r by (auto simp: cache_Lookup_def Let_def split: option.splits sum.splits if_splits)
  with Target_round_trip [OF sample_redis.redis_server_axioms t s1 r] s1 r show ?thesis
    by (auto simp: read_back_def redirectTTL_def hour_def)
qed

definition sample_result :: safety_result where
  "sample_result = \<lparr>sr_URL = ''https://c.d'', sr_Verdict = ''safe'', sr_Reasons = [], sr_Cached = False\<rparr>"

theorem Verdict_round_trip_witness:
  "\<exists>s1 r s2. safety_Set (mem_redis sample_mem_env) ''https://c.d'' sample_result sample_mem = (None, s1) \<and>
     safety_Get (mem_redis sample_mem_env) ''https://c.d'' s1 = (r, s2) \<and>
     (r = Inr (Some sample_result) \<or> (\<exists>e. r = Inl e))"
proof -
  have t: "result_text sample_result" by (simp add: sample_result_def result_text_def utf8_samples)
  obtain b where "json_encode (result_json sample_result) = Some b"
    using result_round_trip [OF t] by blast
  then obtain s1 where s1: "safety_Set (mem_redis sample_mem_env) ''https://c.d'' sample_result sample_mem = (None, s1)"
    by (simp add: safety_Set_def Let_def)
  obtain r s2 where r: "safety_Get (mem_redis sample_mem_env) ''https://c.d'' s1 = (r, s2)" by (rule prod.exhaust)
  have "mem_clock s2 = mem_clock s1 + 1"
    using r by (auto simp: safety_Get_def Let_def split: option.splits sum.splits if_splits)
  with Verdict_round_trip [OF sample_redis.redis_server_axioms t s1 r] s1 r show ?thesis
    by (auto simp: read_back_def safetyTTL_def)
qed

subsection \<open>Cursors\<close>

text \<open>
  C32. A cursor that the service hands out is decoded to the same position, for every time in the years
  0 to 9999, and so the cursors of two positions differ.
\<close>

theorem Cursor_round_trip:
  assumes "uuid_laws U" and "year4 (cur_CreatedAt c)"
  shows "decodeCursor U (encodeCursor U c) = Inr c \<and>
    (\<forall>c'. year4 (cur_CreatedAt c') \<longrightarrow> encodeCursor U c' = encodeCursor U c \<longrightarrow> c' = c)"
  using uuid_laws.decode_encode_cursor [OF assms(1)] assms(2) by (metis sum.inject(2))

theorem Cursor_round_trip_witness:
  "decodeCursor canonical_uuid (encodeCursor canonical_uuid (Cursor 1500000000123456789 7)) =
     Inr (Cursor 1500000000123456789 7)"
proof -
  have "year4 (cur_CreatedAt (Cursor 1500000000123456789 7))" by code_simp
  from Cursor_round_trip [OF canonical.uuid_laws_axioms this] show ?thesis by blast
qed

subsection \<open>Slugs\<close>

text \<open>
  C33. A slug is eight letters and digits, whatever the source of random bytes does: the symbols of the bytes of
  a buffer of eight, which are those of the source if it fills the buffer. The reduction modulo 62
  gives each of the first eight symbols (the digits 0 to 7) five of the 256 bytes and every other one
  four.
\<close>

theorem Slug_symbols:
  "(GenerateSlug rnd = Inr slug \<longrightarrow> length slug = 8 \<and> set slug \<subseteq> set slugAlphabet \<and>
      (\<exists>bs. rnd 8 = Inr bs \<and>
        (length bs = 8 \<longrightarrow> (\<forall>k < 8. slug ! k = slugAlphabet ! (byte (bs ! k) mod 62))))) \<and>
    (\<forall>i < 62. card {n :: nat. n < 256 \<and> slug_symbol (char_of n) = slugAlphabet ! i} = (if i < 8 then 5 else 4))"
proof (intro conjI allI impI)
  assume "GenerateSlug rnd = Inr slug"
  then obtain bs where bs: "rnd 8 = Inr bs" "slug = map slug_symbol (fill (replicate 8 (CHR 0x00)) bs)"
    by (auto simp: GenerateSlug_def SlugLength_def Let_def split: sum.splits)
  then show "length slug = 8" "set slug \<subseteq> set slugAlphabet" using slug_symbol_in by auto
  have "slug = map slug_symbol bs" if "length bs = 8" using bs(2) fill_whole [of bs "replicate 8 (CHR 0x00)"] that by simp
  with bs(1) show "\<exists>bs. rnd 8 = Inr bs \<and>
      (length bs = 8 \<longrightarrow> (\<forall>k < 8. slug ! k = slugAlphabet ! (byte (bs ! k) mod 62)))"
    by (auto simp: slug_symbol_def)
next
  fix i :: nat assume i: "i < 62"
  have "n < 256 \<and> slug_symbol (char_of n) = slugAlphabet ! i \<longleftrightarrow> n < 256 \<and> n mod 62 = i" for n :: nat
    using slug_symbol_eq_nth [OF i, of "char_of n"] by (auto simp: byte_def)
  moreover have "{n :: nat. n < 256 \<and> n mod 62 = i} =
      set ([i, i + 62, i + 124, i + 186] @ (if i < 8 then [i + 248] else []))" (is "?l = ?r")
  proof
    show "?l \<subseteq> ?r"
    proof
      fix n assume "n \<in> ?l"
      then have n: "n < 256" "n = 62 * (n div 62) + i" using div_mult_mod_eq [of n 62] by simp_all
      then have "n div 62 \<in> {0, 1, 2, 3, 4}" by auto
      with n i show "n \<in> ?r" by auto
    qed
    have "(i + k * 62) mod 62 = i" for k using i by simp
    from this [of 1] this [of 2] this [of 3] this [of 4] show "?r \<subseteq> ?l"
      using i by (cases "i < 8") simp_all
  qed
  moreover have "card ?r = (if i < 8 then 5 else 4)" by (subst distinct_card) simp_all
  ultimately show "card {n :: nat. n < 256 \<and> slug_symbol (char_of n) = slugAlphabet ! i} = (if i < 8 then 5 else 4)"
    by simp
qed

theorem Slug_symbols_witness:
  "GenerateSlug (\<lambda>n. Inr (replicate n (CHR ''0''))) = Inr ''mmmmmmmm'' \<and> set ''mmmmmmmm'' \<subseteq> set slugAlphabet \<and>
   card {n :: nat. n < 256 \<and> slug_symbol (char_of n) = CHR ''3''} = 5"
proof -
  have g: "GenerateSlug (\<lambda>n. Inr (replicate n (CHR ''0''))) = Inr ''mmmmmmmm''" by code_simp
  have three: "slugAlphabet ! 3 = CHR ''3''" by (simp add: slugAlphabet_def)
  note both = Slug_symbols [of "\<lambda>n. Inr (replicate n (CHR ''0''))" "''mmmmmmmm''"]
  from conjunct1 [OF both, THEN mp, OF g] have "length ''mmmmmmmm'' = 8" "set ''mmmmmmmm'' \<subseteq> set slugAlphabet" by blast+
  moreover have "card {n :: nat. n < 256 \<and> slug_symbol (char_of n) = slugAlphabet ! 3} = 5"
    using conjunct2 [OF both, rule_format, of 3] by simp
  ultimately show ?thesis using g three by simp
qed

end
