(* ===== verification/Interleaving.thy ===== *)
theory Interleaving
  imports Lifecycle CacheProperties
begin

text \<open>
  Two requests at the same time: a redirect that misses the cache reads the tables and fills the cache in
  two steps, and an edit can come between them.
\<close>

subsection \<open>The two steps of a redirect\<close>

text \<open>
  \<open>Resolve\<close> up to the database (a hit, or the row of the slug), and from there on. Between the two, other
  requests run.
\<close>

definition resolve_read :: "'w redirect_service \<Rightarrow> string \<Rightarrow> ('w, string + string \<times> uuid) act" where
  "resolve_read S slug w =
     (case ca_Lookup (rs_cache S) slug w of
        (Inr (Some t), w1) \<Rightarrow> (Inr (Inl (ct_Destination t)), w1)
      | (_, w1) \<Rightarrow>
          (case sr_ResolveSlug (rs_repo S) slug w1 of
             (Inl e, w2) \<Rightarrow> (Inl e, w2)
           | (Inr x, w2) \<Rightarrow> (Inr (Inr x), w2)))"

definition resolve_fill :: "'w redirect_service \<Rightarrow> string \<Rightarrow> err + string + string \<times> uuid \<Rightarrow> ('w, string) act" where
  "resolve_fill S slug r w =
     (case r of
        Inl e \<Rightarrow> (Inl e, w)
      | Inr (Inl dest) \<Rightarrow> (Inr dest, w)
      | Inr (Inr x) \<Rightarrow> (Inr (fst x), snd (ca_Store (rs_cache S) slug (target_for (rs_uuid S) x) w)))"

lemma Resolve_split: "Resolve S slug w = (case resolve_read S slug w of (r, w1) \<Rightarrow> resolve_fill S slug r w1)"
  by (simp add: Resolve_def resolve_read_def resolve_fill_def split: prod.split sum.split option.split)

subsection \<open>An edit in between\<close>

context backend
begin

lemma read_leads:
  assumes "sane w" "resolve_read (redirect_svc V) slug w = (Inr (Inr x), w1)"
  shows "sane w1 \<and> leads w1 slug = Some x \<and> utf8_valid (fst x)"
proof -
  obtain l w0 where l: "ca_Lookup (rs_cache (redirect_svc V)) slug w = (l, w0)" by (rule prod.exhaust)
  have w0: "sane w0" using redirect.lookup_frame [OF assms(1), of slug] l by simp
  have "sr_ResolveSlug (rs_repo (redirect_svc V)) slug w0 = (Inr x, w1)"
    using assms(2) l by (auto simp: resolve_read_def split: sum.splits option.splits prod.splits)
  from redirect.resolve [OF w0 this] show ?thesis by simp
qed

lemma edited_slug:
  assumes w: "sane w" "leads w slug = Some x"
    and run: "codes_Update (codes_svc V) u (snd x) inp w = (Inr c, w')" and d: "ui_Destination inp = Some d"
  shows "sane w' \<and> leads w' slug = Some (d, snd x)"
proof -
  obtain old where old: "owned u (held w (snd x)) = Some old" "updated_code inp old c"
    using update_world [OF w(1) run] by auto
  have "\<exists>dyn. code_Dynamic old = Some dyn \<and> dyn_Slug dyn = slug"
    using codes.slugs_view [OF w(1), of slug "fst x" "snd x"] w(2) old(1) by (auto simp: owned_def split: if_splits)
  then obtain dyn where "code_Dynamic c = Some dyn" "dyn_Slug dyn = slug"
    using old(2) by (auto simp: updated_code_def)
  with updated_leads [OF w(1) run d] show ?thesis by blast
qed

lemma filled_resolves:
  assumes x: "utf8_valid (fst x)"
    and st: "ca_Store (target_cache (ev_redis V)) slug (target_for (ev_uuid V) x) w = (None, w')"
    and look: "ca_Lookup (target_cache (ev_redis V)) slug w' = (Inr t, w'')"
    and now: "clock (wd_redis w'') < clock (wd_redis w') + redirectTTL"
  shows "Resolve (redirect_svc V) slug w' = (Inr (fst x), w'')"
proof -
  obtain s1 where s1: "cache_Store (ev_redis V) slug (target_for (ev_uuid V) x) (wd_redis w) = (None, s1)" "wd_redis w' = s1"
    using st by (auto simp: target_cache_def on_redis_iff)
  obtain s2 where s2: "cache_Lookup (ev_redis V) slug s1 = (Inr t, s2)" "wd_redis w'' = s2"
    using look s1(2) by (auto simp: target_cache_def on_redis_iff)
  have "target_text (target_for (ev_uuid V) x)"
    using x redirect.uuid_text by (simp add: target_text_def target_for_def redirect_svc_def)
  from store_then_lookup [OF this s1(1) s2(1)] now s1(2) s2(2) have "t = Some (target_for (ev_uuid V) x)"
    by (simp add: read_back_def)
  with look show ?thesis by (simp add: Resolve_def redirect_svc_def target_for_def)
qed

end

text \<open>
  C19. A redirect and an edit at the same time can leave the old destination in the cache, although nothing
  fails. A redirect of any slug reads its row; any PATCH of that code gives it a new destination (and
  invalidates its entry); then the redirect stores what it has read. The tables now have the new
  destination, but the next visit, if Redis answers it within the hour, is sent to the old one: whatever
  was in the cache and in the tables before.
\<close>

theorem Resolve_race:
  assumes "backend V data clock bears" and "db_ok (ev_pg V) (wd_db w)"
    and "resolve_read (redirect_svc V) (URLParam r ''slug'') w = (Inr (Inr x), w1)"
    and "codes_Update (codes_svc V) u (snd x) inp w1 = (Inr c, w2)" and "ui_Destination inp = Some d"
    and "resolve_fill (redirect_svc V) (URLParam r ''slug'') (Inr (Inr x)) w2 = (q, w3)"
    and "fst (ca_Store (target_cache (ev_redis V)) (URLParam r ''slug'') (target_for (ev_uuid V) x) w2) = None"
    and "ca_Lookup (target_cache (ev_redis V)) (URLParam r ''slug'') w3 = (Inr t, w4)"
    and "clock (wd_redis w4) < clock (wd_redis w3) + redirectTTL"
  shows "q = Inr (fst x) \<and> slug_view (wd_db w3) (URLParam r ''slug'') = Some (d, snd x) \<and>
    redirects_to (visited V cfg w3 r) (rq_Path r) (fst x)"
proof -
  let ?slug = "URLParam r ''slug''"
  have w: "backend.sane V w" using assms(2) by (simp add: backend.sane_def [OF assms(1)])
  note w1 = backend.read_leads [OF assms(1) w assms(3)]
  have w2: "backend.leads w2 ?slug = Some (d, snd x)"
    using backend.edited_slug [OF assms(1) _ _ assms(4,5)] w1 by blast
  have q: "q = Inr (fst x)" "ca_Store (target_cache (ev_redis V)) ?slug (target_for (ev_uuid V) x) w2 = (None, w3)"
    using assms(6,7) by (auto simp: resolve_fill_def redirect_svc_def intro: prod_eqI)
  have "wd_db w3 = wd_db w2" using q(2) by (auto simp: target_cache_def on_redis_iff)
  moreover have "rh_Resolve (hs_Redirect (all_handlers V cfg)) ?slug w3 = (Inr (fst x), w4)"
    using backend.filled_resolves [OF assms(1) _ q(2) assms(8,9)] w1 by (simp add: backend.redirect_handler_simps [OF assms(1)])
  from Redirect_found [OF this fresh_new] have "redirects_to (visited V cfg w3 r) (rq_Path r) (fst x)"
    by (auto simp: visited_def redirects_to_def)
  ultimately show ?thesis using q(1) w2 by (simp add: backend.leads_def [OF assms(1)])
qed

subsection \<open>Example\<close>

lemma race_steps:
  "case repo_ResolveSlug sample_env ''taken'' sample_db of
     (Inr x, d0) \<Rightarrow> x = (''https://a.b'', 3) \<and>
       (case repo_GetByID sample_env 1 3 d0 of
         (Inr c, d1) \<Rightarrow> code_IsDynamic c \<and> code_ID c = 3 \<and> code_Dynamic c \<noteq> None \<and>
           (case repo_UpdateDestination sample_env 3 ''https://c.d'' d1 of
             (None, d2) \<Rightarrow> (case repo_UpdateLabel sample_env 1 3 (Some ''new'') d2 of
               (None, d3) \<Rightarrow> (case repo_GetByID sample_env 1 3 d3 of
                  (Inr c', d4) \<Rightarrow> slug_view d4 ''taken'' = Some (''https://c.d'', 3) | _ \<Rightarrow> False)
             | _ \<Rightarrow> False)
           | _ \<Rightarrow> False)
       | _ \<Rightarrow> False)
   | _ \<Rightarrow> False"
  by code_simp

lemma race_text: "target_text (target_for canonical_uuid (''https://a.b'', 3))"
proof -
  have "utf8_valid ''https://a.b''" by code_simp
  moreover have "utf8_valid (uuid_String canonical_uuid 3)"
    using ascii_utf8 [OF sample.uuid_char_ascii [OF canonical.string_chars]] .
  ultimately show ?thesis by (simp add: target_for_def target_text_def)
qed

lemma race:
  "\<exists>w1 c w2 w4 t. resolve_read (redirect_svc sample_backend) ''taken'' sample_world = (Inr (Inr (''https://a.b'', 3)), w1) \<and>
     codes_Update (codes_svc sample_backend) 1 3 sample_update w1 = (Inr c, w2) \<and>
     (let w3 = snd (ca_Store (target_cache (mem_redis sample_mem_env)) ''taken'' (target_for canonical_uuid (''https://a.b'', 3)) w2) in
        fst (ca_Store (target_cache (mem_redis sample_mem_env)) ''taken'' (target_for canonical_uuid (''https://a.b'', 3)) w2) = None \<and>
        ca_Lookup (target_cache (mem_redis sample_mem_env)) ''taken'' w3 = (Inr t, w4) \<and>
        mem_clock (wd_redis w4) < mem_clock (wd_redis w3) + redirectTTL)"
proof -
  let ?x = "(''https://a.b'', 3)" and ?key = "redirectKey ''taken''"
  obtain d0 c d1 d2 d3 c' d4 dyn where steps: "repo_ResolveSlug sample_env ''taken'' sample_db = (Inr ?x, d0)"
    "repo_GetByID sample_env 1 3 d0 = (Inr c, d1)" "code_IsDynamic c" "code_ID c = 3" "code_Dynamic c = Some dyn"
    "repo_UpdateDestination sample_env 3 ''https://c.d'' d1 = (None, d2)"
    "repo_UpdateLabel sample_env 1 3 (Some ''new'') d2 = (None, d3)" "repo_GetByID sample_env 1 3 d3 = (Inr c', d4)"
    "slug_view d4 ''taken'' = Some (''https://c.d'', 3)"
    using race_steps by (auto split: prod.splits sum.splits option.splits)
  define s1 where "s1 = sample_mem\<lparr>mem_clock := mem_clock sample_mem + 1, mem_tick := Suc (mem_tick sample_mem)\<rparr>"
  define w1 where "w1 = sample_world\<lparr>wd_db := d0, wd_redis := s1\<rparr>"
  have read: "resolve_read (redirect_svc sample_backend) ''taken'' sample_world = (Inr (Inr ?x), w1)"
    using steps(1) by (simp add: resolve_read_def redirect_svc_def target_cache_def slug_repo_def on_redis_def on_db_def
        cache_Lookup_def Let_def w1_def s1_def)
  have "\<exists>s. guardDestination (codes_svc sample_backend) ''https://c.d'' (w1\<lparr>wd_db := d1\<rparr>) = (None, w1\<lparr>wd_db := d1, wd_redis := s\<rparr>)"
    using fresh_guard [of "w1\<lparr>wd_db := d1\<rparr>" "''https://c.d''"]
    by (auto simp: sample_verdict VerdictSafe_def VerdictMalicious_def w1_def s1_def)
  then obtain s where g: "guardDestination (codes_svc sample_backend) ''https://c.d'' (w1\<lparr>wd_db := d1\<rparr>) =
      (None, w1\<lparr>wd_db := d1, wd_redis := s\<rparr>)" by blast
  define s2 where "s2 = snd (rd_Del (mem_redis sample_mem_env) (redirectKey (dyn_Slug dyn)) s)"
  have edit: "codes_Update (codes_svc sample_backend) 1 3 sample_update w1 = (Inr c', w1\<lparr>wd_redis := s2, wd_db := d4\<rparr>)"
    using steps g by (simp add: codes_Update_def sample_update_def codes_svc_def codes_repo_def on_db_def on_redis_def
        update_destination_part_def update_label_part_def target_cache_def cache_Invalidate_def Let_def w1_def s2_def)
  let ?w2 = "w1\<lparr>wd_redis := s2, wd_db := d4\<rparr>"
  obtain b where b: "json_encode (target_json (target_for canonical_uuid ?x)) = Some b"
    "target_of_json b = Some (target_for canonical_uuid ?x)"
    using target_round_trip [OF race_text] by blast
  define s3 where "s3 = snd (rd_Set (mem_redis sample_mem_env) ?key b redirectTTL s2)"
  define w3 where "w3 = ?w2\<lparr>wd_redis := s3\<rparr>"
  have fill: "ca_Store (target_cache (mem_redis sample_mem_env)) ''taken'' (target_for canonical_uuid ?x) ?w2 = (None, w3)"
    using b(1) by (simp add: target_cache_def on_redis_def cache_Store_def Let_def s3_def w3_def)
  have "live (mem_clock s3 + 1) (mem_data s3) ?key = Some b"
    by (simp add: s3_def Let_def live_def redirectTTL_def hour_def)
  then have "\<exists>w4. ca_Lookup (target_cache (mem_redis sample_mem_env)) ''taken'' w3 = (Inr (Some (target_for canonical_uuid ?x)), w4) \<and>
      mem_clock (wd_redis w4) = mem_clock (wd_redis w3) + 1"
    using b(2) by (simp add: target_cache_def on_redis_def cache_Lookup_def Let_def w3_def)
  then obtain w4 where look: "ca_Lookup (target_cache (mem_redis sample_mem_env)) ''taken'' w3 =
      (Inr (Some (target_for canonical_uuid ?x)), w4)" "mem_clock (wd_redis w4) = mem_clock (wd_redis w3) + 1"
    by blast
  show ?thesis
    by (rule exI [of _ w1], rule exI [of _ c'], rule exI [of _ ?w2], rule exI [of _ w4],
        rule exI [of _ "Some (target_for canonical_uuid ?x)"])
      (unfold fill Let_def fst_conv snd_conv, simp add: read edit look redirectTTL_def hour_def)
qed

theorem Resolve_race_witness:
  "\<exists>w1 c w2 w3. resolve_read (redirect_svc sample_backend) ''taken'' sample_world = (Inr (Inr (''https://a.b'', 3)), w1) \<and>
     codes_Update (codes_svc sample_backend) 1 3 sample_update w1 = (Inr c, w2) \<and>
     resolve_fill (redirect_svc sample_backend) ''taken'' (Inr (Inr (''https://a.b'', 3))) w2 = (Inr ''https://a.b'', w3) \<and>
     slug_view (wd_db w3) ''taken'' = Some (''https://c.d'', 3) \<and>
     redirects_to (visited sample_backend sample_config w3 (visit_of ''taken'')) ''/r/taken'' ''https://a.b''"
proof -
  let ?x = "(''https://a.b'', 3) :: string \<times> uuid"
  obtain w1 c w2 w4 t where run: "resolve_read (redirect_svc sample_backend) ''taken'' sample_world = (Inr (Inr ?x), w1)"
    "codes_Update (codes_svc sample_backend) 1 3 sample_update w1 = (Inr c, w2)"
    "fst (ca_Store (target_cache (mem_redis sample_mem_env)) ''taken'' (target_for canonical_uuid ?x) w2) = None"
    "ca_Lookup (target_cache (mem_redis sample_mem_env)) ''taken''
       (snd (ca_Store (target_cache (mem_redis sample_mem_env)) ''taken'' (target_for canonical_uuid ?x) w2)) = (Inr t, w4)"
    "mem_clock (wd_redis w4) <
       mem_clock (wd_redis (snd (ca_Store (target_cache (mem_redis sample_mem_env)) ''taken'' (target_for canonical_uuid ?x) w2))) + redirectTTL"
    using race unfolding Let_def by (elim exE conjE) (rule that)
  obtain q w3 where fill: "resolve_fill (redirect_svc sample_backend) ''taken'' (Inr (Inr ?x)) w2 = (q, w3)" by (rule prod.exhaust)
  then have w3: "w3 = snd (ca_Store (target_cache (mem_redis sample_mem_env)) ''taken'' (target_for canonical_uuid ?x) w2)"
    by (simp add: resolve_fill_def redirect_svc_def)
  have d: "ui_Destination sample_update = Some ''https://c.d''" by (simp add: sample_update_def)
  have "q = Inr ''https://a.b'' \<and> slug_view (wd_db w3) ''taken'' = Some (''https://c.d'', 3) \<and>
      redirects_to (visited sample_backend sample_config w3 (visit_of ''taken'')) ''/r/taken'' ''https://a.b''"
    using Resolve_race [OF sample_backend_ok, of sample_world "visit_of ''taken''" ?x w1 1 sample_update c w2 "''https://c.d''" q w3 t w4]
      run fill w3 d sample_db_ok by simp
  with run(1,2) fill show ?thesis by metis
qed

end
