(* ===== verification/SafeRedirects.thy ===== *)
theory SafeRedirects
  imports Actions Interleaving
begin

text \<open>
  No visitor is ever redirected to a destination that the checker calls malicious, with the actions of all
  requests in any order, and although the cache may be behind the tables: redirects that race with edits,
  invalidations that fail, answers of the database that get lost.
\<close>

subsection \<open>The actions\<close>

text \<open>A world in which no slug and no cached target leads to a malicious destination, and no verdict is wrong.\<close>

context safe_app
begin

definition settled :: "'r world \<Rightarrow> bool" where
  "settled w \<longleftrightarrow> safe w \<and> (\<forall>slug t. entries w slug = Some t \<longrightarrow> \<not> malicious V (ct_Destination t))"

lemma settled_shrink: "settled w \<Longrightarrow> safe w' \<Longrightarrow> entries w' \<subseteq>\<^sub>m entries w \<Longrightarrow> settled w'"
  unfolding settled_def by (blast dest: map_leD)

lemma lookup_settled:
  assumes w: "settled w" and run: "ca_Lookup (target_cache (ev_redis V)) slug w = (l, w')"
  shows "settled w' \<and> (\<forall>t. l = Inr (Some t) \<longrightarrow> \<not> malicious V (ct_Destination t))"
proof -
  have "wd_db w' = wd_db w" using run by (auto simp: target_cache_def on_redis_iff)
  then have "safe w'" using w lookup_judged [OF _ run] by (simp add: settled_def safe_def sane_def leads_def)
  with wc.lookup [OF run] settled_shrink [OF w] w show ?thesis by (auto simp: settled_def)
qed

lemma store_settled:
  assumes w: "settled w" and run: "ca_Store (target_cache (ev_redis V)) slug t w = (x, w')"
    and t: "target_text t" "\<not> malicious V (ct_Destination t)"
  shows "settled w'"
proof -
  have "wd_db w' = wd_db w" using run by (auto simp: target_cache_def on_redis_iff)
  then have s: "safe w'" using w store_judged [OF _ run] by (simp add: settled_def safe_def sane_def leads_def)
  show ?thesis
    unfolding settled_def
  proof (intro conjI allI impI s)
    fix k u assume u: "entries w' k = Some u"
    have "((entries w)(slug \<mapsto> t)) k = Some u \<or> entries w k = Some u"
      using wc.store [OF run t(1)] u by (blast dest: map_leD)
    then consider "k = slug" "u = t" | "entries w k = Some u" by (cases "k = slug") auto
    then show "\<not> malicious V (ct_Destination u)" using w t(2) by cases (auto simp: settled_def)
  qed
qed

lemma settledI:
  assumes "settled w" "sane w'" "ages w w'" "judged_well w'" "leads_only (\<lambda>x. \<not> malicious V x) (leads w')"
  shows "settled w'"
  using settled_shrink [OF assms(1)] ages_entries [OF assms(3)] assms(2,4,5) by (simp add: safe_def)

lemma settledD:
  assumes "settled w"
  shows "sane w" "judged_well w" "leads_only (\<lambda>x. \<not> malicious V x) (leads w)"
  using assms by (simp_all add: settled_def safe_def)

lemma settled_db:
  assumes w: "settled w" and run: "on_db act w = (r, w')"
    and w': "sane w'" "leads_only (\<lambda>x. \<not> malicious V x) (leads w')"
  shows "settled w'"
proof (rule settledI [OF w w'(1) _ _ w'(2)])
  show "ages w w'" using run by (intro ages_same) (auto simp: on_db_iff)
  show "judged_well w'" using judged_well_db [OF run] settledD(2) [OF w] .
qed

lemma settled_redis:
  assumes w: "settled w" and "wd_db w' = wd_db w" "ages w w'" "judged_well w'"
  shows "settled w'"
  using assms settledD [OF w] by (intro settledI [OF w]) (simp_all add: sane_def leads_def)

lemma verdict_get_settled:
  assumes w: "settled w" and u: "u \<in> X" and run: "sc_Get (ss_cache (safety_svc V)) u w = (r, w')"
  shows "settled w' \<and> (\<forall>x. r = Inr (Some x) \<longrightarrow> sr_Verdict x \<noteq> VerdictMalicious \<longrightarrow> \<not> malicious V u)"
proof -
  note get = wv.get [OF run]
  have db: "wd_db w' = wd_db w" and safe: "safety_Get (ev_redis V) u (wd_redis w) = (r, wd_redis w')"
    using run by (auto simp: safety_svc_def redis_safety_cache_def on_redis_iff)
  have "judged_well w'" using judged_well_shrink settledD(2) [OF w] get by blast
  moreover have "ages w w'" using safety_Get_aged [OF safe] by (simp add: ages_def)
  ultimately have "settled w'" using settled_redis [OF w db] by blast
  moreover have "\<not> malicious V u" if "r = Inr (Some x)" "sr_Verdict x \<noteq> VerdictMalicious" for x
  proof -
    have "verdicts_of w u = Some x" using get that by blast
    with wv.soundD settledD(2) [OF w] obtain v where v: "v \<in> X" "safetyKey v = safetyKey u"
      "x = ss_checker (safety_svc V) v"
      unfolding judged_well_def by metis
    then have "v = u" using apart u by (auto dest: inj_onD)
    with v(3) that(2) show ?thesis by (simp add: malicious_def checker_simp)
  qed
  ultimately show ?thesis by blast
qed

lemma verdict_set_settled:
  assumes w: "settled w" and u: "u \<in> X"
    and run: "sc_Set (ss_cache (safety_svc V)) u (ss_checker (safety_svc V) u) w = (e, w')"
  shows "settled w'"
proof -
  have db: "wd_db w' = wd_db w" and safe: "safety_Set (ev_redis V) u (ss_checker (safety_svc V) u) (wd_redis w) = (e, wd_redis w')"
    using run by (auto simp: safety_svc_def redis_safety_cache_def on_redis_iff)
  have "result_text (ss_checker (safety_svc V) u)"
    unfolding checker_simp by (rule Check_text) (rule texts [OF u])
  note law = wv.set [OF run this]
  have "judged_well w'"
    unfolding judged_well_def wv.sound_def
  proof (intro allI impI)
    fix v r assume r: "verdicts_of w' v = Some r"
    have "(if safetyKey v = safetyKey u then Some (ss_checker (safety_svc V) u) else verdicts_of w v) = Some r \<or>
        verdicts_of w v = Some r"
      using law r by (blast dest: map_leD)
    then consider "safetyKey u = safetyKey v" "r = ss_checker (safety_svc V) u" | "verdicts_of w v = Some r"
      by (auto split: if_splits)
    then show "\<exists>x \<in> X. safetyKey x = safetyKey v \<and> r = ss_checker (safety_svc V) x"
      using u wv.soundD settledD(2) [OF w] unfolding judged_well_def by cases blast+
  qed
  moreover have "ages w w'" using safety_Set_aged [OF safe] by (simp add: ages_def)
  ultimately show ?thesis using settled_redis [OF w db] by blast
qed

lemma slug_read_settled:
  assumes w: "settled w" and run: "on_db (repo_ResolveSlug (ev_pg V) slug) w = (y, w')"
  shows "settled w' \<and> (\<forall>x. y = Inr x \<longrightarrow> (\<not> malicious V (fst x) \<and> utf8_valid (fst x)) \<and> \<not> malicious V (fst x))"
proof -
  have "sr_ResolveSlug (rs_repo (redirect_svc V)) slug w = (y, w')"
    using run by (simp add: redirect_svc_def slug_repo_ops)
  note law = redirect.resolve [OF settledD(1) [OF w] this]
  then have "settled w'" using settled_db [OF w run] settledD(3) [OF w] by simp
  moreover have "\<not> malicious V (fst x) \<and> utf8_valid (fst x)" if "y = Inr x" for x
    using law that settledD(3) [OF w] by (cases x) (auto simp: leads_only_def)
  ultimately show ?thesis by blast
qed

text \<open>The tables after an action of the repository.\<close>

lemma repo_settled:
  assumes w: "settled w"
  shows "\<not> code_IsDynamic c \<Longrightarrow> code_Dynamic c = None \<Longrightarrow> rp_Create (codes_repo (ev_pg V)) c w = (z, w') \<Longrightarrow> settled w'"
    and "code_Type c = TypeURL \<Longrightarrow> \<not> malicious V dest \<Longrightarrow>
      rp_CreateDynamic (codes_repo (ev_pg V)) c slug dest w = ((e, c1), w') \<Longrightarrow> settled w' \<and> same_input c c1"
    and "rp_GetByID (codes_repo (ev_pg V)) u i w = (g, w') \<Longrightarrow> settled w'"
    and "\<not> malicious V dest \<Longrightarrow> rp_UpdateDestination (codes_repo (ev_pg V)) i dest w = (x, w') \<Longrightarrow> settled w'"
    and "rp_UpdateLabel (codes_repo (ev_pg V)) u i label w = (x, w') \<Longrightarrow> settled w'"
    and "rp_Delete (codes_repo (ev_pg V)) u i w = (x, w') \<Longrightarrow> settled w'"
proof -
  note s = settledD(1,3) [OF w]
  have repo: "cs_repo (codes_svc V) = codes_repo (ev_pg V)" by (simp add: codes_svc_def)
  note ops = codes_repo_ops
  show "settled w'" if "\<not> code_IsDynamic c" "code_Dynamic c = None" "rp_Create (codes_repo (ev_pg V)) c w = (z, w')"
    using codes.create [OF s(1) that(1,2)] that(3) s(2) settled_db [OF w that(3) [unfolded ops]] by (simp add: repo)
  show "settled w'" if "rp_GetByID (codes_repo (ev_pg V)) u i w = (g, w')"
    using codes.getByID [OF s(1)] that s(2) settled_db [OF w that [unfolded ops]] by (simp add: repo)
  show "settled w'" if "rp_UpdateLabel (codes_repo (ev_pg V)) u i label w = (x, w')"
    using codes.updateLabel [OF s(1)] that s(2) settled_db [OF w that [unfolded ops]] by (simp add: repo)
  show "settled w' \<and> same_input c c1"
    if "code_Type c = TypeURL" "\<not> malicious V dest" "rp_CreateDynamic (codes_repo (ev_pg V)) c slug dest w = ((e, c1), w')"
  proof -
    note law = codes.createDynamic [OF s(1) that(1), unfolded repo, OF that(3)]
    have "leads w' = leads w \<or> (\<exists>i. leads w' = (leads w)(slug \<mapsto> (dest, i)))"
      using law by (auto simp: dynamic_added_def split: option.splits if_splits)
    then have "leads_only (\<lambda>x. \<not> malicious V x) (leads w')" using s(2) that(2) by (auto intro: leads_only_upd)
    with law settled_db [OF w that(3) [unfolded ops]] show ?thesis by simp
  qed
  show "settled w'" if "\<not> malicious V dest" "rp_UpdateDestination (codes_repo (ev_pg V)) i dest w = (x, w')"
  proof -
    note law = codes.updateDestination [OF s(1), unfolded repo, OF that(2)]
    then have "leads w' = leads w \<or> leads w' = set_slug_destination i dest (leads w)"
      by (auto elim: write_law_cases)
    then have "leads_only (\<lambda>x. \<not> malicious V x) (leads w')" using s(2) that(1) by (auto intro: leads_only_destination)
    with law settled_db [OF w that(2) [unfolded ops]] show ?thesis by simp
  qed
  show "settled w'" if "rp_Delete (codes_repo (ev_pg V)) u i w = (x, w')"
  proof -
    note law = codes.delete [OF s(1), unfolded repo, OF that]
    then have "leads w' = leads w \<or> leads w' = drop_slugs i (leads w)"
      by (auto elim!: write_law_cases split: if_splits)
    then have "leads_only (\<lambda>x. \<not> malicious V x) (leads w')" using s(2) by (auto intro: leads_only_drop)
    with law settled_db [OF w that [unfolded ops]] show ?thesis by simp
  qed
qed

lemma settled_same:
  assumes w: "settled w" and "wd_db w' = wd_db w" "wd_redis w' = wd_redis w"
  shows "settled w'"
  using assms judged_well_redis settledD(2) [OF w] by (intro settled_redis [OF w]) (auto intro: ages_same)

lemma single_settled:
  assumes w: "settled w" and c: "single_call a"
  shows "settled (perform V cfg a w)"
proof -
  have urls: "call_urls a \<subseteq> X" using c by (cases a) simp_all
  have "safe (perform V cfg a w)" using w urls by (intro perform_safe) (simp_all add: settled_def)
  moreover have "ages w (perform V cfg a w)" using c by (intro perform_ages) auto
  ultimately show ?thesis using settled_shrink [OF w] ages_entries by blast
qed

end

sublocale safe_app \<subseteq> steady: steady_actions V cfg settled "\<lambda>u. u \<in> X" "\<lambda>x. \<not> malicious V x" "\<lambda>x. \<not> malicious V x"
  "\<lambda>_ x. \<not> malicious V (fst x) \<and> utf8_valid (fst x)" "\<lambda>_. True" "\<lambda>_. True"
proof unfold_locales
  fix w w' :: "'r world" and url slug dest label ipHash agent :: string and u i :: uuid and c c1 :: code and x and a
  show "settled w \<Longrightarrow> url \<in> X \<Longrightarrow> sc_Get (ss_cache (safety_svc V)) url w = (r, w') \<Longrightarrow>
      settled w' \<and> (\<forall>x. r = Inr (Some x) \<longrightarrow> sr_Verdict x \<noteq> VerdictMalicious \<longrightarrow> \<not> malicious V url)" for r
    by (rule verdict_get_settled)
  show "settled w \<Longrightarrow> url \<in> X \<Longrightarrow> sc_Set (ss_cache (safety_svc V)) url (ss_checker (safety_svc V) url) w = (e, w') \<Longrightarrow>
      settled w'" for e
    by (rule verdict_set_settled)
  show "sr_Verdict (ss_checker (safety_svc V) url) \<noteq> VerdictMalicious \<Longrightarrow> \<not> malicious V url"
    by (simp add: malicious_def checker_simp)
  show "settled w \<Longrightarrow> ca_Lookup (target_cache (ev_redis V)) slug w = (l, w') \<Longrightarrow>
      settled w' \<and> (\<forall>t. l = Inr (Some t) \<longrightarrow> \<not> malicious V (ct_Destination t))" for l
    by (rule lookup_settled)
  show "settled w \<Longrightarrow> on_db (repo_ResolveSlug (ev_pg V) slug) w = (y, w') \<Longrightarrow>
      settled w' \<and> (\<forall>x. y = Inr x \<longrightarrow> (\<not> malicious V (fst x) \<and> utf8_valid (fst x)) \<and> \<not> malicious V (fst x))" for y
    by (rule slug_read_settled)
  show "settled w \<Longrightarrow> \<not> malicious V (fst x) \<and> utf8_valid (fst x) \<Longrightarrow>
      ca_Store (target_cache (ev_redis V)) slug (target_for (ev_uuid V) x) w = (e, w') \<Longrightarrow> settled w'" for e
    using store_settled [of w slug "target_for (ev_uuid V) x" e w'] redirect.uuid_text
    by (simp add: target_text_def target_for_def redirect_svc_def)
  show "settled w \<Longrightarrow> ca_Invalidate (target_cache (ev_redis V)) slug w = (e, w') \<Longrightarrow> settled w'" for e
    using settled_redis [of w w'] invalidate_ages invalidate_judged settledD(2)
    by (auto simp: target_cache_def on_redis_iff)
  show "settled w \<Longrightarrow> settled (start_scan slug ipHash agent w)" by (erule settled_same) (simp_all add: start_scan_def)
  show "settled w \<Longrightarrow> new_slug V w = (q, w') \<Longrightarrow> settled w'" for q
    by (erule settled_same) (auto simp: new_slug_def)
  show "settled w \<Longrightarrow> single_call a \<Longrightarrow> (\<And>u. caller a = Some u \<Longrightarrow> True) \<Longrightarrow> settled (perform V cfg a w)"
    by (rule single_settled)
  show "settled w \<Longrightarrow> True \<Longrightarrow> \<not> code_IsDynamic c \<Longrightarrow> code_Dynamic c = None \<Longrightarrow>
      rp_Create (codes_repo (ev_pg V)) c w = (z, w') \<Longrightarrow> settled w'" for z
    by (rule repo_settled(1))
  show "settled w \<Longrightarrow> True \<Longrightarrow> code_Type c = TypeURL \<Longrightarrow> \<not> malicious V dest \<Longrightarrow>
      rp_CreateDynamic (codes_repo (ev_pg V)) c slug dest w = ((e, c1), w') \<Longrightarrow> settled w' \<and> same_input c c1" for e
    by (rule repo_settled(2))
  show "settled w \<Longrightarrow> True \<Longrightarrow> rp_GetByID (codes_repo (ev_pg V)) u i w = (g, w') \<Longrightarrow>
      settled w' \<and> (\<forall>c. g = Inr c \<longrightarrow> True)" for g
    using repo_settled(3) by simp
  show "settled w \<Longrightarrow> True \<Longrightarrow> \<not> malicious V dest \<Longrightarrow>
      rp_UpdateDestination (codes_repo (ev_pg V)) (code_ID c) dest w = (e, w') \<Longrightarrow> settled w'" for e
    by (rule repo_settled(4))
  show "settled w \<Longrightarrow> True \<Longrightarrow> rp_UpdateLabel (codes_repo (ev_pg V)) u i l w = (e, w') \<Longrightarrow> settled w'" for l e
    by (rule repo_settled(5))
  show "settled w \<Longrightarrow> True \<Longrightarrow> rp_Delete (codes_repo (ev_pg V)) u i w = (e, w') \<Longrightarrow> settled w'" for e
    by (rule repo_settled(6))
qed

subsection \<open>Traffic\<close>

context safe_app
begin

lemma traffic_settled:
  assumes run: "traffic_run V cfg (w, []) es (w', ps)" and w: "settled w"
    and X: "\<And>r who. Arrive r who \<in> set es \<Longrightarrow> request_urls r \<subseteq> X"
  shows "settled w' \<and> (\<forall>c a. Answer c a \<in> set es \<longrightarrow> (\<forall>dest. a = Redirected (Inr dest) \<longrightarrow> \<not> malicious V dest))"
proof -
  have "settled (fst (w', ps)) \<and> (\<forall>c a. Answer c a \<in> set es \<longrightarrow> (\<forall>dest. a = Redirected (Inr dest) \<longrightarrow> \<not> malicious V dest))"
  proof (rule traffic_keeps [where P = "\<lambda>r _. request_urls r \<subseteq> X", OF _ _ _ _ _ run])
    fix v r c assume "request_urls r \<subseteq> X" "asks V (token_user V cfg r v) r c"
    then have "call_urls c \<subseteq> X" using asks_urls by blast
    then show "prog_keeps settled (\<lambda>a. \<forall>dest. a = Redirected (Inr dest) \<longrightarrow> \<not> malicious V dest) (call_prog V cfg c)"
      by (intro steady.call_keeps) auto
  next
    fix v k assume v: "settled v"
    have "judged_well (counted V cfg k v)" using counted_judged settledD(2) [OF v] by blast
    then show "settled (counted V cfg k v)" using settled_redis [OF v _ counted_ages] by simp
  next
    fix v j js assume v: "settled v"
    have "sane (run_job V j (v\<lparr>wd_jobs := js\<rparr>))"
      using redirect.RecordScan_frame [of "v\<lparr>wd_jobs := js\<rparr>"] settledD(1) [OF v]
      by (cases j) (simp add: run_job_def sane_def)
    then show "settled (run_job V j (v\<lparr>wd_jobs := js\<rparr>))"
      using run_job_world [of V j "v\<lparr>wd_jobs := js\<rparr>"] main_tables_views [of "wd_db (run_job V j (v\<lparr>wd_jobs := js\<rparr>))" "wd_db v"]
        settledD(2,3) [OF v] judged_well_redis [of v]
      by (intro settledI [OF v] ages_same) (simp_all add: leads_def same_codes_def)
  qed (use w X settled_same in auto)
  then show ?thesis by simp
qed

lemma resolve_settled:
  assumes w: "settled w" and run: "Resolve (redirect_svc V) slug w = (Inr dest, w')"
  shows "\<not> malicious V dest"
  using settledD(1) [OF w] run
proof (cases rule: redirect.Resolve_cases)
  case (hit t)
  with w show ?thesis by (auto simp: settled_def)
next
  case (miss x)
  with settledD(3) [OF w] show ?thesis by (cases x) (auto simp: leads_only_def)
qed simp

end

text \<open>Every target that a client can read from Redis now is harmless.\<close>

definition cache_harmless :: "'r env \<Rightarrow> ('r \<Rightarrow> kv) \<Rightarrow> ('r \<Rightarrow> instant) \<Rightarrow> 'r world \<Rightarrow> bool" where
  "cache_harmless V data clock w \<longleftrightarrow>
     (\<forall>slug v t. live (clock (wd_redis w)) (data (wd_redis w)) (redirectKey slug) = Some v \<longrightarrow>
        target_of_json v = Some t \<longrightarrow> \<not> malicious V (ct_Destination t))"

context safe_app
begin

lemma harmless_settled: "cache_harmless V data clock w \<Longrightarrow> safe w \<Longrightarrow> settled w"
  by (auto simp: cache_harmless_def settled_def entries_def cached_def readable_def bind_eq_Some_conv)

end

text \<open>
  C5. No visitor is ever redirected to a destination that the checker calls malicious, with the actions of all
  requests in any order: not by a redirect that runs at the same time as edits and deletions, not from the
  cache when an invalidation has failed and the entry is behind the tables, and not after any other
  failure. The URLs of the requests are told apart by their SHA-256 keys.
\<close>

theorem Redirects_safe:
  assumes "backend V data clock bears" and "db_ok (ev_pg V) (wd_db w)"
    and "verdicts_current V data clock X w" and "leads_only (\<lambda>x. \<not> malicious V x) (slug_view (wd_db w))"
    and "cache_harmless V data clock w"
    and "\<And>u. u \<in> X \<Longrightarrow> utf8_valid u" and "inj_on safetyKey X"
    and "traffic_run V cfg (w, []) es (w', ps)" and "\<And>r who. Arrive r who \<in> set es \<Longrightarrow> request_urls r \<subseteq> X"
  shows "(\<forall>c dest. Answer c (Redirected (Inr dest)) \<in> set es \<longrightarrow> \<not> malicious V dest) \<and>
    (\<forall>slug dest w''. Resolve (redirect_svc V) slug w' = (Inr dest, w'') \<longrightarrow> \<not> malicious V dest)"
proof -
  have app: "safe_app V data clock bears X"
    by (intro safe_app.intro app.intro safe_app_axioms.intro assms(1,6,7))
  have "safe_app.safe V data clock X w"
    using assms(2-4) by (simp add: safe_app.safe_def [OF app] backend.sane_def [OF assms(1)]
        backend.leads_def [OF assms(1)] safe_app.verdicts_judged [OF app, symmetric])
  then have "safe_app.settled V data clock X w" by (rule safe_app.harmless_settled [OF app assms(5)])
  from safe_app.traffic_settled [OF app assms(8) this] assms(9)
  have "safe_app.settled V data clock X w'" "\<forall>c a. Answer c a \<in> set es \<longrightarrow> (\<forall>dest. a = Redirected (Inr dest) \<longrightarrow> \<not> malicious V dest)"
    by blast+
  with safe_app.resolve_settled [OF app] show ?thesis by blast
qed

subsection \<open>Example\<close>

text \<open>A redirect while another request is under way.\<close>

definition sample_scan :: call where
  "sample_scan = ResolveCall ''taken'' (HashIP (clientIP sample_visit)) (header_Get (rq_Header sample_visit) ''User-Agent'')"

lemma sample_check_asks:
  "asks sample_backend who sample_check NoCall" "counts sample_backend sample_config sample_check NoCall None"
  by (simp_all add: asks_def counts_def)

lemma sample_visit_asks:
  "asks sample_backend who sample_visit sample_scan" "counts sample_backend sample_config sample_visit sample_scan None"
proof -
  have path: "match_pattern ''/r/{slug}'' (routing_path sample_visit) = Some [(''slug'', ''taken'')]"
    "\<not> under (routing_path sample_visit) ''/api/v1''"
    by code_simp+
  have "rq_Method sample_visit = ''GET''" by (simp add: sample_visit_def)
  with path show "asks sample_backend who sample_visit sample_scan"
    by (simp add: asks_def sample_scan_def requested_def path_value_def)
  show "counts sample_backend sample_config sample_visit sample_scan None" using path(2) by (simp add: counts_def limited_key_def)
qed

lemma sample_visit_urls: "request_urls sample_visit = {}"
proof -
  have "decode_check sample_visit = None" by code_simp
  moreover have "Option.bind (decode_create sample_visit) (\<lambda>q. extractURL (cq_Payload q)) = None" by code_simp
  moreover have "Option.bind (decode_update sample_visit) pq_Destination = None" by code_simp
  ultimately show ?thesis unfolding request_urls_def by (simp del: set_bind_option)
qed

lemma sample_visit_runs:
  "fst (prog_run (call_prog sample_backend sample_config sample_scan) sample_world) = Redirected (Inr ''https://a.b'')"
proof -
  obtain x w1 where read: "resolve_read (redirect_svc sample_backend) ''taken'' sample_world = (Inr (Inr x), w1)"
    "fst (resolve_fill (redirect_svc sample_backend) ''taken'' (Inr (Inr x)) w1) = Inr ''https://a.b''"
    using race by (fastforce simp: resolve_fill_def)
  then have "fst (Resolve (redirect_svc sample_backend) ''taken'' sample_world) = Inr ''https://a.b''"
    by (simp add: Resolve_split)
  then show ?thesis unfolding sample_scan_def by (auto simp: run_resolve split: prod.split)
qed

lemma sample_traffic:
  "\<exists>n w' ps. traffic_run sample_backend sample_config (sample_world, [])
     ([Arrive sample_check None, Arrive sample_visit None] @ replicate n Act @
      [Answer sample_scan (Redirected (Inr ''https://a.b''))]) (w', ps)"
proof -
  let ?V = sample_backend and ?F = sample_config and ?c = sample_scan
  let ?p = "call_prog ?V ?F ?c" and ?ps = "[(NoCall, call_prog ?V ?F NoCall)]"
  have who: "token_user ?V ?F sample_check sample_world = None" "token_user ?V ?F sample_visit sample_world = None"
    by (simp_all add: token_user_def bearer_def sample_check_def sample_visit_def sample_request_def header_Get_def cut_def)
  have arrive: "traffic_run ?V ?F (sample_world, []) [Arrive sample_check None, Arrive sample_visit None]
      (sample_world, ?ps @ [(?c, ?p)])"
    using traffic_step.arrive [OF sample_check_asks, of sample_world "[]"] traffic_step.arrive [OF sample_visit_asks, of sample_world ?ps]
    by (auto simp: who traffic_run_Cons simp del: call_prog.simps)
  obtain n w' where n: "traffic_run ?V ?F (sample_world, ?ps @ [(?c, ?p)]) (replicate n Act)
      (w', ?ps @ [(?c, Return (Redirected (Inr ''https://a.b'')))])"
    using prog_alone [of ?V ?F sample_world ?ps ?c ?p "[]"] sample_visit_runs by metis
  have "traffic_run ?V ?F (w', ?ps @ [(?c, Return (Redirected (Inr ''https://a.b'')))])
      [Answer ?c (Redirected (Inr ''https://a.b''))] (w', ?ps @ [])"
    by (rule traffic_run.step [OF traffic_step.answer traffic_run.idle])
  from traffic_run_append [OF arrive traffic_run_append [OF n this]] show ?thesis by blast
qed

theorem Redirects_safe_witness:
  "\<exists>n w' ps. traffic_run sample_backend sample_config (sample_world, [])
     ([Arrive sample_check None, Arrive sample_visit None] @ replicate n Act @
      [Answer sample_scan (Redirected (Inr ''https://a.b''))]) (w', ps) \<and>
     \<not> malicious sample_backend ''https://a.b''"
proof -
  obtain n w' ps where run: "traffic_run sample_backend sample_config (sample_world, [])
     ([Arrive sample_check None, Arrive sample_visit None] @ replicate n Act @
      [Answer sample_scan (Redirected (Inr ''https://a.b''))]) (w', ps)"
    using sample_traffic by blast
  have "verdicts_current sample_backend mem_data mem_clock {''http://1.2.3.4''} sample_world"
    "cache_harmless sample_backend mem_data mem_clock sample_world"
    by (simp_all add: verdicts_current_def cache_harmless_def)
  moreover note sample_visit_urls
  ultimately show ?thesis
    using Redirects_safe [OF sample_backend_ok _ _ _ _ _ _ run, of "{''http://1.2.3.4''}"] run
      sample_db_ok sample_harmless sample_check_urls sample_url_text by auto
qed

end
