(* ===== verification/AuthProperties.thy ===== *)
theory AuthProperties
  imports HttpCalls Sample
begin

text \<open>
  Accounts and sessions: what guest creation, upgrade and login store and answer, on the tables and
  with the tokens of the services that \<open>main.go\<close> builds, and which requests the tokens authenticate.
\<close>

subsection \<open>Sessions\<close>

text \<open>
  The answer is a session of its user: until the second in which it expires, a request with the token
  in its \<open>Authorization\<close> header is authenticated as the user.
\<close>

definition session :: "'r env \<Rightarrow> config \<Rightarrow> auth_result \<Rightarrow> bool" where
  "session V cfg a \<longleftrightarrow>
     (\<forall>(r :: request) now. header_Get (rq_Header r) ''Authorization'' = ''Bearer '' @ au_Token a \<longrightarrow>
        au_Token a \<noteq> [] \<longrightarrow> now < au_ExpiresAt a div second * second \<longrightarrow>
        bearer (token_mgr V cfg) now r = Some (user_ID (au_User a), user_IsGuest (au_User a)))"

lemma bearer_header:
  assumes "header_Get (rq_Header r) ''Authorization'' = ''Bearer '' @ token" "token \<noteq> []"
    and "Verify M now token = Inr c" "uuid_Parse (tm_uuid M) (cl_Subject c) = Inr u"
  shows "bearer M now r = Some (u, cl_IsGuest c)"
proof -
  have "cut (''Bearer '' @ token) (CHR '' '') = (''Bearer'', token, True)"
    using cut_append [of "CHR '' ''" "''Bearer''" token] by simp
  moreover have "equal_fold_ascii ''Bearer'' ''Bearer''" by code_simp
  ultimately show ?thesis using assms by (simp add: bearer_def)
qed

text \<open>An upgrade: the guest becomes an account with the email, and with a hash of the password.\<close>

definition account_upgraded ::
  "argon2 \<Rightarrow> uuid \<Rightarrow> string \<Rightarrow> string \<Rightarrow> (uuid \<Rightarrow> user option) \<Rightarrow> user \<Rightarrow> (uuid \<Rightarrow> user option) \<Rightarrow> bool" where
  "account_upgraded A i email password m u m' \<longleftrightarrow>
     (\<exists>old salt hash t. m i = Some old \<and> user_IsGuest old \<and>
        HashPassword A salt password = Some (Inr hash) \<and>
        u = upgraded old email hash\<lparr>user_UpdatedAt := t\<rparr> \<and> m' = m(i \<mapsto> u))"

lemma account_upgradedI:
  "m i = Some old \<Longrightarrow> user_IsGuest old \<Longrightarrow> HashPassword A salt password = Some (Inr hash) \<Longrightarrow>
   m' = m(i \<mapsto> upgraded old email hash\<lparr>user_UpdatedAt := t\<rparr>) \<Longrightarrow>
   account_upgraded A i email password m (upgraded old email hash\<lparr>user_UpdatedAt := t\<rparr>) m'"
  unfolding account_upgraded_def by blast

text \<open>The account that an email and a password are the credentials of.\<close>

definition credentials_of :: "'r env \<Rightarrow> string \<Rightarrow> string \<Rightarrow> user \<Rightarrow> bool" where
  "credentials_of V email password u \<longleftrightarrow>
     email_of (pg_citext (ev_pg V)) u = Some (pg_citext (ev_pg V) email) \<and>
     (\<exists>hash. user_PasswordHash u = Some hash \<and> VerifyPassword (ev_argon2 V) password hash = Some (Inr True))"

context app
begin

lemma grants_session: "auth.grants a \<Longrightarrow> session V cfg a"
  unfolding session_def auth.grants_def using bearer_header [of _ "au_Token a" "token_mgr V cfg"]
  by (fastforce simp: auth_svc_def second_def)

lemma sane_iff: "sane w \<longleftrightarrow> db_ok (ev_pg V) (wd_db w)"
  by (simp add: sane_def)

lemmas auth_views = sane_iff people_def

lemma auth_svc_parts:
  "as_tokens (auth_svc V cfg) = token_mgr V cfg" "as_now (auth_svc V cfg) = wd_now" "as_argon2 (auth_svc V cfg) = ev_argon2 V"
  "tm_ttl (token_mgr V cfg) = cfg_JWTTTL cfg"
  by (simp_all add: auth_svc_def token_mgr_def)

lemma guest_world:
  assumes "db_ok (ev_pg V) (wd_db w)" and "CreateGuest (auth_svc V cfg) w = (r, w')"
  shows "db_ok (ev_pg V) (wd_db w') \<and>
    (case r of
       Inr a \<Rightarrow> created_user (user_view (wd_db w)) guest_user (au_User a) (user_view (wd_db w')) \<and>
         session V cfg a \<and> au_ExpiresAt a = wd_now w' + cfg_JWTTTL cfg
     | Inl e \<Rightarrow> user_view (wd_db w') = user_view (wd_db w) \<or>
         (\<exists>u. created_user (user_view (wd_db w)) guest_user u (user_view (wd_db w'))))"
  using auth.CreateGuest_spec [unfolded auth_views auth_svc_parts, OF assms] grants_session
  by (cases r) simp_all

lemma upgrade_world:
  assumes "db_ok (ev_pg V) (wd_db w)" and "UpgradeToAccount (auth_svc V cfg) i email password w = (Some q, w')"
  shows "db_ok (ev_pg V) (wd_db w') \<and>
    (case q of
       Inr a \<Rightarrow> account_upgraded (ev_argon2 V) i email password (user_view (wd_db w)) (au_User a) (user_view (wd_db w')) \<and>
         session V cfg a \<and> au_ExpiresAt a = wd_now w' + cfg_JWTTTL cfg
     | Inl e \<Rightarrow> user_view (wd_db w') = user_view (wd_db w) \<or>
         \<not> errors_is e ErrEmailTaken \<and> e \<noteq> Sentinel ErrAlreadyUpgraded \<and>
         (\<exists>u. account_upgraded (ev_argon2 V) i email password (user_view (wd_db w)) u (user_view (wd_db w'))))"
proof (cases q)
  case (Inl e)
  note spec = auth.Upgrade_spec [unfolded auth_views auth_svc_parts, OF assms refl, unfolded Inl sum.case]
  show ?thesis
  proof (cases "user_view (wd_db w') = user_view (wd_db w)")
    case True
    with spec Inl show ?thesis by simp
  next
    case False
    with spec obtain old salt hash t where u: "user_view (wd_db w) i = Some old" "user_IsGuest old"
      "HashPassword (ev_argon2 V) salt password = Some (Inr hash)"
      "user_view (wd_db w') = (user_view (wd_db w))(i \<mapsto> upgraded old email hash\<lparr>user_UpdatedAt := t\<rparr>)"
      by blast
    from account_upgradedI [OF u] spec False show ?thesis unfolding Inl sum.case by blast
  qed
next
  case (Inr a)
  note spec = auth.Upgrade_spec [unfolded auth_views auth_svc_parts, OF assms refl, unfolded Inr sum.case]
  then obtain old salt hash t where u: "user_view (wd_db w) i = Some old" "user_IsGuest old"
    "HashPassword (ev_argon2 V) salt password = Some (Inr hash)"
    "au_User a = upgraded old email hash\<lparr>user_UpdatedAt := t\<rparr>"
    "user_view (wd_db w') = (user_view (wd_db w))(i \<mapsto> au_User a)"
    by blast
  have "account_upgraded (ev_argon2 V) i email password (user_view (wd_db w)) (au_User a) (user_view (wd_db w'))"
    unfolding u(4) by (rule account_upgradedI) (use u in simp_all)
  with spec grants_session [of a] show ?thesis unfolding Inr sum.case by blast
qed

lemma login_world:
  assumes "db_ok (ev_pg V) (wd_db w)" and "Login (auth_svc V cfg) email password w = (Some q, w')"
  shows "db_ok (ev_pg V) (wd_db w') \<and> user_view (wd_db w') = user_view (wd_db w) \<and>
    (case q of
       Inr a \<Rightarrow> user_view (wd_db w) (user_ID (au_User a)) = Some (au_User a) \<and>
         credentials_of V email password (au_User a) \<and> session V cfg a
     | Inl e \<Rightarrow> e = Sentinel ErrInvalidCredentials \<longrightarrow>
         \<not> (\<exists>i u. user_view (wd_db w) i = Some u \<and> credentials_of V email password u))"
  using auth.Login_spec [unfolded auth_views auth_svc_parts, OF assms] grants_session
  by (cases q) (auto simp: credentials_of_def)

end

text \<open>
  C21. A new guest is one new account without email and password, and the answer is a session of it
  until the configured lifetime has passed; after an error there is no new account, or the same one
  (the answer of the database was lost), and no session.
\<close>

theorem Guest_session:
  assumes "backend V data clock bears" and "db_ok (ev_pg V) (wd_db w)"
    and "CreateGuest (auth_svc V cfg) w = (r, w')"
  shows "db_ok (ev_pg V) (wd_db w') \<and>
    (case r of
       Inr a \<Rightarrow> created_user (user_view (wd_db w)) guest_user (au_User a) (user_view (wd_db w')) \<and>
         session V cfg a \<and> au_ExpiresAt a = wd_now w' + cfg_JWTTTL cfg
     | Inl e \<Rightarrow> user_view (wd_db w') = user_view (wd_db w) \<or>
         (\<exists>u. created_user (user_view (wd_db w)) guest_user u (user_view (wd_db w'))))"
  by (rule app.guest_world [OF app.intro [OF assms(1)] assms(2,3)])

lemma sample_guest: "\<exists>a w'. CreateGuest (auth_svc sample_backend sample_config) sample_world = (Inr a, w')"
proof -
  have "\<not> isl (fst (users_Create sample_env guest_user sample_db))" by code_simp
  then obtain u d where "users_Create sample_env guest_user sample_db = (Inr u, d)"
    by (metis isl_def sum.exhaust prod.collapse)
  moreover obtain t where "auth_issue (auth_svc sample_backend sample_config) u (sample_world\<lparr>wd_db := d\<rparr>) = (Inr t, sample_world\<lparr>wd_db := d\<rparr>)"
    using sample.auth.auth_issue_ok by metis
  ultimately show ?thesis by (simp add: CreateGuest_def auth_svc_def users_repo_def on_db_def)
qed

theorem Guest_session_witness:
  "\<exists>a w'. CreateGuest (auth_svc sample_backend sample_config) sample_world = (Inr a, w') \<and>
     user_view (wd_db w') (user_ID (au_User a)) = Some (au_User a) \<and> session sample_backend sample_config a"
proof -
  obtain a w' where run: "CreateGuest (auth_svc sample_backend sample_config) sample_world = (Inr a, w')"
    using sample_guest by blast
  from Guest_session [OF sample_backend_ok _ run] sample_db_ok show ?thesis
    using run by (auto simp: created_user_def)
qed

text \<open>
  C22. An upgrade turns exactly the guest it is for into an account with this email and a hash of this
  password, and answers with a session of it. An error leaves the accounts as they were, or the
  answer of the database was lost and the upgrade is complete; if the email is taken or the account is
  no guest, nothing changes.
\<close>

theorem Upgrade_account:
  assumes "backend V data clock bears" and "db_ok (ev_pg V) (wd_db w)"
    and "UpgradeToAccount (auth_svc V cfg) i email password w = (Some q, w')"
  shows "db_ok (ev_pg V) (wd_db w') \<and>
    (case q of
       Inr a \<Rightarrow> account_upgraded (ev_argon2 V) i email password (user_view (wd_db w)) (au_User a) (user_view (wd_db w')) \<and>
         session V cfg a \<and> au_ExpiresAt a = wd_now w' + cfg_JWTTTL cfg
     | Inl e \<Rightarrow> user_view (wd_db w') = user_view (wd_db w) \<or>
         \<not> errors_is e ErrEmailTaken \<and> e \<noteq> Sentinel ErrAlreadyUpgraded \<and>
         (\<exists>u. account_upgraded (ev_argon2 V) i email password (user_view (wd_db w)) u (user_view (wd_db w'))))"
  by (rule app.upgrade_world [OF app.intro [OF assms(1)] assms(2,3)])

text \<open>
  C23. Login changes no account. It answers with a session of an account only for its email (as
  Postgres compares emails) and a password that verifies against its hash; and if it says the
  credentials are invalid, they are those of no account.
\<close>

theorem Login_credentials:
  assumes "backend V data clock bears" and "db_ok (ev_pg V) (wd_db w)"
    and "Login (auth_svc V cfg) email password w = (Some q, w')"
  shows "db_ok (ev_pg V) (wd_db w') \<and> user_view (wd_db w') = user_view (wd_db w) \<and>
    (case q of
       Inr a \<Rightarrow> user_view (wd_db w) (user_ID (au_User a)) = Some (au_User a) \<and>
         credentials_of V email password (au_User a) \<and> session V cfg a
     | Inl e \<Rightarrow> e = Sentinel ErrInvalidCredentials \<longrightarrow>
         \<not> (\<exists>i u. user_view (wd_db w) i = Some u \<and> credentials_of V email password u))"
  by (rule app.login_world [OF app.intro [OF assms(1)] assms(2,3)])

subsection \<open>Passwords\<close>

text \<open>
  C25. The text that a password is stored as is read back by verification: it accepts a password
  exactly if Argon2id derives the same key from it, and so accepts the password itself.
\<close>

theorem Password_round_trip:
  assumes "argon2_laws A"
  shows "\<exists>encoded. HashPassword A (Inr salt) password = Some (Inr encoded) \<and>
    (\<forall>other. VerifyPassword A other encoded =
       Some (Inr (ar_IDKey A other salt argonTime argonMemory argonThreads argonKeyLen =
         ar_IDKey A password salt argonTime argonMemory argonThreads argonKeyLen)))"
  using argon2_laws.Hash_total [OF assms, of salt password] argon2_laws.Verify_Hash [OF assms, of salt password]
  by blast

theorem Password_round_trip_witness:
  "\<exists>encoded. HashPassword sample_argon2 (Inr ''0123456789abcdef'') ''correct horse'' = Some (Inr encoded) \<and>
    VerifyPassword sample_argon2 ''correct horse'' encoded = Some (Inr True) \<and>
    VerifyPassword sample_argon2 ''battery staple'' encoded = Some (Inr False)"
proof -
  obtain encoded where e: "HashPassword sample_argon2 (Inr ''0123456789abcdef'') ''correct horse'' = Some (Inr encoded)"
    "\<And>other. VerifyPassword sample_argon2 other encoded =
       Some (Inr (ar_IDKey sample_argon2 other ''0123456789abcdef'' argonTime argonMemory argonThreads argonKeyLen =
         ar_IDKey sample_argon2 ''correct horse'' ''0123456789abcdef'' argonTime argonMemory argonThreads argonKeyLen))"
    using Password_round_trip [OF sample_argon2.argon2_laws_axioms] by blast
  have "ar_IDKey sample_argon2 ''battery staple'' ''0123456789abcdef'' argonTime argonMemory argonThreads argonKeyLen \<noteq>
      ar_IDKey sample_argon2 ''correct horse'' ''0123456789abcdef'' argonTime argonMemory argonThreads argonKeyLen"
    by code_simp
  with e show ?thesis by auto
qed

subsection \<open>Upgrade and login\<close>

context auth_parts
begin

lemma Login_known:
  assumes w: "inv w" and u: "people w i = Some u" "email_of ekey u = Some (ekey email)"
    and hash: "user_PasswordHash u = Some hash" "VerifyPassword (as_argon2 S) password hash = Some (Inr True)"
    and run: "Login S email password w = (r, w')"
  shows "\<exists>q. r = Some q \<and> (\<forall>a. q = Inr a \<longrightarrow> au_User a = u) \<and> q \<noteq> Inl (Sentinel ErrInvalidCredentials)"
proof -
  obtain p w1 where p: "ar_GetByEmail (as_repo S) email w = (p, w1)" by (rule prod.exhaust)
  note law = getByEmail [OF w p]
  show ?thesis
  proof (cases p)
    case (Inl e)
    with law u have "\<not> errors_is e UsersErrNotFound" by auto
    with p run Inl show ?thesis by (auto simp: Login_def)
  next
    case (Inr v)
    with law have v: "people w (user_ID v) = Some v" "email_of ekey v = Some (ekey email)" by simp_all
    have "v = u" using unique_email [OF w u(1) v(1) u(2) v(2)] u(1) v(1) by simp
    obtain t where "auth_issue S u w1 = (Inr \<lparr>au_User = u, au_Token = t,
        au_ExpiresAt = as_now S w1 + tm_ttl (as_tokens S)\<rparr>, w1)"
      by (rule auth_issue_ok)
    with p run Inr hash \<open>v = u\<close> show ?thesis by (auto simp: Login_def)
  qed
qed

end

context app
begin

lemma relogin_world:
  assumes "account_upgraded (ev_argon2 V) i email password m (au_User a) m'"
    and "db_ok (ev_pg V) (wd_db v)" "user_view (wd_db v) i = Some (au_User a)"
    and "pg_citext (ev_pg V) email' = pg_citext (ev_pg V) email"
    and "Login (auth_svc V cfg) email' password v = (r, v')"
  shows "\<exists>q. r = Some q \<and> (\<forall>b. q = Inr b \<longrightarrow> au_User b = au_User a) \<and> q \<noteq> Inl (Sentinel ErrInvalidCredentials)"
proof -
  obtain old salt hash t where h: "HashPassword (ev_argon2 V) salt password = Some (Inr hash)"
    "au_User a = upgraded old email hash\<lparr>user_UpdatedAt := t\<rparr>"
    using assms(1) by (auto simp: account_upgraded_def)
  then obtain s where s: "salt = Inr s" by (cases salt) (simp_all add: HashPassword_def)
  have "VerifyPassword (ev_argon2 V) password hash = Some (Inr True)"
    using argon2_laws.Verify_Hash [OF argon2_laws_axioms h(1) [unfolded s], of password] by simp
  moreover have "email_of (pg_citext (ev_pg V)) (au_User a) = Some (pg_citext (ev_pg V) email')"
    "user_PasswordHash (au_User a) = Some hash"
    using assms(4) by (simp_all add: h(2) email_of_def upgraded_def)
  ultimately show ?thesis
    using auth.Login_known [unfolded auth_views auth_svc_parts, OF assms(2,3) _ _ _ assms(5)] by blast
qed

end

text \<open>
  C24. After an upgrade the account can log in with its email, in any form that Postgres takes for the
  same, and its password, as long as the account is unchanged: Login does not panic, does not take the
  credentials for invalid, and if it answers, it answers with a session of this account.
\<close>

theorem Upgrade_then_login:
  assumes "backend V data clock bears" and "db_ok (ev_pg V) (wd_db w)"
    and "UpgradeToAccount (auth_svc V cfg) i email password w = (Some (Inr a), w')"
    and "db_ok (ev_pg V) (wd_db v)" "user_view (wd_db v) i = Some (au_User a)"
    and "pg_citext (ev_pg V) email' = pg_citext (ev_pg V) email"
    and "Login (auth_svc V cfg) email' password v = (r, v')"
  shows "\<exists>q. r = Some q \<and> (\<forall>b. q = Inr b \<longrightarrow> au_User b = au_User a) \<and> q \<noteq> Inl (Sentinel ErrInvalidCredentials)"
proof -
  note app = app.intro [OF assms(1)]
  from app.upgrade_world [OF app assms(2,3)]
  have "account_upgraded (ev_argon2 V) i email password (user_view (wd_db w)) (au_User a) (user_view (wd_db w'))"
    by simp
  from app.relogin_world [OF app this assms(4-7)] show ?thesis .
qed

text \<open>The guest of the sample upgrades and logs in.\<close>

lemma hash_text:
  assumes "HashPassword sample_argon2 (Inr salt) password = Some (Inr hash)"
  shows "pg_text hash"
proof -
  have b64: "byte c < 128 \<and> c \<noteq> CHR 0x00" if "c \<in> set (b64_encode std_alphabet x)" for c x
  proof -
    have "list_all (\<lambda>c. byte c < 128 \<and> c \<noteq> CHR 0x00) std_alphabet" by code_simp
    then show ?thesis using b64_encode_set [OF _ that] by (auto simp: list_all_iff std_alphabet_def)
  qed
  have num: "byte c < 128 \<and> c \<noteq> CHR 0x00" if "c \<in> set (itoa i)" for c i
    using itoa_chars [OF that] by (auto simp: is_digit_def byte_def)
  have lit: "list_all (\<lambda>c. byte c < 128 \<and> c \<noteq> CHR 0x00) ''$argon2id$v=$m=,t=,p=''" by code_simp
  obtain h where "hash = phc_string 19 salt h"
    using assms by (auto simp: HashPassword_def sample_argon2_def)
  then have "\<forall>c \<in> set hash. byte c < 128 \<and> c \<noteq> CHR 0x00"
    using b64 num lit by (auto simp: phc_string_def list_all_iff)
  then show ?thesis using ascii_utf8 [of hash] by (auto simp: pg_text_def is_ascii_def)
qed

lemma sample_update:
  assumes "pg_text hash"
  shows "\<exists>u d. users_Update sample_env (upgraded sample_guest ''c@d.ef'' hash) (next_stmt sample_db) = (Inr u, d)"
proof -
  have "pg_text ''c@d.ef''" by code_simp
  with assms show ?thesis
    by (simp add: users_Update_def run_stmt_def update_user_stmt_def upgraded_def sample_defs email_taken_def
        email_key_def next_stmt_def ascii_lower_def byte_def Let_def)
qed

lemma sample_upgraded:
  "\<exists>a w'. UpgradeToAccount (auth_svc sample_backend sample_config) 1 ''c@d.ef'' ''correct horse'' sample_world = (Some (Inr a), w')"
proof -
  have get: "users_GetByID sample_env 1 sample_db = (Inr sample_guest, next_stmt sample_db)" by code_simp
  obtain hash where hash:
    "HashPassword sample_argon2 (Inr (replicate argonSaltLen (char_of (48 :: nat)))) ''correct horse'' = Some (Inr hash)"
    using argon2_laws.Hash_total [OF sample_argon2.argon2_laws_axioms] by blast
  from sample_update [OF hash_text [OF hash]] obtain u d
    where up: "users_Update sample_env (upgraded sample_guest ''c@d.ef'' hash) (next_stmt sample_db) = (Inr u, d)"
    by blast
  let ?w = "sample_world\<lparr>wd_reads := 1, wd_db := d\<rparr>"
  obtain t where "auth_issue (auth_svc sample_backend sample_config) u ?w = (Inr t, ?w)"
    using sample.auth.auth_issue_ok by metis
  moreover have "user_IsGuest sample_guest" by (simp add: sample_guest_def)
  ultimately show ?thesis using get up hash
    by (simp add: UpgradeToAccount_def auth_svc_def users_repo_def on_db_def read_random_def)
qed

theorem Upgrade_account_witness:
  "\<exists>a w'. UpgradeToAccount (auth_svc sample_backend sample_config) 1 ''c@d.ef'' ''correct horse'' sample_world = (Some (Inr a), w') \<and>
     db_ok sample_env (wd_db w') \<and> user_view (wd_db w') 1 = Some (au_User a) \<and> session sample_backend sample_config a"
proof -
  obtain a w' where run: "UpgradeToAccount (auth_svc sample_backend sample_config) 1 ''c@d.ef'' ''correct horse'' sample_world =
      (Some (Inr a), w')"
    using sample_upgraded by blast
  from Upgrade_account [OF sample_backend_ok _ run] sample_db_ok show ?thesis
    using run by (auto simp: account_upgraded_def)
qed

theorem Login_credentials_witness:
  "fst (Login (auth_svc sample_backend sample_config) ''no@b.cd'' ''guess'' sample_world) =
     Some (Inl (Sentinel ErrInvalidCredentials)) \<and>
   \<not> (\<exists>i u. user_view sample_db i = Some u \<and> credentials_of sample_backend ''no@b.cd'' ''guess'' u)"
proof -
  have "users_GetByEmail sample_env ''no@b.cd'' sample_db = (Inl (Sentinel UsersErrNotFound), next_stmt sample_db)"
    by code_simp
  then have run: "Login (auth_svc sample_backend sample_config) ''no@b.cd'' ''guess'' sample_world =
      (Some (Inl (Sentinel ErrInvalidCredentials)), sample_world\<lparr>wd_db := next_stmt sample_db\<rparr>)"
    by (simp add: Login_def auth_svc_def users_repo_def on_db_def)
  from Login_credentials [OF sample_backend_ok _ run] sample_db_ok run show ?thesis by simp
qed

theorem Upgrade_then_login_witness:
  "\<exists>a w' q. UpgradeToAccount (auth_svc sample_backend sample_config) 1 ''c@d.ef'' ''correct horse'' sample_world = (Some (Inr a), w') \<and>
     fst (Login (auth_svc sample_backend sample_config) ''C@d.ef'' ''correct horse'' w') = Some q \<and>
     q \<noteq> Inl (Sentinel ErrInvalidCredentials)"
proof -
  obtain a w' where run: "UpgradeToAccount (auth_svc sample_backend sample_config) 1 ''c@d.ef'' ''correct horse'' sample_world =
      (Some (Inr a), w')"
    using sample_upgraded by blast
  have ok: "db_ok sample_env (wd_db sample_world)" using sample_db_ok by simp
  from sample.upgrade_world [OF _ run] sample_db_ok
  have w': "db_ok sample_env (wd_db w')" "user_view (wd_db w') 1 = Some (au_User a)" by (auto simp: account_upgraded_def)
  have "map ascii_lower ''C@d.ef'' = map ascii_lower ''c@d.ef''" by code_simp
  then have em: "pg_citext (ev_pg sample_backend) ''C@d.ef'' = pg_citext (ev_pg sample_backend) ''c@d.ef''"
    by (simp add: sample_env_def)
  obtain r v where login: "Login (auth_svc sample_backend sample_config) ''C@d.ef'' ''correct horse'' w' = (r, v)"
    by (rule prod.exhaust)
  from Upgrade_then_login [OF sample_backend_ok _ run _ w'(2) em login] ok w'(1) run login show ?thesis by auto
qed

subsection \<open>Who is authenticated\<close>

lemma index_byte_split: "index_byte s c = Some i \<Longrightarrow> s = take i s @ c # drop (Suc i) s"
  by (induction s arbitrary: i) (auto split: if_splits)

lemma cut_found: "cut s c = (before, after, True) \<Longrightarrow> s = before @ c # after"
  using index_byte_split [of s c] by (auto simp: cut_def split: option.splits)

text \<open>
  \<open>authenticates V cfg bears now r u g\<close>: the request carries a bearer token of the user \<open>u\<close> that an HMAC method
  signed with the configured secret and that is in force.
\<close>

definition authenticates ::
  "'r env \<Rightarrow> config \<Rightarrow> (signing_method \<Rightarrow> string \<Rightarrow> string \<Rightarrow> claims \<Rightarrow> bool) \<Rightarrow> instant \<Rightarrow> request \<Rightarrow> uuid \<Rightarrow> bool \<Rightarrow> bool" where
  "authenticates V cfg bears now r u g \<longleftrightarrow>
     (\<exists>scheme token alg c. header_Get (rq_Header r) ''Authorization'' = scheme @ CHR '' '' # token \<and>
        equal_fold_ascii scheme ''Bearer'' \<and> token \<noteq> [] \<and> bears (SigningMethodHMAC alg) (cfg_JWTSecret cfg) token c \<and>
        in_force now c \<and> uuid_Parse (ev_uuid V) (cl_Subject c) = Inr u \<and> cl_IsGuest c = g)"

lemma bearer_authenticates:
  assumes "backend V data clock bears" and "bearer (token_mgr V cfg) now r = Some (u, g)"
  shows "authenticates V cfg bears now r u g"
proof -
  have t: "tokens (token_mgr V cfg) bears"
    using assms(1) by (simp add: tokens_def token_mgr_def backend_def)
  obtain scheme token found where cut: "cut (header_Get (rq_Header r) ''Authorization'') (CHR '' '') = (scheme, token, found)"
    by (rule prod_cases3)
  with assms(2) obtain c where c: "found" "equal_fold_ascii scheme ''Bearer''" "token \<noteq> []"
    "Verify (token_mgr V cfg) now token = Inr c" "uuid_Parse (ev_uuid V) (cl_Subject c) = Inr u" "cl_IsGuest c = g"
    by (auto simp: bearer_def token_mgr_def split: if_splits sum.splits)
  have "header_Get (rq_Header r) ''Authorization'' = scheme @ CHR '' '' # token"
    using cut c(1) by (simp add: cut_found)
  with c tokens.Verify_signed [OF t c(4)] show ?thesis
    unfolding authenticates_def by (auto simp: token_mgr_def)
qed

lemma fold_no_space:
  assumes "equal_fold_ascii scheme ''Bearer''" shows "CHR '' '' \<notin> set scheme"
proof
  assume "CHR '' '' \<in> set scheme"
  then have "ascii_lower (CHR '' '') \<in> set (map ascii_lower scheme)" by simp
  moreover have "ascii_lower (CHR '' '') \<notin> set (map ascii_lower ''Bearer'')" by code_simp
  ultimately show False using assms by (simp only: equal_fold_ascii_def)
qed

lemma authenticates_bearer:
  assumes "backend V data clock bears" and "authenticates V cfg bears now r u g"
  shows "bearer (token_mgr V cfg) now r = Some (u, g)"
proof -
  have J: "jwt_laws (ev_jwt V) bears" using assms(1) by (simp add: backend_def)
  obtain scheme token alg c where c: "header_Get (rq_Header r) ''Authorization'' = scheme @ CHR '' '' # token"
    "equal_fold_ascii scheme ''Bearer''" "token \<noteq> []" "bears (SigningMethodHMAC alg) (cfg_JWTSecret cfg) token c"
    "in_force now c" "uuid_Parse (ev_uuid V) (cl_Subject c) = Inr u" "cl_IsGuest c = g"
    using assms(2) unfolding authenticates_def by blast
  have "token_key (token_mgr V cfg) (SigningMethodHMAC alg) = Inr (cfg_JWTSecret cfg)" by (simp add: token_key_def token_mgr_def)
  from jwt_laws.accept [OF J c(4), where kf = "token_key (token_mgr V cfg)", OF this c(5)] have "Verify (token_mgr V cfg) now token = Inr c"
    by (simp add: Verify_def token_mgr_def)
  with c cut_append [OF fold_no_space [OF c(2)], of token] show ?thesis
    by (simp add: bearer_def token_mgr_def)
qed

text \<open>
  C20. The middleware \<open>Auth\<close> lets a request through exactly if it carries a bearer token that an HMAC method
  signed with the configured secret, that is in force, and whose subject is a user: then the request goes on
  with this user and the guest flag of the token in its context. Every other request is answered with
  401, and nothing else happens.
\<close>

theorem Auth_gate:
  assumes "backend V data clock bears" and "fresh W"
  shows "(\<forall>u g. authenticates V cfg bears (now w) r u g \<longrightarrow>
      Auth (token_mgr V cfg) now nxt r (W, w) =
        nxt (r\<lparr>rq_Context := WithIsGuest g (WithUserID u (rq_Context r))\<rparr>) (W, w)) \<and>
    ((\<nexists>u g. authenticates V cfg bears (now w) r u g) \<longrightarrow>
      (\<exists>W'. Auth (token_mgr V cfg) now nxt r (W, w) = (Returned, W', w) \<and> fails W' 401 ''unauthorized''))"
proof (intro conjI allI impI)
  fix u g assume "authenticates V cfg bears (now w) r u g"
  from Auth_passes [where now = now and w = w and nxt = nxt and W = W, OF authenticates_bearer [OF assms(1) this]]
  show "Auth (token_mgr V cfg) now nxt r (W, w) =
        nxt (r\<lparr>rq_Context := WithIsGuest g (WithUserID u (rq_Context r))\<rparr>) (W, w)" .
next
  assume "\<nexists>u g. authenticates V cfg bears (now w) r u g"
  then have "bearer (token_mgr V cfg) (now w) r = None"
    using bearer_authenticates [OF assms(1), of cfg "now w" r] by (cases "bearer (token_mgr V cfg) (now w) r") auto
  from Auth_refuses [where now = now and w = w and nxt = nxt, OF this assms(2)]
  show "\<exists>W'. Auth (token_mgr V cfg) now nxt r (W, w) = (Returned, W', w) \<and> fails W' 401 ''unauthorized''" .
qed

definition sample_anonymous :: request where
  "sample_anonymous = \<lparr>rq_Method = ''GET'', rq_Path = ''/api/v1/codes'', rq_RawPath = [], rq_Query = [],
     rq_Header = (\<lambda>_. None), rq_Body = [], rq_RemoteAddr = ''1.2.3.4:5'', rq_Params = (\<lambda>_. None), rq_Context = Background\<rparr>"

definition sample_claims :: claims where
  "sample_claims = \<lparr>cl_IsGuest = True, cl_Subject = uuid_String canonical_uuid 1, cl_IssuedAt = None, cl_ExpiresAt = None,
     cl_NotBefore = None\<rparr>"

definition sample_bearer :: request where
  "sample_bearer = sample_anonymous\<lparr>rq_Header := (\<lambda>_. Some (''bearer '' @
     show_token (SigningMethodHMAC ''HS512'') (cfg_JWTSecret sample_config) sample_claims))\<rparr>"

lemma sample_authenticated: "authenticates sample_backend sample_config open_bears now sample_bearer 1 True"
proof -
  let ?token = "show_token (SigningMethodHMAC ''HS512'') (cfg_JWTSecret sample_config) sample_claims"
  have read: "read_token ?token = Some (SigningMethodHMAC ''HS512'', cfg_JWTSecret sample_config, sample_claims)"
    by (rule read_show_token)
  moreover have "read_token [] = None" by code_simp
  ultimately have "?token \<noteq> []" by force
  moreover have "equal_fold_ascii ''bearer'' ''Bearer''" by code_simp
  moreover have "in_force now sample_claims" by (simp add: in_force_def sample_claims_def)
  moreover have "uuid_Parse (ev_uuid sample_backend) (cl_Subject sample_claims) = Inr 1"
    by (simp add: sample_claims_def canonical.parse_string)
  moreover have "header_Get (rq_Header sample_bearer) ''Authorization'' = ''bearer'' @ CHR '' '' # ?token"
    by (simp add: sample_bearer_def header_Get_def)
  moreover have "cl_IsGuest sample_claims = True" by (simp add: sample_claims_def)
  ultimately show ?thesis using read unfolding authenticates_def open_bears_def by blast
qed

lemma sample_not_authenticated: "\<not> authenticates sample_backend sample_config open_bears now sample_anonymous u g"
  by (auto simp: authenticates_def sample_anonymous_def header_Get_def)

theorem Auth_gate_witness:
  "(\<exists>W'. Auth (token_mgr sample_backend sample_config) wd_now (\<lambda>r Ww. (Panicked, Ww)) sample_anonymous (new_rw, sample_world) =
      (Returned, W', sample_world) \<and> fails W' 401 ''unauthorized'') \<and>
   Auth (token_mgr sample_backend sample_config) wd_now (\<lambda>r Ww. (Panicked, Ww)) sample_bearer (new_rw, sample_world) =
      (Panicked, new_rw, sample_world)"
proof
  show "\<exists>W'. Auth (token_mgr sample_backend sample_config) wd_now (\<lambda>r Ww. (Panicked, Ww)) sample_anonymous (new_rw, sample_world) =
      (Returned, W', sample_world) \<and> fails W' 401 ''unauthorized''"
    using Auth_gate [OF sample_backend_ok fresh_new, where now = wd_now and cfg = sample_config and w = sample_world
        and r = sample_anonymous and nxt = "\<lambda>r Ww. (Panicked, Ww)"] sample_not_authenticated by blast
  show "Auth (token_mgr sample_backend sample_config) wd_now (\<lambda>r Ww. (Panicked, Ww)) sample_bearer (new_rw, sample_world) =
      (Panicked, new_rw, sample_world)"
    using Auth_gate [OF sample_backend_ok fresh_new, where now = wd_now and cfg = sample_config and w = sample_world
        and r = sample_bearer and nxt = "\<lambda>r Ww. (Panicked, Ww)"] sample_authenticated by blast
qed

end
