(* ===== verification/HttpProperties.thy ===== *)
theory HttpProperties
  imports HttpCalls CodesProperties
begin

text \<open>
  What the middlewares and handlers answer: refusals and errors as JSON envelopes with their status, and
  successes with theirs.
\<close>

subsection \<open>Rate limiting\<close>

text \<open>
  C29. The rate limiter fails open: if it cannot tell, the request passes. A request that passes has
  the limit and the remaining requests in its headers; one that is turned away is answered with 429 and
  a \<open>Retry-After\<close> of at least one second, which is not before the window ends.
\<close>

theorem RateLimit_gate:
  assumes "fresh W"
  shows "case rl_Allow L (clientIP r) w of
      (Inl e, w1) \<Rightarrow> RateLimit_mw L nxt r (W, w) = nxt r (W, w1)
    | (Inr (ok, remaining, reset), w1) \<Rightarrow>
        if ok then RateLimit_mw L nxt r (W, w) = nxt r (rate_limit_headers (rl_Limit L) remaining W, w1)
        else \<exists>W'. RateLimit_mw L nxt r (W, w) = (Returned, W', w1) \<and> fails W' 429 ''rate_limited'' \<and>
          header_of W' ''Retry-After'' = Some (itoa (retry_after reset)) \<and> 1 \<le> retry_after reset \<and>
          reset \<le> retry_after reset * second"
proof -
  have later: "1 \<le> retry_after reset \<and> reset \<le> retry_after reset * second" for reset
  proof -
    have "ceil_seconds reset * second \<le> retry_after reset * second"
      by (rule mult_right_mono) (simp_all add: retry_after_def Let_def second_def)
    moreover have "reset \<le> ceil_seconds reset * second" using ceil_seconds_bounds [of reset] by simp
    moreover have "1 \<le> retry_after reset" by (simp add: retry_after_def Let_def)
    ultimately show ?thesis by simp
  qed
  obtain q w1 where q: "rl_Allow L (clientIP r) w = (q, w1)" by (rule prod.exhaust)
  show ?thesis
  proof (cases q)
    case (Inl e)
    with q RateLimit_fails_open show ?thesis by (simp add: RateLimit_fails_open)
  next
    case (Inr y)
    obtain ok remaining reset where y: "y = (ok, remaining, reset)" by (rule prod_cases3)
    show ?thesis
    proof (cases ok)
      case True
      with q Inr y show ?thesis by (simp add: RateLimit_lets_pass)
    next
      case False
      with q Inr y have "rl_Allow L (clientIP r) w = (Inr (False, remaining, reset), w1)" by simp
      from RateLimit_turns_away [OF this assms, of nxt] later [of reset] q Inr y False show ?thesis by simp
    qed
  qed
qed

definition sample_limiter :: "nat rate_limiter" where
  "sample_limiter = \<lparr>rl_Allow = (\<lambda>key n. (Inr (n < 2, 1 - int n, 30 * second), Suc n)), rl_Limit = 2\<rparr>"

definition sample_hit :: request where
  "sample_hit = \<lparr>rq_Method = ''GET'', rq_Path = ''/api/v1/codes'', rq_RawPath = [], rq_Query = [],
     rq_Header = (\<lambda>_. None), rq_Body = [], rq_RemoteAddr = ''1.2.3.4:5'', rq_Params = (\<lambda>_. None),
     rq_Context = Background\<rparr>"

theorem RateLimit_gate_witness:
  "\<exists>W'. RateLimit_mw sample_limiter (\<lambda>r Ww. (Panicked, Ww)) sample_hit (new_rw, 2) =
    (Returned, W', 3) \<and> fails W' 429 ''rate_limited'' \<and> header_of W' ''Retry-After'' = Some ''30''"
proof -
  have "itoa (retry_after (30 * second)) = ''30''" by code_simp
  then show ?thesis
    using RateLimit_gate [OF fresh_new, where L = sample_limiter and w = 2 and r = sample_hit and nxt = "\<lambda>r Ww. (Panicked, Ww)"]
    by (auto simp: sample_limiter_def)
qed

subsection \<open>Errors of the codes service\<close>

text \<open>
  \<open>well_answered statuses W\<close>: the response has one of the statuses of a success, or it is an error
  envelope whose status and code belong together.
\<close>

definition error_statuses :: "(int \<times> string) set" where
  "error_statuses = {(400, ''validation_error''), (400, ''dynamic_unsupported''), (400, ''not_dynamic''),
     (400, ''unsafe_destination''), (400, ''unsupported_type''), (401, ''unauthorized''), (403, ''already_upgraded''),
     (404, ''not_found''), (409, ''email_taken''), (429, ''rate_limited''), (500, ''slug_generation_failed''),
     (500, ''internal_error'')}"

definition well_answered :: "int set \<Rightarrow> rw \<Rightarrow> bool" where
  "well_answered oks W \<longleftrightarrow> status_of W \<in> oks \<or> (\<exists>p \<in> error_statuses. fails W (fst p) (snd p))"

lemma well_answered_error:
  assumes "fresh W" "(s, c) \<in> error_statuses" "is_ascii m"
  shows "well_answered oks (response_Error s c m W)"
proof -
  have "body_allowed s" "is_ascii c"
    using assms(2) by (auto simp: error_statuses_def body_allowed_def is_ascii_def byte_def)
  from response_Error_fails [OF assms(1) this assms(3)] assms(2) show ?thesis
    unfolding well_answered_def by (intro disjI2 bexI [of _ "(s, c)"]) simp_all
qed

lemma well_answered_ok: "fresh W \<Longrightarrow> s \<in> oks \<Longrightarrow> well_answered oks (response_JSON s v W)"
  by (simp add: well_answered_def response_JSON_status)

lemma service_error_listed: "service_error e \<in> error_statuses"
  by (simp add: service_error_def error_statuses_def)

lemma well_answered_service: "fresh W \<Longrightarrow> well_answered oks (writeServiceError e W)"
  using writeServiceError_fails [of W e] service_error_listed [of e] unfolding well_answered_def by blast

lemma well_answered_invalid: "fresh W \<Longrightarrow> is_ascii m \<Longrightarrow> well_answered oks (validation_error m W)"
  unfolding validation_error_def by (rule well_answered_error) (simp_all add: error_statuses_def)

lemma well_answered_refusals:
  assumes "fresh W"
  shows "well_answered oks (unauthenticated W)" "well_answered oks (response_Error 404 ''not_found'' ''code not found'' W)"
  unfolding unauthenticated_def
  by (rule well_answered_error [OF assms]; simp add: error_statuses_def is_ascii_def byte_def)+

lemma with_user_answered:
  assumes "fresh W" "\<And>u. fst (k u) = Returned \<and> well_answered oks (fst (snd (k u)))"
  shows "fst (with_user r (W, w) k) = Returned \<and> well_answered oks (fst (snd (with_user r (W, w) k)))"
  using assms well_answered_refusals(1) [OF assms(1)]
  by (cases "UserIDFromContext (rq_Context r)") (simp_all add: with_user_def)

lemma with_id_answered:
  assumes "fresh W" "\<And>i. fst (k i) = Returned \<and> well_answered oks (fst (snd (k i)))"
  shows "fst (with_id H r (W, w) k) = Returned \<and> well_answered oks (fst (snd (with_id H r (W, w) k)))"
  using assms well_answered_refusals(2) [OF assms(1)]
  by (cases "uuid_Parse (ch_uuid H) (URLParam r ''id'')") (simp_all add: with_id_def)

lemma reply_answered:
  assumes "fresh W" "status \<in> oks"
  shows "fst (reply status json W res) = Returned \<and> well_answered oks (fst (snd (reply status json W res)))"
  using well_answered_ok [OF assms] well_answered_service [OF assms(1)]
  by (cases res; cases "fst res") (simp_all add: reply_def)

lemma invalid_answered:
  assumes "fresh W" "list_all (\<lambda>c. byte c < 128) m"
  shows "well_answered oks (validation_error m W)"
  by (rule well_answered_invalid [OF assms(1)]) (use assms(2) in \<open>simp add: is_ascii_def list_all_iff\<close>)

lemma byte_texts:
  "list_all (\<lambda>c. byte c < 128) ''invalid request body''"
  "list_all (\<lambda>c. byte c < 128) ''type must be one of url/wifi/vcard/email/text/sms, payload is required, label at most 100 chars''"
  "list_all (\<lambda>c. byte c < 128) ''payload must be a JSON object''"
  "list_all (\<lambda>c. byte c < 128) ''limit must be a positive integer''"
  "list_all (\<lambda>c. byte c < 128) ''label at most 100 chars, destination must be non-empty''"
  "list_all (\<lambda>c. byte c < 128) ''email must be valid and password at least 8 characters''"
  "list_all (\<lambda>c. byte c < 128) ''url is required and must be at most 2048 characters''"
  by (simp_all add: byte_def)

lemmas answered_intros = with_user_answered with_id_answered reply_answered invalid_answered

text \<open>
  C26. Every answer of the six endpoints of codes is well formed: it has the status of a success (201 for
  Create, 204 for Delete, 200 for the others), or it is the JSON envelope of an error that the API
  documents, its code with the status that belongs to it. No error of the service ends in a panic.
\<close>

theorem Codes_endpoints_answer:
  assumes "fresh W"
  shows "(h, oks) \<in> {(CodesHandler_Create H, {201}), (CodesHandler_List H, {200}), (CodesHandler_Get H, {200}),
      (CodesHandler_Update H, {200}), (CodesHandler_Delete H, {204}), (CodesHandler_Analytics H, {200})} \<Longrightarrow>
    fst (h r (W, w)) = Returned \<and> well_answered oks (fst (snd (h r (W, w))))"
proof -
  note invalid = byte_texts [THEN invalid_answered [OF assms]]
  note created = reply_answered [OF assms, of 201 "{201}", simplified] and found = reply_answered [OF assms, of 200 "{200}", simplified]
  have create: "fst (CodesHandler_Create H r (W, w)) = Returned \<and> well_answered {201} (fst (snd (CodesHandler_Create H r (W, w))))"
    unfolding CodesHandler_Create_def
    by (rule with_user_answered [OF assms]) (simp add: invalid created split: option.split)
  have listed: "fst (CodesHandler_List H r (W, w)) = Returned \<and> well_answered {200} (fst (snd (CodesHandler_List H r (W, w))))"
    unfolding CodesHandler_List_def
    by (rule with_user_answered [OF assms]) (simp add: invalid found split: option.split)
  have got: "fst (CodesHandler_Get H r (W, w)) = Returned \<and> well_answered {200} (fst (snd (CodesHandler_Get H r (W, w))))"
    unfolding CodesHandler_Get_def by (intro with_user_answered with_id_answered reply_answered) (simp_all add: assms)
  have updated: "fst (CodesHandler_Update H r (W, w)) = Returned \<and> well_answered {200} (fst (snd (CodesHandler_Update H r (W, w))))"
    unfolding CodesHandler_Update_def
    by (rule with_user_answered [OF assms], rule with_id_answered [OF assms]) (simp add: invalid found split: option.split)
  have deleted: "fst (CodesHandler_Delete H r (W, w)) = Returned \<and> well_answered {204} (fst (snd (CodesHandler_Delete H r (W, w))))"
    unfolding CodesHandler_Delete_def
    by (rule with_user_answered [OF assms], rule with_id_answered [OF assms])
      (auto simp: well_answered_service well_answered_ok assms split: option.split prod.split)
  have analysed: "fst (CodesHandler_Analytics H r (W, w)) = Returned \<and> well_answered {200} (fst (snd (CodesHandler_Analytics H r (W, w))))"
    unfolding CodesHandler_Analytics_def by (intro with_user_answered with_id_answered reply_answered) (simp_all add: assms)
  show "(h, oks) \<in> {(CodesHandler_Create H, {201}), (CodesHandler_List H, {200}), (CodesHandler_Get H, {200}),
      (CodesHandler_Update H, {200}), (CodesHandler_Delete H, {204}), (CodesHandler_Analytics H, {200})} \<Longrightarrow>
    fst (h r (W, w)) = Returned \<and> well_answered oks (fst (snd (h r (W, w))))"
    using create listed got updated deleted analysed by auto
qed

theorem Codes_endpoints_answer_witness:
  "let answer = CodesHandler_List (hs_Codes (all_handlers sample_backend sample_config)) sample_hit (new_rw, sample_world)
   in fst answer = Returned \<and> well_answered {200} (fst (snd answer))"
  unfolding Let_def
  by (rule Codes_endpoints_answer [OF fresh_new, where H = "hs_Codes (all_handlers sample_backend sample_config)"]) simp

subsection \<open>Accounts and safety checks\<close>

lemma handler_texts:
  "is_ascii ''could not create guest user''" "is_ascii ''could not upgrade account''"
  "is_ascii ''that email is already in use''" "is_ascii ''this account has already been upgraded''"
  "is_ascii ''could not check url''"
  by (simp_all add: is_ascii_def byte_def)

lemma handler_errors:
  assumes "fresh W"
  shows "well_answered oks (response_Error 500 ''internal_error'' ''could not create guest user'' W)"
    "well_answered oks (response_Error 500 ''internal_error'' ''could not check url'' W)"
    "well_answered oks (upgrade_error e W)"
  using well_answered_error [OF assms] handler_texts by (simp_all add: upgrade_error_def error_statuses_def)

text \<open>The parameters of the hash are ones that the password library accepts.\<close>

lemma HashPassword_returns:
  assumes "argon2_laws A"
  shows "HashPassword A salt password \<noteq> None"
proof -
  have "\<exists>h. ar_IDKey A password s argonTime argonMemory argonThreads argonKeyLen = Some h" for s
    using argon2_laws.derives [OF assms, of argonTime argonThreads password s argonMemory argonKeyLen]
    by (auto simp: argonTime_def argonThreads_def)
  then show ?thesis by (cases salt) (auto simp: HashPassword_def)
qed

lemma Upgrade_returns:
  assumes "argon2_laws (as_argon2 S)"
  shows "UpgradeToAccount S u em pw w \<noteq> (None, w')"
proof
  assume "UpgradeToAccount S u em pw w = (None, w')"
  then obtain salt where "HashPassword (as_argon2 S) salt pw = None"
    by (auto simp: UpgradeToAccount_def split: prod.splits sum.splits option.splits if_splits)
  then show False using HashPassword_returns [OF assms] by blast
qed

text \<open>
  C27. The endpoints of accounts and of the safety check answer every request with the status of their
  success or an error envelope of the API. None of them panics: hashing is the one step that could, and the
  parameters that the code hashes with are ones that the library accepts.
\<close>

theorem Auth_endpoints_answer:
  assumes "backend V data clock bears" and "fresh W"
  shows "\<forall>(h, ok) \<in> {(AuthHandler_Guest (hs_Auth (all_handlers V cfg)), 201), (AuthHandler_Upgrade (hs_Auth (all_handlers V cfg)), 200),
      (SafetyHandler_Check (fst (hs_Safety (all_handlers V cfg))) (snd (hs_Safety (all_handlers V cfg))), 200)}.
    fst (h r (W, w)) = Returned \<and> well_answered {ok} (fst (snd (h r (W, w))))"
proof -
  let ?H = "hs_Auth (all_handlers V cfg)"
  let ?X = "fst (hs_Safety (all_handlers V cfg))" and ?check = "snd (hs_Safety (all_handlers V cfg))"
  note invalid = byte_texts [THEN invalid_answered [OF assms(2)]]
  note errors = handler_errors [OF assms(2)] well_answered_refusals(1) [OF assms(2)] and ok = well_answered_ok [OF assms(2)]
  have guest: "fst (AuthHandler_Guest ?H r (W, w)) = Returned \<and> well_answered {201} (fst (snd (AuthHandler_Guest ?H r (W, w))))"
    by (simp add: AuthHandler_Guest_def errors ok split: prod.split sum.split)
  have check: "fst (SafetyHandler_Check ?X ?check r (W, w)) = Returned \<and>
      well_answered {200} (fst (snd (SafetyHandler_Check ?X ?check r (W, w))))"
    by (simp add: SafetyHandler_Check_def errors ok invalid split: prod.split sum.split option.split)
  have "argon2_laws (as_argon2 (auth_svc V cfg))" using assms(1) by (simp add: auth_svc_def backend_def)
  from Upgrade_returns [OF this] have "aa_UpgradeToAccount (ah_svc ?H) u em pw w \<noteq> (None, w')" for u em pw w'
    by (simp add: all_handlers_def auth_api_of_def)
  then have upgrade: "fst (AuthHandler_Upgrade ?H r (W, w)) = Returned \<and> well_answered {200} (fst (snd (AuthHandler_Upgrade ?H r (W, w))))"
    by (auto simp: AuthHandler_Upgrade_def errors ok invalid split: prod.split sum.split option.split)
  from guest check upgrade show ?thesis by simp
qed

theorem Auth_endpoints_answer_witness:
  "let answer = AuthHandler_Upgrade (hs_Auth (all_handlers sample_backend sample_config)) sample_hit (new_rw, sample_world)
   in fst answer = Returned \<and> well_answered {200} (fst (snd answer))"
  using Auth_endpoints_answer [OF sample_backend_ok fresh_new, of sample_config sample_hit sample_world]
  unfolding Let_def by simp

subsection \<open>QR images\<close>

lemma write_png_answer:
  assumes "fresh W"
  shows "status_of (write_png png W) = 200 \<and> rw_Body (write_png png W) = png \<and>
    header_of (write_png png W) ''Content-Type'' = Some ''image/png'' \<and>
    header_of (write_png png W) ''Content-Length'' = Some (itoa (int (length png)))"
proof -
  have "canonical_key ''Content-Length'' = ''Content-Length''" "canonical_key ''Cache-Control'' = ''Cache-Control''"
    by code_simp+
  with assms show ?thesis by (simp add: write_png_def fresh_def status_of_def header_of_def body_allowed_def)
qed

lemma query_size_bounds: "query_size r = Some sz \<Longrightarrow> MinSize \<le> sz \<and> sz \<le> MaxSize"
  using ClampSize_bounds
  by (auto simp: query_size_def Let_def DefaultSize_def MinSize_def MaxSize_def split: if_splits)

lemma query_ecc_valid: "query_ecc r = Some ecc \<Longrightarrow> ValidECC ecc"
  by (auto simp: query_ecc_def Let_def DefaultECC_def ValidECC_def split: if_splits)

text \<open>
  \<open>rendered encode q r png\<close>: the image is what the renderer makes of the URL in the payload, in a size
  and at a level that the service supports.
\<close>

definition rendered :: "qrcode \<Rightarrow> qr_request \<Rightarrow> request \<Rightarrow> string \<Rightarrow> bool" where
  "rendered encode q r png \<longleftrightarrow>
     (\<exists>u sz ecc. qq_Type q = ''url'' \<and> extractURL (qq_Payload q) = Some u \<and> u \<noteq> [] \<and>
        query_size r = Some sz \<and> MinSize \<le> sz \<and> sz \<le> MaxSize \<and> query_ecc r = Some ecc \<and> ValidECC ecc \<and>
        encode u (recoveryLevel ecc) sz = Inr png)"

lemma qr_texts:
  "list_all (\<lambda>c. byte c < 128) ''type must be one of url/wifi/vcard/email/text/sms and payload is required''"
  "list_all (\<lambda>c. byte c < 128) ''size must be an integer''"
  "list_all (\<lambda>c. byte c < 128) ''ecc must be one of low/medium/high/highest''"
  "list_all (\<lambda>c. byte c < 128) ''a url code requires a non-empty payload.url''"
  "list_all (\<lambda>c. byte c < 128) ''could not build qr content''"
  by (simp_all add: byte_def)

lemma qr_errors:
  assumes "fresh W"
  shows "well_answered {} (response_Error 400 ''unsupported_type'' ''qr generation currently supports only url codes'' W)"
    "well_answered {} (response_Error 500 ''internal_error'' ''could not render qr image'' W)"
  by (rule well_answered_error [OF assms]; simp add: error_statuses_def is_ascii_def byte_def)+

text \<open>
  C30. The QR endpoint changes nothing. It answers with the image that the renderer makes of the URL of
  the payload, whose size is between 64 and 2048 pixels whatever was asked for, or with an error
  envelope.
\<close>

theorem QR_answer:
  assumes "fresh W" and "QRHandler_Generate V encode r (W, w) = (e, W', w')"
  shows "e = Returned \<and> w' = w \<and>
    (well_answered {} W' \<or>
     (\<exists>q. decode_qr r = Some q \<and> V (qr_tags q) \<and> IsJSONObject (qq_Payload q) \<and> rendered encode q r (rw_Body W') \<and>
        status_of W' = 200 \<and> header_of W' ''Content-Type'' = Some ''image/png'' \<and>
        header_of W' ''Content-Length'' = Some (itoa (int (length (rw_Body W'))))))"
proof -
  note invalid = byte_texts [THEN invalid_answered [OF assms(1)]] qr_texts [THEN invalid_answered [OF assms(1)]]
  let ?done = "well_answered {} W' \<or>
     (\<exists>q. decode_qr r = Some q \<and> V (qr_tags q) \<and> IsJSONObject (qq_Payload q) \<and> rendered encode q r (rw_Body W') \<and>
        status_of W' = 200 \<and> header_of W' ''Content-Type'' = Some ''image/png'' \<and>
        header_of W' ''Content-Length'' = Some (itoa (int (length (rw_Body W')))))"
  have world: "e = Returned" "w' = w" using assms(2) by (simp_all add: QRHandler_Generate_def)
  have ?done
  proof (cases "\<exists>q sz ecc u png. decode_qr r = Some q \<and> V (qr_tags q) \<and> IsJSONObject (qq_Payload q) \<and>
      query_size r = Some sz \<and> query_ecc r = Some ecc \<and> Content (qq_Type q) (qq_Payload q) = Inr u \<and>
      PNG encode u sz ecc = Inr png")
    case True
    then obtain q sz ecc u png where q: "decode_qr r = Some q" "V (qr_tags q)" "IsJSONObject (qq_Payload q)"
      "query_size r = Some sz" "query_ecc r = Some ecc" "Content (qq_Type q) (qq_Payload q) = Inr u"
      "PNG encode u sz ecc = Inr png" by blast
    have W': "W' = write_png png W" using assms(2) q by (simp add: QRHandler_Generate_def)
    have "encode u (recoveryLevel ecc) sz = Inr png"
      using q(7) PNG_of_content [OF q(6)] by (simp split: sum.splits)
    moreover have "qq_Type q = ''url''" "u \<noteq> []" using Content_nonempty [OF q(6)] by simp_all
    ultimately have "rendered encode q r png"
      using q query_size_bounds query_ecc_valid by (auto simp: rendered_def Content_url)
    with q write_png_answer [OF assms(1)] show ?thesis unfolding W' by auto
  next
    case False
    then have "well_answered {} W'"
      using assms(2) by (auto simp: QRHandler_Generate_def invalid qr_errors assms(1)
          split: option.splits sum.splits if_splits)
    then show ?thesis ..
  qed
  with world show ?thesis by simp
qed

definition sample_qr_body :: string where
  "sample_qr_body = CHR 0x7B # CHR 0x22 # ''type'' @ [CHR 0x22, CHR '':'', CHR 0x22] @ ''url'' @ [CHR 0x22, CHR '','', CHR 0x22] @
     ''payload'' @ [CHR 0x22, CHR '':''] @ ci_Payload sample_create @ [CHR 0x7D]"

definition sample_qr :: request where
  "sample_qr = \<lparr>rq_Method = ''POST'', rq_Path = ''/api/v1/qr'', rq_RawPath = [], rq_Query = [],
     rq_Header = (\<lambda>_. None), rq_Body = sample_qr_body, rq_RemoteAddr = ''1.2.3.4:5'', rq_Params = (\<lambda>_. None),
     rq_Context = Background\<rparr>"

lemma sample_qr_decoded: "decode_qr sample_qr = Some \<lparr>qq_Type = ''url'', qq_Payload = ci_Payload sample_create\<rparr>"
  by code_simp

lemma sample_qr_image:
  "QRHandler_Generate sample_validator sample_qrcode sample_qr Ww = (Returned, write_png ''png https://c.d'' (fst Ww), snd Ww)"
proof -
  have "sample_validator (qr_tags \<lparr>qq_Type = ''url'', qq_Payload = ci_Payload sample_create\<rparr>)"
    "IsJSONObject (ci_Payload sample_create)" "query_size sample_qr = Some 256" "query_ecc sample_qr = Some ''medium''"
    by code_simp+
  moreover have "Content ''url'' (ci_Payload sample_create) = Inr ''https://c.d''"
    using sample_url by (simp add: Content_url)
  ultimately show ?thesis
    by (cases Ww) (simp add: QRHandler_Generate_def sample_qr_decoded PNG_def sample_qrcode_def)
qed

lemma refused_status: "well_answered {} W \<Longrightarrow> status_of W \<noteq> 200"
  by (auto simp: well_answered_def error_statuses_def fails_def answers_def)

theorem QR_answer_witness:
  "\<exists>q W'. QRHandler_Generate sample_validator sample_qrcode sample_qr (new_rw, sample_world) = (Returned, W', sample_world) \<and>
     rendered sample_qrcode q sample_qr ''png https://c.d''"
proof -
  let ?W = "write_png ''png https://c.d'' new_rw"
  note run = sample_qr_image [of "(new_rw, sample_world)", simplified]
  have "status_of ?W = 200" "rw_Body ?W = ''png https://c.d''" using write_png_answer [OF fresh_new] by simp_all
  with QR_answer [OF fresh_new run] refused_status [of ?W] run show ?thesis by auto
qed

end
