(* ===== verification/Startup.thy ===== *)
theory Startup
  imports Sample Frames
begin

text \<open>
  \<open>cmd/api/main.go\<close> from the start of the process to its end: when a server is built, which one it is, and
  what the process exits with.
\<close>

subsection \<open>The connections\<close>

text \<open>The tables without the number of the next statement.\<close>

definition tables_of :: "db \<Rightarrow> db" where
  "tables_of d = d\<lparr>pg_tick := 0\<rparr>"

lemma ping_answers: "fst (ping_db E d) = None \<longleftrightarrow> pg_out E (pg_tick d) = Done"
  by (simp add: ping_db_def run_stmt_def Let_def split: pg_outcome.split)

lemma ping_tables: "tables_of (snd (ping_db E d)) = tables_of d"
  by (rule codes_repo_reads(7)) (simp add: table_frame_def tables_of_def)

lemma pool_result:
  assumes "NewPostgresPool new E url d = (x, d')"
  shows "(x = None \<longleftrightarrow> new url = None \<and> pg_out E (pg_tick d) = Done) \<and> tables_of d' = tables_of d"
  using assms ping_answers [of E d] ping_tables [of E d]
  by (auto simp: NewPostgresPool_def split: option.splits prod.splits)

lemma client_result: "fst (NewRedisClient R s) = None \<longleftrightarrow> fst (rd_Ping R s) = None"
  by (simp add: NewRedisClient_def split: prod.split option.split)

subsection \<open>The start\<close>

text \<open>What a start needs: a configuration that loads, a pool for its database, and two answers.\<close>

definition can_start :: "'r env \<Rightarrow> (string \<Rightarrow> string) \<Rightarrow> 'r world \<Rightarrow> bool" where
  "can_start V env w \<longleftrightarrow>
     (case Load env of Inl e \<Rightarrow> False | Inr cfg \<Rightarrow> ev_pool V (cfg_DatabaseURL cfg) = None) \<and>
     pg_out (ev_pg V) (pg_tick (wd_db w)) = Done \<and> fst (rd_Ping (ev_redis V) (wd_redis w)) = None"

lemma run_start_result:
  assumes "run_start V env w = (r, w')"
  shows "(case r of Inl e \<Rightarrow> \<not> can_start V env w
      | Inr srv \<Rightarrow> can_start V env w \<and> (\<exists>cfg. Load env = Inr cfg \<and> srv = build_server V cfg)) \<and>
    tables_of (wd_db w') = tables_of (wd_db w)"
proof (cases "Load env")
  case (Inl e)
  with assms show ?thesis by (auto simp: run_start_def can_start_def)
next
  case (Inr cfg)
  obtain x d where x: "NewPostgresPool (ev_pool V) (ev_pg V) (cfg_DatabaseURL cfg) (wd_db w) = (x, d)" by (rule prod.exhaust)
  note pool = pool_result [OF x]
  obtain y s where y: "NewRedisClient (ev_redis V) (wd_redis w) = (y, s)" by (rule prod.exhaust)
  have client: "y = None \<longleftrightarrow> fst (rd_Ping (ev_redis V) (wd_redis w)) = None"
    using client_result [of "ev_redis V" "wd_redis w"] y by simp
  show ?thesis
  proof (cases x)
    case (Some e)
    with assms Inr x pool show ?thesis by (auto simp: run_start_def can_start_def on_db_def)
  next
    case None
    then have "run_start V env w = (case y of
        Some e \<Rightarrow> (Inl (Wrap ''connecting to redis'' e), w\<lparr>wd_db := d, wd_redis := s\<rparr>)
      | None \<Rightarrow> (Inr (build_server V cfg), w\<lparr>wd_db := d, wd_redis := s\<rparr>))"
      using Inr x y by (simp add: run_start_def on_db_def on_redis_def split: option.split)
    with assms Inr None pool client show ?thesis by (cases y) (auto simp: can_start_def)
  qed
qed

text \<open>
  C28. The process serves exactly if its configuration loads, the pool can be made, and Postgres and Redis
  answer the pings; the server is then the one of the configuration. Otherwise it exits with status 1
  before it serves anything. Starting never changes a table; and once serving, the status is 0 exactly
  after the server was closed, or shut down cleanly after a signal.
\<close>

theorem Process_startup:
  "let start = run_start V env w; exit = run_main V serving closing env w in
   tables_of (wd_db (snd start)) = tables_of (wd_db w) \<and>
   (if can_start V env w then
      \<exists>cfg. Load env = Inr cfg \<and> fst start = Inr (build_server V cfg) \<and>
        (exit_status (fst exit) = 0 \<longleftrightarrow>
           (case serving (build_server V cfg) (snd start) of
              (Some None, _) \<Rightarrow> True
            | (Some (Some e), _) \<Rightarrow> errors_is e ErrServerClosed
            | (None, w2) \<Rightarrow> fst (closing (build_server V cfg) w2) = None))
    else exit_status (fst exit) = 1 \<and> snd exit = snd start)"
proof -
  obtain r w' where run: "run_start V env w = (r, w')" by (rule prod.exhaust)
  note res = run_start_result [OF run]
  show ?thesis
  proof (cases r)
    case (Inl e)
    with res run show ?thesis by (simp add: run_main_def exit_status_def)
  next
    case (Inr srv)
    with res obtain cfg where cfg: "can_start V env w" "Load env = Inr cfg" "srv = build_server V cfg"
      "tables_of (wd_db w') = tables_of (wd_db w)" by auto
    obtain q w2 where q: "serving srv w' = (q, w2)" by (rule prod.exhaust)
    obtain z w3 where z: "closing srv w2 = (z, w3)" by (rule prod.exhaust)
    have "exit_status (fst (run_main V serving closing env w)) = 0 \<longleftrightarrow>
        (case q of Some None \<Rightarrow> True | Some (Some e) \<Rightarrow> errors_is e ErrServerClosed | None \<Rightarrow> z = None)"
      using run Inr q z
      by (simp add: run_main_def exit_status_def server_Start_def server_Shutdown_def split: option.split)
    with cfg run Inr q z show ?thesis by (simp split: option.split)
  qed
qed

theorem Process_startup_witness:
  "\<exists>cfg. Load (sample_config_env ''24'') = Inr cfg \<and>
     fst (run_start sample_backend (sample_config_env ''24'') sample_world) = Inr (build_server sample_backend cfg)"
proof -
  obtain cfg where cfg: "Load (sample_config_env ''24'') = Inr cfg" using Load_sample by blast
  have "fst (rd_Ping (mem_redis sample_mem_env) sample_mem) = None" by code_simp
  moreover have "pg_out sample_env (pg_tick sample_db) = Done" by code_simp
  ultimately have "can_start sample_backend (sample_config_env ''24'') sample_world" using cfg by (simp add: can_start_def)
  with Process_startup [of sample_backend "sample_config_env ''24''" sample_world "\<lambda>s w. (Some None, w)" "\<lambda>s w. (None, w)"]
  show ?thesis by (simp add: Let_def) blast
qed

end
