(* ===== verification/Spec2Isabelle.thy ===== *)
theory Spec2Isabelle
  imports CodesProperties ServerProperties RedirectProperties SafeRedirects StaleEntries Lifecycle Interleaving
    AuthProperties HttpProperties CacheProperties Startup
begin

text \<open>
  A model of the QRSafe backend, the Go program under \<open>backend/\<close>: a server that keeps QR codes of guests
  and accounts, redirects the slugs of dynamic codes, and classifies URLs. All of its packages are
  modelled, from the SQL statements up to the process; the properties are claims C1, C2, ... in the text
  before the theorem that states each.

  The parts and how they interact. A request comes in at the router of \<open>internal/http/server.go\<close>, passes
  the middlewares (\<open>internal/http/middleware\<close>: recovery, log, CORS, the rate limit, the bearer token)
  and reaches an endpoint (\<open>internal/http/handlers\<close>). The endpoint decodes and validates the body and
  makes one call of a service: \<open>internal/codes/service.go\<close> (codes, their destinations, their scans),
  \<open>internal/auth/service.go\<close> (guests, upgrades, logins), \<open>internal/safety/service.go\<close> (verdicts on URLs),
  \<open>internal/codes/redirect.go\<close> (slugs to destinations). The services keep their state in Postgres
  (\<open>internal/users/repository.go\<close>, \<open>internal/codes/repository.go\<close>, on the tables of \<open>migrations\<close>) and in
  Redis (cached targets, cached verdicts, counters of requests). \<open>cmd/api/main.go\<close> builds all this.

  The theories, from the bottom:

  \<^item> \<open>Prelude\<close>: strings as lists of bytes, UUIDs as words of 128 bits, instants in nanoseconds, Go's error
    values with \<open>errors.Is\<close>, and the type of an operation that may fail (\<open>act\<close>, \<open>eact\<close>).
  \<^item> \<open>GoStrings\<close>, \<open>GoJson\<close>, \<open>GoJsonEncode\<close>, \<open>GoTime\<close>, \<open>GoCrypto\<close>, \<open>GoNet\<close>, \<open>GoHttp\<close>: what the program uses of
    Go's standard library, as functions. The JSON parser recurses over fuel; \<open>json_fuel\<close>, twice the length of
    the text and two, is proved enough (\<open>parse_value_fuel\<close>: running out of fuel is a result of its own, and
    it never occurs), and every text that the encoder writes is read back (\<open>json_round_trip\<close>).
  \<^item> \<open>Database\<close>: the tables as lists of rows, the constraints of the migrations (\<open>db_ok\<close>), and the execution
    of one statement. Postgres is the parameter \<open>pg_env\<close>: for the statement with number \<open>n\<close> it says whether
    it is done, lost before it was executed, or executed with its answer lost, and which time and random
    id it uses. \<open>UsersRepository\<close>, \<open>CodesRepository\<close>: the SQL statements, and the methods with their error
    mapping; \<open>CodesRepository\<close> has the transaction of \<open>CreateDynamic\<close>. \<open>UsersLaws\<close>: what the methods of the
    users repository do to the map from ids to users.
  \<^item> \<open>Redis\<close>: the five commands the program uses, as a parameter with the contract \<open>redis_server\<close>: an
    entry is read until its deadline or its deletion and never after, and any command may fail before or after it
    took effect. \<open>RedirectCache\<close>, \<open>SafetyService\<close>, \<open>RateLimit\<close>: the three users of Redis.
  \<^item> \<open>CodesModel\<close>, \<open>CodesService\<close>, \<open>CodesLaws\<close>, \<open>RedirectService\<close>; \<open>SafetyModel\<close>, \<open>SafetyChecker\<close>; \<open>Uuid\<close>, \<open>Jwt\<close>,
    \<open>Password\<close>, \<open>AuthService\<close>; \<open>Qr\<close>; \<open>Config\<close>: the packages of the same names, one definition per function of
    the code. Each service works on any state and any implementation of its parts, which are records of
    operations as the interfaces of the code are; the laws it relies on are a locale
    (\<open>redirect_cache\<close>, \<open>verdict_cache\<close>, \<open>codes_parts\<close>, \<open>codes_pages\<close>, \<open>redirect_parts\<close>, \<open>auth_parts\<close>), in which
    the lemmas about its operations are proved.
  \<^item> \<open>Response\<close>, \<open>Validator\<close>, \<open>Middleware\<close>, \<open>Handlers\<close>, \<open>CodesHandler\<close>, \<open>Server\<close>: the HTTP layer. A handler is a
    function of the request, the response so far and the state, and ends by returning or by a panic.
  \<^item> \<open>World\<close>: the state of the whole program (tables, Redis, reads of the random source, clock, log, goroutines
    that are yet to record a scan), the services that \<open>main.go\<close> builds on it, the start and the end of the
    process. \<open>Backend\<close>: these services meet the contracts (the sublocales of \<open>backend\<close> and \<open>app\<close>).
    \<open>Sample\<close>: servers and libraries that meet all hypotheses, for the examples.
  \<^item> \<open>Frames\<close>, \<open>Calls\<close>, \<open>HttpCalls\<close>: what a component leaves alone; the abstract program of calls, at most one
    per request on behalf of one user (\<open>perform\<close>); which call a request asks for, by its method, path, query, body and token (\<open>asks\<close>), and
    under which address it is counted (\<open>counts\<close>), independently of the table of routes; and the refinement
    of the calls by the server.
    \<open>Coherence\<close>: the cached targets are the current ones through all calls.

  What the properties show:

  \<^item> \<open>ServerProperties\<close>: every request returns and refines one call; the system of requests, scan goroutines
    and time as a transition relation (\<open>system_step\<close>, \<open>system_run\<close>), with the integrity of the tables and the
    isolation of the users from each other as invariants of all runs.
  \<^item> \<open>SafeDestinations\<close>: no slug ever leads to a destination that the checker calls malicious.
    \<open>RedirectProperties\<close>: the redirect leads to what the tables say, as long as the cache is current.
    \<open>SlugCourse\<close>: one slug while its owner makes no request. \<open>Lifecycle\<close>: what a visitor of a new, edited or deleted
    code sees, and under which conditions: the deletion of its key does not fail, and the change was made while no
    request was under way. \<open>Created_redirects\<close> and \<open>Run_current\<close> are about requests that are served one after
    the other (\<open>system_run\<close>), the claims about \<open>traffic_run\<close> about requests at the same time.
  \<^item> \<open>Programs\<close>, \<open>Traffic\<close>, \<open>Actions\<close>: requests at the same time. The services again as programs of atomic
    actions, one statement or transaction of Postgres or one command of Redis each (\<open>prog\<close>, \<open>call_prog\<close>); run
    alone they are the calls (\<open>call_prog_perform\<close>). \<open>traffic_step\<close> lets the actions of all requests under way
    run in any order, and the server that serves one request after the other is a special case of it
    (\<open>system_in_traffic\<close>). What every action keeps, with what its program knows by then, all traffic keeps
    (\<open>traffic_keeps\<close>, \<open>steady_actions\<close>).
  \<^item> \<open>Isolation\<close>: the integrity of the tables and the isolation of the users, in all traffic.
    \<open>SafeRedirects\<close>: no visitor is sent to a malicious destination, in all traffic. \<open>Interleaving\<close>: what does
    not survive it, a redirect that races with an edit leaves a stale entry in the cache.
    \<open>StaleEntries\<close>: a stale entry is gone after an hour.
  \<^item> \<open>CodesProperties\<close>: the functional behaviour of the codes service on every outcome of its parts, and
    pagination. \<open>AuthProperties\<close>: sessions, upgrades, logins, passwords, the middleware \<open>Auth\<close>.
    \<open>HttpProperties\<close>: answers and errors of the endpoints. \<open>CacheProperties\<close>: what is written is read back, until
    it expires. \<open>Startup\<close>: when the process serves, and its exit status. \<open>Config\<close>, \<open>RateLimit\<close>,
    \<open>SafetyChecker\<close> and \<open>CodesRepository\<close> hold the properties of these components alone.

  Parameters and hypotheses. Code outside the repository is a parameter with documented behaviour as
  hypotheses: Postgres (\<open>pg_env\<close>, \<open>pg_ok\<close>), Redis (\<open>redis_server\<close>), \<open>google/uuid\<close> (\<open>uuid_laws\<close>), \<open>golang-jwt\<close>
  (\<open>jwt_laws\<close>), argon2 (\<open>argon2_laws\<close>), chi (\<open>chi_laws\<close>: a request is dispatched to an endpoint that matches it,
  through its middlewares), cors, the validator, the QR encoder, \<open>strings.ToLower\<close> beyond ASCII. Nothing is
  assumed about the uniqueness of random slugs and ids, about SHA-256 (where distinct keys matter, the
  property says so), or about the availability of Postgres and Redis unless the property says so.

  Bounds. Machine integers are modelled at their width where they can overflow: \<open>time.Duration\<close> in the
  configuration (\<open>int64\<close>), the lengths and parameters of argon2, the counters of the limiter. Otherwise
  integers are unbounded: sizes of bodies and tables stay far below \<open>2 ^ 63\<close>. A client that follows cursors
  needs at most one request more than it has codes (\<open>fetch_all\<close>), which is the fuel of its loop.

  Not modelled: log lines (no other behaviour depends on them), contexts and timeouts (a cancelled
  statement or command is one that fails), the listener and connections of \<open>net/http\<close> (what serving and
  shutting down return are parameters), signals and \<open>.env\<close> files beyond the environment they lead to, the
  bound on the number of query parameters, and the Flutter client under \<open>mobile/\<close>. In \<open>Traffic\<close> the calls
  that write neither to the tables of codes nor to a cache (guests, upgrades, reads) are one action
  each, and so is counting a request; a statement of Postgres is atomic. Times are in UTC. Four details are
  simpler than in the libraries: a command that go-redis repeats after an error is one command, so a pipeline of
  the limiter that is repeated counts once; the seconds of \<open>Retry-After\<close> are rounded up exactly and not on
  \<open>float64\<close>, which is the same for the windows of a minute; the \<open>Location\<close> header is the value that the code
  sets, before \<open>net/http\<close> trims it and replaces line breaks on the wire; and a cursor is compared in
  nanoseconds, where the driver sends microseconds, which differs only for cursors that the server did not issue.
\<close>

end
